(* ===== verification/Go_Prelude.thy ===== *)
theory Go_Prelude
  imports Main "HOL-Library.AList" "HOL-Library.Multiset" "HOL-Library.Word" "HOL-Library.List_Lexorder" "HOL-Library.Char_ord" "HOL-Library.Product_Lexorder" "HOL-Library.Monad_Syntax"
begin

text \<open>
  The part of Go that every component of the development shares.

  \<^item> A Go map is an association list with distinct keys (\<open>gomap\<close>): \<open>mput\<close> is an
    assignment \<open>m[k] = v\<close>, \<open>mdel\<close> is \<open>delete\<close>, \<open>map_of\<close> the two-valued read and \<open>mgetd\<close> the
    one-valued read that yields the zero value for a missing key. A \<open>range\<close> loop over a map
    visits the entries in the order of the list. Go leaves that order open; the theorems are
    stated on \<open>map_of\<close>, on sets or on sorted lists, so they do not depend on it.
  \<^item> A Go string is a list of bytes (\<open>char\<close>), compared lexicographically.
  \<^item> Loops that may fail are \<open>efold\<close> (an error value stops the loop) and \<open>ofold\<close> (a panic
    stops it).
  \<^item> \<open>strconv.Itoa\<close>, \<open>strconv.Atoi\<close> (64-bit range) and \<open>strings.Join\<close>, \<open>TrimSpace\<close>, \<open>ToLower\<close>,
    \<open>Trim\<close> on ASCII text.
\<close>

named_theorems gomap_simps \<open>reads of updated maps\<close>
named_theorems sorted_set_simps \<open>element sets of the sorted key lists\<close>

subsection \<open>Go maps\<close>

type_synonym ('k, 'v) gomap = "('k \<times> 'v) list"

definition mput :: "'k \<Rightarrow> 'v \<Rightarrow> ('k, 'v) gomap \<Rightarrow> ('k, 'v) gomap" where
  "mput k v m = AList.update k v m"

definition mdel :: "'k \<Rightarrow> ('k, 'v) gomap \<Rightarrow> ('k, 'v) gomap" where
  "mdel k m = AList.delete k m"

definition mgetd :: "'v \<Rightarrow> ('k, 'v) gomap \<Rightarrow> 'k \<Rightarrow> 'v" where
  "mgetd zero m k = (case map_of m k of None \<Rightarrow> zero | Some v \<Rightarrow> v)"

definition mkeys :: "('k, 'v) gomap \<Rightarrow> 'k list" where
  "mkeys m = map fst m"

abbreviation mwf :: "('k, 'v) gomap \<Rightarrow> bool" where
  "mwf m \<equiv> distinct (map fst m)"

definition keyset :: "('k, 'v) gomap \<Rightarrow> 'k set" where
  "keyset m = set (map fst m)"

declare map_of_eq_Some_iff [simp del]

lemma map_of_mput [simp, gomap_simps]: "map_of (mput k v m) = (map_of m)(k \<mapsto> v)"
  by (simp add: mput_def update_conv')

lemma map_of_mdel [simp, gomap_simps]: "map_of (mdel k m) = (map_of m)(k := None)"
  by (simp add: mdel_def delete_conv')

lemma mwf_mput [simp, intro]: "mwf m \<Longrightarrow> mwf (mput k v m)"
  by (simp add: mput_def distinct_update)

lemma mwf_mdel [simp, intro]: "mwf m \<Longrightarrow> mwf (mdel k m)"
  by (simp add: mdel_def distinct_delete)

lemma keyset_Nil [simp]: "keyset [] = {}"
  by (simp add: keyset_def)

lemma keyset_Cons [simp]: "keyset ((k, v) # m) = insert k (keyset m)"
  by (simp add: keyset_def)

lemma keyset_mput [simp]: "keyset (mput k v m) = insert k (keyset m)"
  by (simp add: keyset_def mput_def dom_update)

lemma finite_keyset [simp]: "finite (keyset m)"
  by (simp add: keyset_def)

lemma set_mkeys [simp]: "set (mkeys m) = keyset m"
  by (simp add: mkeys_def keyset_def)

lemma distinct_mkeys [simp]: "distinct (mkeys m) = mwf m"
  by (simp add: mkeys_def)

lemma keyset_iff: "k \<in> keyset m \<longleftrightarrow> (\<exists>v. map_of m k = Some v)"
  by (induction m) auto

lemma map_of_keyset [dest]: "map_of m k = Some v \<Longrightarrow> k \<in> keyset m"
  by (auto simp: keyset_iff)

lemma keysetE [elim]: "k \<in> keyset m \<Longrightarrow> (\<And>v. map_of m k = Some v \<Longrightarrow> thesis) \<Longrightarrow> thesis"
  by (auto simp: keyset_iff)

lemma map_of_None_keyset: "map_of m k = None \<longleftrightarrow> k \<notin> keyset m"
  by (auto simp: keyset_iff)

lemma keyset_mem: "(k, v) \<in> set m \<Longrightarrow> k \<in> keyset m"
  by (force simp: keyset_def)

lemma map_of_mem_iff: "mwf m \<Longrightarrow> (k, v) \<in> set m \<longleftrightarrow> map_of m k = Some v"
  by (simp add: map_of_eq_Some_iff)

lemma card_keyset: "mwf m \<Longrightarrow> card (keyset m) = length m"
  by (metis keyset_def distinct_card length_map)

lemma mput_nonempty [simp]: "mput k v m \<noteq> []"
  by (cases m) (auto simp: mput_def)

lemma mgetd_Some [simp]: "map_of m k = Some v \<Longrightarrow> mgetd z m k = v"
  by (simp add: mgetd_def)

lemma mgetd_None [simp]: "map_of m k = None \<Longrightarrow> mgetd z m k = z"
  by (simp add: mgetd_def)

lemma mgetd_mput [simp, gomap_simps]:
  "mgetd z (mput k v m) k' = (if k' = k then v else mgetd z m k')"
  by (simp add: mgetd_def)

lemma mgetd_Nil [simp]: "mgetd z [] k = z"
  by (simp add: mgetd_def)

lemma mgetd_eq_Some: "k \<in> keyset m \<Longrightarrow> map_of m k = Some (mgetd z m k)"
  by (auto simp: keyset_iff)

subsection \<open>Sorting\<close>

lemma sorted_distinct_unique:
  "sorted xs \<Longrightarrow> distinct xs \<Longrightarrow> sorted ys \<Longrightarrow> distinct ys \<Longrightarrow> set xs = set ys
    \<Longrightarrow> xs = (ys :: 'a::linorder list)"
  by (metis sorted_list_of_set.idem_if_sorted_distinct)

lemma sort_eq_of_set_eq:
  "distinct xs \<Longrightarrow> distinct ys \<Longrightarrow> set xs = set ys \<Longrightarrow> sort xs = sort (ys :: 'a::linorder list)"
  by (rule sorted_distinct_unique) auto

subsection \<open>Loops that stop early\<close>

primrec efold :: "('a \<Rightarrow> 's \<Rightarrow> 'e + 's) \<Rightarrow> 'a list \<Rightarrow> 's \<Rightarrow> 'e + 's" where
  "efold f [] s = Inr s"
| "efold f (x # xs) s = (case f x s of Inl e \<Rightarrow> Inl e | Inr s' \<Rightarrow> efold f xs s')"

primrec ofold :: "('a \<Rightarrow> 's \<Rightarrow> 's option) \<Rightarrow> 'a list \<Rightarrow> 's \<Rightarrow> 's option" where
  "ofold f [] s = Some s"
| "ofold f (x # xs) s = (case f x s of None \<Rightarrow> None | Some s' \<Rightarrow> ofold f xs s')"

lemma fold_invariant:
  assumes "P s" and "\<And>x s. x \<in> set xs \<Longrightarrow> P s \<Longrightarrow> P (f x s)"
  shows "P (fold f xs s)"
  using assms by (induction xs arbitrary: s) auto

lemma efold_invariant:
  assumes "efold f xs s = Inr s'" and "P s"
    and "\<And>x s s'. x \<in> set xs \<Longrightarrow> P s \<Longrightarrow> f x s = Inr s' \<Longrightarrow> P s'"
  shows "P s'"
  using assms
proof (induction xs arbitrary: s)
  case (Cons x xs)
  then obtain s1 where s1: "f x s = Inr s1" "efold f xs s1 = Inr s'"
    by (auto split: sum.splits)
  with Cons.prems have "P s1" by (meson list.set_intros(1))
  with s1 Cons show ?case by (meson list.set_intros(2))
qed simp

lemma ofold_total:
  assumes "P s" and "\<And>x s. x \<in> set xs \<Longrightarrow> P s \<Longrightarrow> \<exists>s'. f x s = Some s' \<and> P s'"
  shows "\<exists>s'. ofold f xs s = Some s' \<and> P s'"
  using assms
proof (induction xs arbitrary: s)
  case (Cons x xs)
  then obtain s1 where "f x s = Some s1" "P s1" by (meson list.set_intros(1))
  with Cons show ?case by simp
qed simp

lemma ofold_collect:
  assumes "P E s" and "\<And>x s E. x \<in> set xs \<Longrightarrow> P E s \<Longrightarrow> \<exists>s'. f x s = Some s' \<and> P (E \<union> F x) s'"
  shows "\<exists>s'. ofold f xs s = Some s' \<and> P (E \<union> (\<Union>x\<in>set xs. F x)) s'"
  using assms
proof (induction xs arbitrary: s E)
  case (Cons x xs)
  then obtain s1 where s1: "f x s = Some s1" "P (E \<union> F x) s1" by (meson list.set_intros(1))
  have "\<exists>s'. ofold f xs s1 = Some s' \<and> P ((E \<union> F x) \<union> (\<Union>x\<in>set xs. F x)) s'"
    by (rule Cons.IH[OF s1(2)]) (simp add: Cons.prems(2))
  with s1(1) show ?case by (simp add: Un_assoc)
qed simp

lemma fold_collect:
  assumes "P E s" and "\<And>x s E. x \<in> set xs \<Longrightarrow> P E s \<Longrightarrow> P (E \<union> F x) (f x s)"
  shows "P (E \<union> (\<Union>x\<in>set xs. F x)) (fold f xs s)"
  using assms
proof (induction xs arbitrary: s E)
  case (Cons x xs)
  have "P ((E \<union> F x) \<union> (\<Union>x\<in>set xs. F x)) (fold f xs (f x s))"
    by (rule Cons.IH) (simp_all add: Cons.prems)
  then show ?case by (simp add: Un_assoc)
qed simp

lemma efold_collect:
  assumes "P E s"
    and "\<And>x s E. x \<in> set xs \<Longrightarrow> P E s \<Longrightarrow> (case f x s of Inl e \<Rightarrow> B x | Inr s' \<Rightarrow> \<not> B x \<and> P (E \<union> F x) s')"
  shows "case efold f xs s of Inl e \<Rightarrow> \<exists>x\<in>set xs. B x | Inr s' \<Rightarrow> (\<forall>x\<in>set xs. \<not> B x) \<and> P (E \<union> (\<Union>x\<in>set xs. F x)) s'"
  using assms
proof (induction xs arbitrary: s E)
  case (Cons x xs)
  show ?case
  proof (cases "f x s")
    case (Inl e)
    then show ?thesis using Cons.prems(2)[OF _ Cons.prems(1), of x] by simp
  next
    case (Inr s1)
    then have s1: "\<not> B x" "P (E \<union> F x) s1" using Cons.prems(2)[OF _ Cons.prems(1), of x] by simp_all
    have "case efold f xs s1 of Inl e \<Rightarrow> \<exists>x\<in>set xs. B x | Inr s' \<Rightarrow> (\<forall>x\<in>set xs. \<not> B x) \<and> P ((E \<union> F x) \<union> (\<Union>x\<in>set xs. F x)) s'"
      by (rule Cons.IH[OF s1(2)]) (simp add: Cons.prems(2))
    then show ?thesis using Inr s1(1) by (cases "efold f xs s1") (simp_all add: Un_assoc)
  qed
qed simp

lemma efold_snoc: "efold f (xs @ [x]) s = (case efold f xs s of Inl e \<Rightarrow> Inl e | Inr s' \<Rightarrow> f x s')"
  by (induction xs arbitrary: s) (simp_all split: sum.splits)

lemma ofold_snoc: "ofold f (xs @ [x]) s = (case ofold f xs s of None \<Rightarrow> None | Some s' \<Rightarrow> f x s')"
  by (induction xs arbitrary: s) (simp_all split: option.splits)

text \<open>
  A loop that collects facts: each iteration adds the facts \<open>F x\<close> and fails exactly when they
  make the collection inconsistent. The loop then decides the consistency of all facts.
\<close>

lemma efold_decides:
  assumes "Q E s"
    and step: "\<And>x s E. x \<in> set xs \<Longrightarrow> Q E s \<Longrightarrow>
      (case f x s of Inl e \<Rightarrow> \<not> C (E \<union> F x) | Inr s' \<Rightarrow> Q (E \<union> F x) s')"
    and mono: "\<forall>A B. C (A \<union> B) \<longrightarrow> C A"
  shows "case efold f xs s of Inl e \<Rightarrow> \<not> C (E \<union> (\<Union>x\<in>set xs. F x)) | Inr s' \<Rightarrow> Q (E \<union> (\<Union>x\<in>set xs. F x)) s'"
  using assms(1) step
proof (induction xs arbitrary: s E)
  case (Cons x xs)
  have *: "E \<union> (\<Union>y\<in>set (x # xs). F y) = (E \<union> F x) \<union> (\<Union>y\<in>set xs. F y)" by auto
  show ?case
  proof (cases "f x s")
    case (Inl e)
    then have "\<not> C (E \<union> F x)" using Cons.prems(2)[of x E s] Cons.prems(1) by simp
    then have "\<not> C ((E \<union> F x) \<union> (\<Union>y\<in>set xs. F y))" using mono by blast
    then show ?thesis using Inl unfolding * by simp
  next
    case (Inr s1)
    then have q: "Q (E \<union> F x) s1" using Cons.prems(2)[of x E s] Cons.prems(1) by simp
    show ?thesis using Cons.IH[OF q Cons.prems(2)] Inr unfolding * by simp
  qed
qed simp

subsection \<open>Decimal numbers\<close>

definition isDigit :: "char \<Rightarrow> bool" where
  "isDigit c \<longleftrightarrow> CHR ''0'' \<le> c \<and> c \<le> CHR ''9''"

definition digit_char :: "nat \<Rightarrow> char" where
  "digit_char n = char_of (48 + n)"

definition digit_val :: "char \<Rightarrow> nat" where
  "digit_val c = of_char c - 48"

fun nat_str :: "nat \<Rightarrow> string" where
  "nat_str n = (if n < 10 then [digit_char n] else nat_str (n div 10) @ [digit_char (n mod 10)])"

declare nat_str.simps [simp del]

definition Itoa :: "int \<Rightarrow> string" where
  "Itoa i = (if i < 0 then ''-'' @ nat_str (nat (- i)) else nat_str (nat i))"

definition digits_val :: "string \<Rightarrow> nat" where
  "digits_val s = foldl (\<lambda>a c. 10 * a + digit_val c) 0 s"

definition atoi_sign :: "string \<Rightarrow> bool \<times> string" where
  "atoi_sign s = (case s of [] \<Rightarrow> (False, [])
     | c # cs \<Rightarrow> if c = CHR ''-'' then (True, cs) else if c = CHR ''+'' then (False, cs)
                 else (False, s))"

definition Atoi :: "string \<Rightarrow> int option" where
  "Atoi s = (let (neg, t) = atoi_sign s in
     if t = [] \<or> \<not> list_all isDigit t then None
     else let v = (if neg then - int (digits_val t) else int (digits_val t)) in
          if - (2 ^ 63) \<le> v \<and> v \<le> 2 ^ 63 - 1 then Some v else None)"

text \<open>\<open>strconv.Quote\<close>, the verb \<open>%q\<close> of \<open>fmt\<close>, on ASCII text.\<close>

definition hex_char :: "nat \<Rightarrow> char" where
  "hex_char n = char_of (if n < 10 then 48 + n else 87 + n)"

definition quoteChar :: "char \<Rightarrow> string" where
  "quoteChar c = (let n = of_char c :: nat in
     if n = 34 \<or> n = 92 then [char_of (92 :: nat), c]
     else if 32 \<le> n \<and> n \<noteq> 127 then [c]
     else char_of (92 :: nat) # (case map_of (zip [7..<14] ''abtnvfr'') n of
            Some e \<Rightarrow> [e]
          | None \<Rightarrow> [CHR ''x'', hex_char (n div 16), hex_char (n mod 16)]))"

definition Quote :: "string \<Rightarrow> string" where
  "Quote s = char_of (34 :: nat) # concat (map quoteChar s) @ [char_of (34 :: nat)]"

text \<open>The regular expression \<open>[1-9][0-9]*\<close>.\<close>

definition isTierDigits :: "string \<Rightarrow> bool" where
  "isTierDigits s \<longleftrightarrow> s \<noteq> [] \<and> CHR ''1'' \<le> hd s \<and> hd s \<le> CHR ''9'' \<and> list_all isDigit (tl s)"

lemma isDigit_iff: "isDigit c \<longleftrightarrow> 48 \<le> (of_char c :: nat) \<and> (of_char c :: nat) \<le> 57"
  by (simp add: isDigit_def less_eq_char_def)

lemma of_char_digit_char: "n < 10 \<Longrightarrow> (of_char (digit_char n) :: nat) = 48 + n"
  by (simp add: digit_char_def)

lemma isDigit_digit_char [simp]: "n < 10 \<Longrightarrow> isDigit (digit_char n)"
  by (simp add: isDigit_iff of_char_digit_char)

lemma digit_val_digit_char [simp]: "n < 10 \<Longrightarrow> digit_val (digit_char n) = n"
  by (simp add: digit_val_def of_char_digit_char)

lemma digit_char_digit_val [simp]: "isDigit c \<Longrightarrow> digit_char (digit_val c) = c"
  by (simp add: isDigit_iff digit_char_def digit_val_def)

lemma digit_val_less [simp]: "isDigit c \<Longrightarrow> digit_val c < 10"
  unfolding isDigit_iff digit_val_def by linarith

lemma digits_val_Nil [simp]: "digits_val [] = 0"
  by (simp add: digits_val_def)

lemma digits_val_snoc [simp]: "digits_val (s @ [c]) = 10 * digits_val s + digit_val c"
  by (simp add: digits_val_def)

lemma digits_val_nat_str [simp]: "digits_val (nat_str n) = n"
proof (induction n rule: nat_str.induct)
  case (1 n)
  show ?case
  proof (cases "n < 10")
    case True
    then show ?thesis
      by (subst nat_str.simps) (simp add: digits_val_def)
  next
    case False
    with 1 show ?thesis by (subst nat_str.simps) simp
  qed
qed

lemma nat_str_nonempty [simp]: "nat_str n \<noteq> []"
  by (subst nat_str.simps) simp

lemma isDigit_nat_str: "list_all isDigit (nat_str n)"
proof (induction n rule: nat_str.induct)
  case (1 n)
  then show ?case by (cases "n < 10") (subst nat_str.simps, simp)+
qed

lemma hd_nat_str: "0 < n \<Longrightarrow> CHR ''1'' \<le> hd (nat_str n) \<and> hd (nat_str n) \<le> CHR ''9''"
proof (induction n rule: nat_str.induct)
  case (1 n)
  show ?case
  proof (cases "n < 10")
    case True
    with 1 show ?thesis
      by (subst (1 2) nat_str.simps) (simp add: less_eq_char_def of_char_digit_char)
  next
    case False
    then have "0 < n div 10" by auto
    with 1 False have "CHR ''1'' \<le> hd (nat_str (n div 10)) \<and> hd (nat_str (n div 10)) \<le> CHR ''9''"
      by simp
    with False show ?thesis by (subst (1 2) nat_str.simps) simp
  qed
qed

lemma isTierDigits_nat_str: "0 < n \<Longrightarrow> isTierDigits (nat_str n)"
  using hd_nat_str[of n] isDigit_nat_str[of n]
  by (cases "nat_str n") (auto simp: isTierDigits_def)

lemma isTierDigits_hd_digit: "CHR ''1'' \<le> c \<Longrightarrow> c \<le> CHR ''9'' \<Longrightarrow> isDigit c \<and> 0 < digit_val c"
  by (simp add: isDigit_iff less_eq_char_def digit_val_def)

lemma isTierDigits_list_all: "isTierDigits s \<Longrightarrow> list_all isDigit s"
  by (cases s) (auto simp: isTierDigits_def isTierDigits_hd_digit)

lemma isTierDigits_snoc:
  "s \<noteq> [] \<Longrightarrow> isTierDigits (s @ [c]) \<longleftrightarrow> isTierDigits s \<and> isDigit c"
  by (cases s) (auto simp: isTierDigits_def)

text \<open>A numeral without leading zero is the decimal text of its value.\<close>

lemma nat_str_digits_val: "isTierDigits s \<Longrightarrow> nat_str (digits_val s) = s \<and> 0 < digits_val s"
proof (induction s rule: rev_induct)
  case (snoc c s)
  show ?case
  proof (cases "s = []")
    case True
    with snoc.prems have c: "isDigit c" "0 < digit_val c"
      by (auto simp: isTierDigits_def isTierDigits_hd_digit)
    then show ?thesis
      using True by (subst nat_str.simps) (simp add: digits_val_def)
  next
    case False
    with snoc have s: "nat_str (digits_val s) = s" "0 < digits_val s" and c: "isDigit c"
      by (auto simp: isTierDigits_snoc)
    then show ?thesis
      by (subst nat_str.simps) (simp add: div_add1_eq)
  qed
qed (simp add: isTierDigits_def)

lemma atoi_sign_digits: "s \<noteq> [] \<Longrightarrow> list_all isDigit s \<Longrightarrow> atoi_sign s = (False, s)"
  by (cases s) (auto simp: atoi_sign_def isDigit_def less_eq_char_def)

lemma Atoi_digits:
  "s \<noteq> [] \<Longrightarrow> list_all isDigit s \<Longrightarrow>
     Atoi s = (if digits_val s < 2 ^ 63 then Some (int (digits_val s)) else None)"
  by (auto simp: Atoi_def atoi_sign_digits)

lemma Atoi_Itoa: "0 \<le> i \<Longrightarrow> i < 2 ^ 63 \<Longrightarrow> Atoi (Itoa i) = Some i"
  by (simp add: Itoa_def Atoi_digits isDigit_nat_str nat_less_iff)

lemma Itoa_inj_nonneg: "0 \<le> i \<Longrightarrow> 0 \<le> j \<Longrightarrow> Itoa i = Itoa j \<Longrightarrow> i = j"
  by (metis Itoa_def digits_val_nat_str eq_nat_nat_iff leD)

subsection \<open>Strings\<close>

primrec Join :: "string list \<Rightarrow> string \<Rightarrow> string" where
  "Join [] sep = []"
| "Join (x # xs) sep = (if xs = [] then x else x @ sep @ Join xs sep)"

definition isSpace :: "char \<Rightarrow> bool" where
  "isSpace c \<longleftrightarrow> c \<in> {CHR '' '', CHR 0x09, CHR 0x0A, CHR 0x0B, CHR 0x0C, CHR 0x0D}"

definition trimBy :: "(char \<Rightarrow> bool) \<Rightarrow> string \<Rightarrow> string" where
  "trimBy p s = rev (dropWhile p (rev (dropWhile p s)))"

definition TrimSpace :: "string \<Rightarrow> string" where
  "TrimSpace s = trimBy isSpace s"

definition toLowerChar :: "char \<Rightarrow> char" where
  "toLowerChar c = (if CHR ''A'' \<le> c \<and> c \<le> CHR ''Z'' then char_of (of_char c + 32 :: nat) else c)"

definition ToLower :: "string \<Rightarrow> string" where
  "ToLower s = map toLowerChar s"

lemma Join_Cons2 [simp]: "Join (x # y # xs) sep = x @ sep @ Join (y # xs) sep"
  by simp

lemma set_trimBy: "set (trimBy p s) \<subseteq> set s"
  by (auto simp: trimBy_def dest!: set_dropWhileD)

lemma trimBy_Nil [simp]: "trimBy p [] = []"
  by (simp add: trimBy_def)

end
