(* ===== verification/Go_Strings.thy ===== *)
theory Go_Strings
  imports Go_Prelude
begin

text \<open>
  The functions of \<open>strings\<close>, \<open>strconv\<close> and \<open>path/filepath\<close> (on Unix) that several components use. A
  character is one byte; white space is the white space of ASCII.
\<close>

definition Contains :: "string \<Rightarrow> string \<Rightarrow> bool" where
  "Contains s sub = list_ex (\<lambda>i. take (length sub) (drop i s) = sub) [0..<Suc (length s)]"

definition HasPrefix :: "string \<Rightarrow> string \<Rightarrow> bool" where
  "HasPrefix s prefix \<longleftrightarrow> take (length prefix) s = prefix"

definition HasSuffix :: "string \<Rightarrow> string \<Rightarrow> bool" where
  "HasSuffix s suffix \<longleftrightarrow> length suffix \<le> length s \<and> drop (length s - length suffix) s = suffix"

definition TrimPrefix :: "string \<Rightarrow> string \<Rightarrow> string" where
  "TrimPrefix s prefix = (if HasPrefix s prefix then drop (length prefix) s else s)"

definition TrimSuffix :: "string \<Rightarrow> string \<Rightarrow> string" where
  "TrimSuffix s suffix = (if HasSuffix s suffix then take (length s - length suffix) s else s)"

lemma TrimPrefix_shorter: "HasPrefix p ''!'' \<Longrightarrow> length (TrimPrefix p ''!'') < length p"
  by (cases p) (simp_all add: TrimPrefix_def HasPrefix_def)

text \<open>\<open>ReplaceAll\<close> of one character.\<close>

definition ReplaceAll :: "string \<Rightarrow> char \<Rightarrow> string \<Rightarrow> string" where
  "ReplaceAll s c new = concat (map (\<lambda>d. if d = c then new else [d]) s)"

text \<open>\<open>Split\<close> at a one-character separator, and \<open>SplitN\<close> with at most two parts.\<close>

fun SplitChar :: "char \<Rightarrow> string \<Rightarrow> string list" where
  "SplitChar sep [] = [[]]"
| "SplitChar sep (c # cs) = (if c = sep then [] # SplitChar sep cs else (case SplitChar sep cs of [] \<Rightarrow> [[c]] | w # ws \<Rightarrow> (c # w) # ws))"

definition SplitN2 :: "char \<Rightarrow> string \<Rightarrow> string list" where
  "SplitN2 sep s = (case dropWhile (\<lambda>c. c \<noteq> sep) s of [] \<Rightarrow> [s] | _ # rest \<Rightarrow> [takeWhile (\<lambda>c. c \<noteq> sep) s, rest])"

function FieldsFunc :: "(char \<Rightarrow> bool) \<Rightarrow> string \<Rightarrow> string list" where
  "FieldsFunc p s =
     (case dropWhile p s of
        [] \<Rightarrow> []
      | c # cs \<Rightarrow> takeWhile (\<lambda>c. \<not> p c) (c # cs) # FieldsFunc p (dropWhile (\<lambda>c. \<not> p c) (c # cs)))"
  by pat_completeness auto
termination
proof (relation "measure (\<lambda>(p, s). length s)", simp, goal_cases)
  case (1 p s c cs)
  have "\<not> p c" using 1 by (metis hd_dropWhile list.distinct(1) list.sel(1))
  moreover have "length (c # cs) \<le> length s" using 1 by (metis length_dropWhile_le)
  ultimately show ?case using length_dropWhile_le[of "\<lambda>c. \<not> p c" cs] by simp
qed

declare FieldsFunc.simps [simp del]

definition Fields :: "string \<Rightarrow> string list" where
  "Fields s = FieldsFunc isSpace s"

subsection \<open>Numbers\<close>

definition digitOf :: "char \<Rightarrow> nat option" where
  "digitOf c =
     (if isDigit c then Some (digit_val c)
      else if CHR ''a'' \<le> c \<and> c \<le> CHR ''z'' then Some (of_char c - 87)
      else if CHR ''A'' \<le> c \<and> c \<le> CHR ''Z'' then Some (of_char c - 55)
      else None)"

definition isBaseDigit :: "nat \<Rightarrow> char \<Rightarrow> bool" where
  "isBaseDigit base c = (case digitOf c of None \<Rightarrow> False | Some d \<Rightarrow> d < base)"

definition baseValue :: "nat \<Rightarrow> string \<Rightarrow> nat" where
  "baseValue base s = foldl (\<lambda>n c. n * base + (case digitOf c of None \<Rightarrow> 0 | Some d \<Rightarrow> d)) 0 s"

definition ParseUint :: "nat \<Rightarrow> nat \<Rightarrow> string \<Rightarrow> nat option" where
  "ParseUint base bits s =
     (if s = [] \<or> \<not> list_all (isBaseDigit base) s then None
      else if baseValue base s < 2 ^ bits then Some (baseValue base s) else None)"

subsection \<open>Paths\<close>

text \<open>\<open>Clean\<close> works on the components of a path; the components read so far are in reverse order.\<close>

definition cleanStep :: "bool \<Rightarrow> string \<Rightarrow> string list \<Rightarrow> string list" where
  "cleanStep rooted c acc =
     (if c = [] \<or> c = ''.'' then acc
      else if c = ''..'' then
        (if acc \<noteq> [] \<and> hd acc \<noteq> ''..'' then tl acc else if rooted then acc else c # acc)
      else c # acc)"

definition Clean :: "string \<Rightarrow> string" where
  "Clean path =
     (let rooted = HasPrefix path ''/'';
          body = Join (rev (fold (cleanStep rooted) (SplitChar (CHR ''/'') path) [])) ''/''
      in if rooted then ''/'' @ body else if body = [] then ''.'' else body)"

definition joinPath :: "string list \<Rightarrow> string" where
  "joinPath elems =
     (case dropWhile (\<lambda>e. e = []) elems of [] \<Rightarrow> [] | e # es \<Rightarrow> Clean (Join (e # es) ''/''))"

definition Base :: "string \<Rightarrow> string" where
  "Base path =
     (if path = [] then ''.''
      else let p = rev (dropWhile (\<lambda>c. c = CHR ''/'') (rev path));
               b = rev (takeWhile (\<lambda>c. c \<noteq> CHR ''/'') (rev p))
           in if b = [] then ''/'' else b)"

definition Dir :: "string \<Rightarrow> string" where
  "Dir path = Clean (rev (dropWhile (\<lambda>c. c \<noteq> CHR ''/'') (rev path)))"

definition IsAbs :: "string \<Rightarrow> bool" where
  "IsAbs path = HasPrefix path ''/''"

end
