(* ===== verification/Go_Net.thy ===== *)
theory Go_Net
  imports Go_Prelude
begin

text \<open>
  The part of \<open>net\<close> and \<open>net/netip\<close> that the program uses: \<open>ParseIP\<close>, \<open>To4\<close>, \<open>To16\<close> and the text
  form of an address. Addresses are byte lists of length 4 or 16; a nil address is the empty list.
  \<open>ParseIP_String\<close> shows that parsing the text form of an address gives the address back.
\<close>

type_synonym IP = "8 word list"

subsection \<open>Parsing\<close>

text \<open>The loop over a dotted address: rest of the text, previous character, value and number of digits
  of the current octet, and the octets before it.\<close>

fun parseIPv4Loop :: "string \<Rightarrow> char option \<Rightarrow> nat \<Rightarrow> nat \<Rightarrow> IP \<Rightarrow> IP option" where
  "parseIPv4Loop [] prev val digLen fields = (if length fields < 3 then None else Some (fields @ [of_nat val]))"
| "parseIPv4Loop (c # cs) prev val digLen fields =
     (if isDigit c then
        if digLen = 1 \<and> val = 0 then None
        else let val' = val * 10 + digit_val c in
          if val' > 255 then None else parseIPv4Loop cs (Some c) val' (digLen + 1) fields
      else if c = CHR ''.'' then
        if prev = None \<or> cs = [] \<or> prev = Some (CHR ''.'') then None
        else if length fields = 3 then None
        else parseIPv4Loop cs (Some c) 0 0 (fields @ [of_nat val])
      else None)"

definition parseIPv4Fields :: "string \<Rightarrow> IP option" where
  "parseIPv4Fields s = parseIPv4Loop s None 0 0 []"

definition hexVal :: "char \<Rightarrow> nat option" where
  "hexVal c =
     (let n = (of_char c :: nat) in
      if 48 \<le> n \<and> n \<le> 57 then Some (n - 48)
      else if 97 \<le> n \<and> n \<le> 102 then Some (n - 87)
      else if 65 \<le> n \<and> n \<le> 70 then Some (n - 55)
      else None)"

definition isHex :: "char \<Rightarrow> bool" where
  "isHex c \<longleftrightarrow> hexVal c \<noteq> None"

definition hexNumber :: "string \<Rightarrow> nat" where
  "hexNumber ds = foldl (\<lambda>acc c. acc * 16 + the (hexVal c)) 0 ds"

definition group16 :: "nat \<Rightarrow> IP" where
  "group16 n = [of_nat (n div 256), of_nat (n mod 256)]"

text \<open>The loop over the groups of an IPv6 address: rest of the text, bytes so far and position of the
  ellipsis.\<close>

function parseIPv6Loop :: "string \<Rightarrow> IP \<Rightarrow> nat option \<Rightarrow> (string \<times> IP \<times> nat option) option" where
  "parseIPv6Loop s ip ellipsis =
     (if length ip \<ge> 16 then Some (s, ip, ellipsis)
      else let digits = takeWhile isHex s; rest = dropWhile isHex s in
        if length digits > 4 \<or> digits = [] then None
        else if rest \<noteq> [] \<and> hd rest = CHR ''.'' then
          if ellipsis = None \<and> length ip \<noteq> 12 then None
          else if length ip + 4 > 16 then None
          else (case parseIPv4Fields s of None \<Rightarrow> None | Some fields \<Rightarrow> Some ([], ip @ fields, ellipsis))
        else let ip' = ip @ group16 (hexNumber digits) in
          if rest = [] then Some ([], ip', ellipsis)
          else if hd rest \<noteq> CHR '':'' \<or> length rest = 1 then None
          else let s1 = tl rest in
            if hd s1 = CHR '':'' then
              if ellipsis \<noteq> None then None
              else if tl s1 = [] then Some ([], ip', Some (length ip'))
              else parseIPv6Loop (tl s1) ip' (Some (length ip'))
            else parseIPv6Loop s1 ip' ellipsis)"
  by auto

termination
proof (relation "measure (\<lambda>(s, ip, ellipsis). length s)")
  show "wf (measure (\<lambda>(s :: string, ip :: IP, ellipsis :: nat option). length s))" by simp
next
  fix s :: string and ip :: IP and ellipsis :: "nat option" and digits rest ip' s1
  assume rest: "rest = dropWhile isHex s" "rest \<noteq> []" and s1: "s1 = tl rest"
  have "length rest \<le> length s" using rest(1) by (simp add: length_dropWhile_le)
  then have "length s1 < length s" using rest(2) s1 by (cases rest) auto
  then show "((tl s1, ip', Some (length ip')), s, ip, ellipsis) \<in> measure (\<lambda>(s, ip, ellipsis). length s)"
    "((s1, ip', ellipsis), s, ip, ellipsis) \<in> measure (\<lambda>(s, ip, ellipsis). length s)"
    by simp_all
qed

declare parseIPv6Loop.simps [simp del]

definition expandEllipsis :: "string \<times> IP \<times> nat option \<Rightarrow> IP option" where
  "expandEllipsis = (\<lambda>(s, ip, ellipsis).
     if s \<noteq> [] then None
     else if length ip < 16 then
       (case ellipsis of None \<Rightarrow> None | Some e \<Rightarrow> Some (take e ip @ replicate (16 - length ip) 0 @ drop e ip))
     else if ellipsis \<noteq> None then None else Some ip)"

definition parseIPv6 :: "string \<Rightarrow> IP option" where
  "parseIPv6 s =
     (if take 2 s = ''::'' then
        if drop 2 s = [] then Some (replicate 16 0)
        else Option.bind (parseIPv6Loop (drop 2 s) [] (Some 0)) expandEllipsis
      else Option.bind (parseIPv6Loop s [] None) expandEllipsis)"

definition mapped4 :: IP where
  "mapped4 = replicate 10 0 @ [0xFF, 0xFF]"

text \<open>The first of the characters dot, colon and percent decides how the text is read; an address with a
  zone is refused.\<close>

definition ParseIP :: "string \<Rightarrow> IP" where
  "ParseIP s =
     (if CHR ''%'' \<in> set s then []
      else case dropWhile (\<lambda>c. c \<noteq> CHR ''.'' \<and> c \<noteq> CHR '':'') s of
        [] \<Rightarrow> []
      | c # _ \<Rightarrow>
          if c = CHR ''.'' then (case parseIPv4Fields s of None \<Rightarrow> [] | Some fields \<Rightarrow> mapped4 @ fields)
          else (case parseIPv6 s of None \<Rightarrow> [] | Some ip \<Rightarrow> ip))"

subsection \<open>Forms\<close>

definition To4 :: "IP \<Rightarrow> IP" where
  "To4 ip = (if length ip = 4 then ip else if length ip = 16 \<and> take 12 ip = mapped4 then drop 12 ip else [])"

definition To16 :: "IP \<Rightarrow> IP" where
  "To16 ip = (if length ip = 4 then mapped4 @ ip else if length ip = 16 then ip else [])"

definition string4 :: "IP \<Rightarrow> string" where
  "string4 ip = Join (map (\<lambda>b. nat_str (unat b)) ip) ''.''"

fun hex_str :: "nat \<Rightarrow> string" where
  "hex_str n = (if n < 16 then [hex_char n] else hex_str (n div 16) @ [hex_char (n mod 16)])"

declare hex_str.simps [simp del]

fun groups :: "IP \<Rightarrow> nat list" where
  "groups (a # b # rest) = (unat a * 256 + unat b) # groups rest"
| "groups _ = []"

text \<open>The first longest run of at least two zero groups.\<close>

definition zeroRun :: "nat list \<Rightarrow> nat \<Rightarrow> nat" where
  "zeroRun gs i = length (takeWhile (\<lambda>g. g = 0) (drop i gs))"

definition zeroSpan :: "nat list \<Rightarrow> (nat \<times> nat) option" where
  "zeroSpan gs = fold (\<lambda>i best. let l = zeroRun gs i in
       if l \<ge> 2 \<and> l > (case best of None \<Rightarrow> 0 | Some (zs, ze) \<Rightarrow> ze - zs) then Some (i, i + l) else best)
     [0..<length gs] None"

definition joinGroups :: "nat list \<Rightarrow> string" where
  "joinGroups gs = Join (map hex_str gs) '':''"

definition string6 :: "IP \<Rightarrow> string" where
  "string6 ip =
     (let gs = groups ip in
      case zeroSpan gs of
        None \<Rightarrow> joinGroups gs
      | Some (zs, ze) \<Rightarrow> joinGroups (take zs gs) @ ''::'' @ joinGroups (drop ze gs))"

definition String :: "IP \<Rightarrow> string" where
  "String ip = (if length (To4 ip) = 4 then string4 (To4 ip) else string6 ip)"

subsection \<open>Parsing the text form\<close>

lemma nat_str_digits:
  assumes "b < 256"
  obtains "b < 10" "nat_str b = [digit_char b]"
  | "10 \<le> b" "b < 100" "nat_str b = [digit_char (b div 10), digit_char (b mod 10)]"
  | "100 \<le> b" "nat_str b = [digit_char (b div 100), digit_char (b div 10 mod 10), digit_char (b mod 10)]"
proof -
  consider "b < 10" | "10 \<le> b" "b < 100" | "100 \<le> b" by linarith
  then show thesis
  proof cases
    case 1
    then show thesis using that(1) by (simp add: nat_str.simps[of b])
  next
    case 2
    moreover from 2 have "b div 10 < 10" by simp
    ultimately show thesis using that(2) by (simp add: nat_str.simps[of b] nat_str.simps[of "b div 10"])
  next
    case 3
    have d: "b div 10 div 10 = b div 100" by (simp add: div_mult2_eq[symmetric])
    have "\<not> b < 10" "\<not> b div 10 < 10" "b div 100 < 10" using 3 assms by simp_all
    then have "nat_str b = [digit_char (b div 100), digit_char (b div 10 mod 10), digit_char (b mod 10)]"
      by (simp only: nat_str.simps[of b] nat_str.simps[of "b div 10"] nat_str.simps[of "b div 100"] d if_True if_False append.simps)
    then show thesis using that(3)[OF 3] by simp
  qed
qed

lemma three_digits:
  assumes "x < 10" "y < 10" "z < 10" "0 < x" "x * 100 + y * 10 + z = b" "b < 256"
  shows "parseIPv4Loop (digit_char x # digit_char y # digit_char z # rest) prev 0 0 fields = parseIPv4Loop rest (Some (digit_char z)) b 3 fields"
proof -
  have "x \<noteq> 0" "\<not> 255 < x" "\<not> 255 < x * 10 + y" "\<not> 255 < (x * 10 + y) * 10 + z" "(x * 10 + y) * 10 + z = b" using assms by (simp_all add: add_mult_distrib)
  then show ?thesis using assms(1-3) by (simp add: Let_def numeral_3_eq_3)
qed

lemma parseIPv4Loop_octet:
  assumes "b < 256"
  shows "\<exists>prev' n. prev' \<noteq> None \<and> prev' \<noteq> Some (CHR ''.'') \<and>
    parseIPv4Loop (nat_str b @ rest) prev 0 0 fields = parseIPv4Loop rest prev' b n fields"
proof -
  have digit: "digit_char k \<noteq> CHR ''.''" if "k < 10" for k
    using isDigit_digit_char[OF that] by (auto simp: isDigit_iff)
  from assms show ?thesis
  proof (cases rule: nat_str_digits)
    case 1
    then show ?thesis using digit[of b] by (intro exI[of _ "Some (digit_char b)"] exI[of _ 1]) (simp add: Let_def)
  next
    case 2
    then have "b div 10 < 10" "b div 10 \<noteq> 0" by auto
    then show ?thesis using 2 digit[of "b mod 10"]
      by (intro exI[of _ "Some (digit_char (b mod 10))"] exI[of _ 2]) (simp add: Let_def numeral_2_eq_2)
  next
    case 3
    have "parseIPv4Loop (nat_str b @ rest) prev 0 0 fields = parseIPv4Loop rest (Some (digit_char (b mod 10))) b 3 fields"
      unfolding 3(2) append.simps
    proof (rule three_digits)
      have "b div 10 div 10 = b div 100" by (simp add: div_mult2_eq[symmetric])
      then have "b div 100 * 10 + b div 10 mod 10 = b div 10" using div_mult_mod_eq[of "b div 10" 10] by simp
      then show "b div 100 * 100 + b div 10 mod 10 * 10 + b mod 10 = b" using div_mult_mod_eq[of b 10] by linarith
      show "b div 100 < 10" "0 < b div 100" using assms 3(1) by (simp_all add: div_greater_zero_iff)
    qed (use assms in simp_all)
    then show ?thesis using digit[of "b mod 10"] by (intro exI[of _ "Some (digit_char (b mod 10))"] exI[of _ 3]) simp
  qed
qed

lemma parseIPv4Loop_dot:
  assumes "b < 256" "rest \<noteq> []" "length fields < 3"
  shows "parseIPv4Loop (nat_str b @ CHR ''.'' # rest) prev 0 0 fields = parseIPv4Loop rest (Some (CHR ''.'')) 0 0 (fields @ [of_nat b])"
proof -
  have "\<not> isDigit (CHR ''.'')" by (simp add: isDigit_iff)
  then show ?thesis using parseIPv4Loop_octet[OF assms(1), of "CHR ''.'' # rest" prev fields] assms(2,3) by (auto split: if_splits)
qed

lemma parseIPv4Loop_last:
  assumes "b < 256" "length fields = 3"
  shows "parseIPv4Loop (nat_str b) prev 0 0 fields = Some (fields @ [of_nat b])"
  using parseIPv4Loop_octet[OF assms(1), of "[]" prev fields] assms(2) by auto

lemma parseIPv4Fields_string4:
  assumes "length ip = 4"
  shows "parseIPv4Fields (string4 ip) = Some ip"
proof -
  obtain a b c d where ip: "ip = [a, b, c, d]" using assms by (auto simp: numeral_eq_Suc length_Suc_conv)
  have u: "unat x < 256" for x :: "8 word" using unsigned_less[where 'a = nat and w = x] by simp
  show ?thesis by (simp add: ip string4_def parseIPv4Fields_def parseIPv4Loop_dot parseIPv4Loop_last u)
qed

lemma hexVal_hex_char: "k < 16 \<Longrightarrow> hexVal (hex_char k) = Some k"
  by (simp add: hexVal_def hex_char_def Let_def of_char_of)

lemma hex_str_facts:
  "hex_str n \<noteq> [] \<and> list_all isHex (hex_str n) \<and> hexNumber (hex_str n) = n"
proof (induction n rule: hex_str.induct)
  case (1 n)
  show ?case
  proof (cases "n < 16")
    case True
    then show ?thesis by (subst (1 2 3) hex_str.simps) (simp add: hexNumber_def isHex_def hexVal_hex_char)
  next
    case False
    have "hexVal (hex_char (n mod 16)) = Some (n mod 16)" by (rule hexVal_hex_char) simp
    with 1 False show ?thesis by (subst (1 2 3) hex_str.simps) (simp add: hexNumber_def isHex_def[of "hex_char _"])
  qed
qed

lemma length_hex_str: "n < 16 ^ Suc k \<Longrightarrow> length (hex_str n) \<le> Suc k"
proof (induction k arbitrary: n)
  case (Suc k)
  show ?case
  proof (cases "n < 16")
    case False
    have "n div 16 < 16 ^ Suc k" using Suc.prems by (simp add: less_mult_imp_div_less mult.commute)
    with Suc.IH[of "n div 16"] False show ?thesis by (subst hex_str.simps) simp
  qed (simp add: hex_str.simps)
qed (simp add: hex_str.simps)

lemma hex_span:
  assumes "rest = [] \<or> hd rest = CHR '':''"
  shows "takeWhile isHex (hex_str n @ rest) = hex_str n" "dropWhile isHex (hex_str n @ rest) = rest"
proof -
  have "\<not> isHex (CHR '':'')" by (simp add: isHex_def hexVal_def)
  then have "rest = [] \<or> \<not> isHex (hd rest)" using assms by auto
  then show "takeWhile isHex (hex_str n @ rest) = hex_str n" "dropWhile isHex (hex_str n @ rest) = rest"
    using hex_str_facts[of n] by (cases rest; simp add: list_all_iff takeWhile_append2 dropWhile_append2)+
qed

definition groupBytes :: "nat list \<Rightarrow> IP" where
  "groupBytes gs = concat (map group16 gs)"

lemma groupBytes_simps [simp]: "groupBytes [] = []" "groupBytes (g # gs) = group16 g @ groupBytes gs"
  "length (groupBytes gs) = 2 * length gs" "groupBytes (gs @ hs) = groupBytes gs @ groupBytes hs" "length (group16 g) = 2"
  by (induction gs) (simp_all add: groupBytes_def group16_def)

lemma parseIPv6Loop_group:
  assumes "rest = [] \<or> hd rest = CHR '':''" "g < 65536" "length ip < 16"
  shows "parseIPv6Loop (hex_str g @ rest) ip ellipsis =
    (let ip' = ip @ group16 g in
     if rest = [] then Some ([], ip', ellipsis)
     else if length rest = 1 then None
     else let s1 = tl rest in
       if hd s1 = CHR '':'' then
         if ellipsis \<noteq> None then None
         else if tl s1 = [] then Some ([], ip', Some (length ip'))
         else parseIPv6Loop (tl s1) ip' (Some (length ip'))
       else parseIPv6Loop s1 ip' ellipsis)"
proof -
  have "length (hex_str g) \<le> 4" using length_hex_str[of g 3] assms(2) by simp
  then have len: "\<not> (4 < length (hex_str g) \<or> hex_str g = [])" "\<not> 16 \<le> length ip" using hex_str_facts[of g] assms(3) by auto
  have num: "hexNumber (hex_str g) = g" using hex_str_facts[of g] by simp
  show ?thesis
  proof (cases rest)
    case Nil
    then show ?thesis unfolding parseIPv6Loop.simps[of "hex_str g @ rest"] hex_span[OF assms(1)] Let_def num using len by simp
  next
    case (Cons c cs)
    then have "c = CHR '':''" using assms(1) by simp
    then show ?thesis unfolding parseIPv6Loop.simps[of "hex_str g @ rest"] hex_span[OF assms(1)] Let_def num using len Cons by simp
  qed
qed

lemma hd_hex_str: "hd (hex_str g @ rest) \<noteq> CHR '':''"
proof -
  have "\<not> isHex (CHR '':'')" by (simp add: isHex_def hexVal_def)
  then show ?thesis using hex_str_facts[of g] by (cases "hex_str g") auto
qed

lemma joinGroups_Cons: "joinGroups (g # gs) = hex_str g @ (if gs = [] then [] else CHR '':'' # joinGroups gs)"
  by (simp add: joinGroups_def)

lemma joinGroups_nonempty: "gs \<noteq> [] \<Longrightarrow> joinGroups gs \<noteq> [] \<and> hd (joinGroups gs @ t) \<noteq> CHR '':''"
  using hex_str_facts hd_hex_str by (cases gs) (simp_all add: joinGroups_Cons)

lemma parseIPv6Loop_join:
  "gs \<noteq> [] \<Longrightarrow> list_all (\<lambda>g. g < 65536) gs \<Longrightarrow> length ip + 2 * length gs \<le> 16 \<Longrightarrow>
     parseIPv6Loop (joinGroups gs) ip ellipsis = Some ([], ip @ groupBytes gs, ellipsis)"
proof (induction gs arbitrary: ip)
  case (Cons g gs)
  note prems = Cons.prems and IH = Cons.IH[of "ip @ group16 g"]
  show ?case
  proof (cases gs)
    case Nil
    then show ?thesis using prems parseIPv6Loop_group[of "[]" g ip ellipsis] by (simp add: joinGroups_Cons)
  next
    case (Cons h hs)
    have ne: "joinGroups gs \<noteq> []" "hd (joinGroups gs) \<noteq> CHR '':''" using joinGroups_nonempty[of gs "[]"] Cons by auto
    then have "length (CHR '':'' # joinGroups gs) \<noteq> 1" by simp
    then show ?thesis
      using prems IH Cons ne parseIPv6Loop_group[of "CHR '':'' # joinGroups gs" g ip ellipsis]
      by (simp add: joinGroups_Cons[of g] Let_def)
  qed
qed simp

lemma parseIPv6Loop_ellipsis:
  "gs \<noteq> [] \<Longrightarrow> list_all (\<lambda>g. g < 65536) gs \<Longrightarrow> length ip + 2 * length gs \<le> 16 \<Longrightarrow>
     parseIPv6Loop (joinGroups gs @ ''::'' @ t) ip None =
       (if t = [] then Some ([], ip @ groupBytes gs, Some (length (ip @ groupBytes gs)))
        else parseIPv6Loop t (ip @ groupBytes gs) (Some (length (ip @ groupBytes gs))))"
proof (induction gs arbitrary: ip)
  case (Cons g gs)
  note prems = Cons.prems and IH = Cons.IH[of "ip @ group16 g"]
  show ?case
  proof (cases gs)
    case Nil
    then show ?thesis using prems parseIPv6Loop_group[of "''::'' @ t" g ip None] by (simp add: joinGroups_Cons Let_def)
  next
    case (Cons h hs)
    have ne: "joinGroups gs \<noteq> []" "hd (joinGroups gs @ CHR '':'' # CHR '':'' # t) \<noteq> CHR '':''"
      using joinGroups_nonempty[of gs "CHR '':'' # CHR '':'' # t"] Cons by auto
    then show ?thesis
      using prems IH Cons ne parseIPv6Loop_group[of "CHR '':'' # joinGroups gs @ ''::'' @ t" g ip None]
      by (simp add: joinGroups_Cons[of g] Let_def)
  qed
qed simp

lemma zeroSpan_Some:
  assumes "zeroSpan gs = Some (zs, ze)"
  shows "zs < ze" "ze \<le> length gs" "take zs gs @ replicate (ze - zs) 0 @ drop ze gs = gs"
proof -
  let ?P = "\<lambda>best. case best of None \<Rightarrow> True | Some (zs, ze) \<Rightarrow> ze = zs + zeroRun gs zs \<and> 2 \<le> zeroRun gs zs"
  have "?P (zeroSpan gs)" unfolding zeroSpan_def
    by (rule fold_invariant[where P = ?P]) (auto simp: Let_def split: option.splits if_splits prod.splits)
  then have ze: "ze = zs + zeroRun gs zs" "2 \<le> zeroRun gs zs" using assms by auto
  have run: "take (zeroRun gs zs) (drop zs gs) = replicate (zeroRun gs zs) 0"
    unfolding zeroRun_def takeWhile_eq_take[symmetric]
    by (metis (mono_tags, lifting) replicate_length_same set_takeWhileD)
  have len: "zeroRun gs zs \<le> length gs - zs" unfolding zeroRun_def using length_takeWhile_le[of _ "drop zs gs"] by simp
  show "zs < ze" using ze by simp
  show "ze \<le> length gs" using ze len by linarith
  show "take zs gs @ replicate (ze - zs) 0 @ drop ze gs = gs"
    using ze(1) run by (metis add.commute add_diff_cancel_left' append_take_drop_id drop_drop)
qed

lemma groups_bytes:
  "even (length ip) \<Longrightarrow> groupBytes (groups ip) = ip \<and> list_all (\<lambda>g. g < 65536) (groups ip) \<and> 2 * length (groups ip) = length ip"
proof (induction ip rule: groups.induct)
  case (1 a b rest)
  have "unat a < 256" "unat b < 256"
    using unsigned_less[where 'a = nat and w = a] unsigned_less[where 'a = nat and w = b] by simp_all
  then show ?case using 1 by (simp add: group16_def)
qed simp_all

lemma groupBytes_zero [simp]: "groupBytes (replicate n 0) = replicate (2 * n) 0"
  by (induction n) (simp_all add: group16_def)

lemma parseIPv6_string6:
  assumes "length ip = 16"
  shows "parseIPv6 (string6 ip) = Some ip"
proof -
  define gs where "gs = groups ip"
  have gs: "groupBytes gs = ip" "list_all (\<lambda>g. g < 65536) gs" "length gs = 8" using groups_bytes[of ip] assms by (auto simp: gs_def)
  show ?thesis
  proof (cases "zeroSpan gs")
    case None
    have "gs \<noteq> []" using gs(3) by auto
    then have "take 2 (joinGroups gs) \<noteq> ''::''" using joinGroups_nonempty[of gs "[]"] by (cases "joinGroups gs") auto
    then show ?thesis using None \<open>gs \<noteq> []\<close> gs assms parseIPv6Loop_join[of gs "[]" None]
      by (simp add: string6_def gs_def[symmetric] parseIPv6_def expandEllipsis_def)
  next
    case (Some span)
    obtain zs ze where span: "zeroSpan gs = Some (zs, ze)" using Some by (cases span) auto
    note z = zeroSpan_Some[OF span]
    let ?pre = "take zs gs" and ?post = "drop ze gs"
    have s: "string6 ip = joinGroups ?pre @ ''::'' @ joinGroups ?post" by (simp add: string6_def gs_def[symmetric] span)
    have lens: "length ?pre = zs" "length ?post = 8 - ze" "list_all (\<lambda>g. g < 65536) ?pre" "list_all (\<lambda>g. g < 65536) ?post"
      using z gs by (auto simp: list_all_iff dest: in_set_takeD in_set_dropD)
    have whole: "groupBytes ?pre @ replicate (2 * (ze - zs)) 0 @ groupBytes ?post = ip"
      using arg_cong[OF z(3), of groupBytes] gs(1) by simp
    have sum: "2 * zs + 2 * (8 - ze) = 16 - 2 * (ze - zs)" "2 * (ze - zs) \<le> 16" "0 < ze - zs" using z gs(3) by auto
    have post: "joinGroups ?post = [] \<longleftrightarrow> ?post = []" using joinGroups_nonempty[of ?post "[]"] by (auto simp: joinGroups_def)
    have fin: "expandEllipsis ([], groupBytes ?pre @ groupBytes ?post, Some (length (groupBytes ?pre))) = Some ip"
      using whole sum lens by (simp add: expandEllipsis_def)
    show ?thesis
    proof (cases "?pre = []")
      case True
      then have s0: "string6 ip = ''::'' @ joinGroups ?post" unfolding s by (simp only: joinGroups_def list.map Join.simps append.simps)
      show ?thesis
      proof (cases "?post = []")
        case post0: True
        have "zs = 0" "ze = 8" using True post0 lens z gs(3) by auto
        then have "replicate 16 0 = ip" using whole gs(3) by simp
        then show ?thesis using post0 unfolding s0 by (simp add: parseIPv6_def joinGroups_def)
      next
        case False
        then have "parseIPv6Loop (joinGroups ?post) [] (Some 0) = Some ([], groupBytes ?post, Some 0)"
          using lens sum parseIPv6Loop_join[of ?post "[]" "Some 0"] by simp
        then show ?thesis using fin False post unfolding s0 True by (simp add: parseIPv6_def)
      qed
    next
      case False
      then have "take 2 (string6 ip) \<noteq> ''::''" unfolding s using joinGroups_nonempty[of ?pre "''::'' @ joinGroups ?post"]
        by (cases "joinGroups ?pre") auto
      moreover have "parseIPv6Loop (string6 ip) [] None = Some ([], groupBytes ?pre @ groupBytes ?post, Some (length (groupBytes ?pre)))"
        unfolding s using False lens sum z gs(3) post parseIPv6Loop_ellipsis[of ?pre "[]" "joinGroups ?post"]
          parseIPv6Loop_join[of ?post "groupBytes ?pre" "Some (length (groupBytes ?pre))"]
        by (cases "?post = []") simp_all
      ultimately show ?thesis using fin by (simp add: parseIPv6_def)
    qed
  qed
qed

lemma joinGroups_chars: "set (joinGroups gs) \<subseteq> insert (CHR '':'') (Collect isHex)"
proof (induction gs)
  case (Cons g gs)
  then show ?case using hex_str_facts[of g] by (auto simp: joinGroups_Cons list_all_iff split: if_splits)
qed (simp add: joinGroups_def)

lemma string6_chars:
  assumes "length ip = 16"
  shows "CHR ''%'' \<notin> set (string6 ip)" "CHR ''.'' \<notin> set (string6 ip)" "CHR '':'' \<in> set (string6 ip)"
proof -
  have h: "\<not> isHex (CHR ''%'')" "\<not> isHex (CHR ''.'')" by (simp_all add: isHex_def hexVal_def)
  have sub: "set (string6 ip) \<subseteq> insert (CHR '':'') (Collect isHex)"
    using joinGroups_chars by (auto simp: string6_def Let_def split: option.splits prod.splits)
  then show "CHR ''%'' \<notin> set (string6 ip)" "CHR ''.'' \<notin> set (string6 ip)" using h by auto
  have "length (groups ip) = 8" using groups_bytes[of ip] assms by simp
  then obtain g h hs where "groups ip = g # h # hs" by (auto simp: numeral_eq_Suc length_Suc_conv)
  then show "CHR '':'' \<in> set (string6 ip)" by (auto simp: string6_def Let_def joinGroups_Cons split: option.splits prod.splits)
qed

lemma string4_chars:
  assumes "length ip = 4"
  shows "CHR ''%'' \<notin> set (string4 ip)" "CHR '':'' \<notin> set (string4 ip)" "CHR ''.'' \<in> set (string4 ip)"
proof -
  obtain a b c d where ip: "ip = [a, b, c, d]" using assms by (auto simp: numeral_eq_Suc length_Suc_conv)
  have h: "\<not> isDigit (CHR ''%'')" "\<not> isDigit (CHR '':'')" by (simp_all add: isDigit_iff)
  have d: "set (nat_str n) \<subseteq> Collect isDigit" for n using isDigit_nat_str[of n] by (auto simp: list_all_iff)
  have "set (string4 ip) \<subseteq> insert (CHR ''.'') (Collect isDigit)" unfolding ip string4_def using d by fastforce
  then show "CHR ''%'' \<notin> set (string4 ip)" "CHR '':'' \<notin> set (string4 ip)" using h by auto
  show "CHR ''.'' \<in> set (string4 ip)" by (simp add: ip string4_def)
qed

lemma dropWhile_first:
  assumes "x \<in> set s" "y \<notin> set s"
  shows "\<exists>rest. dropWhile (\<lambda>c. c \<noteq> x \<and> c \<noteq> y) s = x # rest"
  using assms by (induction s) auto

lemma ParseIP_string4: "length ip = 4 \<Longrightarrow> ParseIP (string4 ip) = mapped4 @ ip"
  using dropWhile_first[of "CHR ''.''" "string4 ip" "CHR '':''"] string4_chars[of ip] parseIPv4Fields_string4[of ip]
  by (auto simp: ParseIP_def)

lemma ParseIP_string6: "length ip = 16 \<Longrightarrow> ParseIP (string6 ip) = ip"
proof -
  assume len: "length ip = 16"
  obtain rest where "dropWhile (\<lambda>c. c \<noteq> CHR '':'' \<and> c \<noteq> CHR ''.'') (string6 ip) = CHR '':'' # rest"
    using dropWhile_first[OF string6_chars(3)[OF len] string6_chars(2)[OF len]] by blast
  then have "dropWhile (\<lambda>c. c \<noteq> CHR ''.'' \<and> c \<noteq> CHR '':'') (string6 ip) = CHR '':'' # rest" by (simp add: conj_commute)
  then show "ParseIP (string6 ip) = ip" using string6_chars(1)[OF len] parseIPv6_string6[OF len] by (simp add: ParseIP_def)
qed

lemma To4_cases: "length (To4 ip) = 4 \<or> To4 ip = []"
  by (auto simp: To4_def)

lemma ParseIP_String: "length ip = 4 \<or> length ip = 16 \<Longrightarrow> ParseIP (String ip) = To16 ip"
proof -
  assume len: "length ip = 4 \<or> length ip = 16"
  have "mapped4 @ drop 12 ip = ip" if "take 12 ip = mapped4" using append_take_drop_id[of 12 ip] that by simp
  then show "ParseIP (String ip) = To16 ip"
    using len To4_cases[of ip] ParseIP_string4[of "To4 ip"] ParseIP_string6[of ip]
    by (auto simp: String_def To4_def To16_def split: if_splits)
qed

end
