(* ===== verification/Go_Cidr.thy ===== *)
theory Go_Cidr
  imports Go_Net
begin

text \<open>
  The networks of \<open>net\<close>: \<open>ParseCIDR\<close>, \<open>Contains\<close>, the text form of a network and the tests for
  link-local addresses.
\<close>

unbundle bit_operations_syntax

definition IsLinkLocalUnicast :: "IP \<Rightarrow> bool" where
  "IsLinkLocalUnicast ip =
     (let ip4 = To4 ip in
      if ip4 \<noteq> [] then ip4 ! 0 = 169 \<and> ip4 ! 1 = 254
      else length ip = 16 \<and> ip ! 0 = 0xFE \<and> ip ! 1 AND 0xC0 = 0x80)"

definition IsLinkLocalMulticast :: "IP \<Rightarrow> bool" where
  "IsLinkLocalMulticast ip =
     (let ip4 = To4 ip in
      if ip4 \<noteq> [] then ip4 ! 0 = 224 \<and> ip4 ! 1 = 0 \<and> ip4 ! 2 = 0
      else length ip = 16 \<and> ip ! 0 = 0xFF \<and> ip ! 1 AND 0x0F = 0x02)"

record IPNet =
  Net_IP :: IP
  Net_Mask :: IP

text \<open>A mask as bits, most significant first.\<close>

definition byteBits :: "8 word \<Rightarrow> bool list" where
  "byteBits b = map (bit b) (rev [0..<8])"

definition bitsByte :: "bool list \<Rightarrow> 8 word" where
  "bitsByte bs = of_nat (foldl (\<lambda>n b. 2 * n + (if b then 1 else 0)) 0 bs)"

definition simpleMaskLength :: "IP \<Rightarrow> nat option" where
  "simpleMaskLength m =
     (let bits = concat (map byteBits m); n = length (takeWhile (\<lambda>b. b) bits)
      in if list_all Not (drop n bits) then Some n else None)"

definition maskByte :: "nat \<Rightarrow> 8 word" where
  "maskByte k = bitsByte (replicate k True @ replicate (8 - k) False)"

fun CIDRMask :: "nat \<Rightarrow> nat \<Rightarrow> IP" where
  "CIDRMask n 0 = []"
| "CIDRMask n (Suc bytes) = maskByte (min n 8) # CIDRMask (n - 8) bytes"

definition networkNumberAndMask :: "IPNet \<Rightarrow> IP \<times> IP" where
  "networkNumberAndMask n =
     (let ip = (if To4 (Net_IP n) \<noteq> [] then To4 (Net_IP n) else if length (Net_IP n) = 16 then Net_IP n else []);
          m = Net_Mask n
      in if ip = [] then ([], [])
         else if length m = 4 then if length ip = 4 then (ip, m) else ([], [])
         else if length m = 16 then (ip, if length ip = 4 then drop 12 m else m)
         else ([], []))"

definition hexByte :: "8 word \<Rightarrow> string" where
  "hexByte b = [hex_char (unat b div 16), hex_char (unat b mod 16)]"

definition netString :: "IPNet \<Rightarrow> string" where
  "netString n =
     (case networkNumberAndMask n of (nn, m) \<Rightarrow>
        if nn = [] then ''<nil>''
        else String nn @ ''/'' @ (case simpleMaskLength m of Some l \<Rightarrow> nat_str l | None \<Rightarrow> concat (map hexByte m)))"

definition netContains :: "IPNet \<Rightarrow> IP \<Rightarrow> bool" where
  "netContains n ip =
     (case networkNumberAndMask n of (nn, m) \<Rightarrow>
        let x = (if To4 ip \<noteq> [] then To4 ip else ip)
        in length x = length nn \<and> list_all (\<lambda>i. nn ! i AND m ! i = x ! i AND m ! i) [0..<length x])"

text \<open>An address text is an IPv4 address if a dot comes before any colon.\<close>

definition isText4 :: "string \<Rightarrow> bool" where
  "isText4 s = (case dropWhile (\<lambda>c. c \<noteq> CHR ''.'' \<and> c \<noteq> CHR '':'') s of [] \<Rightarrow> False | c # _ \<Rightarrow> c = CHR ''.'')"

definition ParseCIDR :: "string \<Rightarrow> IPNet option" where
  "ParseCIDR s =
     (let addr = takeWhile (\<lambda>c. c \<noteq> CHR ''/'') s; rest = dropWhile (\<lambda>c. c \<noteq> CHR ''/'') s; len = tl rest;
          ip = ParseIP addr; bytes = (if isText4 addr then 4 else 16); n = digits_val len;
          raw = (if isText4 addr then drop 12 ip else ip)
      in if rest = [] \<or> ip = [] \<or> len = [] \<or> \<not> list_all isDigit len \<or> n > 8 * bytes then None
         else Some \<lparr>Net_IP = map2 (AND) raw (CIDRMask n bytes), Net_Mask = CIDRMask n bytes\<rparr>)"

end
