(* ===== verification/Go_Json.thy ===== *)
theory Go_Json
  imports Go_Prelude
begin

text \<open>
  \<open>encoding/json\<close> as the program uses it: decoding of a JSON text into a slice of strings. The
  decoder accepts \<open>null\<close> and arrays whose elements are strings or \<open>null\<close> (which decodes to the
  empty string); every other text is an error. Text is ASCII; \<open>\u\<close> escapes decode to UTF-8.
\<close>

definition jsonSpace :: "char \<Rightarrow> bool" where
  "jsonSpace c \<longleftrightarrow> c \<in> {CHR '' '', CHR 0x09, CHR 0x0A, CHR 0x0D}"

definition skipSpace :: "string \<Rightarrow> string" where
  "skipSpace s = dropWhile jsonSpace s"

definition hexDigit :: "char \<Rightarrow> nat option" where
  "hexDigit c =
     (if CHR ''0'' \<le> c \<and> c \<le> CHR ''9'' then Some (of_char c - 48)
      else if CHR ''a'' \<le> c \<and> c \<le> CHR ''f'' then Some (of_char c - 87)
      else if CHR ''A'' \<le> c \<and> c \<le> CHR ''F'' then Some (of_char c - 55)
      else None)"

fun hex4 :: "string \<Rightarrow> (nat \<times> string) option" where
  "hex4 (a # b # c # d # rest) =
     (case (hexDigit a, hexDigit b, hexDigit c, hexDigit d) of
        (Some w, Some x, Some y, Some z) \<Rightarrow> Some (4096 * w + 256 * x + 16 * y + z, rest)
      | _ \<Rightarrow> None)"
| "hex4 _ = None"

definition utf8 :: "nat \<Rightarrow> string" where
  "utf8 n = map char_of
     (if n < 128 then [n]
      else if n < 2048 then [192 + n div 64, 128 + n mod 64]
      else if n < 65536 then [224 + n div 4096, 128 + n div 64 mod 64, 128 + n mod 64]
      else [240 + n div 262144, 128 + n div 4096 mod 64, 128 + n div 64 mod 64, 128 + n mod 64])"

definition replacementRune :: nat where
  "replacementRune = 65533"

definition escapeChar :: "char \<Rightarrow> char option" where
  "escapeChar c = map_of
     [(CHR 0x22, CHR 0x22), (CHR 0x5C, CHR 0x5C), (CHR ''/'', CHR ''/''), (CHR ''b'', CHR 0x08),
      (CHR ''f'', CHR 0x0C), (CHR ''n'', CHR 0x0A), (CHR ''r'', CHR 0x0D), (CHR ''t'', CHR 0x09)] c"

text \<open>The code point of a \<open>\u\<close> escape, with its surrogate pair when one follows.\<close>

definition unicodeEscape :: "string \<Rightarrow> (string \<times> string) option" where
  "unicodeEscape s =
     (case hex4 s of
        None \<Rightarrow> None
      | Some (n, rest) \<Rightarrow>
          if n < 55296 \<or> 57343 < n then Some (utf8 n, rest)
          else case rest of
            a # b # r \<Rightarrow>
              (if a = CHR 0x5C \<and> b = CHR ''u'' then
                 (case hex4 r of
                    Some (m, rest') \<Rightarrow>
                      if n \<le> 56319 \<and> 56320 \<le> m \<and> m \<le> 57343
                      then Some (utf8 (65536 + (n - 55296) * 1024 + (m - 56320)), rest')
                      else Some (utf8 replacementRune, rest)
                  | None \<Rightarrow> Some (utf8 replacementRune, rest))
               else Some (utf8 replacementRune, rest))
          | _ \<Rightarrow> Some (utf8 replacementRune, rest))"

lemma hex4_shorter: "hex4 s = Some (n, rest) \<Longrightarrow> length rest < length s"
  by (cases s rule: hex4.cases) (auto split: option.splits)

lemma unicodeEscape_shorter: "unicodeEscape s = Some (u, rest) \<Longrightarrow> length rest < length s"
  by (auto simp: unicodeEscape_def dest!: hex4_shorter split: option.splits prod.splits if_splits list.splits)

text \<open>The rest of a string literal after its opening quote.\<close>

function jsonString :: "string \<Rightarrow> (string \<times> string) option" where
  "jsonString s =
     (case s of
        [] \<Rightarrow> None
      | c # cs \<Rightarrow>
          if c = CHR 0x22 then Some ([], cs)
          else if c = CHR 0x5C then
            (case cs of
               [] \<Rightarrow> None
             | e # es \<Rightarrow>
                 if e = CHR ''u'' then
                   (case unicodeEscape es of
                      None \<Rightarrow> None
                    | Some (u, rest) \<Rightarrow> map_option (\<lambda>(t, r). (u @ t, r)) (jsonString rest))
                 else
                   (case escapeChar e of
                      None \<Rightarrow> None
                    | Some x \<Rightarrow> map_option (\<lambda>(t, r). (x # t, r)) (jsonString es)))
          else if c < CHR '' '' then None
          else map_option (\<lambda>(t, r). (c # t, r)) (jsonString cs))"
  by pat_completeness auto
termination
  by (relation "measure length") (auto dest: unicodeEscape_shorter)

declare jsonString.simps [simp del]

definition jsonNull :: "string \<Rightarrow> string option" where
  "jsonNull s = (if take 4 s = ''null'' then Some (drop 4 s) else None)"

definition jsonElement :: "string \<Rightarrow> (string \<times> string) option" where
  "jsonElement s =
     (case s of
        [] \<Rightarrow> None
      | c # cs \<Rightarrow>
          if c = CHR 0x22 then jsonString cs
          else map_option (\<lambda>r. ([], r)) (jsonNull s))"

lemma jsonString_shorter: "jsonString s = Some (t, r) \<Longrightarrow> length r < length s"
proof (induction s arbitrary: t r rule: jsonString.induct)
  case (1 s)
  show ?case
  proof (cases s)
    case Nil
    then show ?thesis using "1.prems" by (simp add: jsonString.simps[of "[]"])
  next
    case (Cons c cs)
    then show ?thesis using "1.prems" "1.IH"[OF Cons] unfolding jsonString.simps[of s]
      by (force dest: unicodeEscape_shorter split: if_splits option.splits list.splits)
  qed
qed

lemma jsonElement_shorter: "jsonElement s = Some (t, r) \<Longrightarrow> length r < length s"
  by (auto simp: jsonElement_def jsonNull_def dest: jsonString_shorter split: list.splits if_splits)

text \<open>The elements after the opening bracket, when at least one is expected.\<close>

function jsonElements :: "string \<Rightarrow> (string list \<times> string) option" where
  "jsonElements s =
     (case jsonElement (skipSpace s) of
        None \<Rightarrow> None
      | Some (x, rest) \<Rightarrow>
          (case skipSpace rest of
             [] \<Rightarrow> None
           | c # cs \<Rightarrow>
               if c = CHR '','' then map_option (\<lambda>(xs, r). (x # xs, r)) (jsonElements cs)
               else if c = CHR '']'' then Some ([x], cs)
               else None))"
  by pat_completeness auto
termination
proof (relation "measure length", simp, goal_cases)
  case (1 s p x rest c cs)
  have "length rest < length (skipSpace s)" using 1 by (auto dest: jsonElement_shorter)
  moreover have "length (skipSpace s) \<le> length s" "length (skipSpace rest) \<le> length rest"
    by (simp_all add: skipSpace_def length_dropWhile_le)
  moreover have "length cs < length (skipSpace rest)" using 1 by simp
  ultimately show ?case by simp
qed

declare jsonElements.simps [simp del]

definition UnmarshalStrings :: "string \<Rightarrow> string list option" where
  "UnmarshalStrings s =
     (case skipSpace s of
        [] \<Rightarrow> None
      | c # cs \<Rightarrow>
          if c = CHR ''['' then
            (case skipSpace cs of
               [] \<Rightarrow> None
             | d # ds \<Rightarrow>
                 if d = CHR '']'' then (if skipSpace ds = [] then Some [] else None)
                 else (case jsonElements (d # ds) of
                         None \<Rightarrow> None
                       | Some (xs, rest) \<Rightarrow> if skipSpace rest = [] then Some xs else None))
          else (case jsonNull (c # cs) of
                  None \<Rightarrow> None
                | Some rest \<Rightarrow> if skipSpace rest = [] then Some [] else None))"

end
