(* ===== verification/Go_Json_Value.thy ===== *)
theory Go_Json_Value
  imports Go_Json
begin

text \<open>
  JSON values as \<open>encoding/json\<close> reads them (without its limit of ten thousand nested values) and the
  decoding of a value into a string, a list of strings, and the fields of a struct. Keys are compared
  as \<open>encoding/json\<close> does, without regard to case. \<open>None\<close> is an error of the decoder.
\<close>

datatype json = JNull | JBool bool | JNumber string | JString string | JArray "json list" | JObject "(string \<times> json) list"

subsection \<open>Numbers and literals\<close>

definition takeDigits :: "string \<Rightarrow> string \<times> string" where
  "takeDigits s = (takeWhile isDigit s, dropWhile isDigit s)"

definition numberInt :: "string \<Rightarrow> (string \<times> string) option" where
  "numberInt s =
     (case s of
        [] \<Rightarrow> None
      | c # cs \<Rightarrow>
          if c = CHR ''0'' then Some ([c], cs)
          else if isDigit c then Some (takeDigits s)
          else None)"

definition numberFrac :: "string \<Rightarrow> (string \<times> string) option" where
  "numberFrac s =
     (case s of
        [] \<Rightarrow> Some ([], s)
      | c # cs \<Rightarrow>
          if c = CHR ''.'' then
            (case takeDigits cs of (ds, rest) \<Rightarrow> if ds = [] then None else Some (c # ds, rest))
          else Some ([], s))"

definition numberExp :: "string \<Rightarrow> (string \<times> string) option" where
  "numberExp s =
     (case s of
        [] \<Rightarrow> Some ([], s)
      | c # cs \<Rightarrow>
          if c = CHR ''e'' \<or> c = CHR ''E'' then
            (let sgn = (case cs of d # _ \<Rightarrow> if d = CHR ''+'' \<or> d = CHR ''-'' then [d] else [] | [] \<Rightarrow> []) in
             case takeDigits (drop (length sgn) cs) of (ds, rest) \<Rightarrow> if ds = [] then None else Some (c # sgn @ ds, rest))
          else Some ([], s))"

definition jsonNumber :: "string \<Rightarrow> (json \<times> string) option" where
  "jsonNumber s =
     (let minus = takeWhile (\<lambda>c. c = CHR ''-'') (take 1 s) in
      Option.bind (numberInt (drop (length minus) s)) (\<lambda>(i, r1).
      Option.bind (numberFrac r1) (\<lambda>(f, r2).
      Option.bind (numberExp r2) (\<lambda>(e, r3). Some (JNumber (minus @ i @ f @ e), r3)))))"

definition jsonLiteral :: "string \<Rightarrow> (json \<times> string) option" where
  "jsonLiteral s =
     (if take 4 s = ''null'' then Some (JNull, drop 4 s)
      else if take 4 s = ''true'' then Some (JBool True, drop 4 s)
      else if take 5 s = ''false'' then Some (JBool False, drop 5 s)
      else jsonNumber s)"

subsection \<open>Values\<close>

text \<open>The key of a member and its colon.\<close>

definition memberKey :: "string \<Rightarrow> (string \<times> string) option" where
  "memberKey s =
     (case skipSpace s of
        [] \<Rightarrow> None
      | q # qs \<Rightarrow>
          if q \<noteq> CHR 0x22 then None
          else case jsonString qs of
            None \<Rightarrow> None
          | Some (k, r) \<Rightarrow>
              (case skipSpace r of [] \<Rightarrow> None | d # ds \<Rightarrow> if d = CHR '':'' then Some (k, ds) else None))"

text \<open>The first argument bounds the number of calls; every pair of nested calls reads a character.\<close>

fun parseValue :: "nat \<Rightarrow> string \<Rightarrow> (json \<times> string) option"
  and parseElements :: "nat \<Rightarrow> string \<Rightarrow> (json list \<times> string) option"
  and parseMembers :: "nat \<Rightarrow> string \<Rightarrow> ((string \<times> json) list \<times> string) option" where
  "parseValue 0 s = None"
| "parseValue (Suc n) s =
     (case skipSpace s of
        [] \<Rightarrow> None
      | c # cs \<Rightarrow>
          if c = CHR 0x22 then map_option (\<lambda>(t, r). (JString t, r)) (jsonString cs)
          else if c = CHR ''['' then
            (if take 1 (skipSpace cs) = '']'' then Some (JArray [], tl (skipSpace cs))
             else map_option (\<lambda>(vs, r). (JArray vs, r)) (parseElements n cs))
          else if c = CHR ''{'' then
            (if take 1 (skipSpace cs) = ''}'' then Some (JObject [], tl (skipSpace cs))
             else map_option (\<lambda>(ms, r). (JObject ms, r)) (parseMembers n cs))
          else jsonLiteral (c # cs))"
| "parseElements 0 s = None"
| "parseElements (Suc n) s =
     (case parseValue n s of
        None \<Rightarrow> None
      | Some (v, rest) \<Rightarrow>
          (case skipSpace rest of
             [] \<Rightarrow> None
           | c # cs \<Rightarrow>
               if c = CHR '','' then map_option (\<lambda>(vs, r). (v # vs, r)) (parseElements n cs)
               else if c = CHR '']'' then Some ([v], cs)
               else None))"
| "parseMembers 0 s = None"
| "parseMembers (Suc n) s =
     (case memberKey s of
        None \<Rightarrow> None
      | Some (k, ds) \<Rightarrow>
          (case parseValue n ds of
             None \<Rightarrow> None
           | Some (v, rest) \<Rightarrow>
               (case skipSpace rest of
                  [] \<Rightarrow> None
                | c # cs \<Rightarrow>
                    if c = CHR '','' then map_option (\<lambda>(ms, r). ((k, v) # ms, r)) (parseMembers n cs)
                    else if c = CHR ''}'' then Some ([(k, v)], cs)
                    else None)))"

definition jsonFuel :: "string \<Rightarrow> nat" where
  "jsonFuel s = 2 * length s + 2"

definition parseJson :: "string \<Rightarrow> json option" where
  "parseJson s =
     (case parseValue (jsonFuel s) s of
        None \<Rightarrow> None
      | Some (v, rest) \<Rightarrow> if skipSpace rest = [] then Some v else None)"

subsection \<open>Decoding\<close>

text \<open>A null leaves the zero value of the target.\<close>

definition decodeString :: "json \<Rightarrow> string option" where
  "decodeString v = (case v of JString s \<Rightarrow> Some s | JNull \<Rightarrow> Some [] | _ \<Rightarrow> None)"

fun decodeList :: "('j \<Rightarrow> 'a option) \<Rightarrow> 'j list \<Rightarrow> 'a list option" where
  "decodeList d [] = Some []"
| "decodeList d (v # vs) = (case d v of None \<Rightarrow> None | Some x \<Rightarrow> map_option ((#) x) (decodeList d vs))"

definition decodeArray :: "(json \<Rightarrow> 'a option) \<Rightarrow> json \<Rightarrow> 'a list option" where
  "decodeArray d v = (case v of JArray vs \<Rightarrow> decodeList d vs | JNull \<Rightarrow> Some [] | _ \<Rightarrow> None)"

text \<open>A struct: every member whose key names a field is decoded into it in order, the others are
  skipped. \<open>upd\<close> gives the update for a key, or \<open>None\<close> for a value of a wrong type.\<close>

definition decodeStruct :: "(string \<Rightarrow> json \<Rightarrow> 'r \<Rightarrow> 'r option) \<Rightarrow> 'r \<Rightarrow> json \<Rightarrow> 'r option" where
  "decodeStruct upd zero v =
     (case v of JObject ms \<Rightarrow> ofold (\<lambda>(k, x). upd (ToLower k) x) ms zero | JNull \<Rightarrow> Some zero | _ \<Rightarrow> None)"

subsection \<open>Enough calls\<close>

lemma skipSpace_length: "length (skipSpace s) \<le> length s"
  by (simp add: skipSpace_def length_dropWhile_le)

lemma takeDigits_rest: "takeDigits s = (ds, rest) \<Longrightarrow> length rest \<le> length s \<and> (ds \<noteq> [] \<longrightarrow> length rest < length s)"
proof -
  assume "takeDigits s = (ds, rest)"
  then have "length ds + length rest = length s"
    by (auto simp: takeDigits_def simp flip: length_append)
  then show ?thesis by (cases ds) auto
qed

lemma numberInt_shorter: "numberInt s = Some (i, r) \<Longrightarrow> length r < length s"
  by (auto simp: numberInt_def takeDigits_def length_dropWhile_le less_Suc_eq_le split: list.splits if_splits)

lemma jsonNumber_shorter: "jsonNumber s = Some (v, r) \<Longrightarrow> length r < length s"
proof -
  assume a: "jsonNumber s = Some (v, r)"
  let ?m = "takeWhile (\<lambda>c. c = CHR ''-'') (take 1 s)"
  obtain i r1 f r2 e where 1: "numberInt (drop (length ?m) s) = Some (i, r1)" and 2: "numberFrac r1 = Some (f, r2)"
    and 3: "numberExp r2 = Some (e, r)"
    using a by (auto simp: jsonNumber_def Let_def bind_eq_Some_conv)
  have "length r1 < length (drop (length ?m) s)"
    using 1 by (rule numberInt_shorter)
  moreover have "length r2 \<le> length r1"
    using 2 takeDigits_rest by (fastforce simp: numberFrac_def split: list.splits if_splits prod.splits)
  moreover have "length r \<le> length r2"
    using 3 by (auto simp: numberExp_def Let_def dest!: takeDigits_rest split: list.splits if_splits prod.splits)
  ultimately show ?thesis by simp
qed

lemma jsonLiteral_shorter: "jsonLiteral s = Some (v, r) \<Longrightarrow> length r < length s"
  by (cases s) (auto simp: jsonLiteral_def dest: jsonNumber_shorter split: if_splits)

lemma skipSpace_Cons_length: "skipSpace s = c # cs \<Longrightarrow> length cs < length s"
  using skipSpace_length[of s] by simp

lemma tl_skipSpace_length: "length (tl (skipSpace s)) \<le> length s"
  using skipSpace_length[of s] by simp

lemmas parser_shorter = jsonString_shorter jsonLiteral_shorter skipSpace_Cons_length

lemma parseValue_shorter_step:
  assumes "\<And>cs vs r. parseElements n cs = Some (vs, r) \<Longrightarrow> length r < length cs"
    and "\<And>cs ms r. parseMembers n cs = Some (ms, r) \<Longrightarrow> length r < length cs"
    and "parseValue (Suc n) s = Some (v, r)"
  shows "length r < length s"
proof -
  obtain c cs where c: "skipSpace s = c # cs" using assms(3) by (auto split: list.splits)
  have "length r \<le> length cs"
    using assms(3) assms(1)[of cs] assms(2)[of cs] tl_skipSpace_length[of cs] jsonLiteral_shorter[of "c # cs"]
    by (auto simp: c split: if_splits dest: jsonString_shorter) 
  then show ?thesis using skipSpace_Cons_length[OF c] by simp
qed

lemma memberKey_shorter: "memberKey s = Some (k, ds) \<Longrightarrow> length ds < length s"
  by (fastforce simp: memberKey_def dest!: jsonString_shorter skipSpace_Cons_length split: list.splits if_splits option.splits)

lemma parse_shorter:
  "(\<forall>s v r. parseValue n s = Some (v, r) \<longrightarrow> length r < length s)
   \<and> (\<forall>s vs r. parseElements n s = Some (vs, r) \<longrightarrow> length r < length s)
   \<and> (\<forall>s ms r. parseMembers n s = Some (ms, r) \<longrightarrow> length r < length s)"
proof (induction n)
  case 0
  then show ?case by simp
next
  case (Suc n)
  then have v: "\<And>s v r. parseValue n s = Some (v, r) \<Longrightarrow> length r < length s"
    and e: "\<And>s vs r. parseElements n s = Some (vs, r) \<Longrightarrow> length r < length s"
    and m: "\<And>s ms r. parseMembers n s = Some (ms, r) \<Longrightarrow> length r < length s" by blast+
  have "length r < length s" if "parseElements (Suc n) s = Some (vs, r)" for s vs r
    using that by (fastforce dest!: v e skipSpace_Cons_length split: option.splits list.splits if_splits)
  moreover have "length r < length s" if "parseMembers (Suc n) s = Some (ms, r)" for s ms r
    using that by (fastforce dest!: v m skipSpace_Cons_length memberKey_shorter split: option.splits list.splits if_splits)
  moreover have "length r < length s" if "parseValue (Suc n) s = Some (v, r)" for s v r
    using e m that by (rule parseValue_shorter_step)
  ultimately show ?case by blast
qed

text \<open>More calls than \<open>jsonFuel\<close> allows give no other result.\<close>

lemma parse_Suc:
  "(\<forall>s. 2 * length s + 1 \<le> n \<longrightarrow> parseValue (Suc n) s = parseValue n s)
   \<and> (\<forall>s. 2 * length s + 2 \<le> n \<longrightarrow> parseElements (Suc n) s = parseElements n s)
   \<and> (\<forall>s. 2 * length s + 2 \<le> n \<longrightarrow> parseMembers (Suc n) s = parseMembers n s)"
proof (induction n)
  case 0
  then show ?case by simp
next
  case (Suc n)
  then have v: "\<And>s. 2 * length s + 1 \<le> n \<Longrightarrow> parseValue (Suc n) s = parseValue n s"
    and e: "\<And>s. 2 * length s + 2 \<le> n \<Longrightarrow> parseElements (Suc n) s = parseElements n s"
    and m: "\<And>s. 2 * length s + 2 \<le> n \<Longrightarrow> parseMembers (Suc n) s = parseMembers n s" by blast+
  have "parseValue (Suc (Suc n)) s = parseValue (Suc n) s" if l: "2 * length s + 1 \<le> Suc n" for s
  proof (cases "skipSpace s")
    case (Cons c cs)
    then have "2 * length cs + 2 \<le> n" using l skipSpace_Cons_length[OF Cons] by simp
    then show ?thesis using Cons by (simp only: parseValue.simps(2) e m list.case)
  qed simp
  moreover have "parseElements (Suc (Suc n)) s = parseElements (Suc n) s" if l: "2 * length s + 2 \<le> Suc n" for s
  proof (cases "parseValue n s")
    case None
    then show ?thesis using l v[of s] by (simp only: parseElements.simps(2)) simp
  next
    case (Some p)
    obtain w rest where p: "p = (w, rest)" by (cases p)
    have "length rest < length s" using parse_shorter Some p by blast
    then have "parseElements (Suc n) cs = parseElements n cs" if "skipSpace rest = c # cs" for c cs
      using skipSpace_Cons_length[OF that] l by (intro e) simp
    then show ?thesis using l v[of s] Some p
      by (simp only: parseElements.simps(2)) (auto split: list.splits)
  qed
  moreover have "parseMembers (Suc (Suc n)) s = parseMembers (Suc n) s" if l: "2 * length s + 2 \<le> Suc n" for s
  proof (cases "memberKey s")
    case None
    then show ?thesis by (simp only: parseMembers.simps(2)) simp
  next
    case (Some q)
    obtain k ds where q: "q = (k, ds)" by (cases q)
    have d: "length ds < length s" using memberKey_shorter Some q by blast
    then have vd: "parseValue (Suc n) ds = parseValue n ds" using l by (intro v) simp
    have "parseMembers (Suc n) cs = parseMembers n cs" if "parseValue n ds = Some (w, rest)" "skipSpace rest = c # cs" for w rest c cs
    proof -
      have "length rest < length ds" using parse_shorter that(1) by blast
      then show ?thesis using skipSpace_Cons_length[OF that(2)] l d by (intro m) simp
    qed
    then show ?thesis using Some q vd
      by (simp only: parseMembers.simps(2)) (auto split: list.splits option.splits)
  qed
  ultimately show ?case by blast
qed

lemma parseValue_enough:
  assumes "jsonFuel s \<le> n"
  shows "parseValue n s = parseValue (jsonFuel s) s"
  using assms
proof (induction n rule: dec_induct)
  case (step n)
  then show ?case using parse_Suc[of n] by (simp add: jsonFuel_def)
qed simp

end
