(* ===== verification/Flow_Resolve.thy ===== *)
theory Flow_Resolve
  imports Go_Strings Go_Cidr Go_Json_Value
begin

text \<open>
  The ends of RDMA flows, \<open>src/pkg/agent/ebpfflow/resolve.go\<close> and \<open>owners.go\<close>, with the helpers of
  \<open>component.go\<close> that turn a GID into an address. A process is attributed to a pod through the pod UID
  in its cgroup, and a destination through the addresses and hardware addresses of the pods of the
  cluster. The answers of the API server are arguments, as is the content of \<open>/proc/<tgid>/cgroup\<close>.
  Log messages are not modelled.
\<close>

subsection \<open>Owners of pods\<close>

record ownerInfo =
  Oi_Kind :: string
  Oi_Namespace :: string
  Oi_Name :: string

record OwnerReference =
  Own_APIVersion :: string
  Own_Kind :: string
  Own_Name :: string
  Own_UID :: string
  Own_Controller :: "bool option"
  Own_BlockOwnerDeletion :: "bool option"

definition knownOwnerResources :: "(string, (string, string) gomap) gomap" where
  "knownOwnerResources =
    [(''apps/v1'', [(''Deployment'', ''deployments''), (''ReplicaSet'', ''replicasets''),
        (''StatefulSet'', ''statefulsets''), (''DaemonSet'', ''daemonsets'')]),
     (''batch/v1'', [(''Job'', ''jobs''), (''CronJob'', ''cronjobs'')]),
     (''kubeflow.org/v1'', [(''PyTorchJob'', ''pytorchjobs''), (''TFJob'', ''tfjobs''), (''MPIJob'', ''mpijobs''),
        (''XGBoostJob'', ''xgboostjobs''), (''PaddleJob'', ''paddlejobs''), (''JAXJob'', ''jaxjobs'')]),
     (''kubeflow.org/v2beta1'', [(''MPIJob'', ''mpijobs'')]),
     (''trainer.kubeflow.org/v1alpha1'', [(''TrainJob'', ''trainjobs'')]),
     (''jobset.x-k8s.io/v1alpha2'', [(''JobSet'', ''jobsets'')]),
     (''leaderworkerset.x-k8s.io/v1'', [(''LeaderWorkerSet'', ''leaderworkersets'')]),
     (''ray.io/v1'', [(''RayCluster'', ''rayclusters''), (''RayJob'', ''rayjobs''), (''RayService'', ''rayservices'')]),
     (''batch.volcano.sh/v1alpha1'', [(''Job'', ''jobs'')])]"

definition clusterScopedOwnerKinds :: "(string, bool) gomap" where
  "clusterScopedOwnerKinds = [(''Node'', True)]"

definition maxOwnerDepth :: nat where "maxOwnerDepth = 8"

text \<open>\<open>Get\<close> of the API reader: the owner references of the object of a kind in a namespace, or an error.\<close>

type_synonym ownerReader = "string \<Rightarrow> string \<Rightarrow> string \<Rightarrow> string \<Rightarrow> OwnerReference list option"

record ownerResolver =
  Ow_reader :: "ownerReader option"
  Ow_objects :: "(string, OwnerReference list) gomap"

definition newOwnerResolver :: "ownerReader option \<Rightarrow> ownerResolver" where
  "newOwnerResolver reader = \<lparr>Ow_reader = reader, Ow_objects = []\<rparr>"

definition controllerRef :: "OwnerReference list \<Rightarrow> OwnerReference option" where
  "controllerRef refs =
     (if refs = [] then None
      else case find (\<lambda>ref. Own_Controller ref = Some True) refs of Some ref \<Rightarrow> Some ref | None \<Rightarrow> Some (refs ! 0))"

text \<open>The references of an object, from the cache when it was read before.\<close>

definition fetch :: "ownerReader \<Rightarrow> ownerResolver \<Rightarrow> OwnerReference \<Rightarrow> string \<Rightarrow> OwnerReference list option \<times> ownerResolver" where
  "fetch reader r ref namespace =
     (case map_of (Ow_objects r) (Own_UID ref) of
        Some refs \<Rightarrow> (Some refs, r)
      | None \<Rightarrow>
          (case reader (Own_APIVersion ref) (Own_Kind ref) namespace (Own_Name ref) of
             None \<Rightarrow> (None, r)
           | Some refs \<Rightarrow> (Some refs, r\<lparr>Ow_objects := mput (Own_UID ref) refs (Ow_objects r)\<rparr>)))"

definition knownOwner :: "OwnerReference \<Rightarrow> bool" where
  "knownOwner ref = (map_of (mgetd [] knownOwnerResources (Own_APIVersion ref)) (Own_Kind ref) \<noteq> None)"

text \<open>The loop of \<open>topOwner\<close>, with the number of rounds left. A resolver may be missing.\<close>

fun ownerLoop :: "nat \<Rightarrow> string \<Rightarrow> ownerInfo \<Rightarrow> OwnerReference list \<Rightarrow> ownerResolver option \<Rightarrow> ownerInfo \<times> ownerResolver option" where
  "ownerLoop 0 namespace current refs res = (current, res)"
| "ownerLoop (Suc n) namespace current refs res =
     (case controllerRef refs of
        None \<Rightarrow> (current, res)
      | Some ref \<Rightarrow>
          let current' = \<lparr>Oi_Kind = Own_Kind ref, Oi_Namespace = namespace, Oi_Name = Own_Name ref\<rparr> in
          if mgetd False clusterScopedOwnerKinds (Own_Kind ref) then (current'\<lparr>Oi_Namespace := []\<rparr>, res)
          else if \<not> knownOwner ref then (current', res)
          else case res of
            None \<Rightarrow> (current', res)
          | Some r \<Rightarrow>
              (case Ow_reader r of
                 None \<Rightarrow> (current', res)
               | Some reader \<Rightarrow>
                   (case fetch reader r ref namespace of
                      (None, r') \<Rightarrow> (current', Some r')
                    | (Some refs', r') \<Rightarrow> ownerLoop n namespace current' refs' (Some r'))))"

definition topOwner :: "ownerResolver option \<Rightarrow> string \<Rightarrow> string \<Rightarrow> OwnerReference list \<Rightarrow> ownerInfo \<times> ownerResolver option" where
  "topOwner res namespace name refs =
     ownerLoop maxOwnerDepth namespace \<lparr>Oi_Kind = ''Pod'', Oi_Namespace = namespace, Oi_Name = name\<rparr> refs res"

subsection \<open>Peers\<close>

record peer =
  Pe_Namespace :: string
  Pe_Name :: string
  Pe_Owner :: ownerInfo
  Pe_label :: string
  Pe_hostNetwork :: bool

definition noOwner :: ownerInfo where
  "noOwner = \<lparr>Oi_Kind = [], Oi_Namespace = [], Oi_Name = []\<rparr>"

definition labelPeer :: "string \<Rightarrow> peer" where
  "labelPeer l = \<lparr>Pe_Namespace = [], Pe_Name = [], Pe_Owner = noOwner, Pe_label = l, Pe_hostNetwork = False\<rparr>"

definition noPeer :: peer where
  "noPeer = labelPeer []"

definition isPod :: "peer \<Rightarrow> bool" where
  "isPod p \<longleftrightarrow> Pe_Name p \<noteq> []"

definition peerString :: "peer \<Rightarrow> string" where
  "peerString p =
     (if isPod p then Pe_Namespace p @ ''/'' @ Pe_Name p
      else if Pe_label p = [] then ''unknown'' else Pe_label p)"

text \<open>What an \<open>RDMAEndpoint\<close> tells of a pod that holds an address: see \<open>endpoint.go\<close>.\<close>

record reportedPod =
  Rp_uid :: string
  Rp_node :: string
  Rp_devices :: "string list"
  Rp_qpns :: "(32 word, string) gomap"

record resolver =
  Rs_client :: bool
  Rs_podReader :: bool
  Rs_owners :: "ownerResolver option"
  Rs_byUID :: "(string, peer) gomap"
  Rs_byIP :: "(string, peer) gomap"
  Rs_byMAC :: "(string, peer) gomap"
  Rs_uidByTgid :: "(32 word, string) gomap"
  Rs_gidPods :: "(string, reportedPod list) gomap"
  Rs_gidNodes :: "(string, string list) gomap"
  Rs_localPorts :: "(string, string) gomap"

definition newResolver :: "bool \<Rightarrow> ownerReader option \<Rightarrow> bool \<Rightarrow> resolver" where
  "newResolver hasClient apiReader hasPodReader =
     \<lparr>Rs_client = hasClient, Rs_podReader = hasPodReader,
      Rs_owners = (if hasClient then Some (newOwnerResolver apiReader) else None),
      Rs_byUID = [], Rs_byIP = [], Rs_byMAC = [], Rs_uidByTgid = [], Rs_gidPods = [], Rs_gidNodes = [], Rs_localPorts = []\<rparr>"

subsection \<open>Addresses\<close>

definition gidToIP :: "8 word list \<Rightarrow> string" where
  "gidToIP gid =
     (if gid = replicate 16 0 then []
      else if take 10 gid = replicate 10 0 \<and> gid ! 10 = 0xFF \<and> gid ! 11 = 0xFF then String (take 4 (drop 12 gid))
      else String gid)"

definition cString :: "8 word list \<Rightarrow> string" where
  "cString b = map (\<lambda>w. char_of (unat w)) (takeWhile (\<lambda>w. w \<noteq> 0) b)"

definition comm :: "8 word list \<Rightarrow> string" where
  "comm b = cString b"

text \<open>\<open>HardwareAddr.String\<close> and \<open>ParseMAC\<close> of \<open>net\<close>.\<close>

definition macString :: "8 word list \<Rightarrow> string" where
  "macString mac = Join (map hexByte mac) '':''"

definition hexPair :: "char \<Rightarrow> char \<Rightarrow> 8 word option" where
  "hexPair a b = (case (hexVal a, hexVal b) of (Some x, Some y) \<Rightarrow> Some (of_nat (16 * x + y)) | _ \<Rightarrow> None)"

fun macPairs :: "char \<Rightarrow> string \<Rightarrow> 8 word list option" where
  "macPairs sep (a # b # rest) =
     (case hexPair a b of
        None \<Rightarrow> None
      | Some w \<Rightarrow> (case rest of [] \<Rightarrow> Some [w] | c # cs \<Rightarrow> if c = sep then map_option ((#) w) (macPairs sep cs) else None))"
| "macPairs sep _ = None"

fun macQuads :: "string \<Rightarrow> 8 word list option" where
  "macQuads (a # b # c # d # rest) =
     (case (hexPair a b, hexPair c d) of
        (Some v, Some w) \<Rightarrow>
          (case rest of [] \<Rightarrow> Some [v, w] | e # es \<Rightarrow> if e = CHR ''.'' then map_option (\<lambda>ws. v # w # ws) (macQuads es) else None)
      | _ \<Rightarrow> None)"
| "macQuads _ = None"

definition ParseMAC :: "string \<Rightarrow> 8 word list option" where
  "ParseMAC s =
     (if length s < 14 then None
      else case (if s ! 2 = CHR '':'' \<or> s ! 2 = CHR ''-'' then macPairs (s ! 2) s
                 else if s ! 4 = CHR ''.'' then macQuads s else None) of
        None \<Rightarrow> None
      | Some hw \<Rightarrow> if length hw \<in> {6, 8, 20} then Some hw else None)"

definition normalizeMAC :: "string \<Rightarrow> string" where
  "normalizeMAC value = (case ParseMAC (TrimSpace value) of None \<Rightarrow> [] | Some mac \<Rightarrow> macString mac)"

text \<open>The address that \<open>ParseCIDR\<close> returns besides the network is not masked.\<close>

definition ParseCIDRAddr :: "string \<Rightarrow> IP option" where
  "ParseCIDRAddr s = (case ParseCIDR s of None \<Rightarrow> None | Some _ \<Rightarrow> Some (ParseIP (takeWhile (\<lambda>c. c \<noteq> CHR ''/'') s)))"

definition normalizeIP :: "string \<Rightarrow> string" where
  "normalizeIP value =
     (let v = TrimSpace value in
      if ParseIP v \<noteq> [] then String (ParseIP v)
      else case ParseCIDRAddr v of Some ip \<Rightarrow> String ip | None \<Rightarrow> [])"

definition eui64MAC :: "string \<Rightarrow> string" where
  "eui64MAC value =
     (let ip = ParseIP value; ip16 = To16 ip in
      if ip = [] then []
      else if ip16 = [] \<or> To4 ip \<noteq> [] \<or> \<not> IsLinkLocalUnicast ip16 then []
      else if ip16 ! 11 \<noteq> 0xFF \<or> ip16 ! 12 \<noteq> 0xFE then []
      else macString [ip16 ! 8 XOR 2, ip16 ! 9, ip16 ! 10, ip16 ! 13, ip16 ! 14, ip16 ! 15])"

subsection \<open>Annotations\<close>

definition networkStatusAnnotation :: string where "networkStatusAnnotation = ''k8s.v1.cni.cncf.io/network-status''"
definition calicoPodIPAnnotation :: string where "calicoPodIPAnnotation = ''cni.projectcalico.org/podIP''"
definition calicoPodIPsAnnotation :: string where "calicoPodIPsAnnotation = ''cni.projectcalico.org/podIPs''"

record networkStatus =
  Ns_IPs :: "string list"
  Ns_MAC :: string

definition setNetworkStatus :: "string \<Rightarrow> json \<Rightarrow> networkStatus \<Rightarrow> networkStatus option" where
  "setNetworkStatus key v st =
     (if key = ''ips'' then map_option (\<lambda>ips. st\<lparr>Ns_IPs := ips\<rparr>) (decodeArray decodeString v)
      else if key = ''mac'' then (if v = JNull then Some st else map_option (\<lambda>mac. st\<lparr>Ns_MAC := mac\<rparr>) (decodeString v))
      else Some st)"

definition decodeNetworkStatus :: "json \<Rightarrow> networkStatus option" where
  "decodeNetworkStatus = decodeStruct setNetworkStatus \<lparr>Ns_IPs = [], Ns_MAC = []\<rparr>"

definition parseNetworkStatus :: "string \<Rightarrow> networkStatus list" where
  "parseNetworkStatus raw =
     (if TrimSpace raw = [] then []
      else case parseJson raw of
        None \<Rightarrow> []
      | Some v \<Rightarrow>
          (case decodeArray decodeNetworkStatus v of
             Some statuses \<Rightarrow> statuses
           | None \<Rightarrow> (case decodeNetworkStatus v of None \<Rightarrow> [] | Some status \<Rightarrow> [status])))"

text \<open>The loops that keep the first occurrence of every usable normalized value.\<close>

definition addUnique :: "(string \<Rightarrow> string) \<Rightarrow> string \<Rightarrow> (string, bool) gomap \<times> string list \<Rightarrow> (string, bool) gomap \<times> string list" where
  "addUnique canon value = (\<lambda>(seen, out).
     let x = canon value in
     if x = [] \<or> mgetd False seen x then (seen, out) else (mput x True seen, out @ [x]))"

definition uniqueNormalized :: "(string \<Rightarrow> string) \<Rightarrow> string list \<Rightarrow> string list" where
  "uniqueNormalized canon values = snd (fold (addUnique canon) values ([], []))"

definition networkStatusIPs :: "string \<Rightarrow> string list" where
  "networkStatusIPs raw = uniqueNormalized normalizeIP (concat (map Ns_IPs (parseNetworkStatus raw)))"

definition podAnnotationMACs :: "(string, string) gomap \<Rightarrow> string list" where
  "podAnnotationMACs annotations =
     uniqueNormalized normalizeMAC (map Ns_MAC (parseNetworkStatus (mgetd [] annotations networkStatusAnnotation)))"

definition annotationIPs :: "string \<Rightarrow> string list" where
  "annotationIPs raw0 =
     (let raw = TrimSpace raw0 in
      if raw = [] then []
      else let values = (case Option.bind (parseJson raw) (decodeArray decodeString) of
             Some vs \<Rightarrow> vs
           | None \<Rightarrow> (case Option.bind (parseJson raw) decodeString of
               Some v \<Rightarrow> [v]
             | None \<Rightarrow> FieldsFunc (\<lambda>c. c = CHR '','' \<or> isSpace c) raw))
        in uniqueNormalized normalizeIP values)"

definition podAnnotationIPs :: "(string, string) gomap \<Rightarrow> string list" where
  "podAnnotationIPs annotations =
     uniqueNormalized normalizeIP
       (networkStatusIPs (mgetd [] annotations networkStatusAnnotation)
        @ annotationIPs (mgetd [] annotations calicoPodIPAnnotation)
        @ annotationIPs (mgetd [] annotations calicoPodIPsAnnotation))"

subsection \<open>The index of pods\<close>

record flowPod =
  Fp_Namespace :: string
  Fp_Name :: string
  Fp_UID :: string
  Fp_OwnerReferences :: "OwnerReference list"
  Fp_HostNetwork :: bool
  Fp_PodIP :: string
  Fp_PodIPs :: "string list"
  Fp_Annotations :: "(string, string) gomap"

record podIndex =
  Ix_owners :: "ownerResolver option"
  Ix_byUID :: "(string, peer) gomap"
  Ix_byIP :: "(string, peer) gomap"
  Ix_byMAC :: "(string, peer) gomap"

definition addPodIP :: "peer \<Rightarrow> string \<Rightarrow> (string, peer) gomap \<Rightarrow> (string, peer) gomap" where
  "addPodIP p ip byIP = (let normalized = normalizeIP ip in if normalized \<noteq> [] then mput normalized p byIP else byIP)"

definition podAddresses :: "flowPod \<Rightarrow> string list" where
  "podAddresses item = Fp_PodIP item # Fp_PodIPs item @ podAnnotationIPs (Fp_Annotations item)"

definition indexPod :: "flowPod \<Rightarrow> podIndex \<Rightarrow> podIndex" where
  "indexPod item ix =
     (case topOwner (Ix_owners ix) (Fp_Namespace item) (Fp_Name item) (Fp_OwnerReferences item) of (owner, owners) \<Rightarrow>
      let p = \<lparr>Pe_Namespace = Fp_Namespace item, Pe_Name = Fp_Name item, Pe_Owner = owner, Pe_label = [],
               Pe_hostNetwork = Fp_HostNetwork item\<rparr>;
          byUID = mput (ToLower (Fp_UID item)) p (Ix_byUID ix)
      in if Fp_HostNetwork item then ix\<lparr>Ix_owners := owners, Ix_byUID := byUID\<rparr>
         else \<lparr>Ix_owners = owners, Ix_byUID = byUID,
               Ix_byIP = fold (addPodIP p) (podAddresses item) (Ix_byIP ix),
               Ix_byMAC = fold (\<lambda>mac. mput mac p) (podAnnotationMACs (Fp_Annotations item)) (Ix_byMAC ix)\<rparr>)"

text \<open>\<open>refresh\<close> up to the call of \<open>refreshEndpoints\<close>. The second component is false when it returned early;
  a failed list is \<open>None\<close>.\<close>

definition refreshPods :: "flowPod list option \<Rightarrow> resolver \<Rightarrow> resolver \<times> bool" where
  "refreshPods list r =
     (if \<not> Rs_client r \<or> \<not> Rs_podReader r then (r, False)
      else case list of
        None \<Rightarrow> (r, False)
      | Some items \<Rightarrow>
          let ix = fold indexPod items \<lparr>Ix_owners = Rs_owners r, Ix_byUID = [], Ix_byIP = [], Ix_byMAC = []\<rparr>
          in (r\<lparr>Rs_owners := Ix_owners ix, Rs_byUID := Ix_byUID ix, Rs_byIP := Ix_byIP ix, Rs_byMAC := Ix_byMAC ix\<rparr>, True))"

subsection \<open>Processes\<close>

text \<open>The match of \<open>podUIDPattern\<close> at the start of a text: lower-case hexadecimal digits in groups of 8, 4,
  4, 4 and 12, with a dash or underscore between the groups.\<close>

definition lowerHex :: "char \<Rightarrow> bool" where
  "lowerHex c \<longleftrightarrow> isDigit c \<or> (CHR ''a'' \<le> c \<and> c \<le> CHR ''f'')"

definition uidShape :: "(char \<Rightarrow> bool) list" where
  "uidShape =
     (let sep = (\<lambda>c. c = CHR ''-'' \<or> c = CHR ''_''); hex = (\<lambda>n. replicate n lowerHex)
      in hex 8 @ [sep] @ hex 4 @ [sep] @ hex 4 @ [sep] @ hex 4 @ [sep] @ hex 12)"

definition matchesUID :: "string \<Rightarrow> bool" where
  "matchesUID s = (length s \<ge> length uidShape \<and> list_all2 (\<lambda>p c. p c) uidShape (take (length uidShape) s))"

fun findPodUID :: "string \<Rightarrow> string option" where
  "findPodUID [] = None"
| "findPodUID (c # cs) =
     (if take 3 (c # cs) = ''pod'' \<and> matchesUID (drop 3 (c # cs)) then Some (take (length uidShape) (drop 3 (c # cs)))
      else findPodUID cs)"

definition cgroupPodUID :: "(32 word \<Rightarrow> string option) \<Rightarrow> 32 word \<Rightarrow> string" where
  "cgroupPodUID readCgroup tgid =
     (case readCgroup tgid of
        None \<Rightarrow> []
      | Some data \<Rightarrow> (case findPodUID data of None \<Rightarrow> [] | Some m \<Rightarrow> ToLower (ReplaceAll m (CHR ''_'') ''-'')))"

definition podUIDForTgid :: "(32 word \<Rightarrow> string option) \<Rightarrow> 32 word \<Rightarrow> resolver \<Rightarrow> string \<times> resolver" where
  "podUIDForTgid readCgroup tgid r =
     (case map_of (Rs_uidByTgid r) tgid of
        Some uid \<Rightarrow> (uid, r)
      | None \<Rightarrow>
          let uid = cgroupPodUID readCgroup tgid
          in if uid \<noteq> [] then (uid, r\<lparr>Rs_uidByTgid := mput tgid uid (Rs_uidByTgid r)\<rparr>) else (uid, r))"

definition podForTgid :: "(32 word \<Rightarrow> string option) \<Rightarrow> 32 word \<Rightarrow> string \<Rightarrow> resolver \<Rightarrow> peer \<times> resolver" where
  "podForTgid readCgroup tgid commName r =
     (case podUIDForTgid readCgroup tgid r of (uid, r') \<Rightarrow>
      let label = ''pid:'' @ nat_str (unat tgid) @ (if commName \<noteq> [] then ''('' @ commName @ '')'' else [])
      in if uid = [] then (labelPeer label, r')
         else case map_of (Rs_byUID r') uid of
           Some p \<Rightarrow> (p, r')
         | None \<Rightarrow> (labelPeer (''pod-uid:'' @ uid), r'))"

subsection \<open>Destinations\<close>

definition hasQPN :: "reportedPod \<Rightarrow> 32 word \<Rightarrow> bool" where
  "hasQPN p destQPN = (destQPN \<noteq> 0 \<and> map_of (Rp_qpns p) destQPN \<noteq> None)"

definition deviceFor :: "reportedPod \<Rightarrow> 32 word \<Rightarrow> string" where
  "deviceFor p destQPN =
     (if hasQPN p destQPN then mgetd [] (Rp_qpns p) destQPN
      else if length (Rp_devices p) = 1 then Rp_devices p ! 0 else [])"

definition lidKey :: "string \<Rightarrow> 16 word \<Rightarrow> string" where
  "lidKey subnetPrefix lid = (if lid = 0 \<or> subnetPrefix = [] then [] else subnetPrefix @ ''/'' @ nat_str (unat lid))"

definition lidKeyFor :: "resolver \<Rightarrow> string \<Rightarrow> 8 word \<Rightarrow> 16 word \<Rightarrow> string" where
  "lidKeyFor r device port dlid =
     (if device = [] \<or> port = 0 \<or> dlid = 0 then []
      else case map_of (Rs_localPorts r) (device @ ''/'' @ nat_str (unat port)) of
        None \<Rightarrow> []
      | Some prefix \<Rightarrow> lidKey prefix dlid)"

definition podForReportedAddress :: "resolver \<Rightarrow> string \<Rightarrow> 32 word \<Rightarrow> (peer \<times> string) option" where
  "podForReportedAddress r address destQPN =
     (let pods = mgetd [] (Rs_gidPods r) address;
          nodes = mgetd [] (Rs_gidNodes r) address;
          byQPN = filter (\<lambda>pod. hasQPN pod destQPN) pods;
          matched = (if length byQPN = 1 then byQPN else if length pods = 1 then pods else [])
      in if length matched = 1 then
           let chosen = matched ! 0; device = deviceFor chosen destQPN
           in case map_of (Rs_byUID r) (Rp_uid chosen) of
                None \<Rightarrow> Some (labelPeer (''pod-uid:'' @ Rp_uid chosen), device)
              | Some p \<Rightarrow> Some (p, device)
         else if pods = [] \<and> nodes = [] then None
         else Some (labelPeer (''node:'' @ Join nodes '',''), []))"

definition podForLID :: "resolver \<Rightarrow> string \<Rightarrow> 8 word \<Rightarrow> 16 word \<Rightarrow> 32 word \<Rightarrow> peer \<times> string" where
  "podForLID r device port dlid destQPN =
     (let label = ''lid:'' @ nat_str (unat dlid); key = lidKeyFor r device port dlid in
      if key = [] then (labelPeer label, [])
      else case podForReportedAddress r key destQPN of Some res \<Rightarrow> res | None \<Rightarrow> (labelPeer label, []))"

definition podForPeer :: "resolver \<Rightarrow> string \<Rightarrow> 32 word \<Rightarrow> peer \<times> string" where
  "podForPeer r ip destQPN =
     (case map_of (Rs_byIP r) ip of
        Some p \<Rightarrow> (p, [])
      | None \<Rightarrow>
          let mac = eui64MAC ip in
          case (if mac \<noteq> [] then map_of (Rs_byMAC r) mac else None) of
            Some p \<Rightarrow> (p, [])
          | None \<Rightarrow>
              (case podForReportedAddress r ip destQPN of
                 Some res \<Rightarrow> res
               | None \<Rightarrow> (labelPeer ip, [])))"

subsection \<open>Link-local GIDs\<close>

text \<open>The link-local GID of a network card with the given hardware address.\<close>

definition linkLocalGid :: "8 word list \<Rightarrow> 8 word list" where
  "linkLocalGid mac =
     [0xFE, 0x80, 0, 0, 0, 0, 0, 0, mac ! 0 XOR 2, mac ! 1, mac ! 2, 0xFF, 0xFE, mac ! 3, mac ! 4, mac ! 5]"

lemma ParseIP_gidToIP:
  assumes "length gid = 16" "gid \<noteq> replicate 16 0"
  shows "ParseIP (gidToIP gid) = gid"
proof (cases "take 10 gid = replicate 10 0 \<and> gid ! 10 = 0xFF \<and> gid ! 11 = 0xFF")
  case True
  have d: "drop 10 gid = gid ! 10 # gid ! 11 # drop 12 gid"
    using Cons_nth_drop_Suc[of 10 gid] Cons_nth_drop_Suc[of 11 gid] assms(1) by simp
  have "gid = replicate 10 0 @ gid ! 10 # gid ! 11 # drop 12 gid"
    using True append_take_drop_id[of 10 gid] unfolding d by metis
  then have "gid = mapped4 @ drop 12 gid" using True by (simp add: mapped4_def)
  moreover have "length (drop 12 gid) = 4" using assms(1) by simp
  ultimately show ?thesis using True assms(2) ParseIP_String[of "drop 12 gid"]
    by (simp add: gidToIP_def To16_def)
next
  case False
  then show ?thesis using assms ParseIP_String[of gid] by (simp only: gidToIP_def To16_def) simp
qed

lemma eui64MAC_gid:
  assumes "length mac = 6"
  shows "eui64MAC (gidToIP (linkLocalGid mac)) = macString mac"
proof -
  obtain a b c d e f where m: "mac = [a, b, c, d, e, f]"
    using assms by (auto simp: length_Suc_conv eval_nat_numeral)
  have p: "ParseIP (gidToIP (linkLocalGid mac)) = linkLocalGid mac"
  proof (rule ParseIP_gidToIP)
    have "linkLocalGid mac ! 0 = 0xFE" "replicate 16 (0 :: 8 word) ! 0 = 0" by (simp_all add: linkLocalGid_def)
    then show "linkLocalGid mac \<noteq> replicate 16 0" by auto
  qed (simp add: linkLocalGid_def)
  have "hd (take 12 (linkLocalGid mac)) = 0xFE" "hd mapped4 = 0" by (simp_all add: linkLocalGid_def mapped4_def)
  moreover have "(0xFE :: 8 word) \<noteq> 0" by simp
  ultimately have "take 12 (linkLocalGid mac) \<noteq> mapped4" by metis
  then have "To4 (linkLocalGid mac) = []" by (simp add: To4_def) (simp add: linkLocalGid_def)
  then show ?thesis
    by (simp add: eui64MAC_def p To16_def IsLinkLocalUnicast_def Let_def) (simp add: linkLocalGid_def m xor.assoc)
qed

text \<open>The addresses of the pods after a refresh.\<close>

lemma uniqueNormalized_set: "set (uniqueNormalized canon vals) = canon ` set vals - {[]}"
proof -
  have "set (snd (fold (addUnique canon) vals (seen, out))) = set out \<union> (canon ` set vals - {[]})"
    if "\<forall>x. mgetd False seen x \<longleftrightarrow> x \<in> set out" for seen out
    using that
  proof (induction vals arbitrary: seen out)
    case (Cons v vs)
    show ?case
    proof (cases "canon v = [] \<or> mgetd False seen (canon v)")
      case True
      then show ?thesis using Cons by (auto simp: addUnique_def)
    next
      case False
      then have "addUnique canon v (seen, out) = (mput (canon v) True seen, out @ [canon v])"
        by (simp add: addUnique_def Let_def)
      moreover have "\<forall>x. mgetd False (mput (canon v) True seen) x \<longleftrightarrow> x \<in> set (out @ [canon v])"
        using Cons.prems by (auto simp: mgetd_mput)
      ultimately show ?thesis using Cons.IH False by auto
    qed
  qed simp
  from this[of "[]" "[]"] show ?thesis by (simp add: uniqueNormalized_def)
qed

end
