(* ===== verification/Rdma_Endpoint.thy ===== *)
theory Rdma_Endpoint
  imports Flow_Resolve
begin

text \<open>
  The objects that tell other nodes which pod uses which RDMA address,
  \<open>src/pkg/agent/ebpfflow/endpoint.go\<close> with the types of \<open>src/pkg/api/v1beta1/rdmaendpoint_types.go\<close>. Each
  agent scans sysfs and the processes of its node, publishes one \<open>RDMAEndpoint\<close> per pod, and indexes the
  objects of all nodes to attribute destinations. The files are functions from paths, the answers of the
  API server and the readings of the clock are arguments, times are in nanoseconds. The encoding of an
  object by \<open>encoding/json\<close>, used only as a fingerprint, is an argument. \<open>sort.Slice\<close> is a stable sort here;
  the keys it sorts by are distinct except for queue pairs of one number. Log messages are not modelled.
\<close>

subsection \<open>Objects\<close>

definition LinkLayerInfiniBand :: string where "LinkLayerInfiniBand = ''InfiniBand''"
definition LinkLayerEthernet :: string where "LinkLayerEthernet = ''Ethernet''"
definition RDMAEndpointLabelNode :: string where "RDMAEndpointLabelNode = ''unifabric.io/node''"

record RDMAGid =
  Gi_Index :: int
  Gi_Gid :: string

record RDMAQueuePair =
  Qp_Qpn :: "32 word"
  Qp_Pid :: "32 word"

record RDMAPort =
  Po_Port :: int
  Po_LinkLayer :: string
  Po_Lid :: "16 word"
  Po_SubnetPrefix :: string
  Po_Gids :: "RDMAGid list"
  Po_QueuePairs :: "RDMAQueuePair list"

record RDMAInterface =
  If_Name :: string
  If_RdmaDevice :: string
  If_Ports :: "RDMAPort list"

text \<open>The metadata that the code sets or reads, and the status. A zero time is \<open>None\<close>.\<close>

record RDMAEndpoint =
  Ep_APIVersion :: string
  Ep_Kind :: string
  Ep_Namespace :: string
  Ep_Name :: string
  Ep_Labels :: "(string, string) gomap"
  Ep_OwnerReferences :: "OwnerReference list"
  Ep_NodeName :: string
  Ep_HostNetwork :: bool
  Ep_LastUpdateTime :: "int option"
  Ep_Interfaces :: "RDMAInterface list"

definition second :: int where "second = 1000000000"

definition endpointResend :: int where "endpointResend = 5 * 60 * second"
definition endpointStale :: int where "endpointStale = 15 * 60 * second"
definition hostSysfsPath :: string where "hostSysfsPath = ''/proc/1/root/sys''"

definition podUIDOf :: "RDMAEndpoint \<Rightarrow> string" where
  "podUIDOf object = (case find (\<lambda>owner. Own_Kind owner = ''Pod'') (Ep_OwnerReferences object) of Some owner \<Rightarrow> Own_UID owner | None \<Rightarrow> [])"

definition qpCount :: "RDMAEndpoint list \<Rightarrow> nat" where
  "qpCount objects = fold (\<lambda>object t. fold (\<lambda>iface t. fold (\<lambda>port t. t + length (Po_QueuePairs port)) (If_Ports iface) t)
     (Ep_Interfaces object) t) objects 0"

subsection \<open>Files\<close>

text \<open>Directories are listed in the order of \<open>ReadDir\<close>; \<open>None\<close> is an error.\<close>

record fileSystem =
  Fs_readDir :: "string \<Rightarrow> string list option"
  Fs_readFile :: "string \<Rightarrow> string option"
  Fs_readlink :: "string \<Rightarrow> string option"

record portInfo =
  Pt_num :: int
  Pt_linkLayer :: string
  Pt_lid :: "16 word"
  Pt_subnetPrefix :: string
  Pt_gids :: "RDMAGid list"

record deviceInfo =
  Dv_netdev :: string
  Dv_ports :: "portInfo list"

definition deviceNetdev :: "fileSystem \<Rightarrow> string \<Rightarrow> string" where
  "deviceNetdev fs deviceDir =
     (case Fs_readDir fs (joinPath [deviceDir, ''device/net'']) of
        None \<Rightarrow> []
      | Some entries \<Rightarrow> if entries = [] then [] else sort entries ! 0)"

definition readLinkLayer :: "fileSystem \<Rightarrow> string \<Rightarrow> string" where
  "readLinkLayer fs path =
     (case Fs_readFile fs path of
        None \<Rightarrow> LinkLayerEthernet
      | Some raw \<Rightarrow> if TrimSpace raw = LinkLayerInfiniBand then LinkLayerInfiniBand else LinkLayerEthernet)"

definition readSysfsLID :: "fileSystem \<Rightarrow> string \<Rightarrow> 16 word" where
  "readSysfsLID fs path =
     (case Fs_readFile fs path of
        None \<Rightarrow> 0
      | Some raw \<Rightarrow> (case ParseUint 16 16 (TrimPrefix (TrimSpace raw) ''0x'') of None \<Rightarrow> 0 | Some lid \<Rightarrow> of_nat lid))"

definition gidSubnetPrefix :: "string \<Rightarrow> string" where
  "gidSubnetPrefix value =
     (let ip16 = To16 (ParseIP value) in
      if ip16 = [] then []
      else if take 8 ip16 = replicate 8 0 then []
      else concat (map hexByte (take 8 ip16)))"

definition parseSysfsGID :: "string \<Rightarrow> string" where
  "parseSysfsGID value =
     (let ip16 = To16 (ParseIP value) in
      if ip16 = [] then []
      else if drop 8 ip16 = replicate 8 0 then []
      else gidToIP ip16)"

text \<open>One file of a GID table: the subnet prefix and the entries so far.\<close>

definition readGid :: "fileSystem \<Rightarrow> string \<Rightarrow> string \<Rightarrow> string \<times> RDMAGid list \<Rightarrow> string \<times> RDMAGid list" where
  "readGid fs gidDir file = (\<lambda>(prefix, gids).
     case Atoi file of
       None \<Rightarrow> (prefix, gids)
     | Some index \<Rightarrow>
         (case Fs_readFile fs (joinPath [gidDir, file]) of
            None \<Rightarrow> (prefix, gids)
          | Some raw \<Rightarrow>
              let txt = TrimSpace raw
              in (if index = 0 then gidSubnetPrefix txt else prefix,
                  if parseSysfsGID txt \<noteq> [] then gids @ [\<lparr>Gi_Index = index, Gi_Gid = txt\<rparr>] else gids)))"

definition readPort :: "fileSystem \<Rightarrow> string \<Rightarrow> string \<Rightarrow> portInfo list \<Rightarrow> portInfo list" where
  "readPort fs portsDir port ports =
     (case Atoi port of
        None \<Rightarrow> ports
      | Some portNum \<Rightarrow>
          let portDir = joinPath [portsDir, port];
              gidDir = joinPath [portDir, ''gids''];
              pi = \<lparr>Pt_num = portNum, Pt_linkLayer = readLinkLayer fs (joinPath [portDir, ''link_layer'']),
                    Pt_lid = readSysfsLID fs (joinPath [portDir, ''lid'']), Pt_subnetPrefix = [], Pt_gids = []\<rparr>
          in case Fs_readDir fs gidDir of
               None \<Rightarrow> ports @ [pi]
             | Some files \<Rightarrow>
                 (case fold (readGid fs gidDir) files ([], []) of (prefix, gids) \<Rightarrow>
                    ports @ [pi\<lparr>Pt_subnetPrefix := prefix, Pt_gids := sort_key Gi_Index gids\<rparr>]))"

definition readDevice :: "fileSystem \<Rightarrow> string \<Rightarrow> string \<Rightarrow> (string, deviceInfo) gomap \<Rightarrow> (string, deviceInfo) gomap" where
  "readDevice fs root name devices =
     (let deviceDir = joinPath [root, name]; portsDir = joinPath [deviceDir, ''ports''] in
      case Fs_readDir fs portsDir of
        None \<Rightarrow> mput name \<lparr>Dv_netdev = deviceNetdev fs deviceDir, Dv_ports = []\<rparr> devices
      | Some ports \<Rightarrow>
          mput name \<lparr>Dv_netdev = deviceNetdev fs deviceDir,
                     Dv_ports = sort_key Pt_num (fold (readPort fs portsDir) ports [])\<rparr> devices)"

definition deviceTable :: "fileSystem \<Rightarrow> string \<Rightarrow> (string, deviceInfo) gomap" where
  "deviceTable fs sysfs =
     (let root = joinPath [sysfs, ''class/infiniband''] in
      case Fs_readDir fs root of
        None \<Rightarrow> []
      | Some entries \<Rightarrow> fold (readDevice fs root) entries [])"

text \<open>The view from the namespace of a process, \<open>None\<close> when it cannot be entered.\<close>

definition podDeviceTable :: "(string \<Rightarrow> fileSystem option) \<Rightarrow> string \<Rightarrow> (string, deviceInfo) gomap" where
  "podDeviceTable inNetnsOf pid =
     (case inNetnsOf pid of None \<Rightarrow> [] | Some fs \<Rightarrow> deviceTable fs (joinPath [''/proc'', pid, ''root/sys'']))"

text \<open>\<open>hostView\<close>: the files as seen from the host namespace, or from the own one when it cannot be entered.\<close>

definition hostView :: "fileSystem option \<Rightarrow> fileSystem \<Rightarrow> fileSystem" where
  "hostView inHostNetns own = (case inHostNetns of Some fs \<Rightarrow> fs | None \<Rightarrow> own)"

subsection \<open>Pods that hold devices\<close>

definition isNumeric :: "string \<Rightarrow> bool" where
  "isNumeric s \<longleftrightarrow> s \<noteq> [] \<and> list_all isDigit s"

definition readCgroup :: "fileSystem \<Rightarrow> 32 word \<Rightarrow> string option" where
  "readCgroup fs tgid = Fs_readFile fs (''/proc/'' @ nat_str (unat tgid) @ ''/cgroup'')"

record podHolder =
  Ho_pid :: string
  Ho_devices :: "(string, bool) gomap"

definition uverbsDevice :: "fileSystem \<Rightarrow> string \<Rightarrow> string \<Rightarrow> string" where
  "uverbsDevice fs sysfs uverbs =
     (case Fs_readFile fs (joinPath [sysfs, ''class/infiniband_verbs'', uverbs, ''ibdev'']) of None \<Rightarrow> [] | Some raw \<Rightarrow> TrimSpace raw)"

definition openUverbs :: "fileSystem \<Rightarrow> string \<Rightarrow> string list" where
  "openUverbs fs pid =
     (let fdDir = joinPath [''/proc'', pid, ''fd''] in
      case Fs_readDir fs fdDir of
        None \<Rightarrow> []
      | Some names \<Rightarrow>
          snd (fold (\<lambda>name (seen, found).
              case Fs_readlink fs (joinPath [fdDir, name]) of
                None \<Rightarrow> (seen, found)
              | Some target \<Rightarrow>
                  if \<not> HasPrefix target ''/dev/infiniband/uverbs'' then (seen, found)
                  else let uverbs = TrimPrefix target ''/dev/infiniband/''
                       in if mgetd False seen uverbs then (seen, found) else (mput uverbs True seen, found @ [uverbs]))
            names ([] :: (string, bool) gomap, [])))"

definition holdDevice :: "fileSystem \<Rightarrow> string \<Rightarrow> string \<Rightarrow> podHolder \<Rightarrow> podHolder" where
  "holdDevice fs procSysfs uverbs holder =
     (let device0 = uverbsDevice fs procSysfs uverbs;
          device = (if device0 = [] then uverbsDevice fs hostSysfsPath uverbs else device0)
      in if device \<noteq> [] then holder\<lparr>Ho_devices := mput device True (Ho_devices holder)\<rparr> else holder)"

definition addHolder :: "fileSystem \<Rightarrow> string \<Rightarrow> (string, podHolder) gomap \<Rightarrow> (string, podHolder) gomap" where
  "addHolder fs pid result =
     (if \<not> isNumeric pid then result
      else case ParseUint 10 32 pid of
        None \<Rightarrow> result
      | Some tgid \<Rightarrow>
          let uid = cgroupPodUID (readCgroup fs) (of_nat tgid); uverbsList = openUverbs fs pid in
          if uid = [] then result
          else if uverbsList = [] then result
          else let holder = (case map_of result uid of Some h \<Rightarrow> h | None \<Rightarrow> \<lparr>Ho_pid = pid, Ho_devices = []\<rparr>)
               in mput uid (fold (holdDevice fs (joinPath [''/proc'', pid, ''root/sys''])) uverbsList holder) result)"

definition podDeviceHolders :: "fileSystem \<Rightarrow> (string, podHolder) gomap" where
  "podDeviceHolders fs = (case Fs_readDir fs ''/proc'' of None \<Rightarrow> [] | Some entries \<Rightarrow> fold (addHolder fs) entries [])"

definition sortedKeys :: "(string, bool) gomap \<Rightarrow> string list" where
  "sortedKeys s = sort (mkeys s)"

subsection \<open>Queue pairs\<close>

record qpKey =
  Ky_Tgid :: "32 word"
  Ky_QPN :: "32 word"

record qpInfo =
  In_DGID :: "8 word list"
  In_Comm :: "8 word list"
  In_DestQPN :: "32 word"
  In_DLID :: "16 word"
  In_IsGlobal :: "8 word"
  In_PortNum :: "8 word"
  In_Device :: "8 word list"

definition device :: "qpInfo \<Rightarrow> string" where
  "device info = cString (In_Device info)"

definition lidAddressed :: "qpInfo \<Rightarrow> bool" where
  "lidAddressed info \<longleftrightarrow> In_IsGlobal info = 0 \<and> In_DLID info \<noteq> 0"

record qpRecord =
  Qr_qpn :: "32 word"
  Qr_pid :: "32 word"
  Qr_port :: int

type_synonym qpTable = "(string, (string, qpRecord list) gomap) gomap"

definition addQP :: "fileSystem \<Rightarrow> qpKey \<times> qpInfo \<Rightarrow> qpTable \<times> resolver \<Rightarrow> qpTable \<times> resolver" where
  "addQP fs e = (\<lambda>(result, r).
     case e of (key, info) \<Rightarrow>
       let dev = device info in
       if dev = [] then (result, r)
       else case podUIDForTgid (readCgroup fs) (Ky_Tgid key) r of (uid, r') \<Rightarrow>
         if uid = [] then (result, r')
         else let byDevice = mgetd [] result uid;
                  rec = \<lparr>Qr_qpn = Ky_QPN key, Qr_pid = Ky_Tgid key, Qr_port = int (unat (In_PortNum info))\<rparr>
              in (mput uid (mput dev (mgetd [] byDevice dev @ [rec]) byDevice) result, r'))"

text \<open>The entries that the iteration over \<open>qp_infos\<close> yields, or \<open>None\<close> for a missing map.\<close>

definition podQPs :: "fileSystem \<Rightarrow> (qpKey \<times> qpInfo) list option \<Rightarrow> resolver \<Rightarrow> qpTable \<times> resolver" where
  "podQPs fs infos r = (case infos of None \<Rightarrow> ([], r) | Some entries \<Rightarrow> fold (addQP fs) entries ([], r))"

subsection \<open>Building objects\<close>

definition firstPortNum :: "portInfo list \<Rightarrow> int" where
  "firstPortNum ports = (if ports = [] then 0 else Pt_num (ports ! 0))"

definition groupByPort :: "qpRecord list \<Rightarrow> (int, RDMAQueuePair list) gomap" where
  "groupByPort qps = fold (\<lambda>qp m. mput (Qr_port qp) (mgetd [] m (Qr_port qp) @ [\<lparr>Qp_Qpn = Qr_qpn qp, Qp_Pid = Qr_pid qp\<rparr>]) m) qps []"

definition sortByQpn :: "RDMAQueuePair list \<Rightarrow> RDMAQueuePair list" where
  "sortByQpn qps = sort_key Qp_Qpn qps"

definition buildPort :: "portInfo list \<Rightarrow> (int, RDMAQueuePair list) gomap \<Rightarrow> portInfo \<Rightarrow> RDMAPort" where
  "buildPort ports byPort port =
     (let queuePairs = mgetd [] byPort (Pt_num port)
            @ (if Pt_num port = firstPortNum ports then mgetd [] byPort 0 else [])
      in \<lparr>Po_Port = Pt_num port, Po_LinkLayer = Pt_linkLayer port, Po_Lid = Pt_lid port,
          Po_SubnetPrefix = Pt_subnetPrefix port, Po_Gids = Pt_gids port, Po_QueuePairs = sortByQpn queuePairs\<rparr>)"

definition buildInterface :: "string \<Rightarrow> deviceInfo \<Rightarrow> qpRecord list \<Rightarrow> RDMAInterface" where
  "buildInterface dev info qps =
     (let byPort = groupByPort qps;
          ports = map (buildPort (Dv_ports info) byPort) (Dv_ports info);
          extra = (if Dv_ports info = [] \<and> qps \<noteq> []
                   then [\<lparr>Po_Port = 1, Po_LinkLayer = LinkLayerEthernet, Po_Lid = 0, Po_SubnetPrefix = [], Po_Gids = [],
                          Po_QueuePairs = sortByQpn (concat (map snd byPort))\<rparr>]
                   else [])
      in \<lparr>If_Name = Dv_netdev info, If_RdmaDevice = dev, If_Ports = ports @ extra\<rparr>)"

definition addQPHolder :: "string \<times> (string, qpRecord list) gomap \<Rightarrow> (string, podHolder) gomap \<Rightarrow> (string, podHolder) gomap" where
  "addQPHolder e holders =
     (case e of (uid, byDevice) \<Rightarrow>
        let holder = (case map_of holders uid of Some h \<Rightarrow> h | None \<Rightarrow> \<lparr>Ho_pid = [], Ho_devices = []\<rparr>)
        in mput uid (holder\<lparr>Ho_devices := fold (\<lambda>d. mput d True) (mkeys byDevice) (Ho_devices holder)\<rparr>) holders)"

record scanView =
  Sv_own :: fileSystem
  Sv_inHostNetns :: "fileSystem option"
  Sv_inNetnsOf :: "string \<Rightarrow> fileSystem option"
  Sv_sysfs :: string
  Sv_node :: string
  Sv_allPods :: bool

definition noDevice :: deviceInfo where
  "noDevice = \<lparr>Dv_netdev = [], Dv_ports = []\<rparr>"

definition podDevicesOf :: "scanView \<Rightarrow> peer option \<Rightarrow> podHolder \<Rightarrow> (string, deviceInfo) gomap" where
  "podDevicesOf v p holder =
     (if Ho_pid holder \<noteq> [] \<and> (case p of None \<Rightarrow> True | Some q \<Rightarrow> \<not> Pe_hostNetwork q)
      then podDeviceTable (Sv_inNetnsOf v) (Ho_pid holder) else [])"

definition buildEndpoint :: "scanView \<Rightarrow> int \<Rightarrow> (string, deviceInfo) gomap \<Rightarrow> qpTable \<Rightarrow> peer option \<Rightarrow> string \<Rightarrow> podHolder \<Rightarrow> RDMAEndpoint" where
  "buildEndpoint v now hostDevices qps p uid holder =
     (let podDevices = podDevicesOf v p holder;
          name = (case p of None \<Rightarrow> [] | Some q \<Rightarrow> Pe_Name q)
      in \<lparr>Ep_APIVersion = ''unifabric.io/v1beta1'', Ep_Kind = ''RDMAEndpoint'',
          Ep_Namespace = (case p of None \<Rightarrow> [] | Some q \<Rightarrow> Pe_Namespace q), Ep_Name = name,
          Ep_Labels = [(''app.kubernetes.io/managed-by'', ''unifabric-agent''), (RDMAEndpointLabelNode, Sv_node v)],
          Ep_OwnerReferences = [\<lparr>Own_APIVersion = ''v1'', Own_Kind = ''Pod'', Own_Name = name, Own_UID = uid,
             Own_Controller = Some True, Own_BlockOwnerDeletion = Some True\<rparr>],
          Ep_NodeName = Sv_node v, Ep_HostNetwork = (case p of None \<Rightarrow> False | Some q \<Rightarrow> Pe_hostNetwork q),
          Ep_LastUpdateTime = Some now,
          Ep_Interfaces = map (\<lambda>d. buildInterface d
              (case map_of podDevices d of Some info \<Rightarrow> info | None \<Rightarrow> mgetd noDevice hostDevices d)
              (mgetd [] (mgetd [] qps uid) d)) (sortedKeys (Ho_devices holder))\<rparr>)"

definition publishable :: "scanView \<Rightarrow> peer option \<Rightarrow> bool" where
  "publishable v p = (case p of None \<Rightarrow> True | Some q \<Rightarrow> Sv_allPods v \<or> Pe_hostNetwork q)"

definition collectEndpoints :: "scanView \<Rightarrow> int \<Rightarrow> resolver \<Rightarrow> qpTable \<Rightarrow> RDMAEndpoint list" where
  "collectEndpoints v now r qps =
     (let hostDevices = deviceTable (hostView (Sv_inHostNetns v) (Sv_own v)) (Sv_sysfs v);
          holders = fold addQPHolder qps (podDeviceHolders (Sv_own v));
          objects = map (\<lambda>(uid, holder). buildEndpoint v now hostDevices qps (map_of (Rs_byUID r) uid) uid holder)
            (filter (\<lambda>(uid, holder). publishable v (map_of (Rs_byUID r) uid)) holders)
      in sort_key podUIDOf objects)"

subsection \<open>Publishing\<close>

record publishedObject =
  Pu_namespace :: string
  Pu_name :: string
  Pu_fingerprint :: string
  Pu_sentAt :: "int option"

record endpointPublisher =
  Pb_minInterval :: int
  Pb_published :: "(string, publishedObject) gomap"
  Pb_lastRun :: "int option"
  Pb_synced :: bool

definition newEndpointPublisher :: "resolver \<Rightarrow> string \<Rightarrow> int \<Rightarrow> endpointPublisher option" where
  "newEndpointPublisher r node minInterval =
     (if \<not> Rs_client r then None
      else if node = [] then None
      else Some \<lparr>Pb_minInterval = minInterval, Pb_published = [], Pb_lastRun = None, Pb_synced = False\<rparr>)"

definition delayUntilAllowed :: "endpointPublisher option \<Rightarrow> int \<Rightarrow> int" where
  "delayUntilAllowed n now =
     (case n of
        None \<Rightarrow> 0
      | Some p \<Rightarrow>
          (case Pb_lastRun p of
             None \<Rightarrow> 0
           | Some t \<Rightarrow> let remaining = Pb_minInterval p - (now - t) in if remaining \<le> 0 then 0 else remaining))"

text \<open>The calls of the API server and their answers.\<close>

datatype apiCall = PatchMeta RDMAEndpoint | PatchStatus RDMAEndpoint | DeleteEndpoint string string
datatype apiAnswer = CallOk | CallNotFound | CallFailed

definition metaOnly :: "RDMAEndpoint \<Rightarrow> RDMAEndpoint" where
  "metaOnly object = object\<lparr>Ep_NodeName := [], Ep_HostNetwork := False, Ep_LastUpdateTime := None, Ep_Interfaces := []\<rparr>"

text \<open>\<open>apply\<close> and \<open>delete\<close>: the calls made and whether they succeed.\<close>

definition applyEndpoint :: "(apiCall \<Rightarrow> apiAnswer) \<Rightarrow> RDMAEndpoint \<Rightarrow> apiCall list \<times> bool" where
  "applyEndpoint answer object =
     (if answer (PatchMeta (metaOnly object)) \<noteq> CallOk then ([PatchMeta (metaOnly object)], False)
      else ([PatchMeta (metaOnly object), PatchStatus object], answer (PatchStatus object) = CallOk))"

definition deleteEndpoint :: "(apiCall \<Rightarrow> apiAnswer) \<Rightarrow> string \<Rightarrow> string \<Rightarrow> apiCall list \<times> bool" where
  "deleteEndpoint answer namespace name =
     ([DeleteEndpoint namespace name], answer (DeleteEndpoint namespace name) \<noteq> CallFailed)"

definition endpointFingerprint :: "(RDMAEndpoint \<Rightarrow> string) \<Rightarrow> RDMAEndpoint \<Rightarrow> string" where
  "endpointFingerprint marshal object = marshal (object\<lparr>Ep_LastUpdateTime := None\<rparr>)"

definition adopt :: "RDMAEndpoint \<Rightarrow> (string, publishedObject) gomap \<Rightarrow> (string, publishedObject) gomap" where
  "adopt item published =
     (let uid = podUIDOf item in
      if uid = [] then published
      else case map_of published uid of
        Some _ \<Rightarrow> published
      | None \<Rightarrow> mput uid \<lparr>Pu_namespace = Ep_Namespace item, Pu_name = Ep_Name item, Pu_fingerprint = [], Pu_sentAt = None\<rparr> published)"

text \<open>The list is the answer for the label of the node, \<open>None\<close> an error.\<close>

definition adoptExisting :: "RDMAEndpoint list option \<Rightarrow> endpointPublisher \<Rightarrow> endpointPublisher" where
  "adoptExisting items n =
     (case items of
        None \<Rightarrow> n
      | Some xs \<Rightarrow> n\<lparr>Pb_published := fold adopt xs (Pb_published n), Pb_synced := True\<rparr>)"

text \<open>A run: the times at which the object of a pod is looked at and at which its calls have returned, the
  answers, and the encoding of objects.\<close>

record runView =
  Rv_now :: int
  Rv_at :: "string \<Rightarrow> int"
  Rv_sent :: "string \<Rightarrow> int"
  Rv_existing :: "RDMAEndpoint list option"
  Rv_answer :: "apiCall \<Rightarrow> apiAnswer"
  Rv_marshal :: "RDMAEndpoint \<Rightarrow> string"

definition unchangedSince :: "runView \<Rightarrow> RDMAEndpoint \<Rightarrow> (string, publishedObject) gomap \<Rightarrow> bool" where
  "unchangedSince w object published =
     (case map_of published (podUIDOf object) of
        None \<Rightarrow> False
      | Some previous \<Rightarrow>
          Pu_fingerprint previous = endpointFingerprint (Rv_marshal w) object
          \<and> (case Pu_sentAt previous of None \<Rightarrow> False | Some t \<Rightarrow> Rv_at w (podUIDOf object) - t < endpointResend))"

definition publishObject :: "runView \<Rightarrow> RDMAEndpoint \<Rightarrow> (string, publishedObject) gomap \<times> apiCall list
    \<Rightarrow> (string, publishedObject) gomap \<times> apiCall list" where
  "publishObject w object = (\<lambda>(published, calls).
     let uid = podUIDOf object in
     if Ep_Namespace object = [] \<or> Ep_Name object = [] then (published, calls)
     else if unchangedSince w object published then (published, calls)
     else case applyEndpoint (Rv_answer w) object of (made, success) \<Rightarrow>
       if \<not> success then (published, calls @ made)
       else (mput uid \<lparr>Pu_namespace = Ep_Namespace object, Pu_name = Ep_Name object,
               Pu_fingerprint = endpointFingerprint (Rv_marshal w) object, Pu_sentAt = Some (Rv_sent w uid)\<rparr> published,
             calls @ made))"

definition removeGone :: "runView \<Rightarrow> string set \<Rightarrow> string \<times> publishedObject \<Rightarrow> (string, publishedObject) gomap \<times> apiCall list
    \<Rightarrow> (string, publishedObject) gomap \<times> apiCall list" where
  "removeGone w live e = (\<lambda>(published, calls).
     case e of (uid, previous) \<Rightarrow>
       if uid \<in> live then (published, calls)
       else case deleteEndpoint (Rv_answer w) (Pu_namespace previous) (Pu_name previous) of (made, success) \<Rightarrow>
         (if success then mdel uid published else published, calls @ made))"

definition publishAll :: "runView \<Rightarrow> RDMAEndpoint list \<Rightarrow> endpointPublisher \<Rightarrow> endpointPublisher \<times> apiCall list" where
  "publishAll w objects n =
     (let n1 = n\<lparr>Pb_lastRun := Some (Rv_now w)\<rparr>;
          n2 = (if Pb_synced n1 then n1 else adoptExisting (Rv_existing w) n1)
      in case fold (publishObject w) objects (Pb_published n2, []) of (published, calls) \<Rightarrow>
           case fold (removeGone w (podUIDOf ` set objects)) published (published, calls) of (published', calls') \<Rightarrow>
             (n2\<lparr>Pb_published := published'\<rparr>, calls'))"

definition runPublisher :: "scanView \<Rightarrow> runView \<Rightarrow> int \<Rightarrow> (qpKey \<times> qpInfo) list option \<Rightarrow> endpointPublisher option \<times> resolver
    \<Rightarrow> (endpointPublisher option \<times> resolver) \<times> apiCall list" where
  "runPublisher v w now infos = (\<lambda>(pub, r).
     case pub of
       None \<Rightarrow> ((None, r), [])
     | Some n \<Rightarrow>
         case podQPs (Sv_own v) infos r of (qps, r') \<Rightarrow>
           case publishAll w (collectEndpoints v now r' qps) n of (n', calls) \<Rightarrow> ((Some n', r'), calls))"

subsection \<open>Reading objects\<close>

definition portAddresses :: "RDMAPort \<Rightarrow> string list" where
  "portAddresses port =
     (let key = lidKey (Po_SubnetPrefix port) (Po_Lid port)
      in uniqueNormalized parseSysfsGID (map Gi_Gid (Po_Gids port)) @ (if key \<noteq> [] then [key] else []))"

record endpointIndex =
  Ex_pods :: "(string, reportedPod list) gomap"
  Ex_nodes :: "(string, string list) gomap"
  Ex_stale :: nat

record indexState =
  Is_byAddress :: "(string, reportedPod) gomap"
  Is_nodeSeen :: "(string, (string, bool) gomap) gomap"
  Is_nodes :: "(string, string list) gomap"

definition indexAddress :: "string \<Rightarrow> string \<Rightarrow> RDMAInterface \<Rightarrow> RDMAPort \<Rightarrow> string \<Rightarrow> indexState \<Rightarrow> indexState" where
  "indexAddress uid node iface port address s =
     (let entry = (case map_of (Is_byAddress s) address of
            Some e \<Rightarrow> e | None \<Rightarrow> \<lparr>Rp_uid = uid, Rp_node = node, Rp_devices = [], Rp_qpns = []\<rparr>);
          entry' = entry\<lparr>Rp_devices := Rp_devices entry @ [If_RdmaDevice iface],
            Rp_qpns := fold (\<lambda>qp. mput (Qp_Qpn qp) (If_RdmaDevice iface)) (Po_QueuePairs port) (Rp_qpns entry)\<rparr>;
          seen = mgetd [] (Is_nodeSeen s) address
      in s\<lparr>Is_byAddress := mput address entry' (Is_byAddress s),
           Is_nodeSeen := mput address (mput node True seen) (Is_nodeSeen s),
           Is_nodes := (if mgetd False seen node then Is_nodes s
                        else mput address (mgetd [] (Is_nodes s) address @ [node]) (Is_nodes s))\<rparr>)"

definition indexPort :: "string \<Rightarrow> string \<Rightarrow> RDMAInterface \<Rightarrow> RDMAPort \<Rightarrow> indexState \<Rightarrow> indexState" where
  "indexPort uid node iface port s = fold (indexAddress uid node iface port) (portAddresses port) s"

definition indexInterface :: "string \<Rightarrow> string \<Rightarrow> RDMAInterface \<Rightarrow> indexState \<Rightarrow> indexState" where
  "indexInterface uid node iface s = fold (indexPort uid node iface) (If_Ports iface) s"

definition staleObject :: "int \<Rightarrow> RDMAEndpoint \<Rightarrow> bool" where
  "staleObject now object = (case Ep_LastUpdateTime object of None \<Rightarrow> True | Some t \<Rightarrow> now - t > endpointStale)"

definition indexObject :: "int \<Rightarrow> RDMAEndpoint \<Rightarrow> endpointIndex \<times> (string, (string, bool) gomap) gomap
    \<Rightarrow> endpointIndex \<times> (string, (string, bool) gomap) gomap" where
  "indexObject now object = (\<lambda>(index, nodeSeen).
     if staleObject now object then (index\<lparr>Ex_stale := Suc (Ex_stale index)\<rparr>, nodeSeen)
     else let node = Ep_NodeName object; uid = podUIDOf object in
       if uid = [] then (index, nodeSeen)
       else let s = fold (indexInterface uid node) (Ep_Interfaces object)
                  \<lparr>Is_byAddress = [], Is_nodeSeen = nodeSeen, Is_nodes = Ex_nodes index\<rparr>
            in (index\<lparr>Ex_nodes := Is_nodes s,
                  Ex_pods := fold (\<lambda>(address, entry) pods. mput address (mgetd [] pods address @ [entry]) pods)
                    (Is_byAddress s) (Ex_pods index)\<rparr>, Is_nodeSeen s))"

definition buildEndpointIndex :: "RDMAEndpoint list \<Rightarrow> int \<Rightarrow> endpointIndex" where
  "buildEndpointIndex objects now =
     fst (fold (indexObject now) objects (\<lparr>Ex_pods = [], Ex_nodes = [], Ex_stale = 0\<rparr>, []))"

definition localPortTable :: "fileSystem \<Rightarrow> string \<Rightarrow> (string, string) gomap" where
  "localPortTable fs sysfs =
     fold (\<lambda>(dev, info) table. fold (\<lambda>port table.
         if Pt_subnetPrefix port \<noteq> [] then mput (dev @ ''/'' @ Itoa (Pt_num port)) (Pt_subnetPrefix port) table else table)
       (Dv_ports info) table) (deviceTable fs sysfs) []"

definition refreshEndpoints :: "fileSystem \<Rightarrow> RDMAEndpoint list option \<Rightarrow> int \<Rightarrow> resolver \<Rightarrow> resolver" where
  "refreshEndpoints hostFs list now r =
     (if \<not> Rs_client r then r
      else case list of
        None \<Rightarrow> r
      | Some objects \<Rightarrow>
          let index = buildEndpointIndex objects now
          in r\<lparr>Rs_gidPods := Ex_pods index, Rs_gidNodes := Ex_nodes index, Rs_localPorts := localPortTable hostFs hostSysfsPath\<rparr>)"

definition refresh :: "fileSystem \<Rightarrow> flowPod list option \<Rightarrow> RDMAEndpoint list option \<Rightarrow> int \<Rightarrow> resolver \<Rightarrow> resolver" where
  "refresh hostFs pods endpoints now r =
     (case refreshPods pods r of (r', finished) \<Rightarrow> if finished then refreshEndpoints hostFs endpoints now r' else r')"

end
