(* ===== verification/Rdma_Attribution.thy ===== *)
theory Rdma_Attribution
  imports Rdma_Endpoint
begin

text \<open>
  What the objects of \<open>Rdma_Endpoint\<close> achieve: the index of addresses against a description of it per
  object, the attribution of a destination to the pod whose agent reported its queue pair, and what a run
  of the publisher leaves behind.
\<close>


subsection \<open>The index of addresses\<close>

definition portsOf :: "RDMAEndpoint \<Rightarrow> (RDMAInterface \<times> RDMAPort) list" where
  "portsOf object = concat (map (\<lambda>i. map (Pair i) (If_Ports i)) (Ep_Interfaces object))"

definition carries :: "string \<Rightarrow> RDMAInterface \<times> RDMAPort \<Rightarrow> bool" where
  "carries address ip = (address \<in> set (portAddresses (snd ip)))"



definition reporting :: "int \<Rightarrow> string \<Rightarrow> RDMAEndpoint \<Rightarrow> bool" where
  "reporting now address object \<longleftrightarrow>
     \<not> staleObject now object \<and> podUIDOf object \<noteq> [] \<and> (\<exists>ip\<in>set (portsOf object). carries address ip)"





lemma Nil_notin_portAddresses: "[] \<notin> set (portAddresses port)"
  by (auto simp: portAddresses_def Let_def uniqueNormalized_set)



lemma fold_interfaces:
  "fold (indexInterface uid node) is s = fold (\<lambda>(i, p). indexPort uid node i p) (concat (map (\<lambda>i. map (Pair i) (If_Ports i)) is)) s"
  by (induction "is" arbitrary: s) (simp_all add: indexInterface_def fold_map comp_def)






text \<open>The nodes of an address.\<close>

definition nodesAgree :: "(string, (string, bool) gomap) gomap \<Rightarrow> (string, string list) gomap \<Rightarrow> bool" where
  "nodesAgree seen nodes \<longleftrightarrow>
     (\<forall>a. distinct (mgetd [] nodes a) \<and> (\<forall>n. mgetd False (mgetd [] seen a) n \<longleftrightarrow> n \<in> set (mgetd [] nodes a)))"

lemma indexAddress_nodes:
  assumes "nodesAgree (Is_nodeSeen s) (Is_nodes s)"
  shows "nodesAgree (Is_nodeSeen (indexAddress uid node i p a s)) (Is_nodes (indexAddress uid node i p a s))"
    "set (mgetd [] (Is_nodes (indexAddress uid node i p a s)) x) =
       set (mgetd [] (Is_nodes s) x) \<union> (if x = a then {node} else {})"
  using assms by (auto simp: indexAddress_def Let_def nodesAgree_def mgetd_mput)

lemma indexPort_nodes:
  assumes "nodesAgree (Is_nodeSeen s) (Is_nodes s)"
  shows "nodesAgree (Is_nodeSeen (indexPort uid node i p s)) (Is_nodes (indexPort uid node i p s))
     \<and> set (mgetd [] (Is_nodes (indexPort uid node i p s)) x) =
         set (mgetd [] (Is_nodes s) x) \<union> (if carries x (i, p) then {node} else {})"
proof -
  have "nodesAgree (Is_nodeSeen (fold (indexAddress uid node i p) as s)) (Is_nodes (fold (indexAddress uid node i p) as s))
     \<and> set (mgetd [] (Is_nodes (fold (indexAddress uid node i p) as s)) x) =
         set (mgetd [] (Is_nodes s) x) \<union> (if x \<in> set as then {node} else {})" for as
    using assms
  proof (induction as arbitrary: s)
    case (Cons a as)
    show ?case using Cons.IH[OF indexAddress_nodes(1)[OF Cons.prems]] indexAddress_nodes(2)[OF Cons.prems, of uid node i p a x] by auto
  qed simp
  then show ?thesis by (simp add: indexPort_def carries_def)
qed

lemma fold_nodes:
  assumes "nodesAgree (Is_nodeSeen s) (Is_nodes s)"
  shows "nodesAgree (Is_nodeSeen (fold (\<lambda>(i, p). indexPort uid node i p) ips s)) (Is_nodes (fold (\<lambda>(i, p). indexPort uid node i p) ips s))
     \<and> set (mgetd [] (Is_nodes (fold (\<lambda>(i, p). indexPort uid node i p) ips s)) x) =
         set (mgetd [] (Is_nodes s) x) \<union> (if \<exists>ip\<in>set ips. carries x ip then {node} else {})"
  using assms
proof (induction ips arbitrary: s)
  case (Cons ip ips)
  obtain i p where ip: "ip = (i, p)" by (cases ip)
  show ?case using Cons.IH[of "indexPort uid node i p s"] indexPort_nodes[OF Cons.prems, of uid node i p] by (auto simp: ip)
qed simp

lemma indexObject_nodes:
  assumes "nodesAgree seen (Ex_nodes index)"
  shows "nodesAgree (snd (indexObject now object (index, seen))) (Ex_nodes (fst (indexObject now object (index, seen))))
     \<and> set (mgetd [] (Ex_nodes (fst (indexObject now object (index, seen)))) x) =
         set (mgetd [] (Ex_nodes index) x) \<union> (if reporting now x object then {Ep_NodeName object} else {})"
proof -
  let ?s = "\<lparr>Is_byAddress = [], Is_nodeSeen = seen, Is_nodes = Ex_nodes index\<rparr>"
  have "nodesAgree (Is_nodeSeen ?s) (Is_nodes ?s)" using assms by simp
  from fold_nodes[OF this, of "podUIDOf object" "Ep_NodeName object" "portsOf object"] show ?thesis
    using assms unfolding indexObject_def reporting_def
    by (auto simp: Let_def fold_interfaces simp flip: portsOf_def split: if_splits)
qed

lemma buildEndpointIndex_nodes:
  "distinct (mgetd [] (Ex_nodes (buildEndpointIndex objects now)) x)
   \<and> set (mgetd [] (Ex_nodes (buildEndpointIndex objects now)) x) = Ep_NodeName ` {object \<in> set objects. reporting now x object}"
proof -
  have "nodesAgree (snd (fold (indexObject now) objects st)) (Ex_nodes (fst (fold (indexObject now) objects st)))
     \<and> set (mgetd [] (Ex_nodes (fst (fold (indexObject now) objects st))) x) =
        set (mgetd [] (Ex_nodes (fst st)) x) \<union> Ep_NodeName ` {object \<in> set objects. reporting now x object}"
    if "nodesAgree (snd st) (Ex_nodes (fst st))" for st
    using that
  proof (induction objects arbitrary: st)
    case (Cons object objects)
    have i: "nodesAgree (snd (indexObject now object st)) (Ex_nodes (fst (indexObject now object st)))"
      "set (mgetd [] (Ex_nodes (fst (indexObject now object st))) x) =
         set (mgetd [] (Ex_nodes (fst st)) x) \<union> (if reporting now x object then {Ep_NodeName object} else {})"
      using indexObject_nodes[OF Cons.prems, of now object] by simp_all
    show ?case using Cons.IH[OF i(1)] i(2) by auto
  qed simp
  from this[of "(\<lparr>Ex_pods = [], Ex_nodes = [], Ex_stale = 0\<rparr>, [])"] show ?thesis
    by (simp add: buildEndpointIndex_def nodesAgree_def)
qed


subsection \<open>Attribution through the objects\<close>











subsection \<open>What is collected\<close>











lemma podUIDOf_buildEndpoint [simp]: "podUIDOf (buildEndpoint v now hostDevices qps p uid h) = uid"
  by (simp add: podUIDOf_def buildEndpoint_def Let_def)

lemma LastUpdate_buildEndpoint [simp]: "Ep_LastUpdateTime (buildEndpoint v now hostDevices qps p uid h) = Some now"
  by (simp add: buildEndpoint_def Let_def)











subsection \<open>An example\<close>



























subsection \<open>What is published\<close>

definition publishedAs :: "runView \<Rightarrow> RDMAEndpoint \<Rightarrow> publishedObject" where
  "publishedAs w object = \<lparr>Pu_namespace = Ep_Namespace object, Pu_name = Ep_Name object,
     Pu_fingerprint = endpointFingerprint (Rv_marshal w) object, Pu_sentAt = Some (Rv_sent w (podUIDOf object))\<rparr>"

definition named :: "RDMAEndpoint \<Rightarrow> bool" where
  "named object \<longleftrightarrow> Ep_Namespace object \<noteq> [] \<and> Ep_Name object \<noteq> []"

definition wanted :: "runView \<Rightarrow> (string, publishedObject) gomap \<Rightarrow> RDMAEndpoint \<Rightarrow> bool" where
  "wanted w published object \<longleftrightarrow> named object \<and> \<not> unchangedSince w object published"

lemma publishObject_eq:
  "publishObject w object (published, calls) =
     (if \<not> wanted w published object then (published, calls)
      else (if snd (applyEndpoint (Rv_answer w) object) then mput (podUIDOf object) (publishedAs w object) published else published,
            calls @ fst (applyEndpoint (Rv_answer w) object)))"
  by (auto simp: publishObject_def wanted_def named_def publishedAs_def Let_def split: prod.splits)

lemma unchangedSince_cong:
  "map_of published (podUIDOf object) = map_of published' (podUIDOf object) \<Longrightarrow> unchangedSince w object published = unchangedSince w object published'"
  by (simp add: unchangedSince_def)

text \<open>A pass over objects of different pods.\<close>

lemma fold_publishObject:
  assumes "distinct (map podUIDOf objects)" "mwf published"
  shows "mwf (fst (fold (publishObject w) objects (published, calls)))
    \<and> snd (fold (publishObject w) objects (published, calls)) =
        calls @ concat (map (\<lambda>object. fst (applyEndpoint (Rv_answer w) object)) (filter (wanted w published) objects))
    \<and> (\<forall>uid. map_of (fst (fold (publishObject w) objects (published, calls))) uid =
        (case find (\<lambda>object. podUIDOf object = uid \<and> wanted w published object \<and> snd (applyEndpoint (Rv_answer w) object)) objects of
           Some object \<Rightarrow> Some (publishedAs w object) | None \<Rightarrow> map_of published uid))"
  using assms
proof (induction objects arbitrary: published calls)
  case (Cons object objects)
  let ?p = "fst (publishObject w object (published, calls))" and ?c = "snd (publishObject w object (published, calls))"
  have d: "distinct (map podUIDOf objects)" and n: "podUIDOf object \<notin> podUIDOf ` set objects" using Cons.prems(1) by simp_all
  have w: "mwf ?p" using Cons.prems(2) by (simp add: publishObject_eq)
  have other: "map_of ?p (podUIDOf x) = map_of published (podUIDOf x)" if "x \<in> set objects" for x
  proof -
    have "podUIDOf x \<noteq> podUIDOf object" using n that by (metis imageI)
    then show ?thesis by (simp add: publishObject_eq)
  qed
  then have f: "wanted w ?p x = wanted w published x" if "x \<in> set objects" for x
    using unchangedSince_cong[OF other[OF that]] by (simp add: wanted_def)
  have fl: "filter (wanted w ?p) objects = filter (wanted w published) objects" using f by (auto intro: filter_cong)
  have fd: "find (\<lambda>x. podUIDOf x = uid \<and> wanted w ?p x \<and> R x) objects = find (\<lambda>x. podUIDOf x = uid \<and> wanted w published x \<and> R x) objects" for uid R
    using f by (intro find_cong) auto
  have nf: "find (\<lambda>x. podUIDOf x = podUIDOf object \<and> R x) objects = None" for R
  proof -
    have "podUIDOf x \<noteq> podUIDOf object" if "x \<in> set objects" for x using n that by (metis imageI)
    then show ?thesis unfolding find_None_iff by blast
  qed
  have e: "fold (publishObject w) (object # objects) (published, calls) = fold (publishObject w) objects (?p, ?c)" by simp
  show ?case unfolding e using Cons.IH[OF d w, of ?c] unfolding fl fd
    by (auto simp: publishObject_eq nf split: option.splits)
qed simp

text \<open>The deletions: every record of a pod without an object.\<close>

lemma fold_removeGone:
  assumes "distinct (map fst es)"
  shows "mwf published \<Longrightarrow> mwf (fst (fold (removeGone w live) es (published, calls)))"
    and "snd (fold (removeGone w live) es (published, calls)) =
        calls @ map (\<lambda>(uid, previous). DeleteEndpoint (Pu_namespace previous) (Pu_name previous)) (filter (\<lambda>(uid, _). uid \<notin> live) es)"
    and "map_of (fst (fold (removeGone w live) es (published, calls))) uid =
        (case map_of es uid of
           Some previous \<Rightarrow> if uid \<notin> live \<and> Rv_answer w (DeleteEndpoint (Pu_namespace previous) (Pu_name previous)) \<noteq> CallFailed
             then None else map_of published uid
         | None \<Rightarrow> map_of published uid)"
proof -
  have g: "removeGone w live (u, previous) (published, calls) =
      (if u \<in> live then (published, calls)
       else (if Rv_answer w (DeleteEndpoint (Pu_namespace previous) (Pu_name previous)) \<noteq> CallFailed then mdel u published else published,
             calls @ [DeleteEndpoint (Pu_namespace previous) (Pu_name previous)]))" for u previous published calls
    by (simp add: removeGone_def deleteEndpoint_def)
  show "mwf published \<Longrightarrow> mwf (fst (fold (removeGone w live) es (published, calls)))"
    by (induction es arbitrary: published calls) (auto simp: g split: prod.splits)
  show "snd (fold (removeGone w live) es (published, calls)) =
        calls @ map (\<lambda>(uid, previous). DeleteEndpoint (Pu_namespace previous) (Pu_name previous)) (filter (\<lambda>(uid, _). uid \<notin> live) es)"
    by (induction es arbitrary: published calls) (auto simp: g split: prod.splits)
  show "map_of (fst (fold (removeGone w live) es (published, calls))) uid =
        (case map_of es uid of
           Some previous \<Rightarrow> if uid \<notin> live \<and> Rv_answer w (DeleteEndpoint (Pu_namespace previous) (Pu_name previous)) \<noteq> CallFailed
             then None else map_of published uid
         | None \<Rightarrow> map_of published uid)"
    using assms
  proof (induction es arbitrary: published calls)
    case (Cons e es)
    obtain u previous where e: "e = (u, previous)" by (cases e)
    have "map_of es u = None" using Cons.prems e by (auto simp: map_of_eq_None_iff)
    then show ?case using Cons by (auto simp: e g split: option.splits)
  qed simp
qed

definition adopted :: "runView \<Rightarrow> endpointPublisher \<Rightarrow> (string, publishedObject) gomap" where
  "adopted w n = (if Pb_synced n then Pb_published n
     else case Rv_existing w of None \<Rightarrow> Pb_published n | Some xs \<Rightarrow> fold adopt xs (Pb_published n))"

lemma mwf_adopted: "mwf (Pb_published n) \<Longrightarrow> mwf (adopted w n)"
proof -
  have "mwf (fold adopt xs m)" if "mwf m" for xs m
    using that by (induction xs arbitrary: m) (auto simp: adopt_def Let_def split: option.splits)
  then show "mwf (Pb_published n) \<Longrightarrow> mwf (adopted w n)" by (auto simp: adopted_def split: option.splits)
qed

definition appliedTo :: "runView \<Rightarrow> (string, publishedObject) gomap \<Rightarrow> RDMAEndpoint list \<Rightarrow> string \<Rightarrow> RDMAEndpoint option" where
  "appliedTo w published objects uid =
     find (\<lambda>object. podUIDOf object = uid \<and> wanted w published object \<and> snd (applyEndpoint (Rv_answer w) object)) objects"

lemma publishAll_parts:
  assumes "distinct (map podUIDOf objects)" "mwf (Pb_published n)" "publishAll w objects n = (n', calls)"
  obtains published where
    "mwf published"
    "\<And>uid. map_of published uid = (case appliedTo w (adopted w n) objects uid of
        Some object \<Rightarrow> Some (publishedAs w object) | None \<Rightarrow> map_of (adopted w n) uid)"
    "calls = concat (map (\<lambda>object. fst (applyEndpoint (Rv_answer w) object)) (filter (wanted w (adopted w n)) objects))
       @ map (\<lambda>(uid, previous). DeleteEndpoint (Pu_namespace previous) (Pu_name previous))
           (filter (\<lambda>(uid, _). uid \<notin> podUIDOf ` set objects) published)"
    "\<And>uid. map_of (Pb_published n') uid = (case map_of published uid of
         Some previous \<Rightarrow> if uid \<notin> podUIDOf ` set objects \<and> Rv_answer w (DeleteEndpoint (Pu_namespace previous) (Pu_name previous)) \<noteq> CallFailed
           then None else Some previous
       | None \<Rightarrow> None)"
    "mwf (Pb_published n')" "Pb_synced n' \<longleftrightarrow> Pb_synced n \<or> Rv_existing w \<noteq> None"
proof -
  let ?r = "fold (publishObject w) objects (adopted w n, [])"
  have p: "publishAll w objects n =
      (let r = fold (removeGone w (podUIDOf ` set objects)) (fst ?r) ?r
       in (n\<lparr>Pb_lastRun := Some (Rv_now w), Pb_synced := Pb_synced n \<or> Rv_existing w \<noteq> None, Pb_published := fst r\<rparr>, snd r))"
    by (cases n) (auto simp: publishAll_def adopted_def adoptExisting_def Let_def split: prod.splits option.splits)
  note f = fold_publishObject[OF assms(1) mwf_adopted[OF assms(2)], where w = w and calls = "[]"]
  have m: "mwf (fst ?r)" using f by blast
  have "?r = (fst ?r, snd ?r)" by simp
  note g = fold_removeGone[OF m, where w = w and live = "podUIDOf ` set objects" and published = "fst ?r" and calls = "snd ?r", folded this]
  show ?thesis
  proof (rule that[OF m])
    show "map_of (fst ?r) uid = (case appliedTo w (adopted w n) objects uid of
        Some object \<Rightarrow> Some (publishedAs w object) | None \<Rightarrow> map_of (adopted w n) uid)" for uid
      using f by (simp add: appliedTo_def)
  qed (use assms(3) f g m in \<open>auto simp: p Let_def split: option.splits\<close>)
qed

lemma appliedTo_Some:
  "appliedTo w published objects uid = Some object \<Longrightarrow> object \<in> set objects \<and> podUIDOf object = uid \<and> wanted w published object"
  unfolding appliedTo_def find_Some_iff by auto

lemma appliedTo_object:
  assumes "distinct (map podUIDOf objects)" "object \<in> set objects" "wanted w published object" "\<forall>c. Rv_answer w c = CallOk"
  shows "appliedTo w published objects (podUIDOf object) = Some object"
proof -
  have "snd (applyEndpoint (Rv_answer w) object)" using assms(4) by (simp add: applyEndpoint_def)
  then have "appliedTo w published objects (podUIDOf object) \<noteq> None"
    using assms(2,3) by (auto simp: appliedTo_def find_None_iff)
  then obtain other where o: "appliedTo w published objects (podUIDOf object) = Some other" by auto
  then have "other \<in> set objects" "podUIDOf other = podUIDOf object" using appliedTo_Some[OF o] by simp_all
  then have "other = object" using assms(1,2) by (auto simp: distinct_map dest: inj_onD)
  then show ?thesis using o by simp
qed

lemma published_current:
  assumes "distinct (map podUIDOf objects)" "mwf (Pb_published n)" "\<forall>c. Rv_answer w c = CallOk"
    and "publishAll w objects n = (n', calls)" "object \<in> set objects" "named object"
  shows "\<exists>previous t. map_of (Pb_published n') (podUIDOf object) = Some previous
     \<and> Pu_fingerprint previous = endpointFingerprint (Rv_marshal w) object \<and> Pu_sentAt previous = Some t"
proof -
  obtain published where p: "\<And>uid. map_of published uid = (case appliedTo w (adopted w n) objects uid of
        Some object \<Rightarrow> Some (publishedAs w object) | None \<Rightarrow> map_of (adopted w n) uid)"
    "\<And>uid. map_of (Pb_published n') uid = (case map_of published uid of
         Some previous \<Rightarrow> if uid \<notin> podUIDOf ` set objects \<and> Rv_answer w (DeleteEndpoint (Pu_namespace previous) (Pu_name previous)) \<noteq> CallFailed
           then None else Some previous
       | None \<Rightarrow> None)"
    by (rule publishAll_parts[OF assms(1,2,4)]) blast
  have n': "map_of (Pb_published n') (podUIDOf object) = map_of published (podUIDOf object)"
    using p(2)[of "podUIDOf object"] assms(5) by (auto split: option.splits)
  show ?thesis
  proof (cases "wanted w (adopted w n) object")
    case True
    then show ?thesis using appliedTo_object[OF assms(1,5) True assms(3)] n' p(1)[of "podUIDOf object"]
      by (simp add: publishedAs_def)
  next
    case False
    then have u: "unchangedSince w object (adopted w n)" using assms(6) by (simp add: wanted_def)
    have "appliedTo w (adopted w n) objects (podUIDOf object) = None"
    proof (rule ccontr)
      assume "appliedTo w (adopted w n) objects (podUIDOf object) \<noteq> None"
      then obtain other where "appliedTo w (adopted w n) objects (podUIDOf object) = Some other" by auto
      from appliedTo_Some[OF this] have "other = object" "wanted w (adopted w n) other"
        using assms(1,5) by (auto simp: distinct_map dest: inj_onD)
      then show False using False by simp
    qed
    then show ?thesis using u n' p(1)[of "podUIDOf object"] by (auto simp: unchangedSince_def split: option.splits)
  qed
qed

lemma same_object:
  assumes "object\<lparr>Ep_LastUpdateTime := None\<rparr> = other\<lparr>Ep_LastUpdateTime := None\<rparr>"
  shows "podUIDOf object = podUIDOf other \<and> named object = named other \<and> endpointFingerprint m object = endpointFingerprint m other"
  using assms by (cases object; cases other) (simp add: podUIDOf_def named_def endpointFingerprint_def)

text \<open>A run in which nothing is wanted and no pod has gone makes no call.\<close>

lemma publishAll_quiet:
  assumes "distinct (map podUIDOf objects)" "mwf (Pb_published n)" "Pb_synced n"
    and "\<forall>object\<in>set objects. \<not> wanted w (Pb_published n) object" "keyset (Pb_published n) \<subseteq> podUIDOf ` set objects"
  shows "snd (publishAll w objects n) = []"
proof -
  have a: "adopted w n = Pb_published n" using assms(3) by (simp add: adopted_def)
  obtain n' calls where run: "publishAll w objects n = (n', calls)" by fastforce
  obtain published where p: "\<And>uid. map_of published uid = (case appliedTo w (adopted w n) objects uid of
        Some object \<Rightarrow> Some (publishedAs w object) | None \<Rightarrow> map_of (adopted w n) uid)"
    "calls = concat (map (\<lambda>object. fst (applyEndpoint (Rv_answer w) object)) (filter (wanted w (adopted w n)) objects))
       @ map (\<lambda>(uid, previous). DeleteEndpoint (Pu_namespace previous) (Pu_name previous))
           (filter (\<lambda>(uid, _). uid \<notin> podUIDOf ` set objects) published)" and m: "mwf published"
    by (rule publishAll_parts[OF assms(1,2) run]) blast
  have "map_of published uid = map_of (Pb_published n) uid" for uid
    using p(1)[of uid] appliedTo_Some[of w "adopted w n" objects uid] assms(4) a by (auto split: option.splits)
  then have "uid \<in> podUIDOf ` set objects" if "(uid, previous) \<in> set published" for uid previous
    using that m assms(5) by (metis keyset_iff map_of_mem_iff subset_iff)
  then have "filter (\<lambda>(uid, _). uid \<notin> podUIDOf ` set objects) published = []" by (auto simp: filter_empty_conv)
  moreover have "filter (wanted w (adopted w n)) objects = []" using assms(4) a by (simp add: filter_empty_conv)
  ultimately show ?thesis using p(2) run by simp
qed

lemma distinct_sort_key: "distinct (map f (sort_key f xs)) = distinct (map f xs)"
  by (metis mset_map mset_sort mset_eq_imp_distinct_iff)

lemma collectEndpoints_uids: "distinct (map podUIDOf (collectEndpoints v now r qps))"
proof -
  have q: "mwf (fold addQPHolder es m)" if "mwf m" for es and m :: "(string, podHolder) gomap"
    using that by (induction es arbitrary: m) (auto simp: addQPHolder_def Let_def split: prod.splits option.splits)
  have "mwf (fold (addHolder fs) ps m)" if "mwf m" for fs ps and m :: "(string, podHolder) gomap"
    using that by (induction ps arbitrary: m) (auto simp: addHolder_def Let_def split: option.splits)
  then have "mwf (podDeviceHolders fs)" for fs by (simp add: podDeviceHolders_def split: option.splits)
  then have m: "mwf (fold addQPHolder qps (podDeviceHolders (Sv_own v)))" by (rule q)
  have u: "map (podUIDOf \<circ> (\<lambda>(uid, holder). buildEndpoint v now hd qps (map_of (Rs_byUID r) uid) uid holder)) es = map fst es" for hd es
    by (induction es) auto
  show ?thesis using m
    by (simp add: collectEndpoints_def Let_def distinct_sort_key u distinct_map_filter)
qed

text \<open>The calls of a run that succeeds: the two patches of each object that changed or is due again, then the deletions.\<close>

definition patches :: "RDMAEndpoint \<Rightarrow> apiCall list" where
  "patches object = [PatchMeta (metaOnly object), PatchStatus object]"

definition deletion :: "string \<times> publishedObject \<Rightarrow> apiCall" where
  "deletion = (\<lambda>(uid, previous). DeleteEndpoint (Pu_namespace previous) (Pu_name previous))"

lemma publishAll_calls:
  assumes "distinct (map podUIDOf objects)" "mwf (Pb_published n)" "\<forall>c. Rv_answer w c = CallOk" "publishAll w objects n = (n', calls)"
  shows "keyset (Pb_published n') \<subseteq> podUIDOf ` set objects"
    and "\<exists>gone. calls = concat (map patches (filter (wanted w (adopted w n)) objects)) @ map deletion gone \<and> distinct (map fst gone)
      \<and> (\<forall>uid previous. (uid, previous) \<in> set gone \<longleftrightarrow> map_of (adopted w n) uid = Some previous \<and> uid \<notin> podUIDOf ` set objects)"
proof -
  obtain published where p: "mwf published" "\<And>uid. map_of published uid = (case appliedTo w (adopted w n) objects uid of
        Some object \<Rightarrow> Some (publishedAs w object) | None \<Rightarrow> map_of (adopted w n) uid)"
    "calls = concat (map (\<lambda>object. fst (applyEndpoint (Rv_answer w) object)) (filter (wanted w (adopted w n)) objects))
       @ map (\<lambda>(uid, previous). DeleteEndpoint (Pu_namespace previous) (Pu_name previous))
           (filter (\<lambda>(uid, _). uid \<notin> podUIDOf ` set objects) published)"
    "\<And>uid. map_of (Pb_published n') uid = (case map_of published uid of
         Some previous \<Rightarrow> if uid \<notin> podUIDOf ` set objects \<and> Rv_answer w (DeleteEndpoint (Pu_namespace previous) (Pu_name previous)) \<noteq> CallFailed
           then None else Some previous
       | None \<Rightarrow> None)"
    by (rule publishAll_parts[OF assms(1,2,4)]) blast
  show "keyset (Pb_published n') \<subseteq> podUIDOf ` set objects"
    using assms(3) p(4) by (auto simp: keyset_iff split: option.splits if_splits)
  let ?gone = "filter (\<lambda>(uid, _). uid \<notin> podUIDOf ` set objects) published"
  have "map_of published uid = map_of (adopted w n) uid" if "uid \<notin> podUIDOf ` set objects" for uid
  proof -
    have "appliedTo w (adopted w n) objects uid = None"
      using that appliedTo_Some[of w "adopted w n" objects uid] by (cases "appliedTo w (adopted w n) objects uid") auto
    then show ?thesis using p(2)[of uid] by simp
  qed
  then have "(uid, previous) \<in> set ?gone \<longleftrightarrow> map_of (adopted w n) uid = Some previous \<and> uid \<notin> podUIDOf ` set objects" for uid previous
    using map_of_mem_iff[OF p(1), of uid previous] by auto
  moreover have "distinct (map fst ?gone)" using p(1) by (simp add: distinct_map_filter)
  moreover have "(\<lambda>object. fst (applyEndpoint (Rv_answer w) object)) = patches"
    using assms(3) by (simp add: applyEndpoint_def patches_def fun_eq_iff)
  ultimately show "\<exists>gone. calls = concat (map patches (filter (wanted w (adopted w n)) objects)) @ map deletion gone \<and> distinct (map fst gone)
      \<and> (\<forall>uid previous. (uid, previous) \<in> set gone \<longleftrightarrow> map_of (adopted w n) uid = Some previous \<and> uid \<notin> podUIDOf ` set objects)"
    using p(3) by (intro exI[of _ ?gone]) (simp add: deletion_def)
qed

text \<open>Objects that differ only in their time stamps.\<close>

definition unstamped :: "RDMAEndpoint \<Rightarrow> RDMAEndpoint" where
  "unstamped object = object\<lparr>Ep_LastUpdateTime := None\<rparr>"

lemma unstamped_same:
  assumes same: "map unstamped objects' = map unstamped objects"
  shows "map podUIDOf objects' = map podUIDOf objects"
    and "object' \<in> set objects' \<Longrightarrow> \<exists>object\<in>set objects. podUIDOf object = podUIDOf object' \<and> named object = named object'
      \<and> endpointFingerprint m object = endpointFingerprint m object'"
proof -
  note eq = same_object[folded unstamped_def]
  have "map podUIDOf objects' ! i = map podUIDOf objects ! i" if "i < length (map podUIDOf objects')" for i
    using that map_eq_imp_length_eq[OF same] arg_cong[OF same, of "\<lambda>xs. xs ! i"] eq[of "objects' ! i" "objects ! i"] by simp
  then show "map podUIDOf objects' = map podUIDOf objects" using map_eq_imp_length_eq[OF same] by (intro nth_equalityI) simp_all
  assume "object' \<in> set objects'"
  then have "unstamped object' \<in> set (map unstamped objects)" unfolding same[symmetric] by simp
  then obtain object where o: "object \<in> set objects" "unstamped object = unstamped object'" by auto
  show "\<exists>object\<in>set objects. podUIDOf object = podUIDOf object' \<and> named object = named object'
      \<and> endpointFingerprint m object = endpointFingerprint m object'"
    using eq[OF o(2)] by (intro bexI[OF _ o(1)])
qed

lemma publishAll_repeated:
  assumes "distinct (map podUIDOf objects)" "mwf (Pb_published n)" "\<forall>c. Rv_answer w c = CallOk"
    and "Pb_synced n \<or> Rv_existing w \<noteq> None" and run: "publishAll w objects n = (n', calls)"
    and same: "map unstamped objects' = map unstamped objects" and marshal: "Rv_marshal w' = Rv_marshal w"
    and soon: "\<forall>uid previous t. map_of (Pb_published n') uid = Some previous \<longrightarrow> Pu_sentAt previous = Some t \<longrightarrow> Rv_at w' uid - t < endpointResend"
  shows "snd (publishAll w' objects' n') = []"
proof (rule publishAll_quiet)
  note ids = unstamped_same(1)[OF same]
  have "mwf (Pb_published n')" "Pb_synced n' \<longleftrightarrow> Pb_synced n \<or> Rv_existing w \<noteq> None"
    by (rule publishAll_parts[OF assms(1,2) run], blast)+
  then show "distinct (map podUIDOf objects')" "mwf (Pb_published n')" "Pb_synced n'" using assms(1,4) ids by simp_all
  show "keyset (Pb_published n') \<subseteq> podUIDOf ` set objects'"
    using publishAll_calls(1)[OF assms(1-3) run] arg_cong[OF ids, of set] by simp
  show "\<forall>object\<in>set objects'. \<not> wanted w' (Pb_published n') object"
  proof
    fix object' assume "object' \<in> set objects'"
    then obtain object where o: "object \<in> set objects" "podUIDOf object = podUIDOf object'" "named object = named object'"
      "endpointFingerprint (Rv_marshal w) object = endpointFingerprint (Rv_marshal w) object'" using unstamped_same(2)[OF same] by blast
    show "\<not> wanted w' (Pb_published n') object'"
    proof (cases "named object'")
      case True
      then obtain previous t where "map_of (Pb_published n') (podUIDOf object') = Some previous"
        "Pu_fingerprint previous = endpointFingerprint (Rv_marshal w) object'" "Pu_sentAt previous = Some t"
        using published_current[OF assms(1-3) run o(1)] o by auto
      then show ?thesis using soon marshal by (simp add: wanted_def unchangedSince_def)
    qed (simp add: wanted_def)
  qed
qed

text \<open>
  C36. The calls of a run that succeeds are exactly these: for each named object that is not recorded with its
  current content or is due again, the patch of its metadata and then the patch of its status, in the order of the
  objects, and then one deletion for each recorded pod (including those an earlier agent left) that has no object any more. The run
  leaves a record for every named object, with its current content, and for no pod without an object. Repeating it with the
  same objects, only with new time stamps, before the resend period is over makes no call at all.
\<close>

theorem publishAll_settles:
  assumes "distinct (map podUIDOf objects)" "mwf (Pb_published n)" "\<forall>c. Rv_answer w c = CallOk"
    and "Pb_synced n \<or> Rv_existing w \<noteq> None"
    and run: "publishAll w objects n = (n', calls)"
    and same: "map unstamped objects' = map unstamped objects"
    and "Rv_marshal w' = Rv_marshal w"
    and soon: "\<forall>uid previous t. map_of (Pb_published n') uid = Some previous \<longrightarrow> Pu_sentAt previous = Some t \<longrightarrow> Rv_at w' uid - t < endpointResend"
  shows "(\<exists>gone. calls = concat (map (\<lambda>object. [PatchMeta (metaOnly object), PatchStatus object])
             (filter (\<lambda>object. named object \<and> \<not> unchangedSince w object (adopted w n)) objects)) @ map deletion gone
           \<and> distinct (map fst gone)
           \<and> (\<forall>uid previous. (uid, previous) \<in> set gone \<longleftrightarrow> map_of (adopted w n) uid = Some previous \<and> uid \<notin> podUIDOf ` set objects))
    \<and> (\<forall>object\<in>set objects. named object \<longrightarrow> (\<exists>previous. map_of (Pb_published n') (podUIDOf object) = Some previous
           \<and> Pu_fingerprint previous = endpointFingerprint (Rv_marshal w) object))
    \<and> keyset (Pb_published n') \<subseteq> podUIDOf ` set objects
    \<and> snd (publishAll w' objects' n') = []"
proof -
  have "patches = (\<lambda>object. [PatchMeta (metaOnly object), PatchStatus object])"
    "wanted w (adopted w n) = (\<lambda>object. named object \<and> \<not> unchangedSince w object (adopted w n))"
    by (simp_all add: patches_def wanted_def fun_eq_iff)
  note calls = publishAll_calls[OF assms(1-3) run, unfolded this]
  have "\<exists>previous. map_of (Pb_published n') (podUIDOf object) = Some previous
      \<and> Pu_fingerprint previous = endpointFingerprint (Rv_marshal w) object" if "object \<in> set objects" "named object" for object
    using published_current[OF assms(1-3) run that] by metis
  then show ?thesis using calls publishAll_repeated[OF assms(1-4) run same assms(7) soon] by (intro conjI) (blast | assumption)+
qed

definition exampleEndpoint :: "int \<Rightarrow> RDMAEndpoint" where
  "exampleEndpoint t = \<lparr>Ep_APIVersion = ''unifabric.io/v1beta1'', Ep_Kind = ''RDMAEndpoint'', Ep_Namespace = ''ns'', Ep_Name = ''p'', Ep_Labels = [],
     Ep_OwnerReferences = [\<lparr>Own_APIVersion = ''v1'', Own_Kind = ''Pod'', Own_Name = ''p'', Own_UID = ''u'', Own_Controller = Some True,
       Own_BlockOwnerDeletion = Some True\<rparr>],
     Ep_NodeName = ''n1'', Ep_HostNetwork = True, Ep_LastUpdateTime = Some t, Ep_Interfaces = []\<rparr>"

definition exampleRun :: "int \<Rightarrow> runView" where
  "exampleRun t = \<lparr>Rv_now = t, Rv_at = (\<lambda>_. t), Rv_sent = (\<lambda>_. t), Rv_existing = Some [], Rv_answer = (\<lambda>_. CallOk),
     Rv_marshal = (\<lambda>object. Ep_Name object)\<rparr>"

definition examplePublisher :: endpointPublisher where
  "examplePublisher = \<lparr>Pb_minInterval = second,
     Pb_published = [(''gone'', \<lparr>Pu_namespace = ''ns'', Pu_name = ''old'', Pu_fingerprint = [], Pu_sentAt = None\<rparr>)],
     Pb_lastRun = None, Pb_synced = False\<rparr>"

theorem publishAll_settles_witness:
  "case publishAll (exampleRun 0) [exampleEndpoint 0] examplePublisher of (n', calls) \<Rightarrow>
     keyset (Pb_published n') = {''u''} \<and> set calls = {PatchMeta (metaOnly (exampleEndpoint 0)), PatchStatus (exampleEndpoint 0), DeleteEndpoint ''ns'' ''old''}
     \<and> snd (publishAll (exampleRun 7) [exampleEndpoint 7] n') = []"
proof -
  let ?old = "\<lparr>Pu_namespace = ''ns'', Pu_name = ''old'', Pu_fingerprint = [], Pu_sentAt = None\<rparr>"
  obtain n' calls where run: "publishAll (exampleRun 0) [exampleEndpoint 0] examplePublisher = (n', calls)" by fastforce
  have uid: "podUIDOf (exampleEndpoint t) = ''u''" for t by (simp add: podUIDOf_def exampleEndpoint_def)
  have old: "adopted (exampleRun 0) examplePublisher = [(''gone'', ?old)]" by (simp add: adopted_def examplePublisher_def exampleRun_def)
  have due: "named (exampleEndpoint 0) \<and> \<not> unchangedSince (exampleRun 0) (exampleEndpoint 0) [(''gone'', ?old)]"
    by (simp add: named_def unchangedSince_def uid) (simp add: exampleEndpoint_def)
  have "Pb_published (fst (publishAll (exampleRun 0) [exampleEndpoint 0] examplePublisher)) =
      [(''u'', \<lparr>Pu_namespace = ''ns'', Pu_name = ''p'', Pu_fingerprint = ''p'', Pu_sentAt = Some 0\<rparr>)]" by code_simp
  then have n': "Pb_published n' = [(''u'', \<lparr>Pu_namespace = ''ns'', Pu_name = ''p'', Pu_fingerprint = ''p'', Pu_sentAt = Some 0\<rparr>)]"
    by (simp add: run)
  have all: "(\<exists>gone. calls = concat (map (\<lambda>object. [PatchMeta (metaOnly object), PatchStatus object])
             (filter (\<lambda>object. named object \<and> \<not> unchangedSince (exampleRun 0) object (adopted (exampleRun 0) examplePublisher)) [exampleEndpoint 0])) @ map deletion gone
           \<and> distinct (map fst gone)
           \<and> (\<forall>uid previous. (uid, previous) \<in> set gone \<longleftrightarrow> map_of (adopted (exampleRun 0) examplePublisher) uid = Some previous
                \<and> uid \<notin> podUIDOf ` set [exampleEndpoint 0]))
    \<and> (\<forall>object\<in>set [exampleEndpoint 0]. named object \<longrightarrow> (\<exists>previous. map_of (Pb_published n') (podUIDOf object) = Some previous
           \<and> Pu_fingerprint previous = endpointFingerprint (Rv_marshal (exampleRun 0)) object))
    \<and> keyset (Pb_published n') \<subseteq> podUIDOf ` set [exampleEndpoint 0]
    \<and> snd (publishAll (exampleRun 7) [exampleEndpoint 7] n') = []"
    by (rule publishAll_settles[OF _ _ _ _ run])
      (simp_all add: uid n' examplePublisher_def exampleRun_def exampleEndpoint_def endpointResend_def second_def unstamped_def)
  obtain gone where g: "calls = [PatchMeta (metaOnly (exampleEndpoint 0)), PatchStatus (exampleEndpoint 0)] @ map deletion gone"
    "\<And>uid previous. (uid, previous) \<in> set gone \<longleftrightarrow> map_of [(''gone'', ?old)] uid = Some previous \<and> uid \<notin> {''u''}"
    using all[THEN conjunct1] due unfolding old by (auto simp: uid)
  have "set gone = {(''gone'', ?old)}" using g(2) by (auto split: if_splits)
  then show ?thesis using all g(1) by (simp add: run n' deletion_def)
qed

end
