(* ===== verification/Flow_Report.thy ===== *)
theory Flow_Report
  imports Rdma_Endpoint
begin

text \<open>
  The report rounds, \<open>report\<close>, \<open>cleanupDeadQPs\<close> and the index of queue pairs of
  \<open>src/pkg/agent/ebpfflow/component.go\<close> with the flow counters of \<open>metrics.go\<close>. The two BPF maps are
  association lists; what an iteration over a map yields, and whether it failed, is an argument, since an
  iteration over a map that the kernel changes can end early. Counters are exact numbers, while Prometheus
  keeps floating-point numbers. Log messages are not modelled.
\<close>

subsection \<open>Flow counters\<close>

record qpStat =
  Sa_Bytes :: "64 word"
  Sa_WRs :: "64 word"

record flowEnds =
  Fe_srcDevice :: string
  Fe_dstDevice :: string

definition peerLabels :: "peer \<Rightarrow> string list" where
  "peerLabels p = [Pe_Namespace p, Pe_Name p, Oi_Kind (Pe_Owner p), Oi_Namespace (Pe_Owner p), Oi_Name (Pe_Owner p)]"

definition flowLabels :: "peer \<Rightarrow> peer \<Rightarrow> flowEnds \<Rightarrow> string list" where
  "flowLabels src dst ends = peerLabels src @ peerLabels dst @ [Fe_srcDevice ends, Fe_dstDevice ends]"

record reportSummary =
  Su_infos :: nat
  Su_stats :: nat
  Su_matched :: nat
  Su_unmatched :: nat
  Su_unresolved :: nat
  Su_flows :: nat

record flowMetrics =
  Fm_bytes :: "(string list, nat) gomap"
  Fm_wrs :: "(string list, nat) gomap"
  Fm_qps :: "(string list, nat) gomap"
  Fm_sends :: "(string list, nat) gomap"
  Fm_sendSize :: "(string list, nat list) gomap"
  Fm_gauges :: reportSummary
  Fm_last :: "(qpKey, qpStat) gomap"

definition noSummary :: reportSummary where
  "noSummary = \<lparr>Su_infos = 0, Su_stats = 0, Su_matched = 0, Su_unmatched = 0, Su_unresolved = 0, Su_flows = 0\<rparr>"

definition newFlowMetrics :: flowMetrics where
  "newFlowMetrics = \<lparr>Fm_bytes = [], Fm_wrs = [], Fm_qps = [], Fm_sends = [], Fm_sendSize = [], Fm_gauges = noSummary, Fm_last = []\<rparr>"

definition addTo :: "string list \<Rightarrow> nat \<Rightarrow> (string list, nat) gomap \<Rightarrow> (string list, nat) gomap" where
  "addTo labels n counters = mput labels (mgetd 0 counters labels + n) counters"

definition observeSend :: "peer \<Rightarrow> peer \<Rightarrow> flowEnds \<Rightarrow> 64 word \<Rightarrow> flowMetrics \<Rightarrow> flowMetrics" where
  "observeSend src dst ends bytes m =
     (let labels = flowLabels src dst ends
      in m\<lparr>Fm_sends := addTo labels 1 (Fm_sends m),
           Fm_sendSize := mput labels (mgetd [] (Fm_sendSize m) labels @ [unat bytes]) (Fm_sendSize m)\<rparr>)"

definition beginReport :: "flowMetrics \<Rightarrow> flowMetrics" where
  "beginReport m = m\<lparr>Fm_qps := []\<rparr>"

definition zeroStat :: qpStat where
  "zeroStat = \<lparr>Sa_Bytes = 0, Sa_WRs = 0\<rparr>"

definition observe :: "qpKey \<Rightarrow> qpStat \<Rightarrow> peer \<Rightarrow> peer \<Rightarrow> flowEnds \<Rightarrow> flowMetrics \<Rightarrow> bool \<times> flowMetrics" where
  "observe key st src dst ends m =
     (if \<not> isPod src \<or> \<not> isPod dst then (False, m)
      else let labels = flowLabels src dst ends;
               prev = mgetd zeroStat (Fm_last m) key;
               grown = (Sa_Bytes st \<ge> Sa_Bytes prev \<and> Sa_WRs st \<ge> Sa_WRs prev);
               deltaBytes = (if grown then Sa_Bytes st - Sa_Bytes prev else Sa_Bytes st);
               deltaWRs = (if grown then Sa_WRs st - Sa_WRs prev else Sa_WRs st)
           in (True, m\<lparr>Fm_last := mput key st (Fm_last m),
                 Fm_bytes := (if deltaBytes > 0 then addTo labels (unat deltaBytes) (Fm_bytes m) else Fm_bytes m),
                 Fm_wrs := (if deltaWRs > 0 then addTo labels (unat deltaWRs) (Fm_wrs m) else Fm_wrs m),
                 Fm_qps := addTo labels 1 (Fm_qps m)\<rparr>))"

definition endReport :: "(qpKey, bool) gomap \<Rightarrow> reportSummary \<Rightarrow> flowMetrics \<Rightarrow> flowMetrics" where
  "endReport seen s m =
     m\<lparr>Fm_last := fold (\<lambda>key lastMap. if mgetd False seen key then lastMap else mdel key lastMap) (mkeys (Fm_last m)) (Fm_last m),
       Fm_gauges := s\<rparr>"

subsection \<open>Destinations by queue pair\<close>

record qpInfoIndex =
  Qi_exact :: "(qpKey, qpInfo) gomap"
  Qi_byQPN :: "(32 word, qpInfo) gomap"
  Qi_ambiguous :: "(32 word, bool) gomap"

definition newQPInfoIndex :: qpInfoIndex where
  "newQPInfoIndex = \<lparr>Qi_exact = [], Qi_byQPN = [], Qi_ambiguous = []\<rparr>"

definition addInfo :: "qpKey \<times> qpInfo \<Rightarrow> qpInfoIndex \<Rightarrow> qpInfoIndex" where
  "addInfo e index =
     (case e of (key, info) \<Rightarrow>
        let index' = index\<lparr>Qi_exact := mput key info (Qi_exact index)\<rparr>
        in case map_of (Qi_byQPN index') (Ky_QPN key) of
             Some _ \<Rightarrow> index'\<lparr>Qi_ambiguous := mput (Ky_QPN key) True (Qi_ambiguous index')\<rparr>
           | None \<Rightarrow> index'\<lparr>Qi_byQPN := mput (Ky_QPN key) info (Qi_byQPN index')\<rparr>)"

definition lookupInfo :: "qpInfoIndex \<Rightarrow> qpKey \<Rightarrow> qpInfo option" where
  "lookupInfo index key =
     (case map_of (Qi_exact index) key of
        Some info \<Rightarrow> Some info
      | None \<Rightarrow> if mgetd False (Qi_ambiguous index) (Ky_QPN key) then None else map_of (Qi_byQPN index) (Ky_QPN key))"

subsection \<open>Removing queue pairs of exited processes\<close>

text \<open>What the two iterations yield, and whether the first one failed.\<close>

record cleanupView =
  Cv_alive :: "32 word \<Rightarrow> bool"
  Cv_stats :: "(qpKey \<times> qpStat) list"
  Cv_statsError :: bool
  Cv_infos :: "(qpKey \<times> qpInfo) list"

record bpfMaps =
  Bm_stats :: "(qpKey, qpStat) gomap"
  Bm_infos :: "(qpKey, qpInfo) gomap"

definition cleanupDeadQPs :: "cleanupView \<Rightarrow> bpfMaps \<Rightarrow> bool \<times> bpfMaps" where
  "cleanupDeadQPs v m =
     (let liveQPNs = map (\<lambda>(key, _). Ky_QPN key) (filter (\<lambda>(key, _). Cv_alive v (Ky_Tgid key)) (Cv_stats v));
          deadStats = map fst (filter (\<lambda>(key, _). \<not> Cv_alive v (Ky_Tgid key)) (Cv_stats v))
      in if Cv_statsError v then (False, m)
         else let deadInfos = map fst (filter (\<lambda>(key, _). \<not> Cv_alive v (Ky_Tgid key) \<and> Ky_QPN key \<notin> set liveQPNs) (Cv_infos v))
              in (deadInfos \<noteq> [],
                  m\<lparr>Bm_stats := fold mdel deadStats (Bm_stats m), Bm_infos := fold mdel deadInfos (Bm_infos m)\<rparr>))"

subsection \<open>A report round\<close>

record qpAttribution =
  At_src :: peer
  At_dst :: peer
  At_ends :: flowEnds

definition noEnds :: flowEnds where "noEnds = \<lparr>Fe_srcDevice = [], Fe_dstDevice = []\<rparr>"
definition noAttr :: qpAttribution where "noAttr = \<lparr>At_src = noPeer, At_dst = noPeer, At_ends = noEnds\<rparr>"

text \<open>The destination of a queue pair and the devices at both ends.\<close>

definition destination :: "resolver \<Rightarrow> qpInfo \<Rightarrow> peer \<times> flowEnds" where
  "destination r info =
     (let srcDevice = device info; dgid = gidToIP (In_DGID info);
          (dst, dstDevice) =
            (if lidAddressed info then podForLID r srcDevice (In_PortNum info) (In_DLID info) (In_DestQPN info)
             else if dgid \<noteq> [] then podForPeer r dgid (In_DestQPN info)
             else (noPeer, []))
      in (dst, \<lparr>Fe_srcDevice = srcDevice, Fe_dstDevice = dstDevice\<rparr>))"

record reportState =
  Rt_summary :: reportSummary
  Rt_flows :: "(string \<times> string, bool) gomap"
  Rt_seen :: "(qpKey, bool) gomap"
  Rt_attribution :: "(qpKey, qpAttribution) gomap"
  Rt_metrics :: flowMetrics
  Rt_resolver :: resolver

definition reportStat :: "(32 word \<Rightarrow> string option) \<Rightarrow> qpInfoIndex \<Rightarrow> qpKey \<times> qpStat \<Rightarrow> reportState \<Rightarrow> reportState" where
  "reportStat cgroup index e s =
     (case e of (key, st) \<Rightarrow>
        let summary = (Rt_summary s)\<lparr>Su_stats := Suc (Su_stats (Rt_summary s))\<rparr>;
            (summary', commName, dst, ends) =
              (case lookupInfo index key of
                 Some info \<Rightarrow>
                   let (dst, ends) = destination (Rt_resolver s) info
                   in (summary\<lparr>Su_matched := Suc (Su_matched summary)\<rparr>, comm (In_Comm info), dst, ends)
               | None \<Rightarrow> (summary\<lparr>Su_unmatched := Suc (Su_unmatched summary)\<rparr>, [], noPeer, noEnds));
            (src, r') = podForTgid cgroup (Ky_Tgid key) commName (Rt_resolver s);
            (recorded, metrics) = observe key st src dst ends (Rt_metrics s)
        in s\<lparr>Rt_summary := (if recorded then summary' else summary'\<lparr>Su_unresolved := Suc (Su_unresolved summary')\<rparr>),
             Rt_flows := mput (peerString src, peerString dst) True (Rt_flows s),
             Rt_seen := mput key True (Rt_seen s),
             Rt_attribution := mput key \<lparr>At_src = src, At_dst = dst, At_ends = ends\<rparr> (Rt_attribution s),
             Rt_metrics := metrics, Rt_resolver := r'\<rparr>)"

definition reportInfo :: "(32 word \<Rightarrow> string option) \<Rightarrow> qpKey \<times> qpInfo \<Rightarrow> (qpKey, qpAttribution) gomap \<times> resolver
    \<Rightarrow> (qpKey, qpAttribution) gomap \<times> resolver" where
  "reportInfo cgroup e = (\<lambda>(attribution, r).
     case e of (key, info) \<Rightarrow>
       (case map_of attribution key of
          Some _ \<Rightarrow> (attribution, r)
        | None \<Rightarrow>
            let (dst, ends) = destination r info;
                (src, r') = podForTgid cgroup (Ky_Tgid key) (comm (In_Comm info)) r
            in (mput key \<lparr>At_src = src, At_dst = dst, At_ends = ends\<rparr> attribution, r')))"

record reportView =
  Ov_cgroup :: "32 word \<Rightarrow> string option"
  Ov_infos :: "(qpKey \<times> qpInfo) list"
  Ov_stats :: "(qpKey \<times> qpStat) list"
  Ov_cleanup :: cleanupView

definition statRound :: "reportView \<Rightarrow> resolver \<Rightarrow> flowMetrics \<Rightarrow> reportState" where
  "statRound v r m =
     fold (reportStat (Ov_cgroup v) (fold addInfo (Ov_infos v) newQPInfoIndex)) (Ov_stats v)
       \<lparr>Rt_summary = noSummary\<lparr>Su_infos := length (Ov_infos v)\<rparr>, Rt_flows = [], Rt_seen = [], Rt_attribution = [],
        Rt_metrics = beginReport m, Rt_resolver = r\<rparr>"

text \<open>The result: whether queue pairs were removed, the attribution given to the send pipeline, and the new
  state of the maps, the resolver and the counters.\<close>

definition report :: "reportView \<Rightarrow> bpfMaps \<Rightarrow> resolver \<Rightarrow> flowMetrics
    \<Rightarrow> bool \<times> (qpKey, qpAttribution) gomap \<times> bpfMaps \<times> resolver \<times> flowMetrics" where
  "report v maps r m =
     (let s = statRound v r m;
          (attribution, r') = fold (reportInfo (Ov_cgroup v)) (Qi_exact (fold addInfo (Ov_infos v) newQPInfoIndex))
            (Rt_attribution s, Rt_resolver s);
          m' = endReport (Rt_seen s) ((Rt_summary s)\<lparr>Su_flows := length (Rt_flows s)\<rparr>) (Rt_metrics s);
          (removed, maps') = cleanupDeadQPs (Ov_cleanup v) maps
      in (removed, attribution, maps', r', m'))"

end
