(* ===== verification/Flow_Accounting.thy ===== *)
theory Flow_Accounting
  imports Flow_Report
begin

text \<open>
  What the report rounds of \<open>Flow_Report\<close> compute: which two pods the traffic of a queue pair is attributed
  to, what the counter of each flow holds after any sequence of rounds, that every byte is counted once as long as each round sees
  the queue pair, and what happens when a round does not see one or when a process number is used again.
\<close>

subsection \<open>Lookup of destinations\<close>

definition withQPN :: "32 word \<Rightarrow> (qpKey \<times> qpInfo) list \<Rightarrow> (qpKey \<times> qpInfo) list" where
  "withQPN q infos = filter (\<lambda>(k, _). Ky_QPN k = q) infos"

definition qpnOk :: "(qpKey \<times> qpInfo) list \<Rightarrow> qpInfoIndex \<Rightarrow> 32 word \<Rightarrow> bool" where
  "qpnOk infos index q \<longleftrightarrow> (map_of (Qi_byQPN index) q = None \<longleftrightarrow> withQPN q infos = [])
     \<and> (mgetd False (Qi_ambiguous index) q \<longleftrightarrow> length (withQPN q infos) > 1)
     \<and> (\<forall>x. withQPN q infos = [x] \<longrightarrow> map_of (Qi_byQPN index) q = Some (snd x))"

lemma addInfo_qpn:
  assumes "\<And>q. qpnOk infos index q"
  shows "qpnOk (infos @ [e]) (addInfo e index) q"
proof -
  obtain key info where e: "e = (key, info)" by (cases e)
  have w: "withQPN q (infos @ [(key, info)]) = withQPN q infos @ (if Ky_QPN key = q then [(key, info)] else [])"
    by (simp add: withQPN_def)
  have "qpnOk (infos @ [(key, info)]) (addInfo (key, info) index) q"
  proof (cases "Ky_QPN key = q")
    case True
    then show ?thesis
      using assms[of q] by (cases "map_of (Qi_byQPN index) q") (auto simp: qpnOk_def w addInfo_def Let_def)
  next
    case False
    then show ?thesis
      using assms[of q] by (cases "map_of (Qi_byQPN index) (Ky_QPN key)") (auto simp: qpnOk_def w addInfo_def Let_def mgetd_mput)
  qed
  then show ?thesis by (simp add: e)
qed

lemma fold_addInfo:
  "qpnOk infos (fold addInfo infos newQPInfoIndex) q"
  "Qi_exact (fold addInfo infos index) = fold (\<lambda>(k, i). mput k i) infos (Qi_exact index)"
proof (induction infos arbitrary: q rule: rev_induct)
  case Nil
  { case 1 then show ?case by (simp add: qpnOk_def newQPInfoIndex_def withQPN_def) }
  { case 2 then show ?case by simp }
next
  case (snoc e infos)
  { case 1 then show ?case using addInfo_qpn[OF snoc(1)] by simp }
  { case 2 then show ?case using snoc(2) by (auto simp: addInfo_def Let_def split: prod.splits option.splits) }
qed

lemma map_of_fold_entries: "distinct (map fst es) \<Longrightarrow> map_of (fold (\<lambda>(k, i). mput k i) es m) x = (case map_of es x of None \<Rightarrow> map_of m x | Some i \<Rightarrow> Some i)"
proof (induction es arbitrary: m)
  case (Cons e es)
  obtain k i where e: "e = (k, i)" by (cases e)
  have "map_of es k = None" using Cons.prems e by (auto simp: map_of_eq_None_iff)
  then show ?case using Cons by (auto simp: e split: option.splits)
qed simp

text \<open>The destination of a queue pair is its own entry, or the only entry with its number.\<close>

lemma lookupInfo_exact:
  assumes "distinct (map fst infos)"
  shows "lookupInfo (fold addInfo infos newQPInfoIndex) key =
     (case map_of infos key of
        Some info \<Rightarrow> Some info
      | None \<Rightarrow> (case withQPN (Ky_QPN key) infos of [(_, info)] \<Rightarrow> Some info | _ \<Rightarrow> None))"
proof -
  have "map_of (Qi_exact (fold addInfo infos newQPInfoIndex)) key = map_of infos key"
    unfolding fold_addInfo(2) map_of_fold_entries[OF assms] by (simp add: newQPInfoIndex_def split: option.splits)
  then show ?thesis using fold_addInfo(1)[of infos "Ky_QPN key"]
    by (auto simp: lookupInfo_def qpnOk_def split: option.splits list.splits)
qed

subsection \<open>The parts of a round\<close>

definition resolveStat :: "(32 word \<Rightarrow> string option) \<Rightarrow> qpInfoIndex \<Rightarrow> resolver \<Rightarrow> qpKey \<Rightarrow> peer \<times> peer \<times> flowEnds" where
  "resolveStat cgroup index r key =
     (case lookupInfo index key of
        Some info \<Rightarrow> (fst (podForTgid cgroup (Ky_Tgid key) (comm (In_Comm info)) r), destination r info)
      | None \<Rightarrow> (fst (podForTgid cgroup (Ky_Tgid key) [] r), noPeer, noEnds))"

lemma reportStat_parts:
  fixes s :: reportState
  assumes "resolveStat cgroup index (Rt_resolver s) key = (src, dst, ends)"
  shows "Rt_metrics (reportStat cgroup index (key, st) s) = snd (observe key st src dst ends (Rt_metrics s))"
    and "Rt_seen (reportStat cgroup index (key, st) s) = mput key True (Rt_seen s)"
    and "Rt_attribution (reportStat cgroup index (key, st) s) = mput key \<lparr>At_src = src, At_dst = dst, At_ends = ends\<rparr> (Rt_attribution s)"
  using assms by (auto simp: reportStat_def resolveStat_def Let_def split: option.splits prod.splits)

lemma endReport_last: "Fm_last (endReport seen su m) = filter (\<lambda>(k, _). mgetd False seen k) (Fm_last m)"
proof -
  have "fold (\<lambda>key l. if mgetd False seen key then l else mdel key l) ks l = filter (\<lambda>(k, _). k \<in> set ks \<longrightarrow> mgetd False seen k) l"
    for ks and l :: "(qpKey, qpStat) gomap"
  proof (induction ks arbitrary: l)
    case (Cons k ks)
    have "mdel k l = filter (\<lambda>(x, _). x \<noteq> k) l" by (auto simp: mdel_def AList.delete_eq intro: filter_cong)
    then show ?case using Cons by (auto intro!: filter_cong)
  qed simp
  moreover have "filter (\<lambda>(k, _). k \<in> set (mkeys (Fm_last m)) \<longrightarrow> mgetd False seen k) (Fm_last m) = filter (\<lambda>(k, _). mgetd False seen k) (Fm_last m)"
    by (auto intro!: filter_cong dest: keyset_mem)
  ultimately show ?thesis by (simp add: endReport_def)
qed

subsection \<open>What a round attributes\<close>

text \<open>A round only adds to the cache of the resolver what the cgroup files say.\<close>

definition uidOf :: "(32 word \<Rightarrow> string option) \<Rightarrow> (32 word, string) gomap \<Rightarrow> 32 word \<Rightarrow> string" where
  "uidOf cgroup cache t = (case map_of cache t of Some u \<Rightarrow> u | None \<Rightarrow> cgroupPodUID cgroup t)"

definition sameTgids :: "(32 word \<Rightarrow> string option) \<Rightarrow> resolver \<Rightarrow> resolver \<Rightarrow> bool" where
  "sameTgids cgroup r r' \<longleftrightarrow> (\<exists>c. r' = r\<lparr>Rs_uidByTgid := c\<rparr> \<and> (\<forall>t. uidOf cgroup c t = uidOf cgroup (Rs_uidByTgid r) t))"

lemma podForTgid_fst:
  "fst (podForTgid cgroup t c r) =
     (let uid = uidOf cgroup (Rs_uidByTgid r) t in
      if uid = [] then labelPeer (''pid:'' @ nat_str (unat t) @ (if c \<noteq> [] then ''('' @ c @ '')'' else []))
      else case map_of (Rs_byUID r) uid of Some p \<Rightarrow> p | None \<Rightarrow> labelPeer (''pod-uid:'' @ uid))"
  by (auto simp: podForTgid_def podUIDForTgid_def uidOf_def Let_def split: option.splits)

lemma podForTgid_snd:
  "snd (podForTgid cgroup t c r) = r
   \<or> (map_of (Rs_uidByTgid r) t = None \<and> snd (podForTgid cgroup t c r) = r\<lparr>Rs_uidByTgid := mput t (cgroupPodUID cgroup t) (Rs_uidByTgid r)\<rparr>)"
proof -
  obtain u r1 where u: "podUIDForTgid cgroup t r = (u, r1)" by fastforce
  then have "r1 = r \<or> (map_of (Rs_uidByTgid r) t = None \<and> r1 = r\<lparr>Rs_uidByTgid := mput t (cgroupPodUID cgroup t) (Rs_uidByTgid r)\<rparr>)"
    by (auto simp: podUIDForTgid_def Let_def split: option.splits if_splits)
  moreover have "snd (podForTgid cgroup t c r) = r1" by (simp add: podForTgid_def u Let_def split: option.splits)
  ultimately show ?thesis by simp
qed

lemma sameTgids_refl: "sameTgids cgroup r r"
  unfolding sameTgids_def by (rule exI[of _ "Rs_uidByTgid r"]) simp

lemma sameTgids_podForTgid:
  assumes "sameTgids cgroup r r'"
  shows "sameTgids cgroup r (snd (podForTgid cgroup t c r'))"
proof -
  obtain k where k: "r' = r\<lparr>Rs_uidByTgid := k\<rparr>" "\<forall>t. uidOf cgroup k t = uidOf cgroup (Rs_uidByTgid r) t"
    using assms by (auto simp: sameTgids_def)
  show ?thesis
  proof (cases "snd (podForTgid cgroup t c r') = r'")
    case False
    then have n: "map_of k t = None" "snd (podForTgid cgroup t c r') = r\<lparr>Rs_uidByTgid := mput t (cgroupPodUID cgroup t) k\<rparr>"
      using podForTgid_snd[of cgroup t c r'] by (simp_all add: k(1))
    have "uidOf cgroup (mput t (cgroupPodUID cgroup t) k) x = uidOf cgroup k x" for x
      using n(1) by (simp add: uidOf_def)
    then show ?thesis using k(2) n(2) unfolding sameTgids_def by (intro exI[of _ "mput t (cgroupPodUID cgroup t) k"]) simp
  qed (use assms in simp)
qed

lemma podForTgid_same: "sameTgids cgroup r r' \<Longrightarrow> fst (podForTgid cgroup t c r') = fst (podForTgid cgroup t c r)"
  by (auto simp: sameTgids_def podForTgid_fst Let_def cong: option.case_cong)

lemma resolve_cache:
  "podForReportedAddress (r\<lparr>Rs_uidByTgid := c\<rparr>) = podForReportedAddress r" "lidKeyFor (r\<lparr>Rs_uidByTgid := c\<rparr>) = lidKeyFor r"
  by (simp_all add: fun_eq_iff podForReportedAddress_def lidKeyFor_def Let_def cong: option.case_cong if_cong)

lemma destination_same: "sameTgids cgroup r r' \<Longrightarrow> destination r' info = destination r info"
proof -
  have "podForLID (r\<lparr>Rs_uidByTgid := c\<rparr>) = podForLID r" "podForPeer (r\<lparr>Rs_uidByTgid := c\<rparr>) = podForPeer r" for c
    by (simp_all add: fun_eq_iff podForLID_def podForPeer_def resolve_cache Let_def cong: option.case_cong if_cong)
  then have "destination (r\<lparr>Rs_uidByTgid := c\<rparr>) info = destination r info" for c by (simp only: destination_def)
  then show "sameTgids cgroup r r' \<Longrightarrow> destination r' info = destination r info" by (auto simp: sameTgids_def)
qed

lemma resolveStat_same: "sameTgids cgroup r r' \<Longrightarrow> resolveStat cgroup index r' key = resolveStat cgroup index r key"
  using podForTgid_same[of cgroup r r'] destination_same[of cgroup r r'] by (simp add: resolveStat_def split: option.splits)

lemma reportStat_resolver:
  fixes s :: reportState
  shows "\<exists>c. Rt_resolver (reportStat cgroup index (key, st) s) = snd (podForTgid cgroup (Ky_Tgid key) c (Rt_resolver s))"
  by (auto simp: reportStat_def Let_def split: option.splits prod.splits) (metis snd_conv)+

definition attributionOf :: "peer \<times> peer \<times> flowEnds \<Rightarrow> qpAttribution" where
  "attributionOf p = (case p of (src, dst, ends) \<Rightarrow> \<lparr>At_src = src, At_dst = dst, At_ends = ends\<rparr>)"

lemma fold_reportStat_attribution:
  fixes s :: reportState
  assumes "sameTgids cgroup r (Rt_resolver s)"
  shows "sameTgids cgroup r (Rt_resolver (fold (reportStat cgroup index) es s))
    \<and> map_of (Rt_attribution (fold (reportStat cgroup index) es s)) key =
       (if key \<in> fst ` set es then Some (attributionOf (resolveStat cgroup index r key)) else map_of (Rt_attribution s) key)"
  using assms
proof (induction es arbitrary: s)
  case (Cons e es)
  obtain k st where e: "e = (k, st)" by (cases e)
  obtain src dst ends where r: "resolveStat cgroup index (Rt_resolver s) k = (src, dst, ends)"
    by (cases "resolveStat cgroup index (Rt_resolver s) k") auto
  let ?s = "reportStat cgroup index (k, st) s"
  have a: "Rt_attribution ?s = mput k (attributionOf (resolveStat cgroup index r k)) (Rt_attribution s)"
    using reportStat_parts(3)[OF r, of st] r resolveStat_same[OF Cons.prems] by (simp add: attributionOf_def)
  have "sameTgids cgroup r (Rt_resolver ?s)"
    using reportStat_resolver[of cgroup index k st s] sameTgids_podForTgid[OF Cons.prems] by auto
  from Cons.IH[OF this] show ?case by (auto simp: e a)
qed simp

lemma fold_reportInfo:
  assumes "sameTgids cgroup r r1" "distinct (map fst es)"
  shows "map_of (fst (fold (reportInfo cgroup) es (attribution, r1))) key =
    (case map_of attribution key of
       Some a \<Rightarrow> Some a
     | None \<Rightarrow> map_option (\<lambda>info. attributionOf (fst (podForTgid cgroup (Ky_Tgid key) (comm (In_Comm info)) r), destination r info)) (map_of es key))"
  using assms
proof (induction es arbitrary: attribution r1)
  case (Cons e es)
  obtain k info where e: "e = (k, info)" by (cases e)
  have k: "map_of es k = None" using Cons.prems(2) e by (auto simp: map_of_eq_None_iff)
  show ?case
  proof (cases "map_of attribution k")
    case (Some a)
    then show ?thesis using Cons by (auto simp: e reportInfo_def split: option.splits)
  next
    case None
    let ?r = "snd (podForTgid cgroup (Ky_Tgid k) (comm (In_Comm info)) r1)"
    have "reportInfo cgroup e (attribution, r1) =
        (mput k (attributionOf (fst (podForTgid cgroup (Ky_Tgid k) (comm (In_Comm info)) r1), destination r1 info)) attribution, ?r)"
      using None by (simp add: e reportInfo_def attributionOf_def Let_def split: prod.splits)
    moreover have "sameTgids cgroup r ?r" by (rule sameTgids_podForTgid[OF Cons.prems(1)])
    ultimately show ?thesis using Cons.IH[of ?r] Cons.prems k None podForTgid_same[OF Cons.prems(1)] destination_same[OF Cons.prems(1)]
      by (auto simp: e split: option.splits)
  qed
qed (simp split: option.splits)

lemma report_parts:
  assumes "report v maps r m = (removed, attribution, maps', r', m')"
  shows "attribution = fst (fold (reportInfo (Ov_cgroup v)) (Qi_exact (fold addInfo (Ov_infos v) newQPInfoIndex))
        (Rt_attribution (statRound v r m), Rt_resolver (statRound v r m)))"
    and "\<exists>su. m' = endReport (Rt_seen (statRound v r m)) su (Rt_metrics (statRound v r m))"
    and "(removed, maps') = cleanupDeadQPs (Ov_cleanup v) maps"
  using assms by (auto simp: report_def Let_def split: prod.splits)

definition statRound0 :: "reportView \<Rightarrow> resolver \<Rightarrow> flowMetrics \<Rightarrow> reportState" where
  "statRound0 v r m = \<lparr>Rt_summary = noSummary\<lparr>Su_infos := length (Ov_infos v)\<rparr>, Rt_flows = [], Rt_seen = [], Rt_attribution = [],
        Rt_metrics = beginReport m, Rt_resolver = r\<rparr>"

lemma report_attribution_lemma:
  assumes "report v maps r m = (removed, attribution, maps', r', m')"
    and "distinct (map fst (Ov_infos v))"
  shows "map_of attribution key =
    (if key \<in> fst ` set (Ov_stats v) then Some (attributionOf (resolveStat (Ov_cgroup v) (fold addInfo (Ov_infos v) newQPInfoIndex) r key))
     else map_option (\<lambda>info. attributionOf (fst (podForTgid (Ov_cgroup v) (Ky_Tgid key) (comm (In_Comm info)) r), destination r info))
       (map_of (Ov_infos v) key))"
proof -
  let ?index = "fold addInfo (Ov_infos v) newQPInfoIndex"
  have "sameTgids (Ov_cgroup v) r (Rt_resolver (statRound0 v r m))" by (simp add: statRound0_def sameTgids_refl)
  from fold_reportStat_attribution[OF this, of ?index "Ov_stats v"] have s: "sameTgids (Ov_cgroup v) r (Rt_resolver (statRound v r m))"
    "\<And>key. map_of (Rt_attribution (statRound v r m)) key =
      (if key \<in> fst ` set (Ov_stats v) then Some (attributionOf (resolveStat (Ov_cgroup v) ?index r key)) else None)"
    by (simp_all add: statRound_def statRound0_def)
  have ex: "Qi_exact ?index = fold (\<lambda>(k, i). mput k i) (Ov_infos v) []" by (simp add: fold_addInfo(2) newQPInfoIndex_def)
  have "mwf (fold (\<lambda>(k, i). mput k i) es m)" if "mwf m" for es and m :: "(qpKey, qpInfo) gomap"
    using that by (induction es arbitrary: m) auto
  then have d: "distinct (map fst (Qi_exact ?index))" by (simp add: ex)
  have "map_of (Qi_exact ?index) key = map_of (Ov_infos v) key"
    using map_of_fold_entries[OF assms(2), of "[]" key] by (simp add: ex split: option.splits)
  then show ?thesis
    unfolding report_parts(1)[OF assms(1)] fold_reportInfo[OF s(1) d] s(2) by simp
qed

definition infoFor :: "(qpKey \<times> qpInfo) list \<Rightarrow> qpKey \<Rightarrow> qpInfo option" where
  "infoFor infos key =
     (case map_of infos key of
        Some info \<Rightarrow> Some info
      | None \<Rightarrow> (case withQPN (Ky_QPN key) infos of [(_, info)] \<Rightarrow> Some info | _ \<Rightarrow> None))"

definition attributionFor :: "(32 word \<Rightarrow> string option) \<Rightarrow> resolver \<Rightarrow> qpKey \<Rightarrow> qpInfo option \<Rightarrow> qpAttribution" where
  "attributionFor cgroup r key info =
     (case info of
        Some i \<Rightarrow> attributionOf (fst (podForTgid cgroup (Ky_Tgid key) (comm (In_Comm i)) r), destination r i)
      | None \<Rightarrow> \<lparr>At_src = fst (podForTgid cgroup (Ky_Tgid key) [] r), At_dst = noPeer, At_ends = noEnds\<rparr>)"

lemma resolveStat_infoFor:
  assumes "distinct (map fst infos)"
  shows "attributionOf (resolveStat cgroup (fold addInfo infos newQPInfoIndex) r key) = attributionFor cgroup r key (infoFor infos key)"
  unfolding resolveStat_def lookupInfo_exact[OF assms] infoFor_def[symmetric]
  by (simp add: attributionFor_def attributionOf_def split: option.splits)

text \<open>
  C37: Every queue pair that the iterations over the two maps yield is attributed, and no other one: its source is
  the pod of its process, and its destination is computed from its own entry of \<open>qp_infos\<close>, or from the only
  entry with its number when it has none.
\<close>

theorem report_attribution:
  assumes "report v maps r m = (removed, attribution, maps', r', m')" "distinct (map fst (Ov_infos v))"
  shows "map_of attribution key =
    (if key \<in> fst ` set (Ov_stats v) \<union> fst ` set (Ov_infos v)
     then Some (attributionFor (Ov_cgroup v) r key (infoFor (Ov_infos v) key)) else None)"
proof (cases "map_of (Ov_infos v) key")
  case None
  then have "key \<notin> fst ` set (Ov_infos v)" by (simp add: map_of_eq_None_iff)
  then show ?thesis using None by (simp add: report_attribution_lemma[OF assms] resolveStat_infoFor[OF assms(2)])
next
  case (Some info)
  then have "key \<in> fst ` set (Ov_infos v)" by (metis map_of_eq_None_iff option.distinct(1))
  then show ?thesis using Some
    by (simp add: report_attribution_lemma[OF assms] resolveStat_infoFor[OF assms(2)] infoFor_def attributionFor_def)
qed

subsection \<open>What a round counts\<close>

type_synonym round = "reportView \<times> bpfMaps \<times> resolver"

definition afterRound :: "round \<Rightarrow> flowMetrics \<Rightarrow> flowMetrics" where
  "afterRound rd m = (case rd of (v, maps, r) \<Rightarrow> snd (snd (snd (snd (report v maps r m)))))"

fun runRounds :: "round list \<Rightarrow> flowMetrics \<Rightarrow> flowMetrics" where
  "runRounds [] m = m"
| "runRounds (rd # rds) m = runRounds rds (afterRound rd m)"

text \<open>The increase of a counter, given the totals counted last: the difference, or the whole total of a queue pair that has none or
  whose totals went back.\<close>

definition credit :: "(qpStat \<Rightarrow> 64 word) \<Rightarrow> qpStat option \<Rightarrow> qpStat \<Rightarrow> nat" where
  "credit field prev st =
     (case prev of
        None \<Rightarrow> unat (field st)
      | Some p \<Rightarrow> if Sa_Bytes p \<le> Sa_Bytes st \<and> Sa_WRs p \<le> Sa_WRs st then unat (field st) - unat (field p) else unat (field st))"

text \<open>The flow a queue pair is counted for in a round: none unless both ends are pods.\<close>

definition flowFor :: "qpAttribution \<Rightarrow> string list option" where
  "flowFor a = (if isPod (At_src a) \<and> isPod (At_dst a) then Some (flowLabels (At_src a) (At_dst a) (At_ends a)) else None)"

definition flowIn :: "round \<Rightarrow> qpKey \<Rightarrow> string list option" where
  "flowIn rd key = (case rd of (v, _, r) \<Rightarrow> flowFor (attributionFor (Ov_cgroup v) r key (infoFor (Ov_infos v) key)))"

definition seenIn :: "round \<Rightarrow> qpKey \<Rightarrow> qpStat option" where
  "seenIn rd key = map_of (Ov_stats (fst rd)) key"

definition roundOk :: "round \<Rightarrow> bool" where
  "roundOk rd \<longleftrightarrow> distinct (map fst (Ov_stats (fst rd))) \<and> distinct (map fst (Ov_infos (fst rd)))"

lemma mgetd_addTo: "mgetd 0 (addTo labels n c) f = mgetd 0 c f + (if f = labels then n else 0)"
  by (simp add: addTo_def mgetd_def)

lemma observe_counts:
  fixes src dst ends
  defines "flow \<equiv> flowFor \<lparr>At_src = src, At_dst = dst, At_ends = ends\<rparr>"
  shows "map_of (Fm_last (snd (observe key st src dst ends m))) k = (if k = key \<and> flow \<noteq> None then Some st else map_of (Fm_last m) k)"
    and "mgetd 0 (Fm_bytes (snd (observe key st src dst ends m))) f =
        mgetd 0 (Fm_bytes m) f + (if flow = Some f then credit Sa_Bytes (map_of (Fm_last m) key) st else 0)"
    and "mgetd 0 (Fm_wrs (snd (observe key st src dst ends m))) f =
        mgetd 0 (Fm_wrs m) f + (if flow = Some f then credit Sa_WRs (map_of (Fm_last m) key) st else 0)"
proof -
  have d: "unat (if Sa_Bytes p \<le> Sa_Bytes st \<and> Sa_WRs p \<le> Sa_WRs st then Sa_Bytes st - Sa_Bytes p else Sa_Bytes st) = credit Sa_Bytes (Some p) st"
    "unat (if Sa_Bytes p \<le> Sa_Bytes st \<and> Sa_WRs p \<le> Sa_WRs st then Sa_WRs st - Sa_WRs p else Sa_WRs st) = credit Sa_WRs (Some p) st" for p
    by (simp_all add: credit_def unat_sub)
  have z: "credit Sa_Bytes (Some zeroStat) st = credit Sa_Bytes None st" "credit Sa_WRs (Some zeroStat) st = credit Sa_WRs None st"
    by (simp_all add: credit_def zeroStat_def)
  then have p: "credit Sa_Bytes (Some (mgetd zeroStat (Fm_last m) key)) st = credit Sa_Bytes (map_of (Fm_last m) key) st"
    "credit Sa_WRs (Some (mgetd zeroStat (Fm_last m) key)) st = credit Sa_WRs (map_of (Fm_last m) key) st"
    by (simp_all add: mgetd_def split: option.splits)
  have guard: "mgetd 0 (if 0 < w then addTo labels (unat w) c else c) f = mgetd 0 c f + (if labels = f then unat w else 0)"
    for w :: "64 word" and labels c by (auto simp: mgetd_addTo word_gt_0)
  show "map_of (Fm_last (snd (observe key st src dst ends m))) k = (if k = key \<and> flow \<noteq> None then Some st else map_of (Fm_last m) k)"
    by (simp add: observe_def flow_def flowFor_def Let_def)
  show "mgetd 0 (Fm_bytes (snd (observe key st src dst ends m))) f =
        mgetd 0 (Fm_bytes m) f + (if flow = Some f then credit Sa_Bytes (map_of (Fm_last m) key) st else 0)"
  proof (cases "isPod src \<and> isPod dst")
    case True
    then show ?thesis
      by (simp add: observe_def flow_def flowFor_def Let_def guard split del: if_split) (simp only: d(1) p(1))
  qed (auto simp: observe_def flow_def flowFor_def)
  show "mgetd 0 (Fm_wrs (snd (observe key st src dst ends m))) f =
        mgetd 0 (Fm_wrs m) f + (if flow = Some f then credit Sa_WRs (map_of (Fm_last m) key) st else 0)"
  proof (cases "isPod src \<and> isPod dst")
    case True
    then show ?thesis
      by (simp add: observe_def flow_def flowFor_def Let_def guard split del: if_split) (simp only: d(2) p(2))
  qed (auto simp: observe_def flow_def flowFor_def)
qed

lemma fold_reportStat_counts:
  fixes s :: reportState
  assumes "sameTgids cgroup r (Rt_resolver s)" "distinct (map fst es)" "\<And>k. flow k = flowFor (attributionOf (resolveStat cgroup index r k))"
  shows "(\<forall>k. mgetd False (Rt_seen (fold (reportStat cgroup index) es s)) k \<longleftrightarrow> k \<in> fst ` set es \<or> mgetd False (Rt_seen s) k)
    \<and> (\<forall>k. map_of (Fm_last (Rt_metrics (fold (reportStat cgroup index) es s))) k =
        (case map_of es k of Some st \<Rightarrow> if flow k \<noteq> None then Some st else map_of (Fm_last (Rt_metrics s)) k | None \<Rightarrow> map_of (Fm_last (Rt_metrics s)) k))
    \<and> (\<forall>f. mgetd 0 (Fm_bytes (Rt_metrics (fold (reportStat cgroup index) es s))) f = mgetd 0 (Fm_bytes (Rt_metrics s)) f
        + (\<Sum>(k, st)\<leftarrow>es. if flow k = Some f then credit Sa_Bytes (map_of (Fm_last (Rt_metrics s)) k) st else 0))
    \<and> (\<forall>f. mgetd 0 (Fm_wrs (Rt_metrics (fold (reportStat cgroup index) es s))) f = mgetd 0 (Fm_wrs (Rt_metrics s)) f
        + (\<Sum>(k, st)\<leftarrow>es. if flow k = Some f then credit Sa_WRs (map_of (Fm_last (Rt_metrics s)) k) st else 0))"
  using assms(1,2)
proof (induction es arbitrary: s)
  case (Cons e es)
  obtain key st where e: "e = (key, st)" by (cases e)
  let ?s = "reportStat cgroup index (key, st) s"
  obtain src dst ends where r: "resolveStat cgroup index (Rt_resolver s) key = (src, dst, ends)"
    by (cases "resolveStat cgroup index (Rt_resolver s) key") auto
  have flow: "flowFor \<lparr>At_src = src, At_dst = dst, At_ends = ends\<rparr> = flow key"
    using r resolveStat_same[OF Cons.prems(1), of index key] assms(3)[of key] by (simp add: attributionOf_def)
  note p = reportStat_parts[OF r, of st]
  have key: "key \<notin> fst ` set es" and d: "distinct (map fst es)" using Cons.prems(2) e by simp_all
  have same: "sameTgids cgroup r (Rt_resolver ?s)"
    using reportStat_resolver[of cgroup index key st s] sameTgids_podForTgid[OF Cons.prems(1)] by auto
  have other: "map_of (Fm_last (Rt_metrics ?s)) (fst x) = map_of (Fm_last (Rt_metrics s)) (fst x)" if "x \<in> set es" for x
  proof -
    have "fst x \<noteq> key" using key that by (metis imageI)
    then show ?thesis unfolding p(1) observe_counts(1) by simp
  qed
  have sums: "(\<Sum>(k, st)\<leftarrow>es. if flow k = Some f then credit field (map_of (Fm_last (Rt_metrics ?s)) k) st else 0)
      = (\<Sum>(k, st)\<leftarrow>es. if flow k = Some f then credit field (map_of (Fm_last (Rt_metrics s)) k) st else 0)" for f field
    by (rule arg_cong[of _ _ sum_list], rule map_cong[OF refl]) (use other in \<open>auto simp: case_prod_beta\<close>)
  have none: "map_of es key = None" using key by (simp add: map_of_eq_None_iff)
  have f: "fold (reportStat cgroup index) (e # es) s = fold (reportStat cgroup index) es ?s" by (simp add: e)
  note ih = Cons.IH[OF same d, unfolded sums, unfolded p(1,2) observe_counts flow]
  show ?case unfolding f using ih[unfolded p(1)[symmetric]] none by (auto simp: e p(2) mgetd_mput split: option.splits)
qed simp

lemma afterRound_counts:
  assumes "roundOk rd"
  shows "map_of (Fm_last (afterRound rd m)) k =
      (case seenIn rd k of None \<Rightarrow> None | Some st \<Rightarrow> if flowIn rd k \<noteq> None then Some st else map_of (Fm_last m) k)"
    and "mgetd 0 (Fm_bytes (afterRound rd m)) f = mgetd 0 (Fm_bytes m) f
      + (\<Sum>(k, st)\<leftarrow>Ov_stats (fst rd). if flowIn rd k = Some f then credit Sa_Bytes (map_of (Fm_last m) k) st else 0)"
    and "mgetd 0 (Fm_wrs (afterRound rd m)) f = mgetd 0 (Fm_wrs m) f
      + (\<Sum>(k, st)\<leftarrow>Ov_stats (fst rd). if flowIn rd k = Some f then credit Sa_WRs (map_of (Fm_last m) k) st else 0)"
proof -
  obtain v maps r where rd: "rd = (v, maps, r)" by (cases rd)
  have d: "distinct (map fst (Ov_stats v))" "distinct (map fst (Ov_infos v))" using assms by (simp_all add: roundOk_def rd)
  obtain removed attribution maps' r' m' where rep: "report v maps r m = (removed, attribution, maps', r', m')" by (metis prod.exhaust)
  let ?s = "statRound v r m"
  obtain su where m': "m' = endReport (Rt_seen ?s) su (Rt_metrics ?s)" using report_parts(2)[OF rep] by blast
  have after: "afterRound rd m = m'" by (simp add: afterRound_def rd rep)
  let ?index = "fold addInfo (Ov_infos v) newQPInfoIndex"
  have st: "fold (reportStat (Ov_cgroup v) ?index) (Ov_stats v) (statRound0 v r m) = ?s" by (simp add: statRound_def statRound0_def)
  have start: "Rt_seen (statRound0 v r m) = []" "Fm_last (Rt_metrics (statRound0 v r m)) = Fm_last m"
    "Fm_bytes (Rt_metrics (statRound0 v r m)) = Fm_bytes m" "Fm_wrs (Rt_metrics (statRound0 v r m)) = Fm_wrs m"
    by (simp_all add: statRound0_def beginReport_def)
  have same: "sameTgids (Ov_cgroup v) r (Rt_resolver (statRound0 v r m))" by (simp add: statRound0_def sameTgids_refl)
  have flow: "flowIn rd k = flowFor (attributionOf (resolveStat (Ov_cgroup v) ?index r k))" for k
    by (simp add: flowIn_def rd resolveStat_infoFor[OF d(2)])
  note c = fold_reportStat_counts[OF same d(1) flow, unfolded st start]
  have sel: "map_of (filter (\<lambda>(k, _). P k) l) k = (if P k then map_of l k else None)" for P and l :: "(qpKey, qpStat) gomap"
    by (induction l) auto
  have seen: "k \<in> fst ` set (Ov_stats v) \<longleftrightarrow> seenIn rd k \<noteq> None" by (simp add: seenIn_def rd map_of_eq_None_iff)
  show "map_of (Fm_last (afterRound rd m)) k =
      (case seenIn rd k of None \<Rightarrow> None | Some st \<Rightarrow> if flowIn rd k \<noteq> None then Some st else map_of (Fm_last m) k)"
    unfolding after m' endReport_last sel using c seen by (simp add: seenIn_def rd split: option.splits)
  show "mgetd 0 (Fm_bytes (afterRound rd m)) f = mgetd 0 (Fm_bytes m) f
      + (\<Sum>(k, st)\<leftarrow>Ov_stats (fst rd). if flowIn rd k = Some f then credit Sa_Bytes (map_of (Fm_last m) k) st else 0)"
    unfolding after m' using c by (simp add: endReport_def rd)
  show "mgetd 0 (Fm_wrs (afterRound rd m)) f = mgetd 0 (Fm_wrs m) f
      + (\<Sum>(k, st)\<leftarrow>Ov_stats (fst rd). if flowIn rd k = Some f then credit Sa_WRs (map_of (Fm_last m) k) st else 0)"
    unfolding after m' using c by (simp add: endReport_def rd)
qed

subsection \<open>Counters over many rounds\<close>

text \<open>What the rounds say of a queue pair, the newest round first: the totals counted last, unless a later round did not
  see the queue pair, and what the rounds count of it for a flow.\<close>

fun lastCounted :: "round list \<Rightarrow> qpKey \<Rightarrow> qpStat option" where
  "lastCounted [] k = None"
| "lastCounted (rd # rds) k =
     (case seenIn rd k of None \<Rightarrow> None | Some st \<Rightarrow> if flowIn rd k \<noteq> None then Some st else lastCounted rds k)"

fun credited :: "(qpStat \<Rightarrow> 64 word) \<Rightarrow> string list \<Rightarrow> round list \<Rightarrow> qpKey \<Rightarrow> nat" where
  "credited field f [] k = 0"
| "credited field f (rd # rds) k = credited field f rds k
     + (case seenIn rd k of None \<Rightarrow> 0 | Some st \<Rightarrow> if flowIn rd k = Some f then credit field (lastCounted rds k) st else 0)"

definition qpsOf :: "round list \<Rightarrow> qpKey set" where
  "qpsOf rds = (\<Union>rd\<in>set rds. fst ` set (Ov_stats (fst rd)))"

lemma seenIn_qpsOf: "rd \<in> set rds \<Longrightarrow> seenIn rd k \<noteq> None \<Longrightarrow> k \<in> qpsOf rds"
  by (auto simp: seenIn_def qpsOf_def map_of_eq_None_iff)

lemma credited_outside: "k \<notin> qpsOf rds \<Longrightarrow> credited field f rds k = 0"
proof (induction rds)
  case (Cons rd rds)
  have "seenIn rd k = None" "k \<notin> qpsOf rds" using Cons.prems seenIn_qpsOf[of rd "rd # rds" k] by (auto simp: qpsOf_def)
  then show ?case using Cons.IH by simp
qed simp

lemma finite_qpsOf [simp]: "finite (qpsOf rds)"
  by (simp add: qpsOf_def)

lemma sum_round:
  fixes g :: "qpKey \<Rightarrow> qpStat \<Rightarrow> nat"
  assumes "roundOk rd" "finite K" "fst ` set (Ov_stats (fst rd)) \<subseteq> K"
  shows "(\<Sum>(k, st)\<leftarrow>Ov_stats (fst rd). g k st) = (\<Sum>k\<in>K. case seenIn rd k of None \<Rightarrow> 0 | Some st \<Rightarrow> g k st)"
proof -
  let ?es = "Ov_stats (fst rd)"
  have d: "distinct (map fst ?es)" using assms(1) by (simp add: roundOk_def)
  have "(\<Sum>(k, st)\<leftarrow>?es. g k st) = (\<Sum>k\<leftarrow>map fst ?es. case seenIn rd k of None \<Rightarrow> 0 | Some st \<Rightarrow> g k st)"
    unfolding map_map comp_def by (rule arg_cong[of _ _ sum_list], rule map_cong[OF refl]) (use d in \<open>auto simp: seenIn_def\<close>)
  also have "\<dots> = (\<Sum>k\<in>fst ` set ?es. case seenIn rd k of None \<Rightarrow> 0 | Some st \<Rightarrow> g k st)"
    by (simp only: sum_list_distinct_conv_sum_set[OF d] set_map)
  also have "\<dots> = (\<Sum>k\<in>K. case seenIn rd k of None \<Rightarrow> 0 | Some st \<Rightarrow> g k st)"
    by (rule sum.mono_neutral_left[OF assms(2,3)]) (auto simp: seenIn_def split: option.splits dest: map_of_SomeD intro: rev_image_eqI)
  finally show ?thesis .
qed

lemma runRounds_snoc: "runRounds (rds @ [rd]) m = afterRound rd (runRounds rds m)"
  by (induction rds arbitrary: m) simp_all

lemma sum_credited:
  assumes "roundOk rd"
  shows "(\<Sum>k\<in>qpsOf (rd # rds). credited field f (rd # rds) k) = (\<Sum>k\<in>qpsOf rds. credited field f rds k)
    + (\<Sum>(k, st)\<leftarrow>Ov_stats (fst rd). if flowIn rd k = Some f then credit field (lastCounted rds k) st else 0)"
proof -
  have "(\<Sum>k\<in>qpsOf (rd # rds). credited field f rds k) = (\<Sum>k\<in>qpsOf rds. credited field f rds k)"
    by (rule sum.mono_neutral_right) (auto simp: qpsOf_def credited_outside[unfolded qpsOf_def])
  moreover have "(\<Sum>(k, st)\<leftarrow>Ov_stats (fst rd). if flowIn rd k = Some f then credit field (lastCounted rds k) st else 0) =
      (\<Sum>k\<in>qpsOf (rd # rds). case seenIn rd k of None \<Rightarrow> 0 | Some st \<Rightarrow> if flowIn rd k = Some f then credit field (lastCounted rds k) st else 0)"
    by (rule sum_round[OF assms finite_qpsOf]) (auto simp: qpsOf_def)
  ultimately show ?thesis by (simp add: sum.distrib)
qed

lemma runRounds_history:
  assumes "list_all roundOk rds"
  shows "map_of (Fm_last (runRounds (rev rds) newFlowMetrics)) k = lastCounted rds k"
    and "mgetd 0 (Fm_bytes (runRounds (rev rds) newFlowMetrics)) f = (\<Sum>k\<in>qpsOf rds. credited Sa_Bytes f rds k)"
    and "mgetd 0 (Fm_wrs (runRounds (rev rds) newFlowMetrics)) f = (\<Sum>k\<in>qpsOf rds. credited Sa_WRs f rds k)"
  using assms
proof (induction rds arbitrary: k f)
  case Nil
  { case 1 then show ?case by (simp add: newFlowMetrics_def) }
  { case 2 then show ?case by (simp add: newFlowMetrics_def qpsOf_def mgetd_def) }
  { case 3 then show ?case by (simp add: newFlowMetrics_def qpsOf_def mgetd_def) }
next
  case (Cons rd rds)
  { case 1 then show ?case using Cons.IH(1) by (simp add: runRounds_snoc afterRound_counts(1) split: option.splits) }
  { case 2 then show ?case using Cons.IH(1,2) unfolding rev.simps runRounds_snoc by (simp only: list.pred_inject(2) afterRound_counts(2) sum_credited) }
  { case 3 then show ?case using Cons.IH(1,3) unfolding rev.simps runRounds_snoc by (simp only: list.pred_inject(2) afterRound_counts(3) sum_credited) }
qed

text \<open>A stretch of rounds that all see a queue pair, whose totals do not go back: its bytes are counted once.\<close>

definition notBelow :: "qpStat \<Rightarrow> qpStat \<Rightarrow> bool" where
  "notBelow st p \<longleftrightarrow> Sa_Bytes p \<le> Sa_Bytes st \<and> Sa_WRs p \<le> Sa_WRs st"

fun steady :: "qpKey \<Rightarrow> round list \<Rightarrow> bool" where
  "steady k [] = True"
| "steady k (rd # rds) = (steady k rds \<and> (case seenIn rd k of None \<Rightarrow> False
     | Some st \<Rightarrow> list_all (\<lambda>rd'. case seenIn rd' k of None \<Rightarrow> False | Some p \<Rightarrow> notBelow st p) rds))"

lemma steady_below:
  assumes "steady k (rd # rs)" "seenIn rd k = Some st" "lastCounted old k = None" "lastCounted (rs @ old) k = Some p"
  shows "notBelow st p"
proof -
  have "list_all (\<lambda>rd'. case seenIn rd' k of None \<Rightarrow> False | Some p \<Rightarrow> notBelow st p) rs" using assms(1,2) by simp
  then show ?thesis using assms(3,4) by (induction rs) (auto split: option.splits if_splits)
qed

lemma credited_steady:
  assumes "steady k rs" "lastCounted old k = None" "\<forall>rd\<in>set rs. \<forall>g. flowIn rd k = Some g \<longrightarrow> g = f" "field = Sa_Bytes \<or> field = Sa_WRs"
  shows "credited field f (rs @ old) k = credited field f old k + (case lastCounted (rs @ old) k of None \<Rightarrow> 0 | Some st \<Rightarrow> unat (field st))"
  using assms(1,3)
proof (induction rs)
  case Nil
  then show ?case using assms(2) by simp
next
  case (Cons rd rs)
  obtain st where st: "seenIn rd k = Some st" using Cons.prems(1) by (auto split: option.splits)
  have ih: "credited field f (rs @ old) k = credited field f old k + (case lastCounted (rs @ old) k of None \<Rightarrow> 0 | Some st \<Rightarrow> unat (field st))"
    using Cons by simp
  have flow: "flowIn rd k = None \<or> flowIn rd k = Some f" using Cons.prems(2) by (cases "flowIn rd k") auto
  have le: "notBelow st p \<and> unat (field p) \<le> unat (field st)" if "lastCounted (rs @ old) k = Some p" for p
    using steady_below[OF Cons.prems(1) st assms(2) that] assms(4) by (auto simp: notBelow_def word_le_nat_alt)
  show ?case using flow ih st le by (cases "lastCounted (rs @ old) k") (auto simp: credit_def notBelow_def)
qed

text \<open>
  C38: What the counters hold, after any sequence of rounds (the newest first in \<open>rounds\<close>) in each of which an iteration
  yields no queue pair twice. The byte counter of every flow is the sum over all queue pairs of what the rounds counted of
  it for exactly that flow, where a round counts the increase over the totals counted last, or the whole totals when they went
  back, when no totals were counted before, or when a round since then did not see the queue pair; the same holds for work requests.
  Hence every byte is counted once: over a stretch of rounds that all see the queue pair, before which none of its totals
  count, in which its totals do not go back and in which it is resolved, if at all, to this flow, the rounds count
  exactly its totals in the last of these rounds in which it was resolved, including what was sent before it could be
  resolved.
\<close>

theorem report_counts_once:
  assumes "list_all roundOk rounds"
  shows "mgetd 0 (Fm_bytes (runRounds (rev rounds) newFlowMetrics)) f = (\<Sum>k\<in>qpsOf rounds. credited Sa_Bytes f rounds k)
    \<and> mgetd 0 (Fm_wrs (runRounds (rev rounds) newFlowMetrics)) f = (\<Sum>k\<in>qpsOf rounds. credited Sa_WRs f rounds k)
    \<and> (\<forall>k stretch old. rounds = stretch @ old \<and> steady k stretch \<and> lastCounted old k = None
         \<and> (\<forall>rd\<in>set stretch. \<forall>g. flowIn rd k = Some g \<longrightarrow> g = f) \<longrightarrow>
           credited Sa_Bytes f rounds k = credited Sa_Bytes f old k + (case lastCounted rounds k of None \<Rightarrow> 0 | Some st \<Rightarrow> unat (Sa_Bytes st))
         \<and> credited Sa_WRs f rounds k = credited Sa_WRs f old k + (case lastCounted rounds k of None \<Rightarrow> 0 | Some st \<Rightarrow> unat (Sa_WRs st)))"
  using runRounds_history[OF assms] credited_steady[where field = Sa_Bytes] credited_steady[where field = Sa_WRs] by blast

text \<open>
  C39: An iteration that ends early makes the next round count bytes again. Let the counters be any, let a round see the
  entries \<open>es\<close>, let the iteration of the next round end after the first \<open>n\<close> of them, and let a third round see all of
  them again, with the same totals: nothing was sent in between. Then the counter of each flow grows by the whole totals of the
  queue pairs after the first \<open>n\<close> that belong to it. (Each queue pair is resolved in the first and in the
  third round.)
\<close>

theorem report_counts_twice:
  fixes rd1 rd2 rd3 :: round
  assumes ok: "roundOk rd1" "roundOk rd2" "roundOk rd3"
    and stats: "Ov_stats (fst rd1) = es" "Ov_stats (fst rd2) = take n es" "Ov_stats (fst rd3) = es"
    and flows: "\<forall>(k, st)\<in>set es. flowIn rd1 k \<noteq> None \<and> flowIn rd3 k \<noteq> None"
  shows "mgetd 0 (Fm_bytes (runRounds [rd1, rd2, rd3] m)) f = mgetd 0 (Fm_bytes (afterRound rd1 m)) f
    + (\<Sum>(k, st)\<leftarrow>drop n es. if flowIn rd3 k = Some f then unat (Sa_Bytes st) else 0)"
proof -
  let ?m1 = "afterRound rd1 m" and ?m2 = "afterRound rd2 (afterRound rd1 m)"
  have d: "distinct (map fst es)" using ok(1) stats(1) by (simp add: roundOk_def)
  then have dn: "distinct (map fst (take n es) @ map fst (drop n es))" by (metis append_take_drop_id map_append)
  then have disj: "fst ` set (take n es) \<inter> fst ` set (drop n es) = {}" by simp
  have at: "map_of es k = Some st" if "(k, st) \<in> set es" for k st using d that by simp
  have none: "credit Sa_Bytes (Some st) st = 0" for st by (simp add: credit_def)
  have l1: "map_of (Fm_last ?m1) k = Some st" if "(k, st) \<in> set es" for k st
    using that flows at[OF that] by (auto simp: afterRound_counts(1)[OF ok(1)] seenIn_def stats)
  have head: "map_of (Fm_last ?m2) k = Some st" if "(k, st) \<in> set (take n es)" for k st
  proof -
    have "map_of (take n es) k = Some st" using dn that by (simp only: distinct_append map_of_is_SomeI)
    then show ?thesis using l1[OF in_set_takeD[OF that]] by (simp add: afterRound_counts(1)[OF ok(2)] seenIn_def stats)
  qed
  have tail: "map_of (Fm_last ?m2) k = None" if "(k, st) \<in> set (drop n es)" for k st
  proof -
    have "k \<notin> fst ` set (take n es)" using disj imageI[OF that, of fst] by (metis IntI emptyE fst_conv)
    then have "map_of (take n es) k = None" by (simp add: map_of_eq_None_iff)
    then show ?thesis by (simp add: afterRound_counts(1)[OF ok(2)] seenIn_def stats)
  qed
  have zero2: "(\<Sum>(k, st)\<leftarrow>take n es. if flowIn rd2 k = Some f then credit Sa_Bytes (map_of (Fm_last ?m1) k) st else 0) = 0"
    unfolding sum_list_eq_0_iff using l1[OF in_set_takeD] none by auto
  have zero3: "(\<Sum>(k, st)\<leftarrow>take n es. if flowIn rd3 k = Some f then credit Sa_Bytes (map_of (Fm_last ?m2) k) st else 0) = 0"
    unfolding sum_list_eq_0_iff using head none by auto
  have "(\<Sum>(k, st)\<leftarrow>drop n es. if flowIn rd3 k = Some f then credit Sa_Bytes (map_of (Fm_last ?m2) k) st else 0)
      = (\<Sum>(k, st)\<leftarrow>drop n es. if flowIn rd3 k = Some f then unat (Sa_Bytes st) else 0)"
    by (rule arg_cong[of _ _ sum_list], rule map_cong[OF refl]) (use tail in \<open>auto simp: credit_def\<close>)
  moreover have "(\<Sum>(k, st)\<leftarrow>es. if flowIn rd3 k = Some f then credit Sa_Bytes (map_of (Fm_last ?m2) k) st else 0) =
      (\<Sum>(k, st)\<leftarrow>drop n es. if flowIn rd3 k = Some f then credit Sa_Bytes (map_of (Fm_last ?m2) k) st else 0)"
    using zero3 by (subst append_take_drop_id[symmetric, of es n]) (simp only: map_append sum_list_append)
  ultimately show ?thesis using zero2 by (simp add: afterRound_counts(2)[OF ok(2)] afterRound_counts(2)[OF ok(3)] stats)
qed

subsection \<open>Reused process numbers\<close>

definition cached :: "resolver \<Rightarrow> 32 word \<Rightarrow> string \<Rightarrow> bool" where
  "cached r t u \<longleftrightarrow> map_of (Rs_uidByTgid r) t = Some u"

lemma podForTgid_keeps: "cached r x u \<Longrightarrow> cached (snd (podForTgid cgroup t c r)) x u"
  using podForTgid_snd[of cgroup t c r] by (auto simp: cached_def)

lemma podForTgid_caches:
  assumes "uidOf cgroup (Rs_uidByTgid r) t = u" "u \<noteq> []"
  shows "cached (snd (podForTgid cgroup t c r)) t u"
proof -
  have "cached (snd (podUIDForTgid cgroup t r)) t u"
    using assms by (auto simp: podUIDForTgid_def uidOf_def cached_def Let_def split: option.splits)
  moreover have "snd (podForTgid cgroup t c r) = snd (podUIDForTgid cgroup t r)"
    by (simp add: podForTgid_def Let_def split: option.splits prod.splits)
  ultimately show ?thesis by simp
qed

lemma fold_reportStat_keeps:
  fixes s :: reportState
  shows "cached (Rt_resolver s) t u \<Longrightarrow> cached (Rt_resolver (fold (reportStat cgroup index) es s)) t u"
proof (induction es arbitrary: s)
  case (Cons e es)
  obtain k st where e: "e = (k, st)" by (cases e)
  have "cached (Rt_resolver (reportStat cgroup index e s)) t u"
    using reportStat_resolver[of cgroup index k st s] podForTgid_keeps[OF Cons.prems] by (auto simp: e)
  then show ?case using Cons.IH by simp
qed simp

lemma fold_reportStat_caches:
  fixes s :: reportState
  assumes "sameTgids cgroup r (Rt_resolver s)" "(key, st) \<in> set es" "uidOf cgroup (Rs_uidByTgid r) (Ky_Tgid key) = u" "u \<noteq> []"
  shows "cached (Rt_resolver (fold (reportStat cgroup index) es s)) (Ky_Tgid key) u"
proof -
  obtain xs ys where es: "es = xs @ (key, st) # ys" using assms(2) by (meson split_list)
  let ?t = "fold (reportStat cgroup index) xs s"
  have "sameTgids cgroup r (Rt_resolver ?t)" using fold_reportStat_attribution[OF assms(1)] by blast
  then have "uidOf cgroup (Rs_uidByTgid (Rt_resolver ?t)) (Ky_Tgid key) = u" using assms(3) by (auto simp: sameTgids_def)
  then have "cached (Rt_resolver (reportStat cgroup index (key, st) ?t)) (Ky_Tgid key) u"
    using reportStat_resolver[of cgroup index key st ?t] podForTgid_caches[OF _ assms(4)] by auto
  then show ?thesis using fold_reportStat_keeps by (simp add: es)
qed

lemma reportInfo_resolver:
  assumes "reportInfo cgroup e (a, r) = (a', r')"
  shows "r' = r \<or> r' = snd (podForTgid cgroup (Ky_Tgid (fst e)) (comm (In_Comm (snd e))) r)"
  using assms by (auto simp: reportInfo_def Let_def split: option.splits prod.splits)

lemma fold_reportInfo_keeps: "cached r t u \<Longrightarrow> cached (snd (fold (reportInfo cgroup) es (a, r))) t u"
proof (induction es arbitrary: a r)
  case (Cons e es)
  obtain a' r' where r': "reportInfo cgroup e (a, r) = (a', r')" by fastforce
  have "cached r' t u" using reportInfo_resolver[OF r'] Cons.prems podForTgid_keeps by auto
  then show ?case using Cons.IH by (simp add: r')
qed simp

lemma fold_reportInfo_same: "sameTgids cgroup r r1 \<Longrightarrow> sameTgids cgroup r (snd (fold (reportInfo cgroup) es (a, r1)))"
proof (induction es arbitrary: a r1)
  case (Cons e es)
  obtain a' r' where r': "reportInfo cgroup e (a, r1) = (a', r')" by fastforce
  have "sameTgids cgroup r r'" using reportInfo_resolver[OF r'] Cons.prems sameTgids_podForTgid[OF Cons.prems] by auto
  then show ?case using Cons.IH by (simp add: r')
qed simp

lemma report_resolver:
  assumes "report v maps r m = (removed, attribution, maps', r', m')"
  shows "r' = snd (fold (reportInfo (Ov_cgroup v)) (Qi_exact (fold addInfo (Ov_infos v) newQPInfoIndex))
        (Rt_attribution (statRound v r m), Rt_resolver (statRound v r m)))"
  using assms by (auto simp: report_def Let_def split: prod.splits)

lemma report_same:
  assumes "report v maps r m = (removed, attribution, maps', r', m')"
  shows "sameTgids (Ov_cgroup v) r r'"
proof -
  have "sameTgids (Ov_cgroup v) r (Rt_resolver (statRound0 v r m))" by (simp add: statRound0_def sameTgids_refl)
  from fold_reportStat_attribution[OF this] have "sameTgids (Ov_cgroup v) r (Rt_resolver (statRound v r m))"
    by (simp add: statRound_def statRound0_def)
  then show ?thesis unfolding report_resolver[OF assms] by (rule fold_reportInfo_same)
qed

lemma report_caches:
  assumes "report v maps r m = (removed, attribution, maps', r', m')" "(key, st) \<in> set (Ov_stats v)"
    and "uidOf (Ov_cgroup v) (Rs_uidByTgid r) (Ky_Tgid key) = u" "u \<noteq> []"
  shows "cached r' (Ky_Tgid key) u"
proof -
  have "cached (Rt_resolver (statRound v r m)) (Ky_Tgid key) u"
    using fold_reportStat_caches[OF _ assms(2-4), of "statRound0 v r m"] by (simp add: statRound_def statRound0_def sameTgids_refl)
  then show ?thesis using fold_reportInfo_keeps by (simp add: report_resolver[OF assms(1)])
qed

text \<open>
  C40: The pod of a process number is read from its cgroup file once and is never read again: when the number is
  used again by a process of another pod, the traffic of the new process is attributed to the old pod,
  whatever the cgroup file says, and also after the index of pods has been refreshed.
\<close>

theorem tgid_reuse:
  assumes "report v1 maps1 r m1 = (removed1, attribution1, maps1', r1, m1')"
    and "(key1, st1) \<in> set (Ov_stats v1)"
    and "map_of (Rs_uidByTgid r) (Ky_Tgid key1) = None" "cgroupPodUID (Ov_cgroup v1) (Ky_Tgid key1) = uid" "uid \<noteq> []"
    and "r2 = refresh hostFs pods endpoints now r1"
    and "report v2 maps2 r2 m2 = (removed2, attribution2, maps2', r2', m2')" "distinct (map fst (Ov_infos v2))"
    and "key2 \<in> fst ` set (Ov_stats v2)" "Ky_Tgid key2 = Ky_Tgid key1"
  shows "map_option At_src (map_of attribution2 key2) =
    Some (case map_of (Rs_byUID r2) uid of Some p \<Rightarrow> p | None \<Rightarrow> labelPeer (''pod-uid:'' @ uid))"
proof -
  have "uidOf (Ov_cgroup v1) (Rs_uidByTgid r) (Ky_Tgid key1) = uid" using assms(3,4) by (simp add: uidOf_def)
  then have "cached r1 (Ky_Tgid key1) uid" using report_caches[OF assms(1,2)] assms(5) by blast
  moreover have "Rs_uidByTgid r2 = Rs_uidByTgid r1"
    by (simp add: assms(6) refresh_def refreshPods_def refreshEndpoints_def Let_def split: option.splits prod.splits)
  ultimately have "uidOf (Ov_cgroup v2) (Rs_uidByTgid r2) (Ky_Tgid key2) = uid" by (simp add: cached_def uidOf_def assms(10))
  then have "fst (podForTgid (Ov_cgroup v2) (Ky_Tgid key2) c r2) = (case map_of (Rs_byUID r2) uid of Some p \<Rightarrow> p | None \<Rightarrow> labelPeer (''pod-uid:'' @ uid))" for c
    using assms(5) by (simp add: podForTgid_fst)
  then have "At_src (attributionFor (Ov_cgroup v2) r2 key2 info) = (case map_of (Rs_byUID r2) uid of Some p \<Rightarrow> p | None \<Rightarrow> labelPeer (''pod-uid:'' @ uid))" for info
    by (cases info) (simp_all add: attributionFor_def attributionOf_def case_prod_beta)
  then show ?thesis using assms(9) by (simp add: report_attribution_lemma[OF assms(7,8)] resolveStat_infoFor[OF assms(8)])
qed

subsection \<open>Queue pairs of exited processes\<close>

text \<open>A complete iteration removes exactly the entries of exited processes, but keeps an entry of \<open>qp_infos\<close> whose
  number a live process uses in \<open>qp_stats\<close>.\<close>

lemma keyset_mdel: "keyset (mdel k m) = keyset m - {k}"
  by (auto simp: keyset_def mdel_def delete_keys simp del: set_map)

lemma keyset_fold_mdel: "keyset (fold mdel ks m) = keyset m - set ks"
  by (induction ks arbitrary: m) (auto simp: keyset_mdel)

lemma keyset_fold_mdel_filter: "keyset (fold mdel (map fst (filter (\<lambda>(k, _). P k) m)) m) = {k \<in> keyset m. \<not> P k}"
  unfolding keyset_fold_mdel by (auto simp: keyset_def)

lemma cleanupDeadQPs_exact:
  assumes "cleanupDeadQPs v m = (removed, m')" "\<not> Cv_statsError v"
    and "Cv_stats v = Bm_stats m" "Cv_infos v = Bm_infos m"
  shows "keyset (Bm_stats m') = {k \<in> keyset (Bm_stats m). Cv_alive v (Ky_Tgid k)}"
    and "keyset (Bm_infos m') = {k \<in> keyset (Bm_infos m). Cv_alive v (Ky_Tgid k)
      \<or> (\<exists>l\<in>keyset (Bm_stats m). Cv_alive v (Ky_Tgid l) \<and> Ky_QPN l = Ky_QPN k)}"
    and "removed \<longleftrightarrow> keyset (Bm_infos m') \<noteq> keyset (Bm_infos m)"
proof -
  let ?live = "map (\<lambda>(key, _). Ky_QPN key) (filter (\<lambda>(key, _). Cv_alive v (Ky_Tgid key)) (Bm_stats m))"
  let ?dead = "\<lambda>k. \<not> Cv_alive v (Ky_Tgid k) \<and> Ky_QPN k \<notin> set ?live"
  have parts: "Bm_stats m' = fold mdel (map fst (filter (\<lambda>(k, _). \<not> Cv_alive v (Ky_Tgid k)) (Bm_stats m))) (Bm_stats m)"
    "Bm_infos m' = fold mdel (map fst (filter (\<lambda>(k, _). ?dead k) (Bm_infos m))) (Bm_infos m)"
    "removed \<longleftrightarrow> map fst (filter (\<lambda>(k, _). ?dead k) (Bm_infos m)) \<noteq> []"
    using assms by (auto simp: cleanupDeadQPs_def Let_def)
  have live: "q \<in> set ?live \<longleftrightarrow> (\<exists>l\<in>keyset (Bm_stats m). Cv_alive v (Ky_Tgid l) \<and> Ky_QPN l = q)" for q
    by (force simp: keyset_def)
  show "keyset (Bm_stats m') = {k \<in> keyset (Bm_stats m). Cv_alive v (Ky_Tgid k)}"
    unfolding parts keyset_fold_mdel_filter by simp
  have infos: "keyset (Bm_infos m') = {k \<in> keyset (Bm_infos m). \<not> ?dead k}" unfolding parts keyset_fold_mdel_filter ..
  then show "keyset (Bm_infos m') = {k \<in> keyset (Bm_infos m). Cv_alive v (Ky_Tgid k)
      \<or> (\<exists>l\<in>keyset (Bm_stats m). Cv_alive v (Ky_Tgid l) \<and> Ky_QPN l = Ky_QPN k)}"
    unfolding live by simp
  have "removed \<longleftrightarrow> (\<exists>k\<in>keyset (Bm_infos m). ?dead k)"
    unfolding parts map_is_Nil_conv filter_empty_conv keyset_def by (simp only: set_map split_beta bex_simps) blast
  then show "removed \<longleftrightarrow> keyset (Bm_infos m') \<noteq> keyset (Bm_infos m)" unfolding infos by blast
qed

subsection \<open>Two rounds of a node\<close>

definition exampleSender :: qpKey where "exampleSender = \<lparr>Ky_Tgid = 7, Ky_QPN = 9\<rparr>"

definition exampleEntry :: qpInfo where
  "exampleEntry = \<lparr>In_DGID = [0, 0, 0, 0, 0, 0, 0, 0, 0, 0, 0xFF, 0xFF, 10, 0, 0, 2], In_Comm = [], In_DestQPN = 5, In_DLID = 0,
     In_IsGlobal = 1, In_PortNum = 1, In_Device = []\<rparr>"

definition examplePod :: "string \<Rightarrow> peer" where
  "examplePod name = \<lparr>Pe_Namespace = ''ns'', Pe_Name = name, Pe_Owner = noOwner, Pe_label = [], Pe_hostNetwork = False\<rparr>"

definition oldUID :: string where "oldUID = ''00000000-0000-0000-0000-000000000001''"
definition newUID :: string where "newUID = ''00000000-0000-0000-0000-000000000002''"

definition exampleState :: resolver where
  "exampleState = (newResolver False None False)\<lparr>Rs_byUID := [(oldUID, examplePod ''a''), (newUID, examplePod ''c'')], Rs_byIP := [(''10.0.0.2'', examplePod ''b'')]\<rparr>"

definition exampleRound :: "string \<Rightarrow> 64 word list \<Rightarrow> reportView" where
  "exampleRound uid bytes =
     \<lparr>Ov_cgroup = (\<lambda>t. Some (''/kubepods/pod'' @ uid)), Ov_infos = [(exampleSender, exampleEntry)],
      Ov_stats = map (\<lambda>b. (exampleSender, \<lparr>Sa_Bytes = b, Sa_WRs = 1\<rparr>)) bytes,
      Ov_cleanup = \<lparr>Cv_alive = (\<lambda>_. True), Cv_stats = [], Cv_statsError = False, Cv_infos = []\<rparr>\<rparr>"

definition exampleMaps :: bpfMaps where "exampleMaps = \<lparr>Bm_stats = [], Bm_infos = []\<rparr>"

lemma example_uids: "cgroupPodUID (Ov_cgroup (exampleRound oldUID bs)) t = oldUID" "cgroupPodUID (Ov_cgroup (exampleRound newUID bs)) t = newUID"
proof -
  have "(case findPodUID (''/kubepods/pod'' @ oldUID) of None \<Rightarrow> [] | Some m \<Rightarrow> ToLower (ReplaceAll m (CHR ''_'') ''-'')) = oldUID"
    "(case findPodUID (''/kubepods/pod'' @ newUID) of None \<Rightarrow> [] | Some m \<Rightarrow> ToLower (ReplaceAll m (CHR ''_'') ''-'')) = newUID"
    by code_simp+
  then show "cgroupPodUID (Ov_cgroup (exampleRound oldUID bs)) t = oldUID" "cgroupPodUID (Ov_cgroup (exampleRound newUID bs)) t = newUID"
    by (simp_all add: cgroupPodUID_def exampleRound_def)
qed

lemma example_attributed:
  "attributionFor (Ov_cgroup (exampleRound oldUID bs)) exampleState exampleSender (infoFor (Ov_infos (exampleRound oldUID bs)) exampleSender)
    = \<lparr>At_src = examplePod ''a'', At_dst = examplePod ''b'', At_ends = noEnds\<rparr>"
proof -
  have dst: "destination exampleState exampleEntry = (examplePod ''b'', noEnds)" by code_simp
  have "oldUID \<noteq> []" by (simp add: oldUID_def)
  then have src: "fst (podForTgid (Ov_cgroup (exampleRound oldUID bs)) (Ky_Tgid exampleSender) c exampleState) = examplePod ''a''" for c
    by (simp add: podForTgid_fst uidOf_def example_uids exampleState_def newResolver_def)
  have "infoFor (Ov_infos (exampleRound oldUID bs)) exampleSender = Some exampleEntry" by (simp add: infoFor_def exampleRound_def)
  then show ?thesis by (simp add: attributionFor_def attributionOf_def src dst)
qed

lemma exampleRound_parts:
  "Ov_infos (exampleRound uid bs) = [(exampleSender, exampleEntry)]"
  "Ov_stats (exampleRound uid bs) = map (\<lambda>b. (exampleSender, \<lparr>Sa_Bytes = b, Sa_WRs = 1\<rparr>)) bs"
  by (simp_all add: exampleRound_def)

theorem report_attribution_witness:
  "case report (exampleRound oldUID [100]) exampleMaps exampleState newFlowMetrics of (_, attribution, _) \<Rightarrow>
     map_of attribution exampleSender = Some \<lparr>At_src = examplePod ''a'', At_dst = examplePod ''b'', At_ends = noEnds\<rparr>"
proof -
  obtain removed attribution maps' r' m' where rep: "report (exampleRound oldUID [100]) exampleMaps exampleState newFlowMetrics = (removed, attribution, maps', r', m')"
    by (metis prod.exhaust)
  show ?thesis using report_attribution[OF rep, of exampleSender] example_attributed[of "[100]"]
    by (simp add: rep exampleRound_parts)
qed

definition exampleFlow :: "string list" where
  "exampleFlow = flowLabels (examplePod ''a'') (examplePod ''b'') noEnds"

definition exampleTotals :: "64 word list \<Rightarrow> round" where
  "exampleTotals bs = (exampleRound oldUID bs, exampleMaps, exampleState)"

lemma example_flow: "flowIn (exampleTotals bs) exampleSender = Some exampleFlow"
  unfolding flowIn_def exampleTotals_def prod.case example_attributed by (simp add: flowFor_def exampleFlow_def examplePod_def isPod_def)

lemma example_ok: "roundOk (exampleTotals [])" "roundOk (exampleTotals [b])"
  by (simp_all add: roundOk_def exampleTotals_def exampleRound_parts)

lemma example_seen: "seenIn (exampleTotals []) exampleSender = None" "seenIn (exampleTotals [b]) exampleSender = Some \<lparr>Sa_Bytes = b, Sa_WRs = 1\<rparr>"
  by (simp_all add: seenIn_def exampleTotals_def exampleRound_parts)

theorem report_counts_once_witness:
  "mgetd 0 (Fm_bytes (runRounds [exampleTotals [100], exampleTotals [250]] newFlowMetrics)) exampleFlow = 250"
proof -
  let ?rounds = "[exampleTotals [250], exampleTotals [100]]"
  have ok: "list_all roundOk ?rounds" by (simp add: example_ok)
  have last: "lastCounted ?rounds exampleSender = Some \<lparr>Sa_Bytes = 250, Sa_WRs = 1\<rparr>" by (simp add: example_seen example_flow)
  have "steady exampleSender ?rounds" by (simp add: example_seen notBelow_def)
  then have "credited Sa_Bytes exampleFlow ?rounds exampleSender = 250"
    using report_counts_once[OF ok, of exampleFlow, THEN conjunct2, THEN conjunct2, rule_format, of ?rounds "[]" exampleSender] last
    by (simp add: example_flow)
  moreover have "qpsOf ?rounds = {exampleSender}" by (simp add: qpsOf_def exampleTotals_def exampleRound_parts)
  ultimately show ?thesis using report_counts_once[OF ok, of exampleFlow, THEN conjunct1] by simp
qed

theorem report_counts_twice_witness:
  "mgetd 0 (Fm_bytes (runRounds [exampleTotals [100], exampleTotals [], exampleTotals [100]] newFlowMetrics)) exampleFlow = 200"
proof -
  let ?es = "[(exampleSender, \<lparr>Sa_Bytes = 100, Sa_WRs = 1\<rparr>)]"
  have "mgetd 0 (Fm_bytes (afterRound (exampleTotals [100]) newFlowMetrics)) exampleFlow = 100"
    unfolding afterRound_counts(2)[OF example_ok(2)[of 100]]
    by (simp add: exampleTotals_def exampleRound_parts example_flow[unfolded exampleTotals_def]) (simp add: newFlowMetrics_def mgetd_def credit_def)
  moreover have "mgetd 0 (Fm_bytes (runRounds [exampleTotals [100], exampleTotals [], exampleTotals [100]] newFlowMetrics)) exampleFlow
      = mgetd 0 (Fm_bytes (afterRound (exampleTotals [100]) newFlowMetrics)) exampleFlow
        + (\<Sum>(k, st)\<leftarrow>drop 0 ?es. if flowIn (exampleTotals [100]) k = Some exampleFlow then unat (Sa_Bytes st) else 0)"
    by (rule report_counts_twice[OF example_ok(2) example_ok(1) example_ok(2)])
      (simp_all add: example_flow, simp_all add: exampleTotals_def exampleRound_parts)
  ultimately show ?thesis by (simp add: example_flow)
qed

theorem tgid_reuse_witness:
  "case report (exampleRound oldUID [100]) exampleMaps exampleState newFlowMetrics of (_, _, _, r1, m1) \<Rightarrow>
   case report (exampleRound newUID [40]) exampleMaps (refresh \<lparr>Fs_readDir = (\<lambda>_. None), Fs_readFile = (\<lambda>_. None), Fs_readlink = (\<lambda>_. None)\<rparr> None None 0 r1) m1 of
     (_, attribution, _) \<Rightarrow>
       cgroupPodUID (Ov_cgroup (exampleRound newUID [40])) 7 = newUID
       \<and> map_option (\<lambda>a. Pe_Name (At_src a)) (map_of attribution exampleSender) = Some ''a''"
proof -
  let ?fs = "\<lparr>Fs_readDir = (\<lambda>_. None), Fs_readFile = (\<lambda>_. None), Fs_readlink = (\<lambda>_. None)\<rparr>"
  obtain a b c r1 m1 where rep1: "report (exampleRound oldUID [100]) exampleMaps exampleState newFlowMetrics = (a, b, c, r1, m1)" by (metis prod.exhaust)
  obtain d attribution e where rep2: "report (exampleRound newUID [40]) exampleMaps (refresh ?fs None None 0 r1) m1 = (d, attribution, e)" by (metis prod.exhaust)
  obtain e1 e2 e3 where e: "e = (e1, e2, e3)" by (cases e)
  have "Rs_byUID (refresh ?fs None None 0 r1) = Rs_byUID exampleState"
    using report_same[OF rep1] by (auto simp: sameTgids_def refresh_def refreshPods_def refreshEndpoints_def)
  then have "map_of (Rs_byUID (refresh ?fs None None 0 r1)) oldUID = Some (examplePod ''a'')" by (simp add: exampleState_def)
  moreover have "map_option At_src (map_of attribution exampleSender) =
      Some (case map_of (Rs_byUID (refresh ?fs None None 0 r1)) oldUID of Some p \<Rightarrow> p | None \<Rightarrow> labelPeer (''pod-uid:'' @ oldUID))"
    by (rule tgid_reuse[where ?key1.0 = exampleSender and ?st1.0 = "\<lparr>Sa_Bytes = 100, Sa_WRs = 1\<rparr>", OF rep1 _ _ _ _ refl rep2[unfolded e]])
      (simp_all add: example_uids, simp_all add: exampleRound_parts exampleState_def newResolver_def oldUID_def)
  ultimately show ?thesis by (auto simp: rep1 rep2 example_uids examplePod_def)
qed

end
