(* ===== verification/Fabric_Graph.thy ===== *)
theory Fabric_Graph
  imports Go_Prelude
begin

text \<open>
  The device graph of \<open>src/pkg/topology/topology.go\<close>: construction from hosts and LLDP
  neighbours, and the invariant every later pass relies on.
\<close>

subsection \<open>Data\<close>

record Host =
  Host_Name :: string

record Neighbor =
  LocalDeviceName :: string
  RemoteSystemName :: string

record Switch =
  Switch_Name :: string
  Switch_Neighbors :: "Neighbor list"

text \<open>\<open>DeviceTypeNone\<close> is the empty string, the zero value of the Go type.\<close>

datatype DeviceType = DeviceHost | DeviceSwitch | DeviceTypeNone

record Device =
  Device_Name :: string
  Device_Type :: DeviceType
  Device_Tier :: int

record Link =
  SrcDevice :: string
  DstDevice :: string
  Link_LLDP :: Neighbor

type_synonym boolmap = "(string, bool) gomap"
type_synonym adjmap = "(string, boolmap) gomap"
type_synonym devmap = "(string, Device) gomap"

record TopologyGraph =
  Devices :: devmap
  Adj :: adjmap
  Links :: "Link list"

definition zeroDevice :: Device where
  "zeroDevice = \<lparr>Device_Name = [], Device_Type = DeviceTypeNone, Device_Tier = 0\<rparr>"

definition getDevice :: "TopologyGraph \<Rightarrow> string \<Rightarrow> Device" where
  "getDevice g name = mgetd zeroDevice (Devices g) name"

definition setTier :: "string \<Rightarrow> int \<Rightarrow> TopologyGraph \<Rightarrow> TopologyGraph" where
  "setTier name t g = g\<lparr>Devices := mput name ((getDevice g name)\<lparr>Device_Tier := t\<rparr>) (Devices g)\<rparr>"

subsection \<open>Building the graph\<close>

definition ensureVertex :: "adjmap \<Rightarrow> string \<Rightarrow> adjmap" where
  "ensureVertex adj name = (case map_of adj name of None \<Rightarrow> mput name [] adj | Some _ \<Rightarrow> adj)"

definition addUndirectedEdge :: "string \<Rightarrow> string \<Rightarrow> TopologyGraph \<Rightarrow> TopologyGraph" where
  "addUndirectedEdge a b g =
     (let adj1 = ensureVertex (Adj g) a;
          adj2 = ensureVertex adj1 b;
          adj3 = mput a (mput b True (mgetd [] adj2 a)) adj2;
          adj4 = mput b (mput a True (mgetd [] adj3 b)) adj3
      in g\<lparr>Adj := adj4\<rparr>)"

type_synonym DeviceResolver = "(string, string) gomap"

definition NewDeviceResolver :: "devmap \<Rightarrow> DeviceResolver" where
  "NewDeviceResolver devices = fold (\<lambda>(name, _) r. mput name name r) devices []"

definition Resolve :: "DeviceResolver \<Rightarrow> Neighbor \<Rightarrow> string option" where
  "Resolve r n = (if RemoteSystemName n = [] then None else map_of r (RemoteSystemName n))"

definition addHost :: "Host \<Rightarrow> TopologyGraph \<Rightarrow> TopologyGraph" where
  "addHost h g = g\<lparr>Devices := mput (Host_Name h)
       \<lparr>Device_Name = Host_Name h, Device_Type = DeviceHost, Device_Tier = 0\<rparr> (Devices g),
     Adj := ensureVertex (Adj g) (Host_Name h)\<rparr>"

definition addSwitchDevice :: "Switch \<Rightarrow> TopologyGraph \<Rightarrow> TopologyGraph" where
  "addSwitchDevice sw g = g\<lparr>Devices := mput (Switch_Name sw)
       \<lparr>Device_Name = Switch_Name sw, Device_Type = DeviceSwitch, Device_Tier = -1\<rparr> (Devices g),
     Adj := ensureVertex (Adj g) (Switch_Name sw)\<rparr>"

definition linkNeighbor :: "DeviceResolver \<Rightarrow> Switch \<Rightarrow> Neighbor \<Rightarrow> TopologyGraph \<Rightarrow> TopologyGraph" where
  "linkNeighbor r sw n g =
     (if LocalDeviceName n \<noteq> [] \<and> LocalDeviceName n \<noteq> Switch_Name sw then g
      else case Resolve r n of
          None \<Rightarrow> g
        | Some dst \<Rightarrow> addUndirectedEdge (Switch_Name sw) dst
            (g\<lparr>Links := Links g @ [\<lparr>SrcDevice = Switch_Name sw, DstDevice = dst, Link_LLDP = n\<rparr>]\<rparr>))"

definition emptyGraph :: TopologyGraph where
  "emptyGraph = \<lparr>Devices = [], Adj = [], Links = []\<rparr>"

definition BuildTopologyGraph :: "Host list \<Rightarrow> Switch list \<Rightarrow> TopologyGraph" where
  "BuildTopologyGraph hosts switches =
     (let g1 = fold addHost hosts emptyGraph;
          g2 = fold addSwitchDevice switches g1;
          resolver = NewDeviceResolver (Devices g2)
      in fold (\<lambda>sw g. fold (linkNeighbor resolver sw) (Switch_Neighbors sw) g) switches g2)"

subsection \<open>Sorted key lists\<close>

definition sortedBoolKeys :: "boolmap \<Rightarrow> string list" where
  "sortedBoolKeys m = sort (filter (\<lambda>name. mgetd False m name) (mkeys m))"

definition sortedDeviceNames :: "(string, 'a) gomap \<Rightarrow> string list" where
  "sortedDeviceNames m = sort (mkeys m)"

definition sortedNamesFromMap :: "(string, 'a) gomap \<Rightarrow> string list" where
  "sortedNamesFromMap m = sort (mkeys m)"

definition sortedTierKeys :: "(int, 'a) gomap \<Rightarrow> int list" where
  "sortedTierKeys m = sort (mkeys m)"

subsection \<open>Hosts next to a switch\<close>

definition hasHostNeighbor :: "TopologyGraph \<Rightarrow> string \<Rightarrow> bool" where
  "hasHostNeighbor g switchName =
     list_ex (\<lambda>neighbor. Device_Type (getDevice g neighbor) = DeviceHost)
       (mkeys (mgetd [] (Adj g) switchName))"

subsection \<open>Edges and well-formed graphs\<close>

definition adjEdge :: "adjmap \<Rightarrow> string \<Rightarrow> string \<Rightarrow> bool" where
  "adjEdge adj a b \<longleftrightarrow> map_of (mgetd [] adj a) b = Some True"

abbreviation edge :: "TopologyGraph \<Rightarrow> string \<Rightarrow> string \<Rightarrow> bool" where
  "edge g \<equiv> adjEdge (Adj g)"

abbreviation names :: "TopologyGraph \<Rightarrow> string set" where
  "names g \<equiv> keyset (Devices g)"

definition wfAdj :: "string set \<Rightarrow> adjmap \<Rightarrow> bool" where
  "wfAdj V adj \<longleftrightarrow> mwf adj \<and> keyset adj = V
     \<and> (\<forall>a m. map_of adj a = Some m \<longrightarrow> mwf m \<and> (\<forall>b v. map_of m b = Some v \<longrightarrow> v \<and> b \<in> V))
     \<and> (\<forall>a b. adjEdge adj a b \<longrightarrow> adjEdge adj b a)"

definition wfDevices :: "devmap \<Rightarrow> bool" where
  "wfDevices ds \<longleftrightarrow> mwf ds \<and> (\<forall>n d. map_of ds n = Some d \<longrightarrow> Device_Name d = n)"

definition wfGraph :: "TopologyGraph \<Rightarrow> bool" where
  "wfGraph g \<longleftrightarrow> wfDevices (Devices g) \<and> wfAdj (names g) (Adj g)"

lemma mgetd_map_ofD: "map_of (mgetd [] adj a) b = Some v \<Longrightarrow> \<exists>m. map_of adj a = Some m \<and> map_of m b = Some v"
  by (auto simp: mgetd_def split: option.splits)

lemma wfAdj_inner_True:
  assumes "wfAdj V adj" "map_of (mgetd [] adj a) b = Some v"
  shows "v = True" "a \<in> V" "b \<in> V"
  using assms mgetd_map_ofD[OF assms(2)] unfolding wfAdj_def by blast+

lemma adjEdge_vertex: "wfAdj V adj \<Longrightarrow> adjEdge adj a b \<Longrightarrow> a \<in> V \<and> b \<in> V"
  unfolding adjEdge_def by (blast dest: wfAdj_inner_True)

lemma adjEdge_sym: "wfAdj V adj \<Longrightarrow> adjEdge adj a b \<longleftrightarrow> adjEdge adj b a"
  unfolding wfAdj_def by blast

lemma wfAdj_inner: "wfAdj V adj \<Longrightarrow> mwf (mgetd [] adj a)"
  by (cases "map_of adj a") (auto simp: wfAdj_def)

lemma wfAdj_inner_keys: "wfAdj V adj \<Longrightarrow> keyset (mgetd [] adj a) = {b. adjEdge adj a b}"
  unfolding adjEdge_def keyset_iff set_eq_iff by (auto dest: wfAdj_inner_True(1))

lemma wfGraph_edge: "wfGraph g \<Longrightarrow> edge g a b \<Longrightarrow> a \<in> names g \<and> b \<in> names g"
  by (auto simp: wfGraph_def dest: adjEdge_vertex)

lemma wfGraph_sym: "wfGraph g \<Longrightarrow> edge g a b \<longleftrightarrow> edge g b a"
  by (auto simp: wfGraph_def adjEdge_sym)

lemma set_sortedBoolKeys [sorted_set_simps]: "set (sortedBoolKeys m) = {b. map_of m b = Some True}"
  by (auto simp: sortedBoolKeys_def mgetd_def split: option.splits )

lemma set_neighbors [simp, sorted_set_simps]:
  "set (sortedBoolKeys (mgetd [] adj a)) = {b. adjEdge adj a b}"
  by (simp add: set_sortedBoolKeys adjEdge_def)

lemma sorted_sortedBoolKeys [simp]: "sorted (sortedBoolKeys m)"
  by (simp add: sortedBoolKeys_def)

lemma distinct_sortedBoolKeys [simp]: "mwf m \<Longrightarrow> distinct (sortedBoolKeys m)"
  by (simp add: sortedBoolKeys_def)

lemma finite_adjEdge [simp]: "finite {b. adjEdge adj a b}"
  by (metis set_neighbors List.finite_set)

subsection \<open>The graph BuildTopologyGraph makes\<close>

lemma adjEdge_ensureVertex [simp]: "adjEdge (ensureVertex adj n) a b = adjEdge adj a b"
  by (auto simp: ensureVertex_def adjEdge_def mgetd_def split: option.splits)

lemma keyset_ensureVertex [simp]: "keyset (ensureVertex adj n) = insert n (keyset adj)"
  by (auto simp: ensureVertex_def split: option.splits)

lemma wfAdj_ensureVertex: "wfAdj V adj \<Longrightarrow> wfAdj (insert n V) (ensureVertex adj n)"
  unfolding wfAdj_def adjEdge_ensureVertex keyset_ensureVertex
  by (auto simp: ensureVertex_def split: option.splits)

lemma ensureVertex_old: "n \<in> keyset adj \<Longrightarrow> ensureVertex adj n = adj"
  by (auto simp: ensureVertex_def keyset_iff)

lemma map_of_addUndirectedEdge:
  assumes "a \<in> keyset (Adj g)" "b \<in> keyset (Adj g)"
  shows "Adj (addUndirectedEdge a b g) =
    (let adj3 = mput a (mput b True (mgetd [] (Adj g) a)) (Adj g)
     in mput b (mput a True (mgetd [] adj3 b)) adj3)"
  using assms by (simp add: addUndirectedEdge_def ensureVertex_old Let_def)

lemma addUndirectedEdge_sel [simp]:
  "Devices (addUndirectedEdge a b g) = Devices g" "Links (addUndirectedEdge a b g) = Links g"
  by (simp_all add: addUndirectedEdge_def Let_def)

lemma inner_addUndirectedEdge:
  assumes "a \<in> keyset (Adj g)" "b \<in> keyset (Adj g)"
  shows "map_of (mgetd [] (Adj (addUndirectedEdge a b g)) x) y =
     (if x = a \<and> y = b \<or> x = b \<and> y = a then Some True else map_of (mgetd [] (Adj g) x) y)"
    and "(\<And>x. mwf (mgetd [] (Adj g) x)) \<Longrightarrow> mwf (mgetd [] (Adj (addUndirectedEdge a b g)) x)"
  using assms by (auto simp: map_of_addUndirectedEdge Let_def)

lemma edge_addUndirectedEdge:
  assumes "a \<in> keyset (Adj g)" "b \<in> keyset (Adj g)"
  shows "edge (addUndirectedEdge a b g) x y = (edge g x y \<or> x = a \<and> y = b \<or> x = b \<and> y = a)"
  by (auto simp: adjEdge_def inner_addUndirectedEdge[OF assms])

lemma wfAdjI:
  assumes "mwf adj" "keyset adj = V" "\<And>x. mwf (mgetd [] adj x)"
    and "\<And>x y v. map_of (mgetd [] adj x) y = Some v \<Longrightarrow> v \<and> y \<in> V"
    and "\<And>x y. adjEdge adj x y \<Longrightarrow> adjEdge adj y x"
  shows "wfAdj V adj"
  unfolding wfAdj_def using assms by (metis mgetd_Some)

lemma wfAdj_addUndirectedEdge:
  assumes ab: "a \<in> V" "b \<in> V" and wf: "wfAdj V (Adj g)"
  shows "wfAdj V (Adj (addUndirectedEdge a b g))"
proof (rule wfAdjI)
  have keys: "a \<in> keyset (Adj g)" "b \<in> keyset (Adj g)"
    using ab wf by (auto simp: wfAdj_def)
  note inner = inner_addUndirectedEdge[OF keys]
  show "mwf (Adj (addUndirectedEdge a b g))"
    using wf by (simp add: map_of_addUndirectedEdge[OF keys] wfAdj_def Let_def)
  show "keyset (Adj (addUndirectedEdge a b g)) = V"
    using wf ab by (auto simp: map_of_addUndirectedEdge[OF keys] wfAdj_def Let_def)
  show "mwf (mgetd [] (Adj (addUndirectedEdge a b g)) x)" for x
    by (rule inner(2)) (rule wfAdj_inner[OF wf])
  show "v \<and> y \<in> V" if "map_of (mgetd [] (Adj (addUndirectedEdge a b g)) x) y = Some v" for x y v
    using that wfAdj_inner_True[OF wf] ab by (auto simp: inner(1) split: if_splits)
  show "edge (addUndirectedEdge a b g) y x" if "edge (addUndirectedEdge a b g) x y" for x y
    using that adjEdge_sym[OF wf] by (auto simp: edge_addUndirectedEdge[OF keys])
qed

text \<open>Hosts and switches: a name that occurs as both is a switch.\<close>

lemma map_of_addHosts:
  "map_of (Devices (fold addHost hs g)) n =
     (if n \<in> Host_Name ` set hs
      then Some \<lparr>Device_Name = n, Device_Type = DeviceHost, Device_Tier = 0\<rparr>
      else map_of (Devices g) n)"
  by (induction hs arbitrary: g) (auto simp: addHost_def)

lemma map_of_addSwitches:
  "map_of (Devices (fold addSwitchDevice sws g)) n =
     (if n \<in> Switch_Name ` set sws
      then Some \<lparr>Device_Name = n, Device_Type = DeviceSwitch, Device_Tier = -1\<rparr>
      else map_of (Devices g) n)"
  by (induction sws arbitrary: g) (auto simp: addSwitchDevice_def)

definition deviceGraph :: "Host list \<Rightarrow> Switch list \<Rightarrow> TopologyGraph" where
  "deviceGraph hosts switches = fold addSwitchDevice switches (fold addHost hosts emptyGraph)"

lemma map_of_deviceGraph:
  "map_of (Devices (deviceGraph hosts switches)) n =
     (if n \<in> Switch_Name ` set switches
      then Some \<lparr>Device_Name = n, Device_Type = DeviceSwitch, Device_Tier = -1\<rparr>
      else if n \<in> Host_Name ` set hosts
      then Some \<lparr>Device_Name = n, Device_Type = DeviceHost, Device_Tier = 0\<rparr>
      else None)"
  by (simp add: deviceGraph_def map_of_addSwitches map_of_addHosts emptyGraph_def)

definition noEdges :: "TopologyGraph \<Rightarrow> bool" where
  "noEdges g \<longleftrightarrow> mwf (Devices g) \<and> wfAdj (names g) (Adj g) \<and> (\<forall>a b. \<not> edge g a b)"

lemma noEdges_addHost: "noEdges g \<Longrightarrow> noEdges (addHost h g)"
  by (auto simp: noEdges_def addHost_def intro: wfAdj_ensureVertex)

lemma noEdges_addSwitchDevice: "noEdges g \<Longrightarrow> noEdges (addSwitchDevice sw g)"
  by (auto simp: noEdges_def addSwitchDevice_def intro: wfAdj_ensureVertex)

lemma noEdges_deviceGraph: "noEdges (deviceGraph hosts switches)"
proof -
  have "noEdges emptyGraph"
    by (auto simp: noEdges_def emptyGraph_def wfAdj_def adjEdge_def)
  then have "noEdges (fold addHost hosts emptyGraph)"
    by (rule fold_invariant) (rule noEdges_addHost)
  then show ?thesis
    unfolding deviceGraph_def by (rule fold_invariant) (rule noEdges_addSwitchDevice)
qed

lemma wfDevices_deviceGraph: "wfDevices (Devices (deviceGraph hosts switches))"
  using noEdges_deviceGraph[of hosts switches]
  by (auto simp: wfDevices_def noEdges_def map_of_deviceGraph split: if_splits)

lemma map_of_NewDeviceResolver:
  "map_of (NewDeviceResolver ds) n = (if n \<in> keyset ds then Some n else None)"
proof -
  have "map_of (fold (\<lambda>(name, _) r. mput name name r) ds r) n =
      (if n \<in> keyset ds then Some n else map_of r n)" for r
    by (induction ds arbitrary: r) auto
  then show ?thesis by (simp add: NewDeviceResolver_def)
qed

definition usableNeighbor :: "string set \<Rightarrow> Switch \<Rightarrow> Neighbor \<Rightarrow> bool" where
  "usableNeighbor V sw n \<longleftrightarrow> (LocalDeviceName n = [] \<or> LocalDeviceName n = Switch_Name sw)
     \<and> RemoteSystemName n \<noteq> [] \<and> RemoteSystemName n \<in> V"

lemma linkNeighbor_eq:
  "linkNeighbor (NewDeviceResolver ds) sw n g =
     (if usableNeighbor (keyset ds) sw n
      then addUndirectedEdge (Switch_Name sw) (RemoteSystemName n)
        (g\<lparr>Links := Links g @ [\<lparr>SrcDevice = Switch_Name sw, DstDevice = RemoteSystemName n, Link_LLDP = n\<rparr>]\<rparr>)
      else g)"
  by (auto simp: linkNeighbor_def usableNeighbor_def Resolve_def map_of_NewDeviceResolver)

text \<open>What a link adds to the graph: the devices stay, the edge set grows by the pair.\<close>

definition linked :: "TopologyGraph \<Rightarrow> (string \<times> string) set \<Rightarrow> TopologyGraph \<Rightarrow> bool" where
  "linked g0 E g \<longleftrightarrow> Devices g = Devices g0 \<and> wfAdj (names g0) (Adj g)
     \<and> (\<forall>x y. edge g x y \<longleftrightarrow> (x, y) \<in> E \<or> (y, x) \<in> E)"

lemma linked_linkNeighbor:
  assumes "linked g0 E g" "Switch_Name sw \<in> names g0"
  shows "linked g0 (E \<union> (if usableNeighbor (names g0) sw n
           then {(Switch_Name sw, RemoteSystemName n)} else {}))
     (linkNeighbor (NewDeviceResolver (Devices g0)) sw n g)"
proof (cases "usableNeighbor (names g0) sw n")
  case True
  then have v: "RemoteSystemName n \<in> names g0" by (simp add: usableNeighbor_def)
  then have k: "Switch_Name sw \<in> keyset (Adj g)" "RemoteSystemName n \<in> keyset (Adj g)"
    using assms by (auto simp: linked_def wfAdj_def)
  show ?thesis
    using assms True v k wfAdj_addUndirectedEdge[of "Switch_Name sw" "names g0" "RemoteSystemName n"]
      edge_addUndirectedEdge
    by (auto simp: linked_def linkNeighbor_eq)
next
  case False
  then show ?thesis using assms by (simp add: linked_def linkNeighbor_eq)
qed

definition lldpLinks :: "string set \<Rightarrow> Switch list \<Rightarrow> (string \<times> string) set" where
  "lldpLinks V switches = {(Switch_Name sw, RemoteSystemName n) |sw n.
     sw \<in> set switches \<and> n \<in> set (Switch_Neighbors sw) \<and> usableNeighbor V sw n}"

lemma linked_cong: "linked g0 E g \<Longrightarrow> E = E' \<Longrightarrow> g = g' \<Longrightarrow> linked g0 E' g'"
  by simp

lemma linked_neighbors:
  assumes "linked g0 E g" "Switch_Name sw \<in> names g0"
  shows "linked g0 (E \<union> {(Switch_Name sw, RemoteSystemName n) |n. n \<in> set ns \<and> usableNeighbor (names g0) sw n})
     (fold (linkNeighbor (NewDeviceResolver (Devices g0)) sw) ns g)"
  using assms
proof (induction ns arbitrary: g E)
  case (Cons n ns)
  note step = Cons.IH[OF linked_linkNeighbor[OF Cons.prems, of n] Cons.prems(2)]
  show ?case by (rule linked_cong[OF step]) auto
qed simp

lemma linked_switches:
  assumes "linked g0 E g" "Switch_Name ` set sws \<subseteq> names g0"
  shows "linked g0 (E \<union> lldpLinks (names g0) sws)
     (fold (\<lambda>sw. fold (linkNeighbor (NewDeviceResolver (Devices g0)) sw) (Switch_Neighbors sw)) sws g)"
  using assms
proof (induction sws arbitrary: g E)
  case Nil
  then show ?case by (simp add: lldpLinks_def)
next
  case (Cons sw sws)
  have "Switch_Name sw \<in> names g0" using Cons.prems by simp
  note step = Cons.IH[OF linked_neighbors[OF Cons.prems(1) this, of "Switch_Neighbors sw"]]
  show ?case by (rule linked_cong[OF step]) (use Cons.prems in \<open>auto simp: lldpLinks_def\<close>)
qed

lemma linked_BuildTopologyGraph:
  "linked (deviceGraph hosts switches) (lldpLinks (names (deviceGraph hosts switches)) switches)
     (BuildTopologyGraph hosts switches)"
proof -
  let ?g = "deviceGraph hosts switches"
  have "linked ?g {} ?g"
    using noEdges_deviceGraph[of hosts switches] by (auto simp: linked_def noEdges_def)
  moreover have "Switch_Name ` set switches \<subseteq> names ?g"
    by (auto simp: keyset_iff map_of_deviceGraph)
  ultimately have "linked ?g ({} \<union> lldpLinks (names ?g) switches)
     (fold (\<lambda>sw. fold (linkNeighbor (NewDeviceResolver (Devices ?g)) sw) (Switch_Neighbors sw)) switches ?g)"
    by (rule linked_switches)
  then show ?thesis by (simp add: BuildTopologyGraph_def deviceGraph_def Let_def)
qed

lemma Devices_BuildTopologyGraph:
  "Devices (BuildTopologyGraph hosts switches) = Devices (deviceGraph hosts switches)"
  using linked_BuildTopologyGraph by (simp add: linked_def)

lemma names_BuildTopologyGraph:
  "names (BuildTopologyGraph hosts switches) = Host_Name ` set hosts \<union> Switch_Name ` set switches"
  by (auto simp: Devices_BuildTopologyGraph keyset_iff map_of_deviceGraph split: if_splits)

lemma wfGraph_BuildTopologyGraph: "wfGraph (BuildTopologyGraph hosts switches)"
  using linked_BuildTopologyGraph[of hosts switches] wfDevices_deviceGraph[of hosts switches]
  by (simp add: wfGraph_def linked_def)

lemma edge_BuildTopologyGraph:
  "edge (BuildTopologyGraph hosts switches) a b \<longleftrightarrow>
     (a, b) \<in> lldpLinks (Host_Name ` set hosts \<union> Switch_Name ` set switches) switches
   \<or> (b, a) \<in> lldpLinks (Host_Name ` set hosts \<union> Switch_Name ` set switches) switches"
  using linked_BuildTopologyGraph[of hosts switches]
    names_BuildTopologyGraph[of hosts switches, unfolded Devices_BuildTopologyGraph]
  by (simp add: linked_def)

subsection \<open>Changing tiers only\<close>

abbreviation tier :: "TopologyGraph \<Rightarrow> string \<Rightarrow> int" where
  "tier g n \<equiv> Device_Tier (getDevice g n)"

abbreviation isSwitch :: "TopologyGraph \<Rightarrow> string \<Rightarrow> bool" where
  "isSwitch g n \<equiv> Device_Type (getDevice g n) = DeviceSwitch"

abbreviation isHost :: "TopologyGraph \<Rightarrow> string \<Rightarrow> bool" where
  "isHost g n \<equiv> Device_Type (getDevice g n) = DeviceHost"

definition retiered :: "TopologyGraph \<Rightarrow> TopologyGraph \<Rightarrow> bool" where
  "retiered g0 g \<longleftrightarrow> Adj g = Adj g0 \<and> Links g = Links g0 \<and> mwf (Devices g) \<and> mwf (Devices g0)
     \<and> (\<forall>n. map_of (Devices g) n = map_option (\<lambda>d. d\<lparr>Device_Tier := tier g n\<rparr>) (map_of (Devices g0) n))"

lemma getDevice_None: "n \<notin> names g \<Longrightarrow> getDevice g n = zeroDevice"
  by (simp add: getDevice_def map_of_None_keyset)

lemma getDevice_Some: "map_of (Devices g) n = Some d \<Longrightarrow> getDevice g n = d"
  by (simp add: getDevice_def)

lemma map_of_getDevice: "n \<in> names g \<Longrightarrow> map_of (Devices g) n = Some (getDevice g n)"
  by (simp add: getDevice_def mgetd_eq_Some)

lemma isSwitch_names: "isSwitch g n \<Longrightarrow> n \<in> names g"
  by (rule ccontr) (simp add: getDevice_None zeroDevice_def)

lemma isHost_names: "isHost g n \<Longrightarrow> n \<in> names g"
  by (rule ccontr) (simp add: getDevice_None zeroDevice_def)

lemma retiered_refl: "mwf (Devices g) \<Longrightarrow> retiered g g"
  unfolding retiered_def by (auto simp: option.map_ident_strong getDevice_def mgetd_def split: option.splits)

lemma retiered_names: "retiered g0 g \<Longrightarrow> names g = names g0"
  unfolding retiered_def keyset_iff set_eq_iff by auto

lemma retiered_device: "retiered g0 g \<Longrightarrow> getDevice g n = (getDevice g0 n)\<lparr>Device_Tier := tier g n\<rparr>"
proof -
  assume r: "retiered g0 g"
  show ?thesis
  proof (cases "map_of (Devices g0) n")
    case None
    then have "map_of (Devices g) n = None" using r by (simp add: retiered_def)
    with None show ?thesis by (simp add: getDevice_def)
  next
    case (Some d)
    then have "map_of (Devices g) n = Some (d\<lparr>Device_Tier := tier g n\<rparr>)"
      using r by (simp add: retiered_def)
    then have "getDevice g n = d\<lparr>Device_Tier := tier g n\<rparr>" by (rule getDevice_Some)
    with Some show ?thesis by (simp only: getDevice_Some)
  qed
qed

lemma retiered_type: "retiered g0 g \<Longrightarrow> Device_Type (getDevice g n) = Device_Type (getDevice g0 n)"
  by (drule retiered_device[of g0 g n], drule arg_cong[of _ _ Device_Type]) simp

lemma retiered_Adj: "retiered g0 g \<Longrightarrow> Adj g = Adj g0"
  by (simp add: retiered_def)

lemma retiered_hasHostNeighbor: "retiered g0 g \<Longrightarrow> hasHostNeighbor g n = hasHostNeighbor g0 n"
  by (simp add: hasHostNeighbor_def retiered_type retiered_Adj)

lemma retiered_wfGraph:
  assumes "retiered g0 g" "wfGraph g0"
  shows "wfGraph g"
proof -
  have "mwf (Devices g)" using assms(1) by (simp add: retiered_def)
  moreover have "Device_Name d = n" if "map_of (Devices g) n = Some d" for n d
  proof -
    from that assms(1) obtain d0 where "map_of (Devices g0) n = Some d0" "Device_Name d = Device_Name d0"
      by (auto simp: retiered_def)
    with assms(2) show ?thesis by (auto simp: wfGraph_def wfDevices_def)
  qed
  ultimately show ?thesis
    using assms retiered_names[OF assms(1)] retiered_Adj[OF assms(1)] by (simp add: wfGraph_def wfDevices_def)
qed

lemma getDevice_setTier:
  "getDevice (setTier n t g) m = (if m = n then (getDevice g n)\<lparr>Device_Tier := t\<rparr> else getDevice g m)"
  by (simp add: setTier_def getDevice_def)

lemma retiered_setTier:
  assumes "retiered g0 g" "n \<in> names g0"
  shows "retiered g0 (setTier n t g)"
proof -
  have "map_of (Devices (setTier n t g)) m
      = map_option (\<lambda>d. d\<lparr>Device_Tier := tier (setTier n t g) m\<rparr>) (map_of (Devices g0) m)" for m
  proof (cases "m = n")
    case True
    obtain d where d: "map_of (Devices g0) n = Some d" using assms(2) by blast
    then have "getDevice g0 n = d" by (rule getDevice_Some)
    then have e: "(getDevice g n)\<lparr>Device_Tier := t\<rparr> = d\<lparr>Device_Tier := t\<rparr>"
      using arg_cong[OF retiered_device[OF assms(1), of n], of "\<lambda>d. d\<lparr>Device_Tier := t\<rparr>"] by simp
    show ?thesis unfolding getDevice_setTier using True d e by (simp add: setTier_def)
  next
    case False
    with assms(1) show ?thesis unfolding getDevice_setTier by (simp add: setTier_def retiered_def)
  qed
  with assms(1) show ?thesis unfolding retiered_def by (simp add: setTier_def)
qed

lemmas retiered_simps = retiered_names retiered_type retiered_Adj retiered_hasHostNeighbor

text \<open>A fabric of three hosts, two leaves and one spine, on which the properties are evaluated.\<close>

definition exHosts :: "Host list" where
  "exHosts = [\<lparr>Host_Name = ''h1''\<rparr>, \<lparr>Host_Name = ''h2''\<rparr>, \<lparr>Host_Name = ''h3''\<rparr>]"

definition exNeighbor :: "string \<Rightarrow> Neighbor" where
  "exNeighbor n = \<lparr>LocalDeviceName = [], RemoteSystemName = n\<rparr>"

definition exSwitches :: "Switch list" where
  "exSwitches = [\<lparr>Switch_Name = ''leafA'', Switch_Neighbors = map exNeighbor [''h1'', ''h2'', ''spine'']\<rparr>,
     \<lparr>Switch_Name = ''leafB'', Switch_Neighbors = map exNeighbor [''h3'', ''spine'']\<rparr>,
     \<lparr>Switch_Name = ''spine'', Switch_Neighbors = map exNeighbor [''leafA'', ''leafB'']\<rparr>]"

subsection \<open>What the graph contains\<close>

lemma isSwitch_BuildTopologyGraph:
  "isSwitch (BuildTopologyGraph hosts switches) n \<longleftrightarrow> n \<in> Switch_Name ` set switches"
  by (simp add: getDevice_def mgetd_def zeroDevice_def Devices_BuildTopologyGraph map_of_deviceGraph)

text \<open>
  C7: for every list of hosts and switches the built graph is well formed (device
  records carry their own name, the adjacency is a symmetric relation on exactly the devices), its
  devices are the hosts and the switches, a name used by both is a switch, and two devices are
  adjacent exactly when one of them is a switch with a neighbour entry that resolves to the other.
\<close>

theorem BuildTopologyGraph_correct:
  "wfGraph (BuildTopologyGraph hosts switches)
   \<and> names (BuildTopologyGraph hosts switches) = Host_Name ` set hosts \<union> Switch_Name ` set switches
   \<and> (\<forall>n. isSwitch (BuildTopologyGraph hosts switches) n \<longleftrightarrow> n \<in> Switch_Name ` set switches)
   \<and> (\<forall>a b. edge (BuildTopologyGraph hosts switches) a b \<longleftrightarrow>
        (a, b) \<in> lldpLinks (Host_Name ` set hosts \<union> Switch_Name ` set switches) switches
      \<or> (b, a) \<in> lldpLinks (Host_Name ` set hosts \<union> Switch_Name ` set switches) switches)"
  by (intro conjI allI wfGraph_BuildTopologyGraph names_BuildTopologyGraph isSwitch_BuildTopologyGraph
    edge_BuildTopologyGraph)

end
