(* ===== verification/Fabric_Tiers.thy ===== *)
theory Fabric_Tiers
  imports Fabric_Graph
begin

text \<open>
  \<open>InferTiers\<close> and \<open>NormalizeTierEdges\<close> of \<open>src/pkg/topology/topology.go\<close>. The breadth-first
  queue of the code is compared with the distance of a switch from the host-facing switches, and
  the edge filter with the relation between adjacent tiers.
\<close>

subsection \<open>Tier inference\<close>

definition inferSeed :: "string \<times> Device \<Rightarrow> TopologyGraph \<times> string list \<Rightarrow> TopologyGraph \<times> string list" where
  "inferSeed = (\<lambda>(name, device) (g, queue).
     if Device_Type device \<noteq> DeviceSwitch then (g, queue)
     else if hasHostNeighbor g name
     then (g\<lparr>Devices := mput name (device\<lparr>Device_Tier := 1\<rparr>) (Devices g)\<rparr>, queue @ [name])
     else (g, queue))"

definition inferNeighbor :: "int \<Rightarrow> string \<Rightarrow> TopologyGraph \<times> string list \<Rightarrow> TopologyGraph \<times> string list" where
  "inferNeighbor currentTier neighbor = (\<lambda>(g, queue).
     if Device_Type (getDevice g neighbor) \<noteq> DeviceSwitch then (g, queue)
     else if Device_Tier (getDevice g neighbor) \<noteq> -1 then (g, queue)
     else (setTier neighbor (currentTier + 1) g, queue @ [neighbor]))"

text \<open>
  The queue loop of \<open>InferTiers\<close>. The fuel counts iterations; \<open>None\<close> is a loop that has not
  ended within it. \<open>InferTiers\<close> supplies one iteration per device, which \<open>InferTiers_returns\<close>
  shows to be enough on every graph that \<open>BuildTopologyGraph\<close> makes.
\<close>

fun inferLoop :: "nat \<Rightarrow> TopologyGraph \<Rightarrow> string list \<Rightarrow> TopologyGraph option" where
  "inferLoop fuel g [] = Some g"
| "inferLoop 0 g (current # queue) = None"
| "inferLoop (Suc fuel) g (current # queue) =
     (case fold (inferNeighbor (Device_Tier (getDevice g current)))
             (sortedBoolKeys (mgetd [] (Adj g) current)) (g, queue)
      of (g', queue') \<Rightarrow> inferLoop fuel g' queue')"

definition InferTiers :: "TopologyGraph \<Rightarrow> TopologyGraph option" where
  "InferTiers g =
     (case fold inferSeed (Devices g) (g, []) of (g', queue) \<Rightarrow>
        inferLoop (length (Devices g)) g' (sort queue))"

subsection \<open>Edges between adjacent tiers\<close>

text \<open>
  Writing to an inner map that does not exist panics in Go: \<open>None\<close>.
\<close>

definition setAdj :: "string \<Rightarrow> string \<Rightarrow> adjmap \<Rightarrow> adjmap option" where
  "setAdj a b adj = (case map_of adj a of None \<Rightarrow> None
     | Some m \<Rightarrow> Some (mput a (mput b True m) adj))"

definition normalizeEdge :: "TopologyGraph \<Rightarrow> string \<Rightarrow> string \<Rightarrow> adjmap \<Rightarrow> adjmap option" where
  "normalizeEdge g a b newAdj =
     (let da = getDevice g a; db = getDevice g b in
      if Device_Tier da < 0 \<or> Device_Tier db < 0 then Some newAdj
      else if \<bar>Device_Tier da - Device_Tier db\<bar> \<noteq> 1 then Some newAdj
      else case setAdj a b newAdj of None \<Rightarrow> None | Some adj \<Rightarrow> setAdj b a adj)"

definition NormalizeTierEdges :: "TopologyGraph \<Rightarrow> TopologyGraph option" where
  "NormalizeTierEdges g =
     (let newAdj = fold (\<lambda>name adj. mput name [] adj) (mkeys (Devices g)) [] in
      map_option (\<lambda>adj. g\<lparr>Adj := adj\<rparr>)
        (ofold (\<lambda>(a, neighbors). ofold (normalizeEdge g a) (mkeys neighbors)) (Adj g) newAdj))"

subsection \<open>Distance from the hosts\<close>


definition isSeed :: "TopologyGraph \<Rightarrow> string \<Rightarrow> bool" where
  "isSeed g n \<longleftrightarrow> isSwitch g n \<and> hasHostNeighbor g n"

primrec swWalk :: "TopologyGraph \<Rightarrow> nat \<Rightarrow> string \<Rightarrow> bool" where
  "swWalk g 0 s \<longleftrightarrow> isSeed g s"
| "swWalk g (Suc k) s \<longleftrightarrow> isSwitch g s \<and> (\<exists>p. swWalk g k p \<and> edge g p s)"

lemma swWalk_isSwitch: "swWalk g k s \<Longrightarrow> isSwitch g s"
  by (cases k) (auto simp: isSeed_def)

lemma hasHostNeighbor_iff: "wfGraph g \<Longrightarrow> hasHostNeighbor g s \<longleftrightarrow> (\<exists>h. edge g s h \<and> isHost g h)"
  unfolding hasHostNeighbor_def list_ex_iff wfGraph_def
  using wfAdj_inner_keys[of "names g" "Adj g" s] by auto

definition unassigned :: "TopologyGraph \<Rightarrow> string set" where
  "unassigned g = {n. isSwitch g n \<and> tier g n = -1}"

lemma finite_unassigned: "finite (unassigned g)"
proof -
  have "unassigned g \<subseteq> names g" using isSwitch_names by (auto simp: unassigned_def)
  then show ?thesis by (rule finite_subset) simp
qed

lemma infer_seeds:
  assumes "retiered g0 g" "distinct (map fst l)" "\<And>n d. (n, d) \<in> set l \<Longrightarrow> map_of (Devices g0) n = Some d"
  shows "\<exists>g'. fold inferSeed l (g, q) = (g', q @ filter (isSeed g0) (map fst l)) \<and> retiered g0 g'
     \<and> (\<forall>n. tier g' n = (if n \<in> fst ` set l \<and> isSeed g0 n then 1 else tier g n))"
  using assms
proof (induction l arbitrary: g q)
  case (Cons e l)
  obtain n d where e: "e = (n, d)" by force
  have d: "map_of (Devices g0) n = Some d" using Cons.prems(3) e by simp
  then have d0: "getDevice g0 n = d" by (rule getDevice_Some)
  have nm: "n \<in> names g0" using d by blast
  let ?g = "if isSeed g0 n then setTier n 1 g else g"
  have rt: "retiered g0 ?g" using Cons.prems(1) retiered_setTier[OF _ nm] by auto
  have dev: "(getDevice g n)\<lparr>Device_Tier := 1\<rparr> = d\<lparr>Device_Tier := 1\<rparr>"
    using arg_cong[OF retiered_device[OF Cons.prems(1), of n], of "\<lambda>d. d\<lparr>Device_Tier := 1\<rparr>"] d0 by simp
  have s: "inferSeed e (g, q) = (?g, q @ filter (isSeed g0) [n])"
    using dev d0 Cons.prems(1) by (simp add: e inferSeed_def isSeed_def retiered_hasHostNeighbor setTier_def)
  from Cons.IH[OF rt, of "q @ filter (isSeed g0) [n]"] Cons.prems(2,3)
  obtain g' where g': "fold inferSeed l (?g, q @ filter (isSeed g0) [n])
      = (g', (q @ filter (isSeed g0) [n]) @ filter (isSeed g0) (map fst l))" "retiered g0 g'"
    "\<forall>m. tier g' m = (if m \<in> fst ` set l \<and> isSeed g0 m then 1 else tier ?g m)"
    by auto
  have "fold inferSeed (e # l) (g, q) = (g', q @ filter (isSeed g0) (map fst (e # l)))"
    using g'(1) s by (simp add: e)
  moreover have "tier g' m = (if m \<in> fst ` set (e # l) \<and> isSeed g0 m then 1 else tier g m)" for m
    using g'(3) Cons.prems(2) by (simp add: e getDevice_setTier)
  ultimately show ?case using g'(2) by blast
qed simp

lemma infer_neighbors:
  assumes "retiered g0 g" "distinct ns" "t \<ge> 0"
  shows "\<exists>g'. fold (inferNeighbor t) ns (g, q) = (g', q @ filter (\<lambda>n. n \<in> unassigned g) ns) \<and> retiered g0 g'
     \<and> (\<forall>n. tier g' n = (if n \<in> set ns \<and> n \<in> unassigned g then t + 1 else tier g n))"
  using assms
proof (induction ns arbitrary: g q)
  case (Cons n ns)
  let ?g = "if n \<in> unassigned g then setTier n (t + 1) g else g"
  have s: "inferNeighbor t n (g, q) = (?g, q @ filter (\<lambda>n. n \<in> unassigned g) [n])"
    by (simp add: inferNeighbor_def unassigned_def)
  have rt: "retiered g0 ?g"
    using Cons.prems(1) retiered_setTier[of g0 g n] isSwitch_names[of g n] retiered_names[of g0 g]
    by (auto simp: unassigned_def)
  have un: "m \<in> unassigned ?g \<longleftrightarrow> m \<in> unassigned g" if "m \<noteq> n" for m
    using that by (simp add: unassigned_def getDevice_setTier)
  have f: "filter (\<lambda>n. n \<in> unassigned ?g) ns = filter (\<lambda>n. n \<in> unassigned g) ns"
    using Cons.prems(2) by (intro filter_cong refl un) auto
  from Cons.IH[OF rt, of "q @ filter (\<lambda>n. n \<in> unassigned g) [n]"] Cons.prems(2,3)
  obtain g' where g': "fold (inferNeighbor t) ns (?g, q @ filter (\<lambda>n. n \<in> unassigned g) [n])
      = (g', (q @ filter (\<lambda>n. n \<in> unassigned g) [n]) @ filter (\<lambda>n. n \<in> unassigned ?g) ns)" "retiered g0 g'"
    "\<forall>m. tier g' m = (if m \<in> set ns \<and> m \<in> unassigned ?g then t + 1 else tier ?g m)"
    by auto
  have "fold (inferNeighbor t) (n # ns) (g, q) = (g', q @ filter (\<lambda>n. n \<in> unassigned g) (n # ns))"
    using g'(1) s f by simp
  moreover have "tier g' m = (if m \<in> set (n # ns) \<and> m \<in> unassigned g then t + 1 else tier g m)" for m
    using g'(3) un[of m] Cons.prems(2) by (cases "m = n") (auto simp: getDevice_setTier)
  ultimately show ?case using g'(2) by blast
qed simp

definition assigned :: "TopologyGraph \<Rightarrow> string \<Rightarrow> bool" where
  "assigned g n \<longleftrightarrow> isSwitch g n \<and> tier g n \<noteq> -1"

text \<open>
  The invariant of the queue loop: an assigned tier is witnessed by a walk, a device that has left
  the queue has passed its tier on, and the queue is ordered by tier and holds at most two levels.
\<close>

definition tierInv :: "TopologyGraph \<Rightarrow> TopologyGraph \<Rightarrow> string list \<Rightarrow> bool" where
  "tierInv g0 g q \<longleftrightarrow> retiered g0 g
     \<and> (\<forall>n. assigned g n \<longrightarrow> (\<exists>k. tier g n = int k + 1 \<and> swWalk g0 k n))
     \<and> (\<forall>n. isSeed g0 n \<longrightarrow> tier g n = 1)
     \<and> (\<forall>p n. assigned g p \<and> p \<notin> set q \<and> edge g0 p n \<and> isSwitch g0 n \<longrightarrow> assigned g n \<and> tier g n \<le> tier g p + 1)
     \<and> (\<forall>n \<in> set q. assigned g n) \<and> sorted (map (tier g) q)
     \<and> (\<forall>n. assigned g n \<and> q \<noteq> [] \<longrightarrow> tier g n \<le> tier g (hd q) + 1)
     \<and> (\<forall>n. \<not> isSwitch g0 n \<longrightarrow> tier g n = tier g0 n)"

lemma tierInvD:
  assumes "tierInv g0 g q"
  shows "retiered g0 g"
    and "assigned g n \<Longrightarrow> \<exists>k. tier g n = int k + 1 \<and> swWalk g0 k n"
    and "isSeed g0 n \<Longrightarrow> tier g n = 1"
    and "assigned g p \<Longrightarrow> p \<notin> set q \<Longrightarrow> edge g0 p n \<Longrightarrow> isSwitch g0 n \<Longrightarrow> assigned g n \<and> tier g n \<le> tier g p + 1"
    and "n \<in> set q \<Longrightarrow> assigned g n"
    and "sorted (map (tier g) q)"
    and "assigned g n \<Longrightarrow> q \<noteq> [] \<Longrightarrow> tier g n \<le> tier g (hd q) + 1"
    and "assigned g n \<longleftrightarrow> isSwitch g0 n \<and> tier g n \<noteq> -1"
    and "\<not> isSwitch g0 n \<Longrightarrow> tier g n = tier g0 n"
proof -
  note c = assms[unfolded tierInv_def]
  note c2 = c[THEN conjunct2] note c3 = c2[THEN conjunct2] note c4 = c3[THEN conjunct2]
  note c5 = c4[THEN conjunct2] note c6 = c5[THEN conjunct2]
  show r: "retiered g0 g" by (rule c[THEN conjunct1])
  show "assigned g n \<Longrightarrow> \<exists>k. tier g n = int k + 1 \<and> swWalk g0 k n" by (rule c2[THEN conjunct1, rule_format])
  show "isSeed g0 n \<Longrightarrow> tier g n = 1" by (rule c3[THEN conjunct1, rule_format])
  show "assigned g p \<Longrightarrow> p \<notin> set q \<Longrightarrow> edge g0 p n \<Longrightarrow> isSwitch g0 n \<Longrightarrow> assigned g n \<and> tier g n \<le> tier g p + 1"
    by (rule c4[THEN conjunct1, THEN spec, THEN spec, THEN mp]) (intro conjI)
  show "n \<in> set q \<Longrightarrow> assigned g n" by (rule c5[THEN conjunct1, rule_format])
  show "sorted (map (tier g) q)" by (rule c6[THEN conjunct1])
  show "assigned g n \<Longrightarrow> q \<noteq> [] \<Longrightarrow> tier g n \<le> tier g (hd q) + 1"
    by (rule c6[THEN conjunct2, THEN conjunct1, rule_format]) (intro conjI)
  show "\<not> isSwitch g0 n \<Longrightarrow> tier g n = tier g0 n"
    by (rule c6[THEN conjunct2, THEN conjunct2, rule_format])
  show "assigned g n \<longleftrightarrow> isSwitch g0 n \<and> tier g n \<noteq> -1"
    unfolding assigned_def retiered_type[OF r] ..
qed

lemma tierInv_walk_bound:
  assumes inv: "tierInv g0 g []" and "swWalk g0 k n"
  shows "assigned g n \<and> tier g n \<le> int k + 1"
  using assms(2)
proof (induction k arbitrary: n)
  case 0
  then have "isSeed g0 n" by simp
  then show ?case using tierInvD(3,8)[OF inv, of n] by (simp add: isSeed_def)
next
  case (Suc k)
  then obtain p where p: "swWalk g0 k p" "edge g0 p n" "isSwitch g0 n" by auto
  then have "assigned g n \<and> tier g n \<le> tier g p + 1"
    using Suc.IH[OF p(1)] tierInvD(4)[OF inv, of p n] by simp
  with Suc.IH[OF p(1)] show ?case by simp
qed

lemma tierInv_final:
  assumes "tierInv g0 g []" "isSwitch g0 n"
  shows "tier g n = int k + 1 \<longleftrightarrow> swWalk g0 k n \<and> (\<forall>j < k. \<not> swWalk g0 j n)"
    and "tier g n = -1 \<longleftrightarrow> (\<forall>k. \<not> swWalk g0 k n)"
proof -
  have wit: "\<exists>k. tier g n = int k + 1 \<and> swWalk g0 k n" if "tier g n \<noteq> -1"
    using that assms(2) tierInvD(2,8)[OF assms(1), of n] by simp
  have bnd: "tier g n \<noteq> -1 \<and> tier g n \<le> int j + 1" if "swWalk g0 j n" for j
    using tierInv_walk_bound[OF assms(1) that] tierInvD(8)[OF assms(1), of n] by simp
  show "tier g n = -1 \<longleftrightarrow> (\<forall>k. \<not> swWalk g0 k n)" using wit bnd by blast
  show "tier g n = int k + 1 \<longleftrightarrow> swWalk g0 k n \<and> (\<forall>j < k. \<not> swWalk g0 j n)"
  proof
    assume t: "tier g n = int k + 1"
    then have "tier g n \<noteq> -1" by simp
    then have "swWalk g0 k n" using wit t by auto
    moreover have "\<not> swWalk g0 j n" if "j < k" for j using bnd[of j] t that by auto
    ultimately show "swWalk g0 k n \<and> (\<forall>j < k. \<not> swWalk g0 j n)" by simp
  next
    assume w: "swWalk g0 k n \<and> (\<forall>j < k. \<not> swWalk g0 j n)"
    then obtain j where j: "tier g n = int j + 1" "swWalk g0 j n" using wit bnd by blast
    then have "j \<le> k" using bnd[of k] w by simp
    moreover have "\<not> j < k" using w j by blast
    ultimately show "tier g n = int k + 1" using j by simp
  qed
qed

lemma tierInv_init:
  assumes g: "wfGraph g0" "\<And>n. isSwitch g0 n \<Longrightarrow> tier g0 n = -1"
  shows "\<exists>g. fold inferSeed (Devices g0) (g0, []) = (g, filter (isSeed g0) (mkeys (Devices g0)))
     \<and> tierInv g0 g (sort (filter (isSeed g0) (mkeys (Devices g0))))
     \<and> unassigned g = unassigned g0 - Collect (isSeed g0)"
proof -
  have wf: "mwf (Devices g0)" using g(1) by (simp add: wfGraph_def wfDevices_def)
  then have "map_of (Devices g0) n = Some d" if "(n, d) \<in> set (Devices g0)" for n d
    using that by simp
  from infer_seeds[OF retiered_refl[OF wf] _ this, of "Devices g0" "[]"] wf
  obtain g where r: "fold inferSeed (Devices g0) (g0, []) = (g, filter (isSeed g0) (mkeys (Devices g0)))" "retiered g0 g"
    "\<And>n. tier g n = (if n \<in> names g0 \<and> isSeed g0 n then 1 else tier g0 n)"
    by (auto simp: mkeys_def keyset_def)
  have nm: "n \<in> names g0" if "isSeed g0 n" for n using that isSwitch_names by (simp add: isSeed_def)
  have asg: "assigned g n \<longleftrightarrow> isSeed g0 n" for n
    using r(3)[of n] g(2)[of n] nm[of n] retiered_type[OF r(2), of n] by (auto simp: assigned_def isSeed_def)
  have t: "tier g n = 1" if "isSeed g0 n" for n using that nm r(3) by simp
  let ?q = "sort (filter (isSeed g0) (mkeys (Devices g0)))"
  have q: "set ?q = {n. isSeed g0 n}" using nm by auto
  have m: "map (tier g) ?q = replicate (length ?q) 1"
    by (rule replicate_eqI) (use q t in auto)
  have "tierInv g0 g ?q"
    unfolding tierInv_def asg
  proof (intro conjI)
    show "\<forall>n. isSeed g0 n \<longrightarrow> (\<exists>k. tier g n = int k + 1 \<and> swWalk g0 k n)"
      using t by (auto intro!: exI[of _ 0])
    show "sorted (map (tier g) ?q)" unfolding m by simp
    show "\<forall>n. isSeed g0 n \<and> ?q \<noteq> [] \<longrightarrow> tier g n \<le> tier g (hd ?q) + 1"
      using t q hd_in_set[of ?q] by fastforce
    show "\<forall>n. \<not> isSwitch g0 n \<longrightarrow> tier g n = tier g0 n" using r(3) by (auto simp: isSeed_def)
  qed (use r(2) t q in auto)
  moreover have "unassigned g = unassigned g0 - Collect (isSeed g0)"
    using r(3) nm retiered_type[OF r(2)] by (auto simp: unassigned_def split: if_splits)
  ultimately show ?thesis using r(1) by blast
qed

lemma tierInv_push:
  assumes inv: "tierInv g0 g (cur # q)" and r': "retiered g0 g'"
    and new: "\<And>n. n \<in> set new \<longleftrightarrow> edge g0 cur n \<and> isSwitch g0 n \<and> tier g n = -1"
    and t': "\<And>n. tier g' n = (if n \<in> set new then tier g cur + 1 else tier g n)"
  shows "tierInv g0 g' (q @ new)"
proof -
  let ?t = "tier g cur"
  note D = tierInvD[OF inv]
  have cur: "assigned g cur" using D(5) by simp
  obtain k where k: "?t = int k + 1" "swWalk g0 k cur" using D(2)[OF cur] by blast
  have a': "assigned g' n \<longleftrightarrow> assigned g n \<or> n \<in> set new" for n
    using t'[of n] new[of n] k(1) D(8)[of n] by (auto simp: assigned_def retiered_type[OF r'])
  have old: "tier g' n = tier g n" if "assigned g n" for n using that new[of n] t'[of n] D(8)[of n] by simp
  have fresh: "tier g' n = ?t + 1" if "n \<in> set new" for n using that t'[of n] by simp
  have le: "tier g n \<le> ?t + 1" if "assigned g n" for n using D(7)[OF that] by simp
  have ge: "?t \<le> tier g' n" if "n \<in> set (q @ new)" for n
    using D(6) D(5)[of n] that old[of n] fresh[of n] by (cases "n \<in> set new") auto
  have qa: "assigned g n" if "n \<in> set q" for n using D(5)[of n] that by simp
  show ?thesis unfolding tierInv_def
  proof (intro conjI allI impI ballI)
    show "retiered g0 g'" by (rule r')
  next
    fix n assume "assigned g' n"
    then consider "assigned g n" | "n \<in> set new" using a' by blast
    then show "\<exists>k. tier g' n = int k + 1 \<and> swWalk g0 k n"
    proof cases
      case 2
      then have "swWalk g0 (Suc k) n" using new[of n] k(2) by auto
      then show ?thesis using fresh[OF 2] k(1) by (intro exI[of _ "Suc k"]) simp
    qed (use D(2)[of n] old[of n] in simp)
  next
    fix n assume "isSeed g0 n"
    then show "tier g' n = 1" using D(3)[of n] new[of n] t'[of n] by simp
  next
    fix n assume "\<not> isSwitch g0 n"
    then show "tier g' n = tier g0 n" using D(9)[of n] new[of n] t'[of n] by simp
  next
    fix n assume "n \<in> set (q @ new)"
    then show "assigned g' n" using a'[of n] qa[of n] by auto
  next
    fix n assume n: "assigned g' n \<and> q @ new \<noteq> []"
    have "tier g' n \<le> ?t + 1" using n a'[of n] old[of n] fresh[of n] le[of n] by auto
    also have "?t \<le> tier g' (hd (q @ new))" using n ge[of "hd (q @ new)"] by (metis hd_in_set)
    finally show "tier g' n \<le> tier g' (hd (q @ new)) + 1" by simp
  next
    fix p n
    assume a: "assigned g' p \<and> p \<notin> set (q @ new) \<and> edge g0 p n \<and> isSwitch g0 n"
    then have p: "assigned g p" "tier g' p = tier g p" using a'[of p] old[of p] by auto
    have "assigned g' n \<and> tier g' n \<le> tier g p + 1"
    proof (cases "n \<in> set new")
      case True
      then have "p = cur" using new[of n] D(4)[of p n] D(8)[of n] a p(1) by auto
      then show ?thesis using True a'[of n] fresh[of n] by simp
    next
      case False
      then have "assigned g n" "tier g n \<le> tier g p + 1"
        using new[of n] D(4)[of p n] D(8)[of n] le[of n] a p(1) by (cases "p = cur"; simp)+
      then show ?thesis using a'[of n] old[of n] by simp
    qed
    then show "assigned g' n" "tier g' n \<le> tier g' p + 1" using p by auto
  next
    have "map (tier g') q = map (tier g) q" using old qa by simp
    moreover have "tier g n \<le> ?t + 1" if "n \<in> set q" for n using le[of n] qa[of n] that by simp
    moreover have "map (tier g') new = replicate (length new) (?t + 1)"
      by (rule replicate_eqI) (use fresh in auto)
    ultimately show "sorted (map (tier g') (q @ new))" using D(6)
      by (simp add: sorted_append del: map_eq_conv)
  qed
qed

lemma tierInv_step:
  assumes wf: "wfGraph g0" and inv: "tierInv g0 g (cur # q)"
  shows "\<exists>g' new. fold (inferNeighbor (tier g cur)) (sortedBoolKeys (mgetd [] (Adj g) cur)) (g, q) = (g', q @ new)
     \<and> tierInv g0 g' (q @ new) \<and> card (unassigned g') + length new = card (unassigned g)"
proof -
  let ?t = "tier g cur"
  let ?ns = "sortedBoolKeys (mgetd [] (Adj g) cur)"
  define new where "new = filter (\<lambda>n. n \<in> unassigned g) ?ns"
  note D = tierInvD[OF inv]
  note adj = retiered_Adj[OF D(1)]
  have t: "?t \<ge> 0" using D(2)[of cur] D(5)[of cur] by auto
  have dn: "distinct ?ns" using wf wfAdj_inner[of "names g0" "Adj g0" cur] by (simp add: adj wfGraph_def)
  obtain g' where g': "fold (inferNeighbor ?t) ?ns (g, q) = (g', q @ new)" "retiered g0 g'"
    "\<And>n. tier g' n = (if n \<in> set ?ns \<and> n \<in> unassigned g then ?t + 1 else tier g n)"
    using infer_neighbors[OF D(1) dn t, of q] unfolding new_def by blast
  have new: "n \<in> set new \<longleftrightarrow> edge g0 cur n \<and> isSwitch g0 n \<and> tier g n = -1" for n
    using retiered_type[OF D(1)] by (auto simp: new_def adj unassigned_def)
  have t': "tier g' n = (if n \<in> set new then ?t + 1 else tier g n)" for n
    using g'(3)[of n] by (simp add: new_def)
  have "unassigned g' = unassigned g - set new"
    using t' t retiered_type[OF g'(2)] retiered_type[OF D(1)] by (auto simp: unassigned_def)
  moreover have "set new \<subseteq> unassigned g" by (auto simp: new_def)
  moreover have "card (set new) = length new" using dn by (intro distinct_card) (simp add: new_def)
  ultimately have "card (unassigned g') + length new = card (unassigned g)"
    using finite_unassigned[of g] card_mono[of "unassigned g" "set new"] by (simp add: card_Diff_subset)
  with g'(1) tierInv_push[OF inv g'(2) new t'] show ?thesis by blast
qed

lemma inferLoop_inv:
  assumes "wfGraph g0" "tierInv g0 g q" "card (unassigned g) + length q \<le> fuel"
  shows "\<exists>g'. inferLoop fuel g q = Some g' \<and> tierInv g0 g' []"
  using assms(2,3)
proof (induction fuel arbitrary: g q)
  case 0
  then show ?case by auto
next
  case (Suc fuel)
  show ?case
  proof (cases q)
    case Nil
    with Suc.prems show ?thesis by auto
  next
    case (Cons cur rest)
    from tierInv_step[OF assms(1) Suc.prems(1)[unfolded Cons]] obtain g' new where
      s: "fold (inferNeighbor (tier g cur)) (sortedBoolKeys (mgetd [] (Adj g) cur)) (g, rest) = (g', rest @ new)"
         "tierInv g0 g' (rest @ new)" "card (unassigned g') + length new = card (unassigned g)" by blast
    have "card (unassigned g') + length (rest @ new) \<le> fuel" using s(3) Suc.prems(2) Cons by simp
    from Suc.IH[OF s(2) this] show ?thesis using s(1) Cons by simp
  qed
qed

lemma InferTiers_inv:
  assumes "wfGraph g0" "\<And>n. isSwitch g0 n \<Longrightarrow> tier g0 n = -1"
  shows "\<exists>g'. InferTiers g0 = Some g' \<and> tierInv g0 g' []"
proof -
  let ?q = "filter (isSeed g0) (mkeys (Devices g0))"
  obtain g where g: "fold inferSeed (Devices g0) (g0, []) = (g, ?q)" "tierInv g0 g (sort ?q)"
    "unassigned g = unassigned g0 - Collect (isSeed g0)"
    using tierInv_init[OF assms] by blast
  have wf: "mwf (Devices g0)" using assms(1) by (simp add: wfGraph_def wfDevices_def)
  have "card (unassigned g) + length ?q = card (unassigned g) + card (set ?q)"
    using wf by (subst distinct_card) auto
  also have "\<dots> = card (unassigned g \<union> set ?q)"
    using g(3) finite_unassigned[of g] by (subst card_Un_disjoint) auto
  also have "\<dots> \<le> card (names g0)"
    using g(3) isSwitch_names[of g0] by (intro card_mono) (auto simp: unassigned_def)
  also have "\<dots> = length (Devices g0)" using wf by (rule card_keyset)
  finally have "card (unassigned g) + length (sort ?q) \<le> length (Devices g0)" by simp
  from inferLoop_inv[OF assms(1) g(2) this] show ?thesis by (simp add: InferTiers_def g(1))
qed

definition linkedAdj :: "string set \<Rightarrow> (string \<times> string) set \<Rightarrow> adjmap \<Rightarrow> bool" where
  "linkedAdj V E adj \<longleftrightarrow> wfAdj V adj \<and> (\<forall>x y. adjEdge adj x y \<longleftrightarrow> (x, y) \<in> E \<or> (y, x) \<in> E)"

definition tierStep :: "TopologyGraph \<Rightarrow> string \<Rightarrow> string \<Rightarrow> bool" where
  "tierStep g a b \<longleftrightarrow> tier g a \<ge> 0 \<and> tier g b \<ge> 0 \<and> \<bar>tier g a - tier g b\<bar> = 1"

lemma tierStep_sym: "tierStep g a b \<Longrightarrow> tierStep g b a"
  by (auto simp: tierStep_def)

lemma normalizeEdge_linked:
  assumes "linkedAdj V E adj" "a \<in> V" "b \<in> V"
  shows "\<exists>adj'. normalizeEdge g a b adj = Some adj' \<and> linkedAdj V (E \<union> (if tierStep g a b then {(a, b)} else {})) adj'"
proof (cases "tierStep g a b")
  case False
  then have "normalizeEdge g a b adj = Some adj" by (auto simp: normalizeEdge_def tierStep_def Let_def)
  with assms False show ?thesis by simp
next
  case True
  let ?g = "g\<lparr>Adj := adj\<rparr>"
  have k: "a \<in> keyset (Adj ?g)" "b \<in> keyset (Adj ?g)" using assms by (auto simp: linkedAdj_def wfAdj_def)
  then obtain ma mb where m: "map_of adj a = Some ma" "map_of adj b = Some mb" by (auto elim!: keysetE)
  have ab: "a \<noteq> b" using True by (auto simp: tierStep_def)
  have "normalizeEdge g a b adj = Some (Adj (addUndirectedEdge a b ?g))"
    using True ab m unfolding map_of_addUndirectedEdge[OF k]
    by (simp add: normalizeEdge_def tierStep_def setAdj_def Let_def)
  moreover have "wfAdj V (Adj (addUndirectedEdge a b ?g))"
    using assms by (intro wfAdj_addUndirectedEdge) (auto simp: linkedAdj_def)
  moreover have "edge (addUndirectedEdge a b ?g) x y \<longleftrightarrow> (x, y) \<in> E \<union> {(a, b)} \<or> (y, x) \<in> E \<union> {(a, b)}" for x y
    unfolding edge_addUndirectedEdge[OF k] using assms(1) by (auto simp: linkedAdj_def)
  ultimately show ?thesis using True by (simp add: linkedAdj_def)
qed

lemma emptyAdj_linked: "linkedAdj (set ns) {} (fold (\<lambda>name adj. mput name [] adj) ns [])"
proof -
  have "linkedAdj (V \<union> set ns) {} (fold (\<lambda>name adj. mput name [] adj) ns adj)" if "linkedAdj V {} adj" for V adj
    using that
  proof (induction ns arbitrary: V adj)
    case (Cons n ns)
    have e: "\<not> adjEdge adj x y" for x y using Cons.prems by (simp add: linkedAdj_def)
    have "linkedAdj (insert n V) {} (mput n [] adj)"
      using Cons.prems e unfolding linkedAdj_def wfAdj_def by (auto simp: adjEdge_def)
    from Cons.IH[OF this] show ?case by simp
  qed simp
  moreover have "linkedAdj {} {} []" by (simp add: linkedAdj_def wfAdj_def adjEdge_def)
  ultimately show ?thesis by fastforce
qed

lemma NormalizeTierEdges_linked:
  assumes "wfGraph g"
  shows "\<exists>adj. NormalizeTierEdges g = Some (g\<lparr>Adj := adj\<rparr>)
     \<and> linkedAdj (names g) {(a, b). edge g a b \<and> tierStep g a b} adj"
proof -
  let ?V = "names g"
  let ?F = "\<lambda>a b. if tierStep g a b then {(a, b)} else {}"
  have wf: "wfAdj ?V (Adj g)" using assms by (simp add: wfGraph_def)
  have m: "map_of (Adj g) a = Some ms" if "(a, ms) \<in> set (Adj g)" for a ms
    using that wf by (simp add: wfAdj_def)
  have keys: "b \<in> keyset ms \<longleftrightarrow> edge g a b" if "(a, ms) \<in> set (Adj g)" for a b ms
    using wfAdj_inner_keys[OF wf, of a] m[OF that] by simp
  have row: "\<exists>s'. (case e of (a, ms) \<Rightarrow> ofold (normalizeEdge g a) (mkeys ms)) s = Some s'
      \<and> linkedAdj ?V (E \<union> {(a, b). a = fst e \<and> edge g a b \<and> tierStep g a b}) s'"
    if e0: "e \<in> set (Adj g)" and s: "linkedAdj ?V E s" for e s E
  proof -
    obtain a ms where e: "e = (a, ms)" "(a, ms) \<in> set (Adj g)" using e0 by (metis surj_pair)
    have step: "\<exists>s'. normalizeEdge g a b s = Some s' \<and> linkedAdj ?V (E \<union> ?F a b) s'"
      if "b \<in> set (mkeys ms)" "linkedAdj ?V E s" for b s E
    proof -
      have "edge g a b" using that(1) keys[OF e(2)] by simp
      then show ?thesis using that(2) wfGraph_edge[OF assms, of a b] by (intro normalizeEdge_linked) simp_all
    qed
    have "(\<Union>b\<in>set (mkeys ms). ?F a b) = {(x, b). x = a \<and> edge g x b \<and> tierStep g x b}"
      using keys[OF e(2)] by (auto split: if_splits)
    moreover have "\<exists>s'. ofold (normalizeEdge g a) (mkeys ms) s = Some s'
        \<and> linkedAdj ?V (E \<union> (\<Union>b\<in>set (mkeys ms). ?F a b)) s'"
      by (rule ofold_collect[where P = "linkedAdj ?V"]) (rule s, erule (1) step)
    ultimately show ?thesis by (simp only: e(1) prod.case fst_conv)
  qed
  have start: "linkedAdj ?V {} (fold (\<lambda>name adj. mput name [] adj) (mkeys (Devices g)) [])"
    using emptyAdj_linked[of "mkeys (Devices g)"] by simp
  have "(\<Union>e\<in>set (Adj g). {(a, b). a = fst e \<and> edge g a b \<and> tierStep g a b}) = {(a, b). edge g a b \<and> tierStep g a b}"
  proof -
    have "a \<in> fst ` set (Adj g)" if "edge g a b" for a b
      using wfGraph_edge[OF assms that] wf by (auto simp: wfAdj_def keyset_def)
    then show ?thesis by (intro set_eqI) (simp add: split_beta, metis image_iff)
  qed
  moreover have "\<exists>adj. ofold (\<lambda>(a, neighbors). ofold (normalizeEdge g a) (mkeys neighbors)) (Adj g)
      (fold (\<lambda>name adj. mput name [] adj) (mkeys (Devices g)) []) = Some adj
    \<and> linkedAdj ?V ({} \<union> (\<Union>e\<in>set (Adj g). {(a, b). a = fst e \<and> edge g a b \<and> tierStep g a b})) adj"
    by (rule ofold_collect[where P = "linkedAdj ?V"]) (rule start, erule (1) row)
  ultimately show ?thesis unfolding NormalizeTierEdges_def Let_def by (elim exE conjE) (intro exI conjI, simp_all)
qed

subsection \<open>The two passes on built graphs\<close>

definition inferredTier :: "TopologyGraph \<Rightarrow> string \<Rightarrow> int" where
  "inferredTier g n = (if \<not> isSwitch g n then tier g n
     else if \<exists>k. swWalk g k n then int (LEAST k. swWalk g k n) + 1 else -1)"

lemma tier_inferred:
  assumes inv: "tierInv g0 g []"
  shows "tier g n = inferredTier g0 n"
proof (cases "isSwitch g0 n \<and> (\<exists>k. swWalk g0 k n)")
  case True
  let ?k = "LEAST k. swWalk g0 k n"
  have "swWalk g0 ?k n" using True by (auto intro: LeastI)
  moreover have "\<not> swWalk g0 j n" if "j < ?k" for j using that by (rule not_less_Least)
  ultimately have "tier g n = int ?k + 1" using tierInv_final(1)[OF inv, of n ?k] True by simp
  then show ?thesis using True by (simp add: inferredTier_def)
next
  case False
  then show ?thesis using tierInv_final(2)[OF inv, of n] tierInvD(9)[OF inv, of n] by (auto simp: inferredTier_def)
qed

lemma InferTiers_wf:
  assumes "wfGraph g" "\<And>n. isSwitch g n \<Longrightarrow> tier g n = -1"
  shows "\<exists>g'. InferTiers g = Some g' \<and> retiered g g' \<and> (\<forall>n. tier g' n = inferredTier g n)"
  using InferTiers_inv[OF assms] tierInvD(1) tier_inferred by blast

lemma NormalizeTierEdges_wf:
  assumes "wfGraph g"
  shows "\<exists>g'. NormalizeTierEdges g = Some g' \<and> wfGraph g' \<and> Devices g' = Devices g
     \<and> (\<forall>a b. edge g' a b \<longleftrightarrow> edge g a b \<and> tierStep g a b)"
proof -
  obtain adj where adj: "NormalizeTierEdges g = Some (g\<lparr>Adj := adj\<rparr>)"
    "linkedAdj (names g) {(a, b). edge g a b \<and> tierStep g a b} adj"
    using NormalizeTierEdges_linked[OF assms] by blast
  have "adjEdge adj a b \<longleftrightarrow> edge g a b \<and> tierStep g a b" for a b
    using adj(2) tierStep_sym[of g a b] tierStep_sym[of g b a] wfGraph_sym[OF assms, of a b] wfGraph_sym[OF assms, of b a]
    unfolding linkedAdj_def by blast
  then show ?thesis using adj assms by (intro exI[of _ "g\<lparr>Adj := adj\<rparr>"]) (simp add: wfGraph_def linkedAdj_def)
qed

lemma tier_BuildTopologyGraph:
  "isSwitch (BuildTopologyGraph hosts switches) n \<Longrightarrow> tier (BuildTopologyGraph hosts switches) n = -1"
  "\<not> isSwitch (BuildTopologyGraph hosts switches) n \<Longrightarrow> tier (BuildTopologyGraph hosts switches) n = 0"
  by (simp_all add: getDevice_def mgetd_def zeroDevice_def Devices_BuildTopologyGraph map_of_deviceGraph split: if_splits)

text \<open>
  C3: on every graph built from hosts and switches, tier inference ends, changes
  nothing but tiers, and gives every switch one more than its distance (over switches only) from the
  nearest switch with a host neighbour; a switch no such walk reaches keeps tier \<open>-1\<close> and a host tier \<open>0\<close>.
\<close>

theorem InferTiers_distance:
  "\<exists>g'. InferTiers (BuildTopologyGraph hosts switches) = Some g'
     \<and> retiered (BuildTopologyGraph hosts switches) g'
     \<and> (\<forall>n. tier g' n =
           (if n \<notin> Switch_Name ` set switches then 0
            else if \<exists>k. swWalk (BuildTopologyGraph hosts switches) k n
            then int (LEAST k. swWalk (BuildTopologyGraph hosts switches) k n) + 1 else -1))"
proof -
  let ?g = "BuildTopologyGraph hosts switches"
  obtain g' where g': "InferTiers ?g = Some g'" "retiered ?g g'" "\<And>n. tier g' n = inferredTier ?g n"
    using InferTiers_wf[OF wfGraph_BuildTopologyGraph tier_BuildTopologyGraph(1)] by blast
  have "tier g' n = (if n \<notin> Switch_Name ` set switches then 0
      else if \<exists>k. swWalk ?g k n then int (LEAST k. swWalk ?g k n) + 1 else -1)" for n
    using g'(3)[of n] tier_BuildTopologyGraph(2)[of hosts switches n] isSwitch_BuildTopologyGraph[of hosts switches n]
    by (simp add: inferredTier_def)
  with g'(1,2) show ?thesis by blast
qed

lemma inferredTier_Least:
  assumes "swWalk g k n"
  shows "inferredTier g n = int (LEAST k. swWalk g k n) + 1"
  using assms swWalk_isSwitch[OF assms] by (auto simp: inferredTier_def)

lemma inferredTier_down:
  assumes wf: "wfGraph g" and host: "\<And>h. isHost g h \<Longrightarrow> tier g h = 0"
    and n: "isSwitch g n" "inferredTier g n \<ge> 1"
  shows "\<exists>p. edge g n p \<and> inferredTier g p = inferredTier g n - 1"
proof -
  define k where "k = (LEAST k. swWalk g k n)"
  have ex: "\<exists>k. swWalk g k n" using n by (auto simp: inferredTier_def split: if_splits)
  then have w: "swWalk g k n" unfolding k_def by (rule LeastI_ex)
  have t: "inferredTier g n = int k + 1" using w inferredTier_Least k_def by simp
  show ?thesis
  proof (cases k)
    case 0
    then obtain h where "edge g n h" "isHost g h" using w wf by (auto simp: isSeed_def hasHostNeighbor_iff)
    then show ?thesis using host[of h] t 0 by (intro exI[of _ h]) (simp add: inferredTier_def)
  next
    case (Suc j)
    then obtain p where p: "swWalk g j p" "edge g p n" using w by auto
    have "j \<le> (LEAST k. swWalk g k p)"
    proof (rule ccontr)
      assume "\<not> j \<le> (LEAST k. swWalk g k p)"
      moreover have "swWalk g (LEAST k. swWalk g k p) p" using p(1) by (rule LeastI)
      then have "swWalk g (Suc (LEAST k. swWalk g k p)) n" using p(2) n(1) by auto
      ultimately show False using not_less_Least[of "Suc (LEAST k. swWalk g k p)" "\<lambda>k. swWalk g k n"] Suc k_def by simp
    qed
    then have "(LEAST k. swWalk g k p) = j" using p(1) Least_le[of "\<lambda>k. swWalk g k p" j] by simp
    then have "inferredTier g p = int j + 1" using inferredTier_Least[OF p(1)] by simp
    then show ?thesis using wfGraph_sym[OF wf, of n p] p(2) t Suc by (intro exI[of _ p]) simp
  qed
qed

text \<open>
  C6: the two passes succeed on every built graph; the edges that remain are exactly
  the LLDP edges between devices whose tiers differ by one, and every switch with a tier keeps an
  edge to a device one tier below it, so following such edges from a switch ends at a host.
\<close>

theorem NormalizeTierEdges_layers:
  "\<exists>g1 g2. InferTiers (BuildTopologyGraph hosts switches) = Some g1 \<and> NormalizeTierEdges g1 = Some g2
     \<and> wfGraph g2 \<and> Devices g2 = Devices g1
     \<and> (\<forall>a b. edge g2 a b \<longleftrightarrow> edge (BuildTopologyGraph hosts switches) a b \<and> tierStep g1 a b)
     \<and> (\<forall>n. tier g2 n \<ge> 1 \<longrightarrow> (\<exists>p. edge g2 n p \<and> tier g2 p = tier g2 n - 1))"
proof -
  let ?g = "BuildTopologyGraph hosts switches"
  note wf = wfGraph_BuildTopologyGraph[of hosts switches]
  obtain g1 where g1: "InferTiers ?g = Some g1" "retiered ?g g1" "\<And>n. tier g1 n = inferredTier ?g n"
    using InferTiers_wf[OF wf tier_BuildTopologyGraph(1)] by blast
  obtain g2 where g2: "NormalizeTierEdges g1 = Some g2" "wfGraph g2" "Devices g2 = Devices g1"
    "\<And>a b. edge g2 a b \<longleftrightarrow> edge ?g a b \<and> tierStep g1 a b"
    using NormalizeTierEdges_wf[OF retiered_wfGraph[OF g1(2) wf]] unfolding retiered_Adj[OF g1(2)] by blast
  have dev: "tier g2 n = inferredTier ?g n" for n using g1(3)[of n] by (simp add: getDevice_def g2(3))
  have "\<exists>p. edge g2 n p \<and> tier g2 p = tier g2 n - 1" if "tier g2 n \<ge> 1" for n
  proof -
    have n: "inferredTier ?g n \<ge> 1" using that dev by simp
    then have "isSwitch ?g n" using tier_BuildTopologyGraph(2)[of hosts switches n]
      by (cases "isSwitch ?g n") (simp_all add: inferredTier_def)
    then obtain p where "edge ?g n p" "inferredTier ?g p = inferredTier ?g n - 1"
      using inferredTier_down[OF wf _ _ n] tier_BuildTopologyGraph(2) by force
    then show ?thesis using n g1(3) dev g2(4) by (intro exI[of _ p]) (simp add: tierStep_def)
  qed
  with g1(1) g2 show ?thesis by blast
qed

theorem NormalizeTierEdges_layers_witness:
  "\<exists>p. edge (the (NormalizeTierEdges (the (InferTiers (BuildTopologyGraph exHosts exSwitches))))) ''spine'' p"
proof -
  let ?g2 = "the (NormalizeTierEdges (the (InferTiers (BuildTopologyGraph exHosts exSwitches))))"
  have "tier ?g2 ''spine'' \<ge> 1" by code_simp
  then show ?thesis using NormalizeTierEdges_layers[of exHosts exSwitches] by (elim exE conjE) fastforce
qed

text \<open>The graph after the two passes, as \<open>DiscoverTopology\<close> hands it on.\<close>

definition tieredGraph :: "Host list \<Rightarrow> Switch list \<Rightarrow> TopologyGraph option" where
  "tieredGraph hosts switches =
     (case InferTiers (BuildTopologyGraph hosts switches) of
        None \<Rightarrow> None
      | Some g \<Rightarrow> NormalizeTierEdges g)"

lemma tieredGraph_total:
  obtains g where "tieredGraph hosts switches = Some g" "wfGraph g"
    "\<And>n. tier g n = inferredTier (BuildTopologyGraph hosts switches) n"
    "\<And>n. Device_Type (getDevice g n) = Device_Type (getDevice (BuildTopologyGraph hosts switches) n)"
    "\<And>a b. edge g a b \<longleftrightarrow> edge (BuildTopologyGraph hosts switches) a b \<and> tierStep g a b"
proof -
  let ?g = "BuildTopologyGraph hosts switches"
  note wf = wfGraph_BuildTopologyGraph[of hosts switches]
  have "\<exists>g'. InferTiers ?g = Some g' \<and> retiered ?g g' \<and> (\<forall>n. tier g' n = inferredTier ?g n)"
    by (rule InferTiers_wf[OF wf]) (rule tier_BuildTopologyGraph(1))
  then obtain g1 where g1: "InferTiers ?g = Some g1" "retiered ?g g1" "\<And>n. tier g1 n = inferredTier ?g n" by blast
  obtain g2 where g2: "NormalizeTierEdges g1 = Some g2" "wfGraph g2" "Devices g2 = Devices g1"
    "\<And>a b. edge g2 a b \<longleftrightarrow> edge ?g a b \<and> tierStep g1 a b"
    using NormalizeTierEdges_wf[OF retiered_wfGraph[OF g1(2) wf]] unfolding retiered_Adj[OF g1(2)] by blast
  have dev: "getDevice g2 n = getDevice g1 n" for n by (simp add: getDevice_def g2(3))
  have "tieredGraph hosts switches = Some g2" using g1(1) g2(1) by (simp add: tieredGraph_def)
  moreover have "tier g2 n = inferredTier ?g n" "Device_Type (getDevice g2 n) = Device_Type (getDevice ?g n)" for n
    using g1(3) retiered_type[OF g1(2)] by (simp_all add: dev)
  moreover have "edge g2 a b \<longleftrightarrow> edge ?g a b \<and> tierStep g2 a b" for a b
    unfolding g2(4) by (simp add: tierStep_def dev)
  ultimately show ?thesis using g2(2) that by blast
qed

end
