(* ===== verification/Worklist.thy ===== *)
theory Worklist
  imports Go_Prelude
begin

text \<open>
  The contract of a queue search: a loop that takes the head of a queue, skips it when it is
  marked, and otherwise marks it and appends its unmarked successors. Both graph searches of
  \<open>src/pkg/topology/topology.go\<close> are instances.
\<close>

locale worklist =
  fixes nbrs :: "'a \<Rightarrow> 'a list"
    and univ :: "'a set"
    and marked :: "'s \<Rightarrow> 'a set"
    and mark :: "'a \<Rightarrow> 's \<Rightarrow> 's"
    and run :: "'s \<Rightarrow> 'a list \<Rightarrow> 's"
  assumes finite_univ: "finite univ"
    and nbrs_outside: "x \<notin> univ \<Longrightarrow> nbrs x = []"
    and marked_mark: "marked (mark x s) = insert x (marked s)"
    and run_Nil: "run s [] = s"
    and run_marked: "x \<in> marked s \<Longrightarrow> run s (x # q) = run s q"
    and run_open: "x \<notin> marked s \<Longrightarrow>
          run s (x # q) = run (mark x s) (q @ filter (\<lambda>y. y \<notin> insert x (marked s)) (nbrs x))"
begin

definition succs :: "('a \<times> 'a) set" where
  "succs = {(x, y). y \<in> set (nbrs x)}"

definition reach :: "'a set \<Rightarrow> 'a set" where
  "reach X = succs\<^sup>* `` X"

definition pending :: "'s \<Rightarrow> 'a list \<Rightarrow> bool" where
  "pending s q \<longleftrightarrow> (\<forall>x \<in> marked s. set (nbrs x) \<subseteq> marked s \<union> set q)"

lemma search_induct [case_names Nil Marked Open]:
  assumes "\<And>s. P s []"
    and "\<And>s x q. x \<in> marked s \<Longrightarrow> P s q \<Longrightarrow> P s (x # q)"
    and "\<And>s x q. x \<notin> marked s \<Longrightarrow> P (mark x s) (q @ filter (\<lambda>y. y \<notin> insert x (marked s)) (nbrs x))
          \<Longrightarrow> P s (x # q)"
  shows "P s q"
proof (induction "(s, q)" arbitrary: s q
    rule: wf_induct[OF wf_measures[of "[\<lambda>(s, q). card (univ - marked s), \<lambda>(s, q). length q]"]])
  case 1
  show ?case
  proof (cases q)
    case (Cons x r)
    show ?thesis
    proof (cases "x \<in> marked s")
      case True
      then show ?thesis using 1 Cons assms(2)[OF True] by simp
    next
      case False
      have "card (univ - insert x (marked s)) < card (univ - marked s)" if "x \<in> univ"
        using that False finite_univ by (intro psubset_card_mono) auto
      moreover have "univ - insert x (marked s) = univ - marked s" "nbrs x = []" if "x \<notin> univ"
        using that nbrs_outside by auto
      ultimately have "((mark x s, r @ filter (\<lambda>y. y \<notin> insert x (marked s)) (nbrs x)), (s, q))
          \<in> measures [\<lambda>(s, q). card (univ - marked s), \<lambda>(s, q). length q]"
        using Cons by (cases "x \<in> univ") (simp_all add: marked_mark)
      then show ?thesis using 1 Cons assms(3)[OF False] by blast
    qed
  qed (simp add: assms(1))
qed

lemma reach_Un: "reach (X \<union> Y) = reach X \<union> reach Y"
  by (auto simp: reach_def)

lemma reach_refl: "X \<subseteq> reach X"
  by (auto simp: reach_def)

lemma reach_closed: "x \<in> reach X \<Longrightarrow> y \<in> set (nbrs x) \<Longrightarrow> y \<in> reach X"
  by (auto simp: reach_def succs_def intro: rtrancl_into_rtrancl)

lemma reach_subset:
  assumes "X \<subseteq> C" "\<And>x y. x \<in> C \<Longrightarrow> y \<in> set (nbrs x) \<Longrightarrow> y \<in> C"
  shows "reach X \<subseteq> C"
proof
  fix y assume "y \<in> reach X"
  then obtain x where "x \<in> X" "(x, y) \<in> succs\<^sup>*" by (auto simp: reach_def)
  from this(2,1) show "y \<in> C" by (induction rule: rtrancl_induct) (use assms in \<open>auto simp: succs_def\<close>)
qed

lemma marked_run:
  "pending s q \<Longrightarrow> marked (run s q) = marked s \<union> reach (set q)"
proof (induction s q rule: search_induct)
  case (Nil s)
  then show ?case by (simp add: run_Nil reach_def)
next
  case (Marked s x q)
  have "pending s q" using Marked.prems Marked.hyps by (auto simp: pending_def)
  then have IH: "marked (run s q) = marked s \<union> reach (set q)" by (rule Marked.IH)
  have "reach {x} \<subseteq> marked s \<union> reach (set q)"
    using \<open>pending s q\<close> Marked.hyps reach_refl[of "set q"]
    by (intro reach_subset) (auto simp: pending_def dest: reach_closed)
  then show ?case using IH Marked.hyps reach_Un[of "{x}" "set q"] by (auto simp: run_marked)
next
  case (Open s x q)
  let ?s = "mark x s"
  let ?q = "q @ filter (\<lambda>y. y \<notin> insert x (marked s)) (nbrs x)"
  have p: "pending ?s ?q" using Open.prems by (fastforce simp: pending_def marked_mark)
  then have IH: "marked (run ?s ?q) = insert x (marked s) \<union> reach (set ?q)"
    using Open.IH marked_mark by simp
  have 1: "reach {x} \<subseteq> insert x (marked s) \<union> reach (set ?q)"
    using p reach_refl[of "set ?q"] unfolding pending_def marked_mark
    by (intro reach_subset) (blast, blast dest: reach_closed)
  have 2: "reach (set ?q) \<subseteq> reach (set (x # q))"
  proof (rule reach_subset)
    have "set (nbrs x) \<subseteq> reach (set (x # q))"
      using reach_closed[of x "set (x # q)"] reach_refl[of "set (x # q)"] by auto
    then show "set ?q \<subseteq> reach (set (x # q))" using reach_refl[of "set (x # q)"] by auto
  qed (rule reach_closed)
  have "reach (set (x # q)) = reach {x} \<union> reach (set q)" using reach_Un[of "{x}" "set q"] by simp
  moreover have "reach (set q) \<subseteq> reach (set ?q)" using reach_Un by auto
  moreover have "x \<in> reach (set (x # q))" using reach_refl[of "set (x # q)"] by auto
  ultimately show ?case using IH 1 2 Open.hyps run_open[of x s q] by auto
qed

lemma run_invariant:
  assumes "P s" "\<And>x s. x \<notin> marked s \<Longrightarrow> P s \<Longrightarrow> P (mark x s)"
  shows "P (run s q)"
  using assms(1)
proof (induction s q rule: search_induct)
  case (Open s x q)
  then show ?case using assms(2) run_open by simp
qed (simp_all add: run_Nil run_marked)

lemma closed_run: "pending s q \<Longrightarrow> pending (run s q) []"
proof -
  assume p: "pending s q"
  then have "y \<in> marked s \<union> reach (set q)" if "x \<in> marked s \<union> reach (set q)" "y \<in> set (nbrs x)" for x y
    using that reach_closed[of x "set q" y] reach_refl[of "set q"] by (auto simp: pending_def)
  then show ?thesis using marked_run[OF p] by (auto simp: pending_def)
qed

end

end
