(* ===== verification/Fabric_Zones.thy ===== *)
theory Fabric_Zones
  imports Fabric_Tiers Worklist
begin

text \<open>
  \<open>CollectConnectedZones\<close> of \<open>src/pkg/topology/topology.go\<close>: the queue search from every host
  that no earlier search has visited, and the components it returns.
\<close>

subsection \<open>Connected zones\<close>

definition collectHostStarts :: "TopologyGraph \<Rightarrow> string list" where
  "collectHostStarts g = sort (map fst (filter (\<lambda>(name, d). Device_Type d = DeviceHost) (Devices g)))"

function zoneLoop :: "adjmap \<Rightarrow> boolmap \<times> string list \<Rightarrow> string list \<Rightarrow> boolmap \<times> string list" where
  "zoneLoop adj (visited, result) [] = (visited, result)"
| "zoneLoop adj (visited, result) (current # queue) =
     (if mgetd False visited current then zoneLoop adj (visited, result) queue
      else let visited' = mput current True visited;
               neighbors = sortedBoolKeys (mgetd [] adj current)
           in zoneLoop adj (visited', result @ [current])
                (queue @ filter (\<lambda>neighbor. \<not> mgetd False visited' neighbor) neighbors))"
  by pat_completeness auto

definition openVertices :: "adjmap \<Rightarrow> boolmap \<Rightarrow> string set" where
  "openVertices adj visited = {n \<in> keyset adj. \<not> mgetd False visited n}"

lemma openVertices_mark:
  "n \<in> keyset adj \<Longrightarrow> \<not> mgetd False visited n
    \<Longrightarrow> card (openVertices adj (mput n True visited)) < card (openVertices adj visited)"
  by (rule psubset_card_mono) (auto simp: openVertices_def split: if_splits)

lemma openVertices_mark_outside:
  "n \<notin> keyset adj \<Longrightarrow> openVertices adj (mput n True visited) = openVertices adj visited"
  by (auto simp: openVertices_def split: if_splits)

termination zoneLoop
proof (relation "measures [\<lambda>(adj, (visited, result), queue). card (openVertices adj visited),
    \<lambda>(adj, (visited, result), queue). length queue]", simp, simp)
  fix adj :: adjmap and visited :: boolmap and result current queue visited' neighbors
  assume a: "\<not> mgetd False visited current" "visited' = mput current True visited"
    "neighbors = sortedBoolKeys (mgetd [] adj current)"
  show "((adj, (visited', result @ [current]), queue @ filter (\<lambda>neighbor. \<not> mgetd False visited' neighbor) neighbors),
      adj, (visited, result), current # queue)
    \<in> measures [\<lambda>(adj, (visited, result), queue). card (openVertices adj visited),
        \<lambda>(adj, (visited, result), queue). length queue]"
  proof (cases "current \<in> keyset adj")
    case True
    then show ?thesis using openVertices_mark[OF True a(1)] a(2) by simp
  next
    case False
    then have "neighbors = []" using a(3) by (simp add: map_of_None_keyset sortedBoolKeys_def mkeys_def)
    then show ?thesis using openVertices_mark_outside[OF False] a(2) by simp
  qed
qed

definition collectZoneDeviceNames :: "TopologyGraph \<Rightarrow> string \<Rightarrow> boolmap \<Rightarrow> boolmap \<times> string list" where
  "collectZoneDeviceNames g start visited =
     (case zoneLoop (Adj g) (visited, []) [start] of (visited', result) \<Rightarrow> (visited', sort result))"

definition collectZone :: "TopologyGraph \<Rightarrow> string \<Rightarrow> boolmap \<times> string list list \<Rightarrow> boolmap \<times> string list list" where
  "collectZone g start = (\<lambda>(visited, zones).
     if mgetd False visited start then (visited, zones)
     else case collectZoneDeviceNames g start visited of
       (visited', deviceNames) \<Rightarrow> (visited', zones @ [deviceNames]))"

definition CollectConnectedZones :: "TopologyGraph \<Rightarrow> string list list" where
  "CollectConnectedZones g = snd (fold (collectZone g) (collectHostStarts g) ([], []))"

subsection \<open>Zones are the components with a host\<close>

abbreviation nbrsOf :: "adjmap \<Rightarrow> string \<Rightarrow> string list" where
  "nbrsOf adj n \<equiv> sortedBoolKeys (mgetd [] adj n)"

abbreviation trueKeys :: "boolmap \<Rightarrow> string set" where
  "trueKeys m \<equiv> {n. mgetd False m n}"

lemma nbrsOf_outside: "n \<notin> keyset adj \<Longrightarrow> nbrsOf adj n = []"
  by (simp add: map_of_None_keyset sortedBoolKeys_def mkeys_def)

lemma trueKeys_mput: "trueKeys (mput x True m) = insert x (trueKeys m)"
  by (auto split: if_splits)

interpretation zl: worklist "nbrsOf adj" "keyset adj" "\<lambda>(v, r). trueKeys v"
    "\<lambda>x (v, r). (mput x True v, r @ [x])" "zoneLoop adj" for adj
proof (unfold_locales, goal_cases)
  case (3 x s)
  then show ?case by (cases s) (simp add: trueKeys_mput)
next
  case (4 s)
  then show ?case by (cases s) simp
next
  case (5 x s q)
  then show ?case by (cases s) simp
next
  case (6 x s q)
  obtain v r where s: "s = (v, r)" by force
  have "mgetd False (mput x True v) n \<longleftrightarrow> n \<in> insert x (trueKeys v)" for n by simp
  then show ?case using 6 unfolding s by (simp add: Let_def)
qed (simp_all add: nbrsOf_outside)

definition connected :: "TopologyGraph \<Rightarrow> (string \<times> string) set" where
  "connected g = {(a, b). edge g a b}\<^sup>*"

lemma zl_reach: "zl.reach (Adj g) X = connected g `` X"
  by (simp add: zl.reach_def zl.succs_def connected_def)

lemma sym_connected: "wfGraph g \<Longrightarrow> (a, b) \<in> connected g \<Longrightarrow> (b, a) \<in> connected g"
  unfolding connected_def by (rule symD[OF sym_rtrancl]) (auto simp: sym_def wfGraph_sym)

lemma connected_names: "wfGraph g \<Longrightarrow> (a, b) \<in> connected g \<Longrightarrow> a \<in> names g \<Longrightarrow> b \<in> names g"
  unfolding connected_def by (erule rtrancl_induct) (auto dest: wfGraph_edge)

lemma zoneLoop_result:
  assumes "zoneLoop adj (v, r) q = (v', r')" "distinct r" "set r = trueKeys v - B" "B \<subseteq> trueKeys v"
  shows "distinct r' \<and> set r' = trueKeys v' - B \<and> B \<subseteq> trueKeys v'"
proof -
  let ?P = "\<lambda>(v, r). distinct r \<and> set r = trueKeys v - B \<and> B \<subseteq> trueKeys v"
  have "?P (zoneLoop adj (v, r) q)"
    by (rule zl.run_invariant[where P = ?P]) (use assms in \<open>auto simp: trueKeys_mput split: prod.splits if_splits\<close>)
  then show ?thesis using assms(1) by simp
qed

lemma collectZoneDeviceNames_zone:
  assumes "\<And>a b. mgetd False v a \<Longrightarrow> edge g a b \<Longrightarrow> mgetd False v b"
    and "\<not> mgetd False v start" and "wfGraph g"
  shows "\<exists>v' z. collectZoneDeviceNames g start v = (v', z) \<and> sorted z \<and> distinct z
    \<and> set z = connected g `` {start} \<and> trueKeys v' = trueKeys v \<union> set z \<and> set z \<inter> trueKeys v = {}"
proof -
  obtain v' r where l: "zoneLoop (Adj g) (v, []) [start] = (v', r)" by force
  have p: "zl.pending (Adj g) (v, []) [start]" using assms(1) by (auto simp: zl.pending_def)
  have v': "trueKeys v' = trueKeys v \<union> connected g `` {start}"
    using zl.marked_run[OF p] l by (simp add: zl_reach)
  have r: "distinct r" "set r = trueKeys v' - trueKeys v"
    using zoneLoop_result[OF l, of "trueKeys v"] by auto
  have "mgetd False v b \<Longrightarrow> mgetd False v a" if "(a, b) \<in> connected g" for a b
    using sym_connected[OF assms(3) that] unfolding connected_def
    by (induction rule: rtrancl_induct) (use assms(1) in blast)+
  then have "connected g `` {start} \<inter> trueKeys v = {}" using assms(2) by auto
  then show ?thesis using r v' l by (auto simp: collectZoneDeviceNames_def)
qed

definition hostZone :: "TopologyGraph \<Rightarrow> string list \<Rightarrow> bool" where
  "hostZone g z \<longleftrightarrow> sorted z \<and> distinct z \<and> (\<exists>h. isHost g h \<and> set z = connected g `` {h})"

definition zonesInv :: "TopologyGraph \<Rightarrow> boolmap \<times> string list list \<Rightarrow> bool" where
  "zonesInv g = (\<lambda>(v, zs). trueKeys v = set (concat zs) \<and> distinct (concat zs)
     \<and> (\<forall>z \<in> set zs. hostZone g z))"

lemma hostZone_closed: "hostZone g z \<Longrightarrow> a \<in> set z \<Longrightarrow> edge g a b \<Longrightarrow> b \<in> set z"
  by (auto simp: hostZone_def connected_def intro: rtrancl_into_rtrancl)

lemma zonesInv_collectZone:
  assumes wf: "wfGraph g" and inv: "zonesInv g (v, zs)" and h: "isHost g start"
  shows "zonesInv g (collectZone g start (v, zs))
    \<and> insert start (trueKeys v) \<subseteq> trueKeys (fst (collectZone g start (v, zs)))"
proof (cases "mgetd False v start")
  case True
  then show ?thesis using inv by (auto simp: collectZone_def)
next
  case False
  have closed: "mgetd False v b" if "mgetd False v a" "edge g a b" for a b
  proof -
    have "a \<in> set (concat zs)" using inv that(1) by (auto simp: zonesInv_def)
    then obtain z where "z \<in> set zs" "a \<in> set z" by auto
    then have "b \<in> set (concat zs)" using hostZone_closed[of g z a b] inv that(2) by (auto simp: zonesInv_def)
    then show ?thesis using inv by (auto simp: zonesInv_def set_eq_iff)
  qed
  have "\<exists>v' z. collectZoneDeviceNames g start v = (v', z) \<and> sorted z \<and> distinct z
    \<and> set z = connected g `` {start} \<and> trueKeys v' = trueKeys v \<union> set z \<and> set z \<inter> trueKeys v = {}"
    by (rule collectZoneDeviceNames_zone) (use closed False wf in blast)+
  then obtain v' z where
    z: "collectZoneDeviceNames g start v = (v', z)" "sorted z" "distinct z"
       "set z = connected g `` {start}" "trueKeys v' = trueKeys v \<union> set z" "set z \<inter> trueKeys v = {}" by blast
  have "hostZone g z" using z(2-4) h by (auto simp: hostZone_def)
  moreover have "start \<in> set z" using z(4) by (simp add: connected_def)
  ultimately show ?thesis using False z inv by (auto simp: collectZone_def zonesInv_def)
qed

lemma zonesInv_fold:
  assumes wf: "wfGraph g" and "zonesInv g s" and "\<And>h. h \<in> set hs \<Longrightarrow> isHost g h"
  shows "zonesInv g (fold (collectZone g) hs s)
    \<and> set hs \<union> trueKeys (fst s) \<subseteq> trueKeys (fst (fold (collectZone g) hs s))"
  using assms(2,3)
proof (induction hs arbitrary: s)
  case (Cons h hs)
  obtain v zs where s: "s = (v, zs)" by force
  have "zonesInv g (collectZone g h s)" "insert h (trueKeys (fst s)) \<subseteq> trueKeys (fst (collectZone g h s))"
    using zonesInv_collectZone[OF wf, of v zs h] Cons.prems by (auto simp: s)
  then show ?case using Cons.IH[of "collectZone g h s"] Cons.prems(2) by auto
qed simp

lemma set_collectHostStarts: "wfGraph g \<Longrightarrow> set (collectHostStarts g) = {h. isHost g h}"
proof -
  assume "wfGraph g"
  then have wf: "mwf (Devices g)" by (simp add: wfGraph_def wfDevices_def)
  have "h \<in> set (collectHostStarts g) \<longleftrightarrow> (\<exists>d. (h, d) \<in> set (Devices g) \<and> Device_Type d = DeviceHost)" for h
    by (auto simp: collectHostStarts_def image_iff Bex_def)
  moreover have "(\<exists>d. (h, d) \<in> set (Devices g) \<and> Device_Type d = DeviceHost) \<longleftrightarrow> isHost g h" for h
    using isHost_names[of g h] map_of_getDevice[of h g] getDevice_Some[of g h]
    unfolding map_of_mem_iff[OF wf] by auto
  ultimately show ?thesis by blast
qed

lemma CollectConnectedZones_inv:
  assumes "wfGraph g"
  shows "distinct (concat (CollectConnectedZones g))" "\<forall>z \<in> set (CollectConnectedZones g). hostZone g z"
    "isHost g h \<Longrightarrow> \<exists>z \<in> set (CollectConnectedZones g). h \<in> set z"
proof -
  have "zonesInv g ([], [])" by (simp add: zonesInv_def)
  from zonesInv_fold[OF assms this, of "collectHostStarts g"]
  have i: "zonesInv g (fold (collectZone g) (collectHostStarts g) ([], []))"
    "{h. isHost g h} \<subseteq> trueKeys (fst (fold (collectZone g) (collectHostStarts g) ([], [])))"
    by (simp_all add: set_collectHostStarts[OF assms])
  then show "distinct (concat (CollectConnectedZones g))" "\<forall>z \<in> set (CollectConnectedZones g). hostZone g z"
    "isHost g h \<Longrightarrow> \<exists>z \<in> set (CollectConnectedZones g). h \<in> set z"
    by (auto simp: zonesInv_def CollectConnectedZones_def split: prod.splits)
qed

lemma CollectConnectedZones_set:
  assumes wf: "wfGraph g"
  shows "set (concat (CollectConnectedZones g)) = {n. \<exists>h. isHost g h \<and> (h, n) \<in> connected g}"
proof -
  note I = CollectConnectedZones_inv[OF wf]
  have "n \<in> set (concat (CollectConnectedZones g))" if h: "isHost g h" "(h, n) \<in> connected g" for h n
  proof -
    obtain z where z: "z \<in> set (CollectConnectedZones g)" "h \<in> set z" using I(3)[OF h(1)] by blast
    then obtain h' where "set z = connected g `` {h'}" using I(2) by (auto simp: hostZone_def)
    then have "n \<in> set z" using z(2) h(2) by (auto simp: connected_def intro: rtrancl_trans)
    then show ?thesis using z(1) by auto
  qed
  moreover have "\<exists>h. isHost g h \<and> (h, n) \<in> connected g" if "n \<in> set (concat (CollectConnectedZones g))" for n
    using that I(2) by (auto simp: hostZone_def)
  ultimately show ?thesis by blast
qed

text \<open>
  C5: on the tiered graph of every input the zones are exactly
  the connected components that contain a host: each is sorted and duplicate free, no device lies in
  two zones, and a device is in some zone if and only if some host reaches it.
\<close>

theorem CollectConnectedZones_components:
  "\<exists>g. tieredGraph hosts switches = Some g
     \<and> distinct (concat (CollectConnectedZones g)) \<and> list_all (hostZone g) (CollectConnectedZones g)
     \<and> set (concat (CollectConnectedZones g)) = {n. \<exists>h. isHost g h \<and> (h, n) \<in> connected g}"
proof -
  obtain g where g: "tieredGraph hosts switches = Some g" and wf: "wfGraph g" by (rule tieredGraph_total)
  show ?thesis
    using g CollectConnectedZones_inv(1,2)[OF wf] CollectConnectedZones_set[OF wf] by (simp add: list_all_iff)
qed

end
