(* ===== verification/Sha1.thy ===== *)
theory Sha1
  imports Go_Prelude
begin

text \<open>
  \<open>crypto/sha1\<close> and \<open>encoding/hex\<close> of the Go library, and \<open>shortSHA\<close> of
  \<open>src/pkg/topology/topology.go\<close>.
\<close>

unbundle bit_operations_syntax

type_synonym sha1State = "32 word \<times> 32 word \<times> 32 word \<times> 32 word \<times> 32 word"

definition rotl32 :: "nat \<Rightarrow> 32 word \<Rightarrow> 32 word" where
  "rotl32 n x = push_bit n x OR drop_bit (32 - n) x"

definition be32 :: "8 word \<Rightarrow> 8 word \<Rightarrow> 8 word \<Rightarrow> 8 word \<Rightarrow> 32 word" where
  "be32 a b c d = push_bit 24 (ucast a) OR push_bit 16 (ucast b) OR push_bit 8 (ucast c) OR ucast d"

fun be32_list :: "8 word list \<Rightarrow> 32 word list" where
  "be32_list (a # b # c # d # bs) = be32 a b c d # be32_list bs"
| "be32_list _ = []"

text \<open>The message is padded with \<open>0x80\<close>, zeros up to 56 modulo 64, and the bit length in 8 bytes.\<close>

definition sha1_pad :: "8 word list \<Rightarrow> 8 word list" where
  "sha1_pad m =
     (let len = length m;
          zeros = (119 - len mod 64) mod 64
      in m @ [0x80] @ replicate zeros 0
         @ map (\<lambda>i. ucast (drop_bit i (8 * word_of_nat len :: 64 word))) [56, 48, 40, 32, 24, 16, 8, 0])"

text \<open>The schedule, newest word first.\<close>

primrec sha1_extend :: "nat \<Rightarrow> 32 word list \<Rightarrow> 32 word list" where
  "sha1_extend 0 ws = ws"
| "sha1_extend (Suc n) ws =
     sha1_extend n (rotl32 1 (ws ! 2 XOR ws ! 7 XOR ws ! 13 XOR ws ! 15) # ws)"

definition sha1_f :: "nat \<Rightarrow> 32 word \<Rightarrow> 32 word \<Rightarrow> 32 word \<Rightarrow> 32 word" where
  "sha1_f t b c d =
     (if t < 20 then (b AND c) OR (NOT b AND d)
      else if t < 40 then b XOR c XOR d
      else if t < 60 then (b AND c) OR (b AND d) OR (c AND d)
      else b XOR c XOR d)"

definition sha1_k :: "nat \<Rightarrow> 32 word" where
  "sha1_k t = (if t < 20 then 0x5A827999 else if t < 40 then 0x6ED9EBA1
     else if t < 60 then 0x8F1BBCDC else 0xCA62C1D6)"

fun sha1_rounds :: "nat \<Rightarrow> 32 word list \<Rightarrow> sha1State \<Rightarrow> sha1State" where
  "sha1_rounds t [] s = s"
| "sha1_rounds t (w # ws) (a, b, c, d, e) =
     sha1_rounds (Suc t) ws
       (rotl32 5 a + sha1_f t b c d + e + w + sha1_k t, a, rotl32 30 b, c, d)"

definition sha1_block :: "32 word list \<Rightarrow> sha1State \<Rightarrow> sha1State" where
  "sha1_block ws s = (case s of (a0, b0, c0, d0, e0) \<Rightarrow>
     case sha1_rounds 0 (rev (sha1_extend 64 (rev ws))) s of (a, b, c, d, e) \<Rightarrow>
       (a0 + a, b0 + b, c0 + c, d0 + d, e0 + e))"

function sha1_blocks :: "32 word list \<Rightarrow> sha1State \<Rightarrow> sha1State" where
  "sha1_blocks ws s = (if length ws < 16 then s else sha1_blocks (drop 16 ws) (sha1_block (take 16 ws) s))"
  by pat_completeness auto
termination by (relation "measure (\<lambda>(ws, s). length ws)") auto

declare sha1_blocks.simps [simp del]

definition be_bytes :: "32 word \<Rightarrow> 8 word list" where
  "be_bytes w = [ucast (drop_bit 24 w), ucast (drop_bit 16 w), ucast (drop_bit 8 w), ucast w]"

definition sha1_Sum :: "8 word list \<Rightarrow> 8 word list" where
  "sha1_Sum m =
     (case sha1_blocks (be32_list (sha1_pad m)) (0x67452301, 0xEFCDAB89, 0x98BADCFE, 0x10325476, 0xC3D2E1F0)
      of (a, b, c, d, e) \<Rightarrow> concat (map be_bytes [a, b, c, d, e]))"

definition hexDigits :: string where
  "hexDigits = ''0123456789abcdef''"

definition EncodeToString :: "8 word list \<Rightarrow> string" where
  "EncodeToString bs = concat (map (\<lambda>b. [hexDigits ! unat (drop_bit 4 b), hexDigits ! unat (b AND 15)]) bs)"

definition bytes_of :: "string \<Rightarrow> 8 word list" where
  "bytes_of s = map (\<lambda>c. word_of_nat (of_char c)) s"

definition shortSHA :: "string \<Rightarrow> int \<Rightarrow> string" where
  "shortSHA s length0 =
     (let full = EncodeToString (sha1_Sum (bytes_of s));
          len = (if length0 \<le> 0 \<or> length0 > int (length full) then 7 else length0)
      in take (nat len) full)"

lemma length_concat_const: "(\<And>x. length (f x) = n) \<Longrightarrow> length (concat (map f xs)) = n * length xs"
  by (induction xs) auto

lemma length_shortSHA: "length (shortSHA s n) = (if 0 < n \<and> n \<le> 40 then nat n else 7)"
proof -
  have "length (sha1_Sum m) = 20" for m
    by (simp add: sha1_Sum_def be_bytes_def split: prod.split)
  then have "length (EncodeToString (sha1_Sum m)) = 40" for m
    by (simp add: EncodeToString_def length_concat_const[where n = 2])
  then show ?thesis by (auto simp: shortSHA_def Let_def)
qed

end
