(* ===== verification/Fabric_Groups.thy ===== *)
theory Fabric_Groups
  imports Fabric_Zones Sha1
begin

text \<open>
  Tier groups of \<open>src/pkg/topology/topology.go\<close>: in every tier of a zone, the classes of switches
  that are linked through shared lower groups, with their names.
\<close>

subsection \<open>Options and result types\<close>

datatype GroupNameMode = GroupNameModeConcat | GroupNameModeHash

record DiscoverOptions =
  Opt_GroupNameMode :: GroupNameMode
  Opt_HashLength :: int

definition defaultDiscoverOptions :: DiscoverOptions where
  "defaultDiscoverOptions = \<lparr>Opt_GroupNameMode = GroupNameModeConcat, Opt_HashLength = 7\<rparr>"

type_synonym DiscoverOption = "DiscoverOptions \<Rightarrow> DiscoverOptions"

definition WithConcatGroupName :: DiscoverOption where
  "WithConcatGroupName opts = opts\<lparr>Opt_GroupNameMode := GroupNameModeConcat\<rparr>"

definition WithHashGroupName :: DiscoverOption where
  "WithHashGroupName opts = opts\<lparr>Opt_GroupNameMode := GroupNameModeHash\<rparr>"

definition WithHashLength :: "int \<Rightarrow> DiscoverOption" where
  "WithHashLength n opts = (if n > 0 then opts\<lparr>Opt_HashLength := n\<rparr> else opts)"

record TopologyGroup =
  Group_Name :: string
  Group_Tier :: int
  Group_Members :: "string list"
  LowerTierNodes :: "string list"
  UpperTierNodes :: "string list"

record ZoneDeviceView =
  Zone_Devices :: devmap
  DevicesByTier :: "(int, devmap) gomap"

subsection \<open>The devices of a zone\<close>

definition addZoneDevice :: "TopologyGraph \<Rightarrow> string \<Rightarrow> ZoneDeviceView \<Rightarrow> ZoneDeviceView" where
  "addZoneDevice g name zone =
     (let device = getDevice g name;
          byTier = DevicesByTier zone;
          tierMap = mgetd [] byTier (Device_Tier device)
      in zone\<lparr>Zone_Devices := mput name device (Zone_Devices zone),
              DevicesByTier := mput (Device_Tier device) (mput name device tierMap) byTier\<rparr>)"

definition BuildZoneDeviceView :: "TopologyGraph \<Rightarrow> string list \<Rightarrow> ZoneDeviceView" where
  "BuildZoneDeviceView g deviceNames =
     fold (addZoneDevice g) deviceNames \<lparr>Zone_Devices = [], DevicesByTier = []\<rparr>"

subsection \<open>Group names\<close>

definition groupNameOfDevice :: "string \<Rightarrow> (string, string) gomap \<Rightarrow> string" where
  "groupNameOfDevice deviceName deviceToGroup =
     (case map_of deviceToGroup deviceName of Some groupName \<Rightarrow> groupName | None \<Rightarrow> deviceName)"

definition GenerateGroupName :: "string list \<Rightarrow> DiscoverOptions \<Rightarrow> string" where
  "GenerateGroupName memberNames opts =
     (let names = sort memberNames in
      if length names = 1 then names ! 0
      else let base = Join names ''-'' in
        case Opt_GroupNameMode opts of
          GroupNameModeHash \<Rightarrow> shortSHA base (Opt_HashLength opts)
        | GroupNameModeConcat \<Rightarrow> base @ ''-group'')"

fun dedupeFrom :: "string \<Rightarrow> string list \<Rightarrow> string list" where
  "dedupeFrom prev [] = []"
| "dedupeFrom prev (v # vs) = (if v \<noteq> prev then v # dedupeFrom v vs else dedupeFrom v vs)"

definition dedupeSortedStrings :: "string list \<Rightarrow> string list" where
  "dedupeSortedStrings values = (case values of [] \<Rightarrow> [] | v # vs \<Rightarrow> v # dedupeFrom v vs)"

subsection \<open>Groups of one tier\<close>

definition addLowerRelation :: "ZoneDeviceView \<Rightarrow> int \<Rightarrow> (string, string) gomap \<Rightarrow> string \<Rightarrow> string
    \<Rightarrow> (string, string list) gomap \<Rightarrow> (string, string list) gomap" where
  "addLowerRelation zone t lowerDeviceToGroup deviceName neighbor result =
     (case map_of (Zone_Devices zone) neighbor of
        None \<Rightarrow> result
      | Some neighborDevice \<Rightarrow>
          if Device_Tier neighborDevice \<noteq> t - 1 then result
          else let lowerGroupName = groupNameOfDevice neighbor lowerDeviceToGroup
               in mput lowerGroupName (mgetd [] result lowerGroupName @ [deviceName]) result)"

definition buildLowerGroupToTierDevices :: "TopologyGraph \<Rightarrow> ZoneDeviceView \<Rightarrow> int \<Rightarrow> (string, string) gomap
    \<Rightarrow> (string, string list) gomap" where
  "buildLowerGroupToTierDevices g zone t lowerDeviceToGroup =
     (case map_of (DevicesByTier zone) t of
        None \<Rightarrow> []
      | Some devicesInTier \<Rightarrow>
          let result = fold (\<lambda>deviceName.
                fold (addLowerRelation zone t lowerDeviceToGroup deviceName) (nbrsOf (Adj g) deviceName))
                (sortedDeviceNames devicesInTier) []
          in map (\<lambda>(lowerGroupName, devices). (lowerGroupName, dedupeSortedStrings (sort devices))) result)"

text \<open>The three maps of a group and the queue, updated by one neighbour of the current device.\<close>

definition visitNeighbor :: "ZoneDeviceView \<Rightarrow> int \<Rightarrow> (string, string) gomap \<Rightarrow> (string, string list) gomap \<Rightarrow> boolmap
    \<Rightarrow> string \<Rightarrow> devmap \<times> devmap \<times> string list \<Rightarrow> devmap \<times> devmap \<times> string list" where
  "visitNeighbor zone t lowerDeviceToGroup lowerGroupToTierDevices processed neighbor = (\<lambda>(lower, upper, queue).
     case map_of (Zone_Devices zone) neighbor of
       None \<Rightarrow> (lower, upper, queue)
     | Some neighborDevice \<Rightarrow>
         let (lower', queue') =
               (if Device_Tier neighborDevice = t - 1
                then (mput neighbor neighborDevice lower,
                      let lowerGroupName = groupNameOfDevice neighbor lowerDeviceToGroup
                      in queue @ filter (\<lambda>related. \<not> mgetd False processed related)
                           (mgetd [] lowerGroupToTierDevices lowerGroupName))
                else (lower, queue));
             upper' = (if Device_Tier neighborDevice = t + 1 then mput neighbor neighborDevice upper else upper)
         in (lower', upper', queue'))"

type_synonym groupState = "boolmap \<times> devmap \<times> devmap \<times> devmap"

function groupLoop :: "adjmap \<Rightarrow> ZoneDeviceView \<Rightarrow> int \<Rightarrow> (string, string) gomap \<Rightarrow> (string, string list) gomap
    \<Rightarrow> groupState \<Rightarrow> string list \<Rightarrow> groupState" where
  "groupLoop adj zone t d2g l2t (processed, members, lower, upper) [] = (processed, members, lower, upper)"
| "groupLoop adj zone t d2g l2t (processed, members, lower, upper) (current # queue) =
     (if mgetd False processed current then groupLoop adj zone t d2g l2t (processed, members, lower, upper) queue
      else let processed' = mput current True processed;
               members' = mput current (mgetd zeroDevice (Zone_Devices zone) current) members
           in case fold (visitNeighbor zone t d2g l2t processed') (nbrsOf adj current) (lower, upper, queue) of
                (lower', upper', queue') \<Rightarrow>
                  groupLoop adj zone t d2g l2t (processed', members', lower', upper') queue')"
  by pat_completeness auto
termination
proof (relation "measures [\<lambda>(adj, zone, t, d2g, l2t, (processed, x), queue). card (openVertices adj processed),
    \<lambda>(adj, zone, t, d2g, l2t, s, queue). length queue]", simp, simp, goal_cases)
  case (1 adj zone t d2g l2t processed members lower upper current queue processed' members' l y u q)
  then show ?case
    using openVertices_mark[of current adj processed] openVertices_mark_outside[of current adj processed]
      nbrsOf_outside[of current adj]
    by (cases "current \<in> keyset adj") auto
qed

definition tierGroup :: "TopologyGraph \<Rightarrow> ZoneDeviceView \<Rightarrow> int \<Rightarrow> DiscoverOptions \<Rightarrow> (string, string) gomap
    \<Rightarrow> (string, string list) gomap \<Rightarrow> string \<Rightarrow> boolmap \<times> TopologyGroup list \<Rightarrow> boolmap \<times> TopologyGroup list" where
  "tierGroup g zone t opts d2g l2t name = (\<lambda>(processed, groups).
     if mgetd False processed name then (processed, groups)
     else case groupLoop (Adj g) zone t d2g l2t (processed, [], [], []) [name] of
       (processed', members, lower, upper) \<Rightarrow>
         let memberNames = sortedNamesFromMap members
         in (processed', groups @ [\<lparr>Group_Name = GenerateGroupName memberNames opts, Group_Tier = t,
               Group_Members = memberNames, LowerTierNodes = sortedNamesFromMap lower,
               UpperTierNodes = sortedNamesFromMap upper\<rparr>]))"

definition BuildTierGroups :: "TopologyGraph \<Rightarrow> ZoneDeviceView \<Rightarrow> int \<Rightarrow> DiscoverOptions \<Rightarrow> (string, string) gomap
    \<Rightarrow> TopologyGroup list" where
  "BuildTierGroups g zone t opts lowerDeviceToGroup =
     (case map_of (DevicesByTier zone) t of
        None \<Rightarrow> []
      | Some devicesInTier \<Rightarrow>
          snd (fold (tierGroup g zone t opts lowerDeviceToGroup
                 (buildLowerGroupToTierDevices g zone t lowerDeviceToGroup))
               (sortedDeviceNames devicesInTier) ([], [])))"

subsection \<open>Sorting and deduplication\<close>

lemma set_dedupeFrom: "insert p (set (dedupeFrom p vs)) = insert p (set vs)"
  by (induction vs arbitrary: p) (auto split: if_splits)

lemma sorted_dedupeFrom: "sorted (p # vs) \<Longrightarrow> sorted (p # dedupeFrom p vs) \<and> distinct (p # dedupeFrom p vs)"
proof (induction vs arbitrary: p)
  case (Cons v vs)
  have pv: "p \<le> v" "sorted (v # vs)" using Cons.prems by simp_all
  have IH: "sorted (v # dedupeFrom v vs)" "distinct (v # dedupeFrom v vs)" using Cons.IH[OF pv(2)] by simp_all
  show ?case
  proof (cases "v = p")
    case False
    then have "p < v" using pv(1) by simp
    then have "p \<noteq> x \<and> p \<le> x" if "x \<in> set (v # dedupeFrom v vs)" for x
      using that IH(1) by (fastforce dest: order.strict_trans2)
    then show ?thesis using False IH by fastforce
  qed (use IH in simp)
qed simp

lemma set_dedupeSortedStrings [simp]: "set (dedupeSortedStrings vs) = set vs"
  by (cases vs) (simp_all add: dedupeSortedStrings_def set_dedupeFrom)

lemma sorted_dedupeSortedStrings: "sorted vs \<Longrightarrow> sorted (dedupeSortedStrings vs) \<and> distinct (dedupeSortedStrings vs)"
  by (cases vs) (use sorted_dedupeFrom in \<open>auto simp: dedupeSortedStrings_def\<close>)

lemma set_sortedDeviceNames [simp, sorted_set_simps]: "set (sortedDeviceNames m) = keyset m"
  by (simp add: sortedDeviceNames_def)

lemma set_sortedNamesFromMap [simp, sorted_set_simps]: "set (sortedNamesFromMap m) = keyset m"
  by (simp add: sortedNamesFromMap_def)

lemma sorted_sortedNamesFromMap: "sorted (sortedNamesFromMap m)" "mwf m \<Longrightarrow> distinct (sortedNamesFromMap m)"
  by (simp_all add: sortedNamesFromMap_def)

lemma mgetd_map_snd: "f z = z \<Longrightarrow> mgetd z (map (\<lambda>(k, v). (k, f v)) m) k = f (mgetd z m k)"
  by (induction m) (auto simp: mgetd_def)

subsection \<open>The view of a zone\<close>

definition zoneOk :: "TopologyGraph \<Rightarrow> string set \<Rightarrow> ZoneDeviceView \<Rightarrow> bool" where
  "zoneOk g Z zone \<longleftrightarrow>
     mwf (Zone_Devices zone) \<and> (\<forall>n. map_of (Zone_Devices zone) n = (if n \<in> Z then Some (getDevice g n) else None))
   \<and> mwf (DevicesByTier zone) \<and> keyset (DevicesByTier zone) = tier g ` Z
   \<and> (\<forall>t. mwf (mgetd [] (DevicesByTier zone) t)
        \<and> (\<forall>n. map_of (mgetd [] (DevicesByTier zone) t) n = (if n \<in> Z \<and> tier g n = t then Some (getDevice g n) else None)))"

lemma zoneOk_addZoneDevice: "zoneOk g Z zone \<Longrightarrow> zoneOk g (insert n Z) (addZoneDevice g n zone)"
  by (auto simp: zoneOk_def addZoneDevice_def Let_def)

lemma zoneOk_fold: "zoneOk g Z zone \<Longrightarrow> zoneOk g (Z \<union> set ns) (fold (addZoneDevice g) ns zone)"
proof (induction ns arbitrary: Z zone)
  case (Cons n ns)
  then show ?case using Cons.IH[OF zoneOk_addZoneDevice[OF Cons.prems, of n]] by simp
qed simp

lemma zoneOk_BuildZoneDeviceView: "zoneOk g (set ns) (BuildZoneDeviceView g ns)"
proof -
  have "zoneOk g {} \<lparr>Zone_Devices = [], DevicesByTier = []\<rparr>" by (simp add: zoneOk_def)
  from zoneOk_fold[OF this] show ?thesis by (simp add: BuildZoneDeviceView_def)
qed

lemma zoneOkD:
  assumes "zoneOk g Z zone"
  shows "map_of (Zone_Devices zone) n = (if n \<in> Z then Some (getDevice g n) else None)"
    and "mgetd zeroDevice (Zone_Devices zone) n = (if n \<in> Z then getDevice g n else zeroDevice)"
    and "keyset (mgetd [] (DevicesByTier zone) t) = {n \<in> Z. tier g n = t}"
    and "mwf (mgetd [] (DevicesByTier zone) t)" and "keyset (DevicesByTier zone) = tier g ` Z"
    and "mwf (DevicesByTier zone)" and "keyset (Zone_Devices zone) = Z" and "mwf (Zone_Devices zone)"
proof -
  note c = assms[unfolded zoneOk_def]
  show m: "map_of (Zone_Devices zone) n = (if n \<in> Z then Some (getDevice g n) else None)" for n using c by blast
  then show "mgetd zeroDevice (Zone_Devices zone) n = (if n \<in> Z then getDevice g n else zeroDevice)" by simp
  show "keyset (Zone_Devices zone) = Z" using m by (auto simp: keyset_iff split: if_splits)
  have "map_of (mgetd [] (DevicesByTier zone) t) n = (if n \<in> Z \<and> tier g n = t then Some (getDevice g n) else None)" for n
    using c by blast
  then show "keyset (mgetd [] (DevicesByTier zone) t) = {n \<in> Z. tier g n = t}"
    by (auto simp: keyset_iff split: if_splits)
qed (use assms in \<open>simp_all add: zoneOk_def\<close>)

subsection \<open>Switches that share a lower group\<close>

definition lowerNbr :: "TopologyGraph \<Rightarrow> string set \<Rightarrow> int \<Rightarrow> string \<Rightarrow> string \<Rightarrow> bool" where
  "lowerNbr g Z t a x \<longleftrightarrow> edge g a x \<and> x \<in> Z \<and> tier g x = t - 1"

definition shareLower :: "TopologyGraph \<Rightarrow> string set \<Rightarrow> int \<Rightarrow> (string, string) gomap \<Rightarrow> (string \<times> string) set" where
  "shareLower g Z t d2g = {(a, b). a \<in> Z \<and> tier g a = t \<and> b \<in> Z \<and> tier g b = t
     \<and> (\<exists>x y. lowerNbr g Z t a x \<and> lowerNbr g Z t b y \<and> groupNameOfDevice x d2g = groupNameOfDevice y d2g)}"

lemma sym_shareLower: "sym (shareLower g Z t d2g)"
  by (force simp: sym_def shareLower_def)

lemma addLowerRelations:
  assumes "zoneOk g Z zone"
  shows "set (mgetd [] (fold (addLowerRelation zone t d2g dn) ns res) ln) = set (mgetd [] res ln)
     \<union> (if \<exists>y \<in> set ns. y \<in> Z \<and> tier g y = t - 1 \<and> groupNameOfDevice y d2g = ln then {dn} else {})"
  by (induction ns arbitrary: res) (auto simp: addLowerRelation_def zoneOkD(1)[OF assms] Let_def)

lemma addLowerRelations_all:
  assumes "zoneOk g Z zone"
  shows "set (mgetd [] (fold (\<lambda>dn. fold (addLowerRelation zone t d2g dn) (nbrsOf (Adj g) dn)) dns res) ln)
     = set (mgetd [] res ln) \<union> {dn \<in> set dns. \<exists>y. lowerNbr g Z t dn y \<and> groupNameOfDevice y d2g = ln}"
  by (induction dns arbitrary: res) (auto simp: addLowerRelations[OF assms] lowerNbr_def)

lemma set_buildLower:
  assumes "zoneOk g Z zone"
  shows "set (mgetd [] (buildLowerGroupToTierDevices g zone t d2g) ln)
     = {b \<in> Z. tier g b = t \<and> (\<exists>y. lowerNbr g Z t b y \<and> groupNameOfDevice y d2g = ln)}"
proof (cases "map_of (DevicesByTier zone) t")
  case None
  then have "t \<notin> keyset (DevicesByTier zone)" by (simp add: map_of_None_keyset)
  then show ?thesis using None zoneOkD(5)[OF assms] by (auto simp: buildLowerGroupToTierDevices_def)
next
  case (Some ds)
  then have ds: "keyset ds = {n \<in> Z. tier g n = t}" using zoneOkD(3)[OF assms, of t] by simp
  have "mgetd [] (buildLowerGroupToTierDevices g zone t d2g) ln
    = dedupeSortedStrings (sort (mgetd [] (fold (\<lambda>dn. fold (addLowerRelation zone t d2g dn) (nbrsOf (Adj g) dn))
        (sortedDeviceNames ds) []) ln))"
    using mgetd_map_snd[of "\<lambda>ds. dedupeSortedStrings (sort ds)" "[]"] Some
    by (simp add: buildLowerGroupToTierDevices_def dedupeSortedStrings_def)
  then show ?thesis using addLowerRelations_all[OF assms] ds by auto
qed

subsection \<open>The group search\<close>

definition relatedVia :: "ZoneDeviceView \<Rightarrow> int \<Rightarrow> (string, string) gomap \<Rightarrow> (string, string list) gomap \<Rightarrow> string \<Rightarrow> string list" where
  "relatedVia zone t d2g l2t n = (case map_of (Zone_Devices zone) n of None \<Rightarrow> []
     | Some d \<Rightarrow> if Device_Tier d = t - 1 then mgetd [] l2t (groupNameOfDevice n d2g) else [])"

definition related :: "adjmap \<Rightarrow> ZoneDeviceView \<Rightarrow> int \<Rightarrow> (string, string) gomap \<Rightarrow> (string, string list) gomap \<Rightarrow> string \<Rightarrow> string list" where
  "related adj zone t d2g l2t current = concat (map (relatedVia zone t d2g l2t) (nbrsOf adj current))"

definition addAtTier :: "ZoneDeviceView \<Rightarrow> int \<Rightarrow> string \<Rightarrow> devmap \<Rightarrow> devmap" where
  "addAtTier zone t n m = (case map_of (Zone_Devices zone) n of None \<Rightarrow> m
     | Some d \<Rightarrow> if Device_Tier d = t then mput n d m else m)"

lemma visitNeighbors:
  "fold (visitNeighbor zone t d2g l2t p) ns (l, u, q)
   = (fold (addAtTier zone (t - 1)) ns l, fold (addAtTier zone (t + 1)) ns u,
      q @ filter (\<lambda>r. \<not> mgetd False p r) (concat (map (relatedVia zone t d2g l2t) ns)))"
  by (induction ns arbitrary: l u q)
    (auto simp: visitNeighbor_def addAtTier_def relatedVia_def Let_def split: option.splits)

lemma addAtTiers:
  assumes "zoneOk g Z zone"
  shows "keyset (fold (addAtTier zone t) ns m) = keyset m \<union> {n \<in> set ns. n \<in> Z \<and> tier g n = t}"
    and "mwf m \<Longrightarrow> mwf (fold (addAtTier zone t) ns m)"
  by (induction ns arbitrary: m) (auto simp: addAtTier_def zoneOkD(1)[OF assms])

definition groupMark :: "adjmap \<Rightarrow> ZoneDeviceView \<Rightarrow> int \<Rightarrow> string \<Rightarrow> groupState \<Rightarrow> groupState" where
  "groupMark adj zone t x = (\<lambda>(p, m, l, u). (mput x True p, mput x (mgetd zeroDevice (Zone_Devices zone) x) m,
     fold (addAtTier zone (t - 1)) (nbrsOf adj x) l, fold (addAtTier zone (t + 1)) (nbrsOf adj x) u))"

interpretation gl: worklist "related adj zone t d2g l2t" "keyset adj" "\<lambda>(p, m, l, u). trueKeys p"
    "groupMark adj zone t" "groupLoop adj zone t d2g l2t" for adj zone t d2g l2t
proof (unfold_locales, goal_cases)
  case (2 x)
  then show ?case by (simp add: related_def nbrsOf_outside)
next
  case (3 x s)
  then show ?case by (cases s) (simp add: groupMark_def trueKeys_mput)
next
  case (4 s)
  then show ?case by (cases s) simp
next
  case (5 x s q)
  then show ?case by (cases s) simp
next
  case (6 x s q)
  obtain p m l u where s: "s = (p, m, l, u)" by (cases s) auto
  have "mgetd False (mput x True p) n \<longleftrightarrow> n \<in> insert x (trueKeys p)" for n by simp
  then show ?case using 6 unfolding s by (simp add: Let_def visitNeighbors groupMark_def related_def)
qed simp

text \<open>What the maps of a group hold while the search runs; \<open>B\<close> is processed before it starts.\<close>

definition groupAcc :: "TopologyGraph \<Rightarrow> string set \<Rightarrow> int \<Rightarrow> string set \<Rightarrow> groupState \<Rightarrow> bool" where
  "groupAcc g Z t B = (\<lambda>(p, m, l, u). B \<subseteq> trueKeys p \<and> keyset m = trueKeys p - B \<and> mwf m \<and> mwf l \<and> mwf u
     \<and> keyset l = {x. \<exists>a \<in> keyset m. edge g a x \<and> x \<in> Z \<and> tier g x = t - 1}
     \<and> keyset u = {x. \<exists>a \<in> keyset m. edge g a x \<and> x \<in> Z \<and> tier g x = t + 1})"

lemma groupAcc_mark:
  assumes z: "zoneOk g Z zone" and acc: "groupAcc g Z t B s" and x: "x \<notin> (\<lambda>(p, m, l, u). trueKeys p) s"
  shows "groupAcc g Z t B (groupMark (Adj g) zone t x s)"
proof -
  obtain p m l u where s: "s = (p, m, l, u)" by (cases s) auto
  have B: "x \<notin> B" using acc x by (auto simp: s groupAcc_def)
  have k: "keyset (mput x d m) = trueKeys (mput x True p) - B" for d
    using acc B unfolding trueKeys_mput by (auto simp: s groupAcc_def)
  show ?thesis
    using acc k[of "mgetd zeroDevice (Zone_Devices zone) x"]
    unfolding groupAcc_def s groupMark_def prod.case addAtTiers(1)[OF z]
    by (auto simp: addAtTiers(2)[OF z])
qed

lemma succs_related:
  assumes "zoneOk g Z zone" "a \<in> Z" "tier g a = t"
  shows "b \<in> set (related (Adj g) zone t d2g (buildLowerGroupToTierDevices g zone t d2g) a)
     \<longleftrightarrow> (a, b) \<in> shareLower g Z t d2g"
  using assms(2,3)
  by (auto simp: related_def relatedVia_def zoneOkD(1)[OF assms(1)] set_buildLower[OF assms(1)] shareLower_def
      lowerNbr_def split: if_splits) metis+

subsection \<open>The groups are the classes\<close>

definition groupClass :: "TopologyGraph \<Rightarrow> string set \<Rightarrow> int \<Rightarrow> (string, string) gomap \<Rightarrow> string \<Rightarrow> string set" where
  "groupClass g Z t d2g a = (shareLower g Z t d2g)\<^sup>* `` {a}"

definition groupOk :: "TopologyGraph \<Rightarrow> string set \<Rightarrow> int \<Rightarrow> DiscoverOptions \<Rightarrow> (string, string) gomap \<Rightarrow> TopologyGroup \<Rightarrow> bool" where
  "groupOk g Z t opts d2g gr \<longleftrightarrow>
     (\<exists>a \<in> Z. tier g a = t \<and> set (Group_Members gr) = groupClass g Z t d2g a)
   \<and> sorted (Group_Members gr) \<and> distinct (Group_Members gr)
   \<and> Group_Name gr = GenerateGroupName (Group_Members gr) opts \<and> Group_Tier gr = t
   \<and> set (LowerTierNodes gr) = {x. \<exists>a \<in> set (Group_Members gr). edge g a x \<and> x \<in> Z \<and> tier g x = t - 1}
   \<and> set (UpperTierNodes gr) = {x. \<exists>a \<in> set (Group_Members gr). edge g a x \<and> x \<in> Z \<and> tier g x = t + 1}"

lemma groupClass_refl: "a \<in> groupClass g Z t d2g a"
  by (simp add: groupClass_def)

lemma groupClass_tier:
  assumes "b \<in> groupClass g Z t d2g a" "a \<in> Z" "tier g a = t"
  shows "b \<in> Z" "tier g b = t"
proof -
  have "(a, b) \<in> (shareLower g Z t d2g)\<^sup>*" using assms(1) by (simp add: groupClass_def)
  then have "b \<in> Z \<and> tier g b = t" by (cases rule: rtranclE) (use assms in \<open>auto simp: shareLower_def\<close>)
  then show "b \<in> Z" "tier g b = t" by simp_all
qed

lemma groupClass_eq:
  assumes "b \<in> groupClass g Z t d2g a"
  shows "groupClass g Z t d2g b = groupClass g Z t d2g a"
proof -
  have ab: "(a, b) \<in> (shareLower g Z t d2g)\<^sup>*" using assms by (simp add: groupClass_def)
  then have "(b, a) \<in> (shareLower g Z t d2g)\<^sup>*" by (rule symD[OF sym_rtrancl[OF sym_shareLower]])
  with ab show ?thesis unfolding groupClass_def by (auto intro: rtrancl_trans)
qed

lemma gl_reach:
  assumes z: "zoneOk g Z zone" and a: "a \<in> Z" "tier g a = t"
  shows "gl.reach (Adj g) zone t d2g (buildLowerGroupToTierDevices g zone t d2g) {a} = groupClass g Z t d2g a"
    (is "?R = _")
proof
  note succ = succs_related[OF z]
  show "?R \<subseteq> groupClass g Z t d2g a"
  proof (rule gl.reach_subset)
    fix x y assume x: "x \<in> groupClass g Z t d2g a"
      and y: "y \<in> set (related (Adj g) zone t d2g (buildLowerGroupToTierDevices g zone t d2g) x)"
    have "(x, y) \<in> shareLower g Z t d2g" using y succ[OF groupClass_tier[OF x a]] by simp
    then show "y \<in> groupClass g Z t d2g a" using x unfolding groupClass_def by (auto intro: rtrancl_into_rtrancl)
  qed (simp add: groupClass_refl)
  show "groupClass g Z t d2g a \<subseteq> ?R"
  proof
    fix b assume "b \<in> groupClass g Z t d2g a"
    then have "(a, b) \<in> (shareLower g Z t d2g)\<^sup>*" by (simp add: groupClass_def)
    then show "b \<in> ?R"
    proof (induction rule: rtrancl_induct)
      case base
      then show ?case using gl.reach_refl[of "{a}"] by blast
    next
      case (step x y)
      then have "x \<in> Z" "tier g x = t" by (auto simp: shareLower_def)
      from succ[OF this, of y d2g] step(2) show ?case by (intro gl.reach_closed[OF step(3)]) simp
    qed
  qed
qed

definition groupsInv :: "TopologyGraph \<Rightarrow> string set \<Rightarrow> int \<Rightarrow> DiscoverOptions \<Rightarrow> (string, string) gomap \<Rightarrow> boolmap \<times> TopologyGroup list \<Rightarrow> bool" where
  "groupsInv g Z t opts d2g = (\<lambda>(p, gs). trueKeys p = set (concat (map Group_Members gs))
     \<and> distinct (concat (map Group_Members gs)) \<and> (\<forall>gr \<in> set gs. groupOk g Z t opts d2g gr))"

lemma groupsInv_closed:
  assumes "groupsInv g Z t opts d2g (p, gs)" "mgetd False p a" "b \<in> groupClass g Z t d2g a"
  shows "mgetd False p b"
proof -
  have "a \<in> set (concat (map Group_Members gs))" using assms(1,2) by (auto simp: groupsInv_def)
  then obtain gr where gr: "gr \<in> set gs" "a \<in> set (Group_Members gr)" by auto
  then obtain c where "set (Group_Members gr) = groupClass g Z t d2g c"
    using assms(1) by (auto simp: groupsInv_def groupOk_def)
  then have "b \<in> set (Group_Members gr)" using groupClass_eq assms(3) gr(2) by blast
  then have "b \<in> set (concat (map Group_Members gs))" using gr(1) by auto
  then show ?thesis using assms(1) by (auto simp: groupsInv_def)
qed

lemma groupLoop_class:
  assumes z: "zoneOk g Z zone" and a: "a \<in> Z" "tier g a = t" "\<not> mgetd False p a"
    and closed: "\<And>x y. mgetd False p x \<Longrightarrow> y \<in> groupClass g Z t d2g x \<Longrightarrow> mgetd False p y"
    and inT: "\<And>x. mgetd False p x \<Longrightarrow> x \<in> Z \<and> tier g x = t"
  obtains p' m l u where
    "groupLoop (Adj g) zone t d2g (buildLowerGroupToTierDevices g zone t d2g) (p, [], [], []) [a] = (p', m, l, u)"
    "trueKeys p' = trueKeys p \<union> groupClass g Z t d2g a" "keyset m = groupClass g Z t d2g a"
    "groupAcc g Z t (trueKeys p) (p', m, l, u)" "groupClass g Z t d2g a \<inter> trueKeys p = {}"
proof -
  let ?l2t = "buildLowerGroupToTierDevices g zone t d2g"
  obtain p' m l u where r: "groupLoop (Adj g) zone t d2g ?l2t (p, [], [], []) [a] = (p', m, l, u)"
    by (metis surj_pair)
  have "y \<in> groupClass g Z t d2g x" if "mgetd False p x" "y \<in> set (related (Adj g) zone t d2g ?l2t x)" for x y
    using that succs_related[OF z] inT by (auto simp: groupClass_def)
  then have "gl.pending (Adj g) zone t d2g ?l2t (p, [], [], []) [a]"
    using closed by (fastforce simp: gl.pending_def)
  then have p': "trueKeys p' = trueKeys p \<union> groupClass g Z t d2g a"
    using gl.marked_run[of "Adj g" zone t d2g ?l2t "(p, [], [], [])" "[a]"] r gl_reach[OF z a(1,2)] by simp
  have "groupAcc g Z t (trueKeys p) (groupLoop (Adj g) zone t d2g ?l2t (p, [], [], []) [a])"
    by (rule gl.run_invariant) (simp add: groupAcc_def, rule groupAcc_mark[OF z])
  then have acc: "groupAcc g Z t (trueKeys p) (p', m, l, u)" using r by simp
  have dj: "groupClass g Z t d2g a \<inter> trueKeys p = {}"
    using closed a(3) groupClass_eq groupClass_refl by fastforce
  have "keyset m = groupClass g Z t d2g a" using acc p' dj by (auto simp: groupAcc_def)
  with r p' acc dj that show ?thesis by blast
qed

lemma groupsInv_tierGroup:
  assumes z: "zoneOk g Z zone" and inv: "groupsInv g Z t opts d2g (p, gs)" and a: "a \<in> Z" "tier g a = t"
  shows "groupsInv g Z t opts d2g (tierGroup g zone t opts d2g (buildLowerGroupToTierDevices g zone t d2g) a (p, gs))
    \<and> insert a (trueKeys p) \<subseteq> trueKeys (fst (tierGroup g zone t opts d2g (buildLowerGroupToTierDevices g zone t d2g) a (p, gs)))"
proof (cases "mgetd False p a")
  case True
  then show ?thesis using inv by (auto simp: tierGroup_def)
next
  case False
  have "x \<in> Z \<and> tier g x = t" if "mgetd False p x" for x
  proof -
    have "x \<in> set (concat (map Group_Members gs))" using inv that by (auto simp: groupsInv_def)
    then obtain gr where gr: "gr \<in> set gs" "x \<in> set (Group_Members gr)" by auto
    then obtain c where "c \<in> Z" "tier g c = t" "x \<in> groupClass g Z t d2g c"
      using inv by (auto simp: groupsInv_def groupOk_def)
    then show ?thesis using groupClass_tier by blast
  qed
  then obtain p' m l u where r:
    "groupLoop (Adj g) zone t d2g (buildLowerGroupToTierDevices g zone t d2g) (p, [], [], []) [a] = (p', m, l, u)"
    "trueKeys p' = trueKeys p \<union> groupClass g Z t d2g a" "keyset m = groupClass g Z t d2g a"
    "groupAcc g Z t (trueKeys p) (p', m, l, u)" "groupClass g Z t d2g a \<inter> trueKeys p = {}"
    using groupLoop_class[OF z a False, of d2g] groupsInv_closed[OF inv] by metis
  define gr where "gr = \<lparr>Group_Name = GenerateGroupName (sortedNamesFromMap m) opts, Group_Tier = t,
      Group_Members = sortedNamesFromMap m, LowerTierNodes = sortedNamesFromMap l, UpperTierNodes = sortedNamesFromMap u\<rparr>"
  have step: "tierGroup g zone t opts d2g (buildLowerGroupToTierDevices g zone t d2g) a (p, gs) = (p', gs @ [gr])"
    using False r(1) by (simp add: tierGroup_def gr_def Let_def)
  have "mwf m" using r(4) by (simp add: groupAcc_def)
  then have "groupOk g Z t opts d2g gr"
    using r(3,4) a by (auto simp: groupOk_def gr_def groupAcc_def sorted_sortedNamesFromMap)
  moreover have "set (Group_Members gr) = groupClass g Z t d2g a" "distinct (Group_Members gr)"
    using r(3) \<open>mwf m\<close> by (simp_all add: gr_def sorted_sortedNamesFromMap)
  ultimately show ?thesis unfolding step using inv r(2,5) groupClass_refl[of a g Z t d2g]
    by (auto simp: groupsInv_def)
qed

lemma groupsInv_fold:
  assumes z: "zoneOk g Z zone" and "groupsInv g Z t opts d2g s" "\<And>a. a \<in> set as \<Longrightarrow> a \<in> Z \<and> tier g a = t"
  shows "groupsInv g Z t opts d2g (fold (tierGroup g zone t opts d2g (buildLowerGroupToTierDevices g zone t d2g)) as s)
    \<and> set as \<union> trueKeys (fst s) \<subseteq> trueKeys (fst (fold (tierGroup g zone t opts d2g (buildLowerGroupToTierDevices g zone t d2g)) as s))"
  using assms(2,3)
proof (induction as arbitrary: s)
  case (Cons a as)
  let ?f = "tierGroup g zone t opts d2g (buildLowerGroupToTierDevices g zone t d2g)"
  obtain p gs where s: "s = (p, gs)" by force
  have "groupsInv g Z t opts d2g (?f a s)" "insert a (trueKeys (fst s)) \<subseteq> trueKeys (fst (?f a s))"
    using groupsInv_tierGroup[OF z, of t opts d2g p gs a] Cons.prems by (auto simp: s)
  then show ?case using Cons.IH[of "?f a s"] Cons.prems(2) by auto
qed simp

lemma BuildTierGroups_classes:
  assumes z: "zoneOk g Z zone"
  shows "distinct (concat (map Group_Members (BuildTierGroups g zone t opts d2g)))"
    and "set (concat (map Group_Members (BuildTierGroups g zone t opts d2g))) = {n \<in> Z. tier g n = t}"
    and "gr \<in> set (BuildTierGroups g zone t opts d2g) \<Longrightarrow> groupOk g Z t opts d2g gr"
proof -
  have *: "distinct (concat (map Group_Members (BuildTierGroups g zone t opts d2g)))
    \<and> set (concat (map Group_Members (BuildTierGroups g zone t opts d2g))) = {n \<in> Z. tier g n = t}
    \<and> (\<forall>gr \<in> set (BuildTierGroups g zone t opts d2g). groupOk g Z t opts d2g gr)"
  proof (cases "map_of (DevicesByTier zone) t")
    case None
    then have "t \<notin> tier g ` Z" using zoneOkD(5)[OF z] by (simp add: map_of_None_keyset)
    then show ?thesis using None by (auto simp: BuildTierGroups_def)
  next
    case (Some ds)
    then have ds: "keyset ds = {n \<in> Z. tier g n = t}" using zoneOkD(3)[OF z, of t] by simp
    let ?r = "fold (tierGroup g zone t opts d2g (buildLowerGroupToTierDevices g zone t d2g)) (sortedDeviceNames ds) ([], [])"
    obtain p gs where r: "?r = (p, gs)" by force
    have "groupsInv g Z t opts d2g ([], [])" by (simp add: groupsInv_def)
    from groupsInv_fold[OF z this, of "sortedDeviceNames ds"]
    have inv: "groupsInv g Z t opts d2g (p, gs)" "{n \<in> Z. tier g n = t} \<subseteq> trueKeys p" using ds r by auto
    moreover have "set (Group_Members gr) \<subseteq> {n \<in> Z. tier g n = t}" if "gr \<in> set gs" for gr
    proof -
      have "groupOk g Z t opts d2g gr" using that inv(1) by (simp add: groupsInv_def)
      then obtain c where "c \<in> Z" "tier g c = t" "set (Group_Members gr) = groupClass g Z t d2g c"
        unfolding groupOk_def by (elim conjE bexE) simp
      then show ?thesis using groupClass_tier[of _ g Z t d2g c] by auto
    qed
    ultimately have "set (concat (map Group_Members gs)) = {n \<in> Z. tier g n = t}"
      by (auto simp: groupsInv_def)
    then show ?thesis using inv(1) Some r by (simp add: BuildTierGroups_def groupsInv_def)
  qed
  then show "distinct (concat (map Group_Members (BuildTierGroups g zone t opts d2g)))"
    "set (concat (map Group_Members (BuildTierGroups g zone t opts d2g))) = {n \<in> Z. tier g n = t}"
    "gr \<in> set (BuildTierGroups g zone t opts d2g) \<Longrightarrow> groupOk g Z t opts d2g gr" by blast+
qed

lemma BuildTierGroups_same:
  assumes z: "zoneOk g Z zone" and gr: "gr \<in> set (BuildTierGroups g zone t opts d2g)" "a \<in> set (Group_Members gr)"
  shows "set (Group_Members gr) = groupClass g Z t d2g a"
  using BuildTierGroups_classes(3)[OF z gr(1)] gr(2) groupClass_eq by (fastforce simp: groupOk_def)

text \<open>
  C4: the groups of a tier partition the devices of the zone in that tier. Each group
  is a class of the equivalence generated by ``has a lower neighbour in the same lower group'', is
  sorted, is named after its members, and lists exactly the neighbours of its members one tier below
  and one tier above.
\<close>

theorem BuildTierGroups_partition:
  "distinct (concat (map Group_Members (BuildTierGroups g (BuildZoneDeviceView g zs) t opts d2g)))
   \<and> set (concat (map Group_Members (BuildTierGroups g (BuildZoneDeviceView g zs) t opts d2g)))
       = {n \<in> set zs. tier g n = t}
   \<and> list_all (groupOk g (set zs) t opts d2g) (BuildTierGroups g (BuildZoneDeviceView g zs) t opts d2g)"
  using BuildTierGroups_classes[OF zoneOk_BuildZoneDeviceView] by (simp add: list_all_iff)

text \<open>
  The name of a group does not determine its members: two disjoint groups can be
  joined to the same string, and then get the same name in both naming modes.
\<close>

lemma GenerateGroupName_ambiguous:
  "\<exists>xs ys. set xs \<inter> set ys = {} \<and> xs \<noteq> [] \<and> ys \<noteq> []
     \<and> (\<forall>opts. GenerateGroupName xs opts = GenerateGroupName ys opts)"
proof (intro exI conjI allI)
  show "set [''a'', ''b-c''] \<inter> set [''a-b'', ''c''] = {}" by simp
  have "sort [''a'', ''b-c''] = [''a'', ''b-c'']" "sort [''a-b'', ''c''] = [''a-b'', ''c'']" by code_simp+
  then show "GenerateGroupName [''a'', ''b-c''] opts = GenerateGroupName [''a-b'', ''c''] opts" for opts
    by (simp add: GenerateGroupName_def Join_def)
qed simp_all

end
