(* ===== verification/Fabric_Topology.thy ===== *)
theory Fabric_Topology
  imports Fabric_Groups
begin

text \<open>
  \<open>BuildTopology\<close>, the parent index and its queries, and \<open>DiscoverTopology\<close> of
  \<open>src/pkg/topology/topology.go\<close>. The main result is that the parent index is a forest: every
  device and every group has at most one parent.
\<close>

subsection \<open>The topology record\<close>

datatype TopologyNodeType = TopologyNodeDevice | TopologyNodeGroup

record TopologyNode =
  Node_Name :: string
  Node_Type :: TopologyNodeType
  Node_Tier :: int
  Node_DeviceType :: DeviceType
  Node_Members :: "string list"

record TopologyEdge =
  Edge_Source :: string
  Edge_Target :: string
  Edge_Kind :: string

record Topology =
  Topo_Nodes :: "(string, TopologyNode) gomap"
  Topo_Edges :: "TopologyEdge list"
  NodesByTier :: "(int, string list) gomap"
  GroupsByTier :: "(int, TopologyGroup list) gomap"
  ParentIndex :: "(string, string list) gomap"

definition emptyTopology :: Topology where
  "emptyTopology = \<lparr>Topo_Nodes = [], Topo_Edges = [], NodesByTier = [], GroupsByTier = [], ParentIndex = []\<rparr>"

subsection \<open>Parents\<close>

definition groupMember :: "ZoneDeviceView \<Rightarrow> TopologyGroup \<Rightarrow> string \<Rightarrow> (string, string) gomap \<Rightarrow> (string, string) gomap" where
  "groupMember zone grp member deviceToGroup =
     (case map_of (Zone_Devices zone) member of
        None \<Rightarrow> deviceToGroup
      | Some _ \<Rightarrow> mput member (Group_Name grp) deviceToGroup)"

definition buildDeviceToGroupIndex :: "ZoneDeviceView \<Rightarrow> Topology \<Rightarrow> (string, string) gomap" where
  "buildDeviceToGroupIndex zone topology =
     fold (\<lambda>t m. if t = 0 then m
             else fold (\<lambda>grp. fold (groupMember zone grp) (Group_Members grp))
                    (mgetd [] (GroupsByTier topology) t) m)
       (sortedTierKeys (GroupsByTier topology)) []"

definition deviceParent :: "ZoneDeviceView \<Rightarrow> (string, string) gomap \<Rightarrow> Device \<Rightarrow> string \<Rightarrow> boolmap \<Rightarrow> boolmap" where
  "deviceParent zone deviceToGroup child neighbor parentSet =
     (case map_of (Zone_Devices zone) neighbor of
        None \<Rightarrow> parentSet
      | Some parent \<Rightarrow>
          if Device_Tier parent \<noteq> Device_Tier child + 1 then parentSet
          else let parentName = (case map_of deviceToGroup (Device_Name parent) of
                     Some groupName \<Rightarrow> groupName | None \<Rightarrow> Device_Name parent)
               in mput parentName True parentSet)"

definition setParents :: "string \<Rightarrow> boolmap \<Rightarrow> Topology \<Rightarrow> Topology" where
  "setParents child parentSet topology =
     (if length parentSet > 0
      then topology\<lparr>ParentIndex := mput child (sortedBoolKeys parentSet) (ParentIndex topology)\<rparr>
      else topology)"

definition buildDeviceParentIndex :: "TopologyGraph \<Rightarrow> ZoneDeviceView \<Rightarrow> (string, string) gomap \<Rightarrow> Topology \<Rightarrow> Topology" where
  "buildDeviceParentIndex g zone deviceToGroup =
     fold (\<lambda>childName.
       let child = mgetd zeroDevice (Zone_Devices zone) childName;
           parentSet = fold (deviceParent zone deviceToGroup child) (nbrsOf (Adj g) childName) []
       in setParents childName parentSet)
     (sortedDeviceNames (Zone_Devices zone))"

definition groupParent :: "ZoneDeviceView \<Rightarrow> (string, string) gomap \<Rightarrow> TopologyGroup \<Rightarrow> Device \<Rightarrow> string \<Rightarrow> boolmap \<Rightarrow> boolmap" where
  "groupParent zone deviceToGroup grp memberDevice neighbor parentSet =
     (case map_of (Zone_Devices zone) neighbor of
        None \<Rightarrow> parentSet
      | Some parent \<Rightarrow>
          if Device_Tier parent \<noteq> Device_Tier memberDevice + 1 then parentSet
          else let parentName = (case map_of deviceToGroup (Device_Name parent) of
                     Some groupName \<Rightarrow> groupName | None \<Rightarrow> Device_Name parent)
               in if parentName = Group_Name grp then parentSet else mput parentName True parentSet)"

definition groupParentSet :: "TopologyGraph \<Rightarrow> ZoneDeviceView \<Rightarrow> (string, string) gomap \<Rightarrow> TopologyGroup \<Rightarrow> boolmap" where
  "groupParentSet g zone deviceToGroup grp =
     fold (\<lambda>member parentSet.
       case map_of (Zone_Devices zone) member of
         None \<Rightarrow> parentSet
       | Some memberDevice \<Rightarrow>
           fold (groupParent zone deviceToGroup grp memberDevice) (nbrsOf (Adj g) member) parentSet)
     (Group_Members grp) []"

definition buildGroupParentIndex :: "TopologyGraph \<Rightarrow> ZoneDeviceView \<Rightarrow> (string, string) gomap \<Rightarrow> Topology \<Rightarrow> Topology" where
  "buildGroupParentIndex g zone deviceToGroup topology =
     fold (\<lambda>t topo. if t = 0 then topo
             else fold (\<lambda>grp. setParents (Group_Name grp) (groupParentSet g zone deviceToGroup grp))
                    (mgetd [] (GroupsByTier topo) t) topo)
       (sortedTierKeys (GroupsByTier topology)) topology"

definition BuildParentIndexForZone :: "TopologyGraph \<Rightarrow> ZoneDeviceView \<Rightarrow> Topology \<Rightarrow> Topology" where
  "BuildParentIndexForZone g zone topology =
     (let deviceToGroup = buildDeviceToGroupIndex zone topology
      in buildGroupParentIndex g zone deviceToGroup (buildDeviceParentIndex g zone deviceToGroup topology))"

subsection \<open>Assembling the topology\<close>

definition addDeviceNode :: "string \<times> Device \<Rightarrow> Topology \<Rightarrow> Topology" where
  "addDeviceNode = (\<lambda>(name, d) topology.
     if Device_Tier d < 0 then topology
     else topology\<lparr>Topo_Nodes := mput name \<lparr>Node_Name = name, Node_Type = TopologyNodeDevice,
              Node_Tier = Device_Tier d, Node_DeviceType = Device_Type d, Node_Members = []\<rparr> (Topo_Nodes topology),
            NodesByTier := mput (Device_Tier d) (mgetd [] (NodesByTier topology) (Device_Tier d) @ [name])
              (NodesByTier topology)\<rparr>)"

definition sortNodesByTier :: "(int, string list) gomap \<Rightarrow> (int, string list) gomap" where
  "sortNodesByTier = map (\<lambda>(t, names). (t, dedupeSortedStrings (sort names)))"

definition sortGroupsByTier :: "(int, TopologyGroup list) gomap \<Rightarrow> (int, TopologyGroup list) gomap" where
  "sortGroupsByTier = map (\<lambda>(t, groups). (t, sort_key Group_Name groups))"

definition physicalEdges :: "adjmap \<Rightarrow> TopologyEdge list" where
  "physicalEdges adj = concat (map (\<lambda>(a, neighbors).
     map (\<lambda>b. \<lparr>Edge_Source = a, Edge_Target = b, Edge_Kind = ''physical''\<rparr>)
       (filter (\<lambda>b. \<not> a > b) (mkeys neighbors))) adj)"

definition addGroup :: "int \<Rightarrow> TopologyGroup \<Rightarrow> Topology \<times> (string, string) gomap \<Rightarrow> Topology \<times> (string, string) gomap" where
  "addGroup t grp = (\<lambda>(topology, deviceToGroup).
     let topology1 = topology\<lparr>GroupsByTier := mput t (mgetd [] (GroupsByTier topology) t @ [grp]) (GroupsByTier topology)\<rparr>;
         deviceToGroup1 = fold (\<lambda>member. mput member (Group_Name grp)) (Group_Members grp) deviceToGroup
     in if length (Group_Members grp) = 1 \<and> Group_Name grp = Group_Members grp ! 0
        then (topology1, deviceToGroup1)
        else (topology1\<lparr>
           Topo_Nodes := mput (Group_Name grp) \<lparr>Node_Name = Group_Name grp, Node_Type = TopologyNodeGroup,
             Node_Tier = t, Node_DeviceType = DeviceTypeNone, Node_Members = Group_Members grp\<rparr> (Topo_Nodes topology1),
           NodesByTier := mput t (mgetd [] (NodesByTier topology1) t @ [Group_Name grp]) (NodesByTier topology1),
           Topo_Edges := Topo_Edges topology1 @ map (\<lambda>member. \<lparr>Edge_Source = Group_Name grp,
             Edge_Target = member, Edge_Kind = ''group-member''\<rparr>) (Group_Members grp)\<rparr>,
           deviceToGroup1))"

definition buildZoneTier :: "TopologyGraph \<Rightarrow> DiscoverOptions \<Rightarrow> ZoneDeviceView \<Rightarrow> int
    \<Rightarrow> Topology \<times> (string, string) gomap \<Rightarrow> Topology \<times> (string, string) gomap" where
  "buildZoneTier g opts zone t = (\<lambda>(topology, deviceToGroup).
     if t = 0 then (topology, deviceToGroup)
     else fold (addGroup t) (BuildTierGroups g zone t opts deviceToGroup) (topology, deviceToGroup))"

definition hostGroups :: "ZoneDeviceView \<Rightarrow> (string, string) gomap" where
  "hostGroups zone = fold (\<lambda>(name, device) m. if Device_Tier device = 0 then mput name name m else m) (Zone_Devices zone) []"

definition buildZone :: "TopologyGraph \<Rightarrow> DiscoverOptions \<Rightarrow> string list \<Rightarrow> Topology \<Rightarrow> Topology" where
  "buildZone g opts zoneDeviceNames topology =
     (let zone = BuildZoneDeviceView g zoneDeviceNames;
          (topology1, _) = fold (buildZoneTier g opts zone) (sortedTierKeys (DevicesByTier zone)) (topology, hostGroups zone)
      in BuildParentIndexForZone g zone topology1)"

definition BuildTopology :: "TopologyGraph \<Rightarrow> DiscoverOptions \<Rightarrow> Topology" where
  "BuildTopology g opts =
     (let topology1 = fold addDeviceNode (Devices g) emptyTopology;
          topology2 = topology1\<lparr>NodesByTier := sortNodesByTier (NodesByTier topology1)\<rparr>;
          topology3 = topology2\<lparr>Topo_Edges := Topo_Edges topology2 @ physicalEdges (Adj g)\<rparr>;
          topology4 = fold (buildZone g opts) (CollectConnectedZones g) topology3
      in topology4\<lparr>NodesByTier := sortNodesByTier (NodesByTier topology4),
                   GroupsByTier := sortGroupsByTier (GroupsByTier topology4)\<rparr>)"

definition DiscoverTopology :: "Host list \<Rightarrow> Switch list \<Rightarrow> DiscoverOption list \<Rightarrow> Topology option" where
  "DiscoverTopology hosts switches options =
     (let opts = fold (\<lambda>option. option) options defaultDiscoverOptions
      in map_option (\<lambda>g. BuildTopology g opts) (tieredGraph hosts switches))"

subsection \<open>Queries\<close>

definition QueryParents :: "Topology \<Rightarrow> string \<Rightarrow> string list" where
  "QueryParents t name = mgetd [] (ParentIndex t) name"

definition indexParents :: "(string, string list) gomap \<Rightarrow> string set" where
  "indexParents idx = (\<Union>ps \<in> snd ` set idx. set ps)"

lemma finite_indexParents: "finite (indexParents idx)"
  by (simp add: indexParents_def)

lemma mgetd_indexParents: "set (mgetd [] idx n) \<subseteq> indexParents idx"
  by (cases "map_of idx n") (auto simp: indexParents_def dest: map_of_SomeD intro: rev_bexI)

function parentChainLoop :: "(string, string list) gomap \<Rightarrow> boolmap \<Rightarrow> string list \<Rightarrow> string \<Rightarrow> string list" where
  "parentChainLoop idx seen result current =
     (case mgetd [] idx current of
        [] \<Rightarrow> result
      | parent # _ \<Rightarrow>
          if mgetd False seen parent then result
          else parentChainLoop idx (mput parent True seen) (result @ [parent]) parent)"
  by pat_completeness auto
termination
proof (relation "measure (\<lambda>(idx, seen, result, current). card (indexParents idx - trueKeys seen))", simp, goal_cases)
  case (1 idx seen result current parent rest)
  have "parent \<in> indexParents idx" using mgetd_indexParents[of idx current] 1(1) by simp
  then have "card (indexParents idx - insert parent (trueKeys seen)) < card (indexParents idx - trueKeys seen)"
    using 1(2) finite_indexParents by (intro psubset_card_mono) auto
  then show ?case by (simp only: in_measure prod.case trueKeys_mput)
qed

declare parentChainLoop.simps [simp del]

definition QueryParentChain :: "Topology \<Rightarrow> string \<Rightarrow> string list" where
  "QueryParentChain t name = parentChainLoop (ParentIndex t) [] [] name"

subsection \<open>Groups added for a zone\<close>

definition assignGroups :: "TopologyGroup list \<Rightarrow> (string, string) gomap \<Rightarrow> (string, string) gomap" where
  "assignGroups gs d = fold (\<lambda>grp. fold (\<lambda>member. mput member (Group_Name grp)) (Group_Members grp)) gs d"

lemma map_of_assignMembers:
  "map_of (fold (\<lambda>member. mput member v) ms d) m = (if m \<in> set ms then Some v else map_of d m)"
  by (induction ms arbitrary: d) auto

lemma assignGroups_other:
  "m \<notin> set (concat (map Group_Members gs)) \<Longrightarrow> map_of (assignGroups gs d) m = map_of d m"
  unfolding assignGroups_def by (induction gs arbitrary: d) (auto simp: map_of_assignMembers)

lemma assignGroups_member:
  "distinct (concat (map Group_Members gs)) \<Longrightarrow> gr \<in> set gs \<Longrightarrow> m \<in> set (Group_Members gr)
    \<Longrightarrow> map_of (assignGroups gs d) m = Some (Group_Name gr)"
proof (induction gs arbitrary: d)
  case (Cons a gs)
  show ?case
  proof (cases "gr \<in> set gs")
    case True
    then show ?thesis using Cons by (simp add: assignGroups_def)
  next
    case False
    then have a: "gr = a" using Cons.prems by simp
    then have "m \<notin> set (concat (map Group_Members gs))" using Cons.prems by auto
    from assignGroups_other[OF this] Cons.prems(3) a show ?thesis
      by (simp add: assignGroups_def map_of_assignMembers)
  qed
qed simp

lemma addGroups:
  assumes "fold (addGroup t) gs (tp, d) = (tp', d')"
  shows "d' = assignGroups gs d \<and> ParentIndex tp' = ParentIndex tp
    \<and> (\<forall>t'. mgetd [] (GroupsByTier tp') t' = mgetd [] (GroupsByTier tp) t' @ (if t' = t then gs else []))
    \<and> (mwf (GroupsByTier tp) \<longrightarrow> mwf (GroupsByTier tp'))"
  using assms
proof (induction gs arbitrary: tp d)
  case (Cons a gs)
  obtain tp1 d1 where a: "addGroup t a (tp, d) = (tp1, d1)" by force
  have d1: "d1 = fold (\<lambda>member. mput member (Group_Name a)) (Group_Members a) d"
    "ParentIndex tp1 = ParentIndex tp"
    "GroupsByTier tp1 = mput t (mgetd [] (GroupsByTier tp) t @ [a]) (GroupsByTier tp)"
    using a by (auto simp: addGroup_def Let_def split: if_splits)
  have "fold (addGroup t) gs (tp1, d1) = (tp', d')" using Cons.prems a by simp
  from Cons.IH[OF this] show ?case using d1 by (simp add: assignGroups_def)
qed (simp add: assignGroups_def)

text \<open>
  The state of a zone after the tiers \<open>T\<close>: the groups of each such tier were built from a map that
  agrees with the present one below the tier, and the map sends every member to its group.
\<close>

definition zoneInv :: "TopologyGraph \<Rightarrow> DiscoverOptions \<Rightarrow> string set \<Rightarrow> ZoneDeviceView \<Rightarrow> Topology \<Rightarrow> int set
    \<Rightarrow> Topology \<times> (string, string) gomap \<Rightarrow> bool" where
  "zoneInv g opts Z zone top0 T = (\<lambda>(tp, d). ParentIndex tp = ParentIndex top0
     \<and> (\<forall>t. t \<notin> T \<or> t = 0 \<longrightarrow> mgetd [] (GroupsByTier tp) t = mgetd [] (GroupsByTier top0) t)
     \<and> (\<forall>t \<in> T. t \<noteq> 0 \<longrightarrow> (\<exists>d'. (\<forall>x \<in> Z. tier g x < t \<longrightarrow> map_of d x = map_of d' x)
          \<and> mgetd [] (GroupsByTier tp) t = mgetd [] (GroupsByTier top0) t @ BuildTierGroups g zone t opts d'
          \<and> (\<forall>gr \<in> set (BuildTierGroups g zone t opts d'). \<forall>m \<in> set (Group_Members gr).
               map_of d m = Some (Group_Name gr)))))"

lemma member_tier:
  assumes "zoneOk g Z zone" "gr \<in> set (BuildTierGroups g zone t opts d)" "m \<in> set (Group_Members gr)"
  shows "m \<in> Z \<and> tier g m = t"
  using BuildTierGroups_classes(2)[OF assms(1), of t opts d] assms(2,3) by auto

lemma zoneInv_step:
  assumes z: "zoneOk g Z zone" and inv: "zoneInv g opts Z zone top0 T (tp, d)" and T: "\<And>t'. t' \<in> T \<Longrightarrow> t' < t"
  shows "zoneInv g opts Z zone top0 (insert t T) (buildZoneTier g opts zone t (tp, d))"
proof (cases "t = 0")
  case True
  then show ?thesis using inv by (auto simp: buildZoneTier_def zoneInv_def)
next
  case False
  let ?gs = "BuildTierGroups g zone t opts d"
  obtain tp' d' where s: "fold (addGroup t) ?gs (tp, d) = (tp', d')" by force
  have A: "d' = assignGroups ?gs d" "ParentIndex tp' = ParentIndex tp"
    "\<And>t'. mgetd [] (GroupsByTier tp') t' = mgetd [] (GroupsByTier tp) t' @ (if t' = t then ?gs else [])"
    using addGroups[OF s] by simp_all
  have new: "map_of d' m = Some (Group_Name gr)" if "gr \<in> set ?gs" "m \<in> set (Group_Members gr)" for gr m
    using assignGroups_member[OF BuildTierGroups_classes(1)[OF z] that] A(1) by simp
  have old: "map_of d' m = map_of d m" if "tier g m < t" for m
  proof -
    have "m \<notin> set (concat (map Group_Members ?gs))" unfolding BuildTierGroups_classes(2)[OF z] using that by simp
    then show ?thesis unfolding A(1) by (rule assignGroups_other)
  qed
  have "zoneInv g opts Z zone top0 (insert t T) (tp', d')"
    unfolding zoneInv_def prod.case
  proof (intro conjI allI ballI impI)
    show "ParentIndex tp' = ParentIndex top0" using A(2) inv by (simp add: zoneInv_def)
  next
    fix t' assume "t' \<notin> insert t T \<or> t' = 0"
    then show "mgetd [] (GroupsByTier tp') t' = mgetd [] (GroupsByTier top0) t'"
      using A(3)[of t'] False inv by (auto simp: zoneInv_def)
  next
    fix t' assume t': "t' \<in> insert t T" "t' \<noteq> 0"
    show "\<exists>e. (\<forall>x \<in> Z. tier g x < t' \<longrightarrow> map_of d' x = map_of e x)
        \<and> mgetd [] (GroupsByTier tp') t' = mgetd [] (GroupsByTier top0) t' @ BuildTierGroups g zone t' opts e
        \<and> (\<forall>gr \<in> set (BuildTierGroups g zone t' opts e). \<forall>m \<in> set (Group_Members gr). map_of d' m = Some (Group_Name gr))"
    proof (cases "t' = t")
      case True
      have "mgetd [] (GroupsByTier tp) t = mgetd [] (GroupsByTier top0) t"
        using inv T[of t] by (auto simp: zoneInv_def)
      then show ?thesis using True A(3)[of t] old new by (intro exI[of _ d]) auto
    next
      case False
      then have lt: "t' \<in> T" "t' < t" using t' T by auto
      then obtain e where e: "\<forall>x \<in> Z. tier g x < t' \<longrightarrow> map_of d x = map_of e x"
        "mgetd [] (GroupsByTier tp) t' = mgetd [] (GroupsByTier top0) t' @ BuildTierGroups g zone t' opts e"
        "\<forall>gr \<in> set (BuildTierGroups g zone t' opts e). \<forall>m \<in> set (Group_Members gr). map_of d m = Some (Group_Name gr)"
        using inv t'(2) unfolding zoneInv_def by blast
      have "map_of d' m = Some (Group_Name gr)" if "gr \<in> set (BuildTierGroups g zone t' opts e)" "m \<in> set (Group_Members gr)" for gr m
        using old[of m] member_tier[OF z that] e(3) that lt(2) by auto
      then show ?thesis using e(1,2) A(3)[of t'] False old lt(2) by (intro exI[of _ e]) auto
    qed
  qed
  then show ?thesis using False s by (simp add: buildZoneTier_def)
qed

lemma zoneInv_fold:
  assumes z: "zoneOk g Z zone" and "zoneInv g opts Z zone top0 T s" "sorted ts" "distinct ts"
    "\<And>t t'. t \<in> T \<Longrightarrow> t' \<in> set ts \<Longrightarrow> t < t'"
  shows "zoneInv g opts Z zone top0 (T \<union> set ts) (fold (buildZoneTier g opts zone) ts s)"
  using assms(2-)
proof (induction ts arbitrary: T s)
  case (Cons t ts)
  obtain tp d where s: "s = (tp, d)" by force
  have "zoneInv g opts Z zone top0 (insert t T) (buildZoneTier g opts zone t s)"
    using zoneInv_step[OF z, of opts top0 T tp d t] Cons.prems s by auto
  from Cons.IH[OF this] Cons.prems show ?case by (auto simp: le_less)
qed simp

subsection \<open>The device index of a zone\<close>

definition nonzeroGroups :: "Topology \<Rightarrow> TopologyGroup list" where
  "nonzeroGroups tp = concat (map (\<lambda>t. if t = 0 then [] else mgetd [] (GroupsByTier tp) t) (sortedTierKeys (GroupsByTier tp)))"

lemma set_sortedTierKeys [simp, sorted_set_simps]: "set (sortedTierKeys m) = keyset m"
  by (simp add: sortedTierKeys_def)

lemma sorted_sortedTierKeys: "sorted (sortedTierKeys m)" "mwf m \<Longrightarrow> distinct (sortedTierKeys m)"
  by (simp_all add: sortedTierKeys_def)

lemma set_nonzeroGroups: "gr \<in> set (nonzeroGroups tp) \<longleftrightarrow> (\<exists>t. t \<noteq> 0 \<and> gr \<in> set (mgetd [] (GroupsByTier tp) t))"
proof -
  have "t \<in> keyset (GroupsByTier tp)" if "gr \<in> set (mgetd [] (GroupsByTier tp) t)" for t
    using that by (cases "map_of (GroupsByTier tp) t") auto
  then show ?thesis by (auto simp: nonzeroGroups_def)
qed

lemma fold_nonzero:
  "fold (\<lambda>t m. if t = 0 then m else fold f (h t) m) ts m = fold f (concat (map (\<lambda>t. if t = 0 then [] else h t) ts)) m"
  by (induction ts arbitrary: m) auto

lemma buildDeviceToGroupIndex_flat:
  "buildDeviceToGroupIndex zone tp = fold (\<lambda>grp. fold (groupMember zone grp) (Group_Members grp)) (nonzeroGroups tp) []"
  unfolding buildDeviceToGroupIndex_def fold_nonzero nonzeroGroups_def ..

lemma groupMembers_fold:
  "map_of (fold (groupMember zone grp) ms d) m =
     (if m \<in> set ms \<and> m \<in> keyset (Zone_Devices zone) then Some (Group_Name grp) else map_of d m)"
  by (induction ms arbitrary: d) (auto simp: groupMember_def keyset_iff split: option.splits)

lemma deviceIndex_fold:
  assumes "\<And>gr m. gr \<in> set gs \<Longrightarrow> m \<in> set (Group_Members gr) \<Longrightarrow> m \<in> keyset (Zone_Devices zone) \<Longrightarrow> F m = Group_Name gr"
  shows "map_of (fold (\<lambda>grp. fold (groupMember zone grp) (Group_Members grp)) gs d) m =
     (if m \<in> keyset (Zone_Devices zone) \<and> (\<exists>gr \<in> set gs. m \<in> set (Group_Members gr)) then Some (F m) else map_of d m)"
  using assms
proof (induction gs arbitrary: d)
  case (Cons a gs)
  have "F m = Group_Name a" if "m \<in> set (Group_Members a)" "m \<in> keyset (Zone_Devices zone)"
    using Cons.prems[of a m] that by simp
  moreover have "map_of (fold (\<lambda>grp. fold (groupMember zone grp) (Group_Members grp)) gs d') m =
     (if m \<in> keyset (Zone_Devices zone) \<and> (\<exists>gr \<in> set gs. m \<in> set (Group_Members gr)) then Some (F m) else map_of d' m)" for d'
    by (rule Cons.IH) (use Cons.prems in simp)
  ultimately show ?case by (auto simp: groupMembers_fold)
qed simp

text \<open>What the parent passes rely on after the tiers of a zone are done.\<close>

definition parentOk :: "TopologyGraph \<Rightarrow> string set \<Rightarrow> Topology \<Rightarrow> (string, string) gomap \<Rightarrow> bool" where
  "parentOk g Z tp F \<longleftrightarrow>
     (\<forall>t p q. t \<noteq> 0 \<and> (p, q) \<in> shareLower g Z t F \<longrightarrow> map_of F p = map_of F q)
   \<and> (\<forall>t gr m. t \<noteq> 0 \<and> gr \<in> set (mgetd [] (GroupsByTier tp) t) \<and> m \<in> set (Group_Members gr) \<and> m \<in> Z
        \<longrightarrow> map_of F m = Some (Group_Name gr) \<and> tier g m = t)
   \<and> (\<forall>p \<in> Z. tier g p \<noteq> 0 \<longrightarrow> (\<exists>gr \<in> set (nonzeroGroups tp). p \<in> set (Group_Members gr)))"

lemma shareLower_cong:
  assumes "\<And>x. x \<in> Z \<Longrightarrow> tier g x = t - 1 \<Longrightarrow> map_of d x = map_of d' x"
  shows "shareLower g Z t d = shareLower g Z t d'"
proof -
  have "groupNameOfDevice x d = groupNameOfDevice x d'" if "lowerNbr g Z t a x" for a x
    using that assms by (simp add: groupNameOfDevice_def lowerNbr_def)
  then show ?thesis unfolding shareLower_def by (auto; metis)
qed

lemma zoneInv_parentOk:
  assumes z: "zoneOk g Z zone" and inv: "zoneInv g opts Z zone tp0 (tier g ` Z) (tp, F)"
    and old: "\<And>t gr. gr \<in> set (mgetd [] (GroupsByTier tp0) t) \<Longrightarrow> set (Group_Members gr) \<inter> Z = {}"
  shows "parentOk g Z tp F"
proof -
  have I: "\<exists>d'. (\<forall>x \<in> Z. tier g x < t \<longrightarrow> map_of F x = map_of d' x)
          \<and> mgetd [] (GroupsByTier tp) t = mgetd [] (GroupsByTier tp0) t @ BuildTierGroups g zone t opts d'
          \<and> (\<forall>gr \<in> set (BuildTierGroups g zone t opts d'). \<forall>m \<in> set (Group_Members gr). map_of F m = Some (Group_Name gr))"
    if "t \<in> tier g ` Z" "t \<noteq> 0" for t
    using inv that unfolding zoneInv_def prod.case by (elim conjE) (drule (1) bspec, drule (1) mp)
  have 1: "map_of F p = map_of F q" if t: "t \<noteq> 0" and pq: "(p, q) \<in> shareLower g Z t F" for t p q
  proof -
    have p: "p \<in> Z" "tier g p = t" using pq by (auto simp: shareLower_def)
    then obtain d' where d': "\<forall>x \<in> Z. tier g x < t \<longrightarrow> map_of F x = map_of d' x"
      "\<forall>gr \<in> set (BuildTierGroups g zone t opts d'). \<forall>m \<in> set (Group_Members gr). map_of F m = Some (Group_Name gr)"
      using I[of t] t by blast
    have "shareLower g Z t F = shareLower g Z t d'" by (rule shareLower_cong) (use d'(1) in auto)
    then have q: "q \<in> groupClass g Z t d' p" using pq by (auto simp: groupClass_def)
    have "p \<in> set (concat (map Group_Members (BuildTierGroups g zone t opts d')))"
      unfolding BuildTierGroups_classes(2)[OF z] using p by simp
    then obtain gr where gr: "gr \<in> set (BuildTierGroups g zone t opts d')" "p \<in> set (Group_Members gr)" by auto
    then have "q \<in> set (Group_Members gr)" using BuildTierGroups_same[OF z gr] q by simp
    then show ?thesis using d'(2) gr by simp
  qed
  have 2: "map_of F m = Some (Group_Name gr) \<and> tier g m = t"
    if a: "t \<noteq> 0" "gr \<in> set (mgetd [] (GroupsByTier tp) t)" "m \<in> set (Group_Members gr)" "m \<in> Z" for t gr m
  proof -
    have new: "gr \<notin> set (mgetd [] (GroupsByTier tp0) t)" using old a(3,4) by blast
    then have t: "t \<in> tier g ` Z" using inv a(1,2) by (auto simp: zoneInv_def)
    obtain d' where d': "mgetd [] (GroupsByTier tp) t = mgetd [] (GroupsByTier tp0) t @ BuildTierGroups g zone t opts d'"
      "\<forall>gr \<in> set (BuildTierGroups g zone t opts d'). \<forall>m \<in> set (Group_Members gr). map_of F m = Some (Group_Name gr)"
      using I[OF t a(1)] by blast
    then have "gr \<in> set (BuildTierGroups g zone t opts d')" using a(2) new by auto
    then show ?thesis using d'(2) member_tier[OF z _ a(3)] a(3) by blast
  qed
  have 3: "\<exists>gr \<in> set (nonzeroGroups tp). p \<in> set (Group_Members gr)" if p: "p \<in> Z" "tier g p \<noteq> 0" for p
  proof -
    obtain d' where d': "mgetd [] (GroupsByTier tp) (tier g p)
        = mgetd [] (GroupsByTier tp0) (tier g p) @ BuildTierGroups g zone (tier g p) opts d'"
      using I[of "tier g p"] p by blast
    have "p \<in> set (concat (map Group_Members (BuildTierGroups g zone (tier g p) opts d')))"
      unfolding BuildTierGroups_classes(2)[OF z] using p by simp
    then obtain gr where "gr \<in> set (BuildTierGroups g zone (tier g p) opts d')" "p \<in> set (Group_Members gr)" by auto
    moreover from this have "gr \<in> set (nonzeroGroups tp)"
      unfolding set_nonzeroGroups using d' p(2) by (intro exI[of _ "tier g p"]) simp
    ultimately show ?thesis by blast
  qed
  show ?thesis unfolding parentOk_def using 1 2 3 by blast
qed

lemma deviceIndex_parentOk:
  assumes z: "zoneOk g Z zone" and ok: "parentOk g Z tp F" and p: "p \<in> Z" "tier g p \<noteq> 0"
  shows "map_of (buildDeviceToGroupIndex zone tp) p = map_of F p" "map_of F p \<noteq> None"
proof -
  have F: "map_of F m = Some (Group_Name gr)" if "gr \<in> set (nonzeroGroups tp)" "m \<in> set (Group_Members gr)" "m \<in> Z" for gr m
    using that ok unfolding set_nonzeroGroups parentOk_def by blast
  obtain gr where gr: "gr \<in> set (nonzeroGroups tp)" "p \<in> set (Group_Members gr)" using ok p unfolding parentOk_def by blast
  then have Fp: "map_of F p = Some (Group_Name gr)" using F p(1) by blast
  then show "map_of F p \<noteq> None" by simp
  have "the (map_of F m) = Group_Name gr'" if "gr' \<in> set (nonzeroGroups tp)" "m \<in> set (Group_Members gr')" "m \<in> keyset (Zone_Devices zone)" for gr' m
    using F[OF that(1,2)] that(3) zoneOkD(7)[OF z] by simp
  from deviceIndex_fold[of "nonzeroGroups tp" zone "\<lambda>m. the (map_of F m)", OF this]
  show "map_of (buildDeviceToGroupIndex zone tp) p = map_of F p"
    unfolding buildDeviceToGroupIndex_flat using gr p(1) zoneOkD(7)[OF z] Fp by auto
qed

subsection \<open>One parent\<close>

definition singleParents :: "Topology \<Rightarrow> bool" where
  "singleParents tp \<longleftrightarrow> (\<forall>n ps. map_of (ParentIndex tp) n = Some ps \<longrightarrow> length ps = 1)"

definition oneKey :: "string \<Rightarrow> boolmap \<Rightarrow> bool" where
  "oneKey c m \<longleftrightarrow> m = [] \<or> m = [(c, True)]"

lemma oneKey_mput: "oneKey c m \<Longrightarrow> oneKey c (mput c True m)"
  by (auto simp: oneKey_def mput_def)

lemma singleParents_setParents:
  "singleParents tp \<Longrightarrow> oneKey c ps \<Longrightarrow> singleParents (setParents n ps tp)"
  by (auto simp: singleParents_def oneKey_def setParents_def sortedBoolKeys_def mkeys_def)

lemma GroupsByTier_setParents [simp]: "GroupsByTier (setParents n ps tp) = GroupsByTier tp"
  by (simp add: setParents_def)

lemma deviceParent_oneKey:
  assumes z: "zoneOk g Z zone" and wf: "wfGraph g" and zn: "Z \<subseteq> names g"
    and c: "\<And>n. n \<in> set ns \<Longrightarrow> n \<in> Z \<Longrightarrow> tier g n = Device_Tier child + 1 \<Longrightarrow> groupNameOfDevice n D = c"
    and m: "oneKey c m"
  shows "oneKey c (fold (deviceParent zone D child) ns m)"
proof (rule fold_invariant[where P = "oneKey c", OF m])
  fix n m assume n: "n \<in> set ns" "oneKey c m"
  have "Device_Name (getDevice g n) = n" if "n \<in> Z"
    using that zn wf map_of_getDevice[of n g] by (auto simp: wfGraph_def wfDevices_def)
  then show "oneKey c (deviceParent zone D child n m)"
    using n c[of n] oneKey_mput[of c m]
    by (auto simp: deviceParent_def zoneOkD(1)[OF z] groupNameOfDevice_def Let_def split: option.splits)
qed

lemma groupParent_oneKey:
  assumes z: "zoneOk g Z zone" and wf: "wfGraph g" and zn: "Z \<subseteq> names g"
    and c: "\<And>n. n \<in> set ns \<Longrightarrow> n \<in> Z \<Longrightarrow> tier g n = Device_Tier child + 1 \<Longrightarrow> groupNameOfDevice n D = c"
    and m: "oneKey c m"
  shows "oneKey c (fold (groupParent zone D grp child) ns m)"
proof (rule fold_invariant[where P = "oneKey c", OF m])
  fix n m assume n: "n \<in> set ns" "oneKey c m"
  have "Device_Name (getDevice g n) = n" if "n \<in> Z"
    using that zn wf map_of_getDevice[of n g] by (auto simp: wfGraph_def wfDevices_def)
  then show "oneKey c (groupParent zone D grp child n m)"
    using n c[of n] oneKey_mput[of c m]
    by (auto simp: groupParent_def zoneOkD(1)[OF z] groupNameOfDevice_def Let_def split: option.splits)
qed

text \<open>Two devices above the same lower group have the same name in the index.\<close>

lemma parent_unique:
  assumes z: "zoneOk g Z zone" and ok: "parentOk g Z tp F" and t: "t \<noteq> 0"
    and p: "p \<in> Z" "tier g p = t" "lowerNbr g Z t p x" and q: "q \<in> Z" "tier g q = t" "lowerNbr g Z t q y"
    and xy: "groupNameOfDevice x F = groupNameOfDevice y F"
  shows "groupNameOfDevice p (buildDeviceToGroupIndex zone tp) = groupNameOfDevice q (buildDeviceToGroupIndex zone tp)"
proof -
  have "(p, q) \<in> shareLower g Z t F" using p q xy unfolding shareLower_def by blast
  then have "map_of F p = map_of F q" using ok t unfolding parentOk_def by blast
  then show ?thesis
    using deviceIndex_parentOk[OF z ok p(1)] deviceIndex_parentOk[OF z ok q(1)] t p(2) q(2)
    by (auto simp: groupNameOfDevice_def)
qed

lemma device_oneKey:
  assumes z: "zoneOk g Z zone" and ok: "parentOk g Z tp F" and wf: "wfGraph g" and zn: "Z \<subseteq> names g"
    and x: "x \<in> Z" "tier g x \<ge> 0"
  shows "\<exists>c. oneKey c (fold (deviceParent zone (buildDeviceToGroupIndex zone tp) (getDevice g x)) (nbrsOf (Adj g) x) [])"
proof -
  let ?D = "buildDeviceToGroupIndex zone tp"
  have "\<exists>c. \<forall>n. n \<in> set (nbrsOf (Adj g) x) \<and> n \<in> Z \<and> tier g n = tier g x + 1 \<longrightarrow> groupNameOfDevice n ?D = c"
  proof -
    have "groupNameOfDevice n ?D = groupNameOfDevice n' ?D"
      if "edge g x n" "n \<in> Z" "tier g n = tier g x + 1" "edge g x n'" "n' \<in> Z" "tier g n' = tier g x + 1" for n n'
      using that x wfGraph_sym[OF wf, of x] by (intro parent_unique[OF z ok, of "tier g x + 1" n x n' x]) (auto simp: lowerNbr_def)
    then show ?thesis by simp metis
  qed
  then obtain c where c: "\<And>n. n \<in> set (nbrsOf (Adj g) x) \<Longrightarrow> n \<in> Z \<Longrightarrow> tier g n = tier g x + 1 \<Longrightarrow> groupNameOfDevice n ?D = c"
    by blast
  have "oneKey c (fold (deviceParent zone ?D (getDevice g x)) (nbrsOf (Adj g) x) [])"
    by (rule deviceParent_oneKey[OF z wf zn]) (use c in \<open>simp_all add: oneKey_def\<close>)
  then show ?thesis ..
qed

lemma group_oneKey:
  assumes z: "zoneOk g Z zone" and ok: "parentOk g Z tp F" and wf: "wfGraph g" and zn: "Z \<subseteq> names g"
    and pos: "\<And>x. x \<in> Z \<Longrightarrow> tier g x \<ge> 0" and gr: "gr \<in> set (nonzeroGroups tp)"
  shows "\<exists>c. oneKey c (groupParentSet g zone (buildDeviceToGroupIndex zone tp) gr)"
proof -
  let ?D = "buildDeviceToGroupIndex zone tp"
  have mem: "\<exists>t. \<forall>m. m \<in> set (Group_Members gr) \<and> m \<in> Z \<longrightarrow> groupNameOfDevice m F = Group_Name gr \<and> tier g m = t"
  proof -
    obtain t where "t \<noteq> 0" "gr \<in> set (mgetd [] (GroupsByTier tp) t)" using gr unfolding set_nonzeroGroups by blast
    then show ?thesis using ok unfolding parentOk_def groupNameOfDevice_def by (intro exI[of _ t]) fastforce
  qed
  then obtain t where t: "\<And>m. m \<in> set (Group_Members gr) \<Longrightarrow> m \<in> Z \<Longrightarrow> groupNameOfDevice m F = Group_Name gr \<and> tier g m = t"
    by blast
  have "groupNameOfDevice n ?D = groupNameOfDevice n' ?D"
    if "m \<in> set (Group_Members gr)" "m \<in> Z" "edge g m n" "n \<in> Z" "tier g n = tier g m + 1"
      "m' \<in> set (Group_Members gr)" "m' \<in> Z" "edge g m' n'" "n' \<in> Z" "tier g n' = tier g m' + 1" for m n m' n'
    using that t[of m] t[of m'] pos[of m] wfGraph_sym[OF wf, of m] wfGraph_sym[OF wf, of m']
    by (intro parent_unique[OF z ok, of "tier g m + 1" n m n' m']) (auto simp: lowerNbr_def)
  then have "\<exists>c. \<forall>m n. m \<in> set (Group_Members gr) \<and> m \<in> Z \<and> edge g m n \<and> n \<in> Z \<and> tier g n = tier g m + 1
      \<longrightarrow> groupNameOfDevice n ?D = c"
    by metis
  then obtain c where c: "\<And>m n. m \<in> set (Group_Members gr) \<Longrightarrow> m \<in> Z \<Longrightarrow> edge g m n \<Longrightarrow> n \<in> Z
      \<Longrightarrow> tier g n = tier g m + 1 \<Longrightarrow> groupNameOfDevice n ?D = c" by blast
  have "oneKey c (groupParentSet g zone ?D gr)"
    unfolding groupParentSet_def
  proof (rule fold_invariant[where P = "oneKey c"])
    fix m ps assume m: "m \<in> set (Group_Members gr)" "oneKey c ps"
    show "oneKey c (case map_of (Zone_Devices zone) m of None \<Rightarrow> ps
        | Some d \<Rightarrow> fold (groupParent zone ?D gr d) (nbrsOf (Adj g) m) ps)"
    proof (cases "m \<in> Z")
      case True
      have "oneKey c (fold (groupParent zone ?D gr (getDevice g m)) (nbrsOf (Adj g) m) ps)"
        by (rule groupParent_oneKey[OF z wf zn _ m(2)]) (use c[OF m(1) True] in simp)
      then show ?thesis using True by (simp add: zoneOkD(1)[OF z])
    qed (use m(2) in \<open>simp add: zoneOkD(1)[OF z]\<close>)
  qed (simp add: oneKey_def)
  then show ?thesis ..
qed

lemma buildGroupParentIndex_flat:
  "buildGroupParentIndex g zone D tp
   = fold (\<lambda>grp. setParents (Group_Name grp) (groupParentSet g zone D grp)) (nonzeroGroups tp) tp"
proof -
  let ?f = "\<lambda>grp. setParents (Group_Name grp) (groupParentSet g zone D grp)"
  have G: "GroupsByTier (fold ?f gs tp') = GroupsByTier tp'" for gs tp'
    by (induction gs arbitrary: tp') simp_all
  have "fold (\<lambda>t topo. if t = 0 then topo else fold ?f (mgetd [] (GroupsByTier topo) t) topo) ts tp'
      = fold (\<lambda>t topo. if t = 0 then topo else fold ?f (mgetd [] (GroupsByTier tp) t) topo) ts tp'"
    if "GroupsByTier tp' = GroupsByTier tp" for ts tp'
    using that by (induction ts arbitrary: tp') (simp_all add: G)
  then show ?thesis unfolding buildGroupParentIndex_def nonzeroGroups_def fold_nonzero[symmetric] by simp
qed

lemma BuildParentIndexForZone_single:
  assumes z: "zoneOk g Z zone" and ok: "parentOk g Z tp F" and wf: "wfGraph g" and zn: "Z \<subseteq> names g"
    and pos: "\<And>x. x \<in> Z \<Longrightarrow> tier g x \<ge> 0" and one: "singleParents tp"
  shows "singleParents (BuildParentIndexForZone g zone tp)"
    "GroupsByTier (BuildParentIndexForZone g zone tp) = GroupsByTier tp"
proof -
  let ?D = "buildDeviceToGroupIndex zone tp"
  let ?tp = "buildDeviceParentIndex g zone ?D tp"
  let ?P = "\<lambda>tp'. singleParents tp' \<and> GroupsByTier tp' = GroupsByTier tp"
  have 1: "?P ?tp" unfolding buildDeviceParentIndex_def
  proof (rule fold_invariant[where P = ?P])
    fix x tp' assume x: "x \<in> set (sortedDeviceNames (Zone_Devices zone))" and tp': "?P tp'"
    then have xZ: "x \<in> Z" using zoneOkD(7)[OF z] by simp
    then show "?P ((let child = mgetd zeroDevice (Zone_Devices zone) x;
           parentSet = fold (deviceParent zone ?D child) (nbrsOf (Adj g) x) [] in setParents x parentSet) tp')"
      using device_oneKey[OF z ok wf zn xZ pos[OF xZ]] tp' singleParents_setParents
      by (auto simp: Let_def zoneOkD(2)[OF z])
  qed (use one in simp)
  have G: "nonzeroGroups ?tp = nonzeroGroups tp" unfolding nonzeroGroups_def 1[THEN conjunct2] ..
  have "?P (fold (\<lambda>grp. setParents (Group_Name grp) (groupParentSet g zone ?D grp)) (nonzeroGroups tp) ?tp)"
  proof (rule fold_invariant[where P = ?P, OF 1])
    fix gr tp' assume gr: "gr \<in> set (nonzeroGroups tp)" and tp': "?P tp'"
    obtain c where "oneKey c (groupParentSet g zone ?D gr)" using group_oneKey[OF z ok wf zn _ gr] pos by blast
    then show "?P (setParents (Group_Name gr) (groupParentSet g zone ?D gr) tp')"
      using tp' singleParents_setParents by simp
  qed
  moreover have "buildGroupParentIndex g zone ?D ?tp
      = fold (\<lambda>grp. setParents (Group_Name grp) (groupParentSet g zone ?D grp)) (nonzeroGroups tp) ?tp"
    using buildGroupParentIndex_flat[of g zone ?D ?tp] G by simp
  ultimately show "singleParents (BuildParentIndexForZone g zone tp)"
    "GroupsByTier (BuildParentIndexForZone g zone tp) = GroupsByTier tp"
    by (simp_all add: BuildParentIndexForZone_def Let_def)
qed

text \<open>After the zones that cover \<open>S\<close>: one parent each, and every group has its members in \<open>S\<close>.\<close>

definition topoInv :: "TopologyGraph \<Rightarrow> string set \<Rightarrow> Topology \<Rightarrow> bool" where
  "topoInv g S tp \<longleftrightarrow> singleParents tp
     \<and> (\<forall>t gr. gr \<in> set (mgetd [] (GroupsByTier tp) t) \<longrightarrow> set (Group_Members gr) \<subseteq> S \<and> t \<noteq> 0)
     \<and> (\<forall>t. distinct (concat (map Group_Members (mgetd [] (GroupsByTier tp) t)))
         \<and> set (concat (map Group_Members (mgetd [] (GroupsByTier tp) t))) = {n \<in> S. tier g n = t \<and> t \<noteq> 0})"

lemma topoInv_buildZone:
  assumes wf: "wfGraph g" and z: "set zs \<subseteq> names g" "\<And>x. x \<in> set zs \<Longrightarrow> tier g x \<ge> 0"
    and inv: "topoInv g S tp" and dj: "S \<inter> set zs = {}"
  shows "topoInv g (S \<union> set zs) (buildZone g opts zs tp)"
proof -
  let ?Z = "set zs" and ?zone = "BuildZoneDeviceView g zs"
  note zo = zoneOk_BuildZoneDeviceView[of g zs]
  obtain tp1 F where f: "fold (buildZoneTier g opts ?zone) (sortedTierKeys (DevicesByTier ?zone)) (tp, hostGroups ?zone) = (tp1, F)"
    by force
  have "zoneInv g opts ?Z ?zone tp {} (tp, hostGroups ?zone)" by (simp add: zoneInv_def)
  from zoneInv_fold[OF zo this sorted_sortedTierKeys(1) sorted_sortedTierKeys(2)[OF zoneOkD(6)[OF zo]]]
  have I: "zoneInv g opts ?Z ?zone tp (tier g ` ?Z) (tp1, F)" using f zoneOkD(5)[OF zo] by simp
  have old: "set (Group_Members gr) \<inter> ?Z = {}" if "gr \<in> set (mgetd [] (GroupsByTier tp) t)" for t gr
    using that inv dj unfolding topoInv_def by blast
  have ok: "parentOk g ?Z tp1 F" by (rule zoneInv_parentOk[OF zo I]) (erule old)
  have one: "singleParents tp1" using I inv by (simp add: zoneInv_def topoInv_def singleParents_def)
  have B: "singleParents (BuildParentIndexForZone g ?zone tp1)"
    "GroupsByTier (BuildParentIndexForZone g ?zone tp1) = GroupsByTier tp1"
    by (rule BuildParentIndexForZone_single[OF zo ok wf z(1) _ one], erule z(2))+
  have eq: "buildZone g opts zs tp = BuildParentIndexForZone g ?zone tp1" by (simp add: buildZone_def f Let_def)
  have new: "\<exists>gs. mgetd [] (GroupsByTier tp1) t = mgetd [] (GroupsByTier tp) t @ gs
      \<and> distinct (concat (map Group_Members gs)) \<and> set (concat (map Group_Members gs)) = {n \<in> ?Z. tier g n = t \<and> t \<noteq> 0}" for t
  proof (cases "t \<in> tier g ` ?Z \<and> t \<noteq> 0")
    case True
    then obtain d' where "mgetd [] (GroupsByTier tp1) t = mgetd [] (GroupsByTier tp) t @ BuildTierGroups g ?zone t opts d'"
      using I unfolding zoneInv_def prod.case by blast
    then show ?thesis using BuildTierGroups_classes(1,2)[OF zo, of t opts d'] True by auto
  next
    case False
    then have "mgetd [] (GroupsByTier tp1) t = mgetd [] (GroupsByTier tp) t" using I by (auto simp: zoneInv_def)
    then show ?thesis using False by (intro exI[of _ "[]"]) auto
  qed
  have "set (Group_Members gr) \<subseteq> S \<union> ?Z \<and> t \<noteq> 0" if gr: "gr \<in> set (mgetd [] (GroupsByTier tp1) t)" for t gr
  proof (cases "gr \<in> set (mgetd [] (GroupsByTier tp) t)")
    case True
    then show ?thesis using inv by (auto simp: topoInv_def)
  next
    case False
    then have "t \<in> tier g ` ?Z \<and> t \<noteq> 0" using gr I by (auto simp: zoneInv_def)
    then show ?thesis using new[of t] gr False by auto
  qed
  moreover have "distinct (concat (map Group_Members (mgetd [] (GroupsByTier tp1) t)))
      \<and> set (concat (map Group_Members (mgetd [] (GroupsByTier tp1) t))) = {n \<in> S \<union> ?Z. tier g n = t \<and> t \<noteq> 0}" for t
  proof -
    have "distinct (concat (map Group_Members (mgetd [] (GroupsByTier tp) t)))"
      "set (concat (map Group_Members (mgetd [] (GroupsByTier tp) t))) = {n \<in> S. tier g n = t \<and> t \<noteq> 0}"
      using inv by (simp_all add: topoInv_def)
    moreover obtain gs where "mgetd [] (GroupsByTier tp1) t = mgetd [] (GroupsByTier tp) t @ gs"
      "distinct (concat (map Group_Members gs))" "set (concat (map Group_Members gs)) = {n \<in> ?Z. tier g n = t \<and> t \<noteq> 0}"
      using new by blast
    ultimately show ?thesis using dj by (auto simp del: set_concat)
  qed
  ultimately show ?thesis unfolding topoInv_def eq B(2) by (intro conjI allI impI B(1)) simp_all
qed

lemma topoInv_zones:
  assumes wf: "wfGraph g" and "topoInv g S tp" "distinct (concat zss)" "S \<inter> set (concat zss) = {}"
    and "\<And>x. x \<in> set (concat zss) \<Longrightarrow> x \<in> names g \<and> tier g x \<ge> 0"
  shows "topoInv g (S \<union> set (concat zss)) (fold (buildZone g opts) zss tp)"
  using assms(2-)
proof (induction zss arbitrary: S tp)
  case (Cons zs zss)
  have "topoInv g (S \<union> set zs) (buildZone g opts zs tp)"
    using Cons.prems by (intro topoInv_buildZone[OF wf]) auto
  moreover have "(S \<union> set zs) \<inter> set (concat zss) = {}" using Cons.prems(2,3) by auto
  ultimately have "topoInv g ((S \<union> set zs) \<union> set (concat zss)) (fold (buildZone g opts) zss (buildZone g opts zs tp))"
    using Cons.prems by (intro Cons.IH) auto
  then show ?case by (simp add: Un_assoc)
qed simp

subsection \<open>The whole pipeline\<close>

lemma host_or_switch:
  assumes "n \<in> names (BuildTopologyGraph hosts switches)" "\<not> isSwitch (BuildTopologyGraph hosts switches) n"
  shows "isHost (BuildTopologyGraph hosts switches) n"
  using assms by (auto simp: names_BuildTopologyGraph isSwitch_BuildTopologyGraph getDevice_def mgetd_def
      Devices_BuildTopologyGraph map_of_deviceGraph)

lemma reach_host:
  assumes g: "wfGraph g" "\<And>n. tier g n = inferredTier (BuildTopologyGraph hosts switches) n"
    "\<And>n. Device_Type (getDevice g n) = Device_Type (getDevice (BuildTopologyGraph hosts switches) n)"
    "\<And>a b. edge g a b \<longleftrightarrow> edge (BuildTopologyGraph hosts switches) a b \<and> tierStep g a b"
    and n: "tier g n = int k + 1"
  shows "\<exists>h. isHost g h \<and> (h, n) \<in> connected g"
  using n
proof (induction k arbitrary: n)
  let ?b = "BuildTopologyGraph hosts switches"
  have down: "\<exists>p. edge g n p \<and> tier g p = tier g n - 1" if "tier g n \<ge> 1" for n
  proof -
    have sw: "isSwitch ?b n" using that g(2)[of n] tier_BuildTopologyGraph(2)[of hosts switches n]
      by (cases "isSwitch ?b n") (simp_all add: inferredTier_def)
    have "tier ?b h = 0" if "isHost ?b h" for h using that tier_BuildTopologyGraph(2)[of hosts switches h] by simp
    then have "\<exists>p. edge ?b n p \<and> inferredTier ?b p = inferredTier ?b n - 1"
      using inferredTier_down[OF wfGraph_BuildTopologyGraph _ sw] that g(2) by auto
    then show ?thesis using that g(2,4) by (auto simp: tierStep_def)
  qed
  { case 0
    then obtain p where p: "edge g n p" "tier g p = 0" using down[of n] by auto
    then have "p \<in> names ?b" using wfGraph_edge[OF wfGraph_BuildTopologyGraph] g(4) by blast
    moreover have "\<not> isSwitch ?b p" using p(2) g(2)[of p] by (auto simp: inferredTier_def split: if_splits)
    ultimately have "isHost g p" using host_or_switch g(3) by simp
    then show ?case using p(1) wfGraph_sym[OF g(1), of n p] by (auto simp: connected_def)
  next
    case (Suc k)
    then obtain p where p: "edge g n p" "tier g p = int k + 1" using down[of n] by auto
    then obtain h where "isHost g h" "(h, p) \<in> connected g" using Suc.IH by blast
    then show ?case using p(1) wfGraph_sym[OF g(1), of n p] by (auto simp: connected_def intro: rtrancl_into_rtrancl)
  }
qed

lemma zone_tier:
  assumes "wfGraph g" "isHost g h" "tier g h = 0" "(h, n) \<in> connected g" "\<And>a b. edge g a b \<Longrightarrow> tierStep g a b"
  shows "n \<in> names g \<and> tier g n \<ge> 0"
proof
  show "n \<in> names g" using connected_names[OF assms(1,4)] isHost_names[OF assms(2)] by simp
  show "tier g n \<ge> 0" using assms(4) unfolding connected_def
    by (cases rule: rtranclE) (use assms(3,5) in \<open>auto simp: tierStep_def\<close>)
qed

lemma GroupsByTier_prefix:
  "GroupsByTier (fold addDeviceNode ds tp) = GroupsByTier tp"
  "ParentIndex (fold addDeviceNode ds tp) = ParentIndex tp"
  by (induction ds arbitrary: tp) (auto simp: addDeviceNode_def)

lemma DiscoverTopology_inv:
  "\<exists>g tp. DiscoverTopology hosts switches options = Some (tp\<lparr>NodesByTier := sortNodesByTier (NodesByTier tp),
        GroupsByTier := sortGroupsByTier (GroupsByTier tp)\<rparr>)
    \<and> topoInv g {n. \<exists>h. isHost g h \<and> (h, n) \<in> connected g} tp
    \<and> (\<forall>k. {n. (\<exists>h. isHost g h \<and> (h, n) \<in> connected g) \<and> tier g n = k \<and> k \<noteq> 0}
       = {n. k \<ge> 1 \<and> inferredTier (BuildTopologyGraph hosts switches) n = k})"
proof -
  let ?b = "BuildTopologyGraph hosts switches"
  obtain g where g: "tieredGraph hosts switches = Some g" "wfGraph g" "\<And>n. tier g n = inferredTier ?b n"
    "\<And>n. Device_Type (getDevice g n) = Device_Type (getDevice ?b n)"
    "\<And>a b. edge g a b \<longleftrightarrow> edge ?b a b \<and> tierStep g a b" using tieredGraph_total[of hosts switches] by blast
  let ?S = "{n. \<exists>h. isHost g h \<and> (h, n) \<in> connected g}"
  let ?opts = "fold (\<lambda>option. option) options defaultDiscoverOptions"
  define tp0 where "tp0 = (let topology1 = fold addDeviceNode (Devices g) emptyTopology;
          topology2 = topology1\<lparr>NodesByTier := sortNodesByTier (NodesByTier topology1)\<rparr>
      in topology2\<lparr>Topo_Edges := Topo_Edges topology2 @ physicalEdges (Adj g)\<rparr>)"
  define tp where "tp = fold (buildZone g ?opts) (CollectConnectedZones g) tp0"
  have h0: "tier g h = 0" if "isHost g h" for h
    using that g(3,4) tier_BuildTopologyGraph(2)[of hosts switches h] by (simp add: inferredTier_def)
  have zt: "n \<in> names g \<and> tier g n \<ge> 0" if "n \<in> ?S" for n
    using that zone_tier[OF g(2) _ h0] g(5) by blast
  have S: "set (concat (CollectConnectedZones g)) = ?S" using CollectConnectedZones_set[OF g(2)] .
  have "topoInv g {} tp0"
    by (simp add: topoInv_def tp0_def Let_def GroupsByTier_prefix singleParents_def emptyTopology_def)
  then have inv: "topoInv g ({} \<union> set (concat (CollectConnectedZones g))) tp"
    unfolding tp_def by (rule topoInv_zones[OF g(2) _ CollectConnectedZones_inv(1)[OF g(2)]])
      (simp, use zt S in blast)
  have "DiscoverTopology hosts switches options = Some (tp\<lparr>NodesByTier := sortNodesByTier (NodesByTier tp),
        GroupsByTier := sortGroupsByTier (GroupsByTier tp)\<rparr>)"
    by (simp add: DiscoverTopology_def g(1) BuildTopology_def Let_def tp_def tp0_def)
  moreover have "{n. (\<exists>h. isHost g h \<and> (h, n) \<in> connected g) \<and> tier g n = k \<and> k \<noteq> 0}
       = {n. k \<ge> 1 \<and> inferredTier ?b n = k}" for k
  proof -
    have "\<exists>h. isHost g h \<and> (h, n) \<in> connected g" if "tier g n = k" "k \<ge> 1" for n
      using reach_host[OF g(2-5), of n "nat (k - 1)"] that by simp
    moreover have "k \<ge> 0" if "n \<in> ?S" "tier g n = k" for n using zt[OF that(1)] that(2) by simp
    ultimately show ?thesis using g(3) by force
  qed
  ultimately show ?thesis using inv S by (intro exI[of _ g] exI[of _ tp]) simp
qed

lemma mset_concat_map_sort_key: "mset (concat (map f (sort_key k xs))) = mset (concat (map f xs))"
proof -
  have "mset (concat (map f ys)) = (\<Sum>x\<in>#mset ys. mset (f x))" for ys by (induction ys) simp_all
  then show ?thesis by simp
qed

text \<open>
  C1: discovery returns a topology for every input, and in its parent index every device
  and every group has at most one parent, whatever the naming mode, so the groups form a forest.
\<close>

theorem DiscoverTopology_forest:
  "\<exists>t. DiscoverTopology hosts switches options = Some t \<and> (\<forall>n. length (QueryParents t n) \<le> 1)"
proof -
  obtain g tp where d: "DiscoverTopology hosts switches options = Some (tp\<lparr>NodesByTier := sortNodesByTier (NodesByTier tp),
        GroupsByTier := sortGroupsByTier (GroupsByTier tp)\<rparr>)"
    and i: "topoInv g {n. \<exists>h. isHost g h \<and> (h, n) \<in> connected g} tp"
    using DiscoverTopology_inv[of hosts switches options] by (elim exE conjE) (rule that, (assumption | erule spec)+)
  have "length (mgetd [] (ParentIndex tp) n) \<le> 1" for n
    using i unfolding topoInv_def singleParents_def by (cases "map_of (ParentIndex tp) n") simp_all
  then show ?thesis using d by (simp add: QueryParents_def)
qed

text \<open>
  C2: the groups that discovery reports for a tier partition the switches with that inferred
  tier. Every switch with a tier is in exactly one group of its tier, and no other device is in any group.
\<close>

theorem DiscoverTopology_groups:
  "\<exists>t. DiscoverTopology hosts switches options = Some t
     \<and> (\<forall>k. distinct (concat (map Group_Members (mgetd [] (GroupsByTier t) k)))
        \<and> set (concat (map Group_Members (mgetd [] (GroupsByTier t) k)))
            = {n. k \<ge> 1 \<and> inferredTier (BuildTopologyGraph hosts switches) n = k})"
proof -
  obtain g tp where d: "DiscoverTopology hosts switches options = Some (tp\<lparr>NodesByTier := sortNodesByTier (NodesByTier tp),
        GroupsByTier := sortGroupsByTier (GroupsByTier tp)\<rparr>)"
    and i: "topoInv g {n. \<exists>h. isHost g h \<and> (h, n) \<in> connected g} tp"
    and k: "\<And>k. {n. (\<exists>h. isHost g h \<and> (h, n) \<in> connected g) \<and> tier g n = k \<and> k \<noteq> 0}
       = {n. k \<ge> 1 \<and> inferredTier (BuildTopologyGraph hosts switches) n = k}"
    using DiscoverTopology_inv[of hosts switches options] by (elim exE conjE) (rule that, (assumption | erule spec)+)
  have s: "mgetd [] (sortGroupsByTier (GroupsByTier tp)) k = sort_key Group_Name (mgetd [] (GroupsByTier tp) k)" for k
    by (simp add: sortGroupsByTier_def mgetd_map_snd)
  have "distinct (concat (map Group_Members (mgetd [] (GroupsByTier tp) k)))
      \<and> set (concat (map Group_Members (mgetd [] (GroupsByTier tp) k)))
          = {n. k \<ge> 1 \<and> inferredTier (BuildTopologyGraph hosts switches) n = k}" for k
    using i k[of k] unfolding topoInv_def by simp
  then have "distinct (concat (map Group_Members (sort_key Group_Name (mgetd [] (GroupsByTier tp) k))))
      \<and> set (concat (map Group_Members (sort_key Group_Name (mgetd [] (GroupsByTier tp) k))))
          = {n. k \<ge> 1 \<and> inferredTier (BuildTopologyGraph hosts switches) n = k}" for k
    using mset_concat_map_sort_key[of Group_Members Group_Name "mgetd [] (GroupsByTier tp) k"]
    by (metis mset_eq_imp_distinct_iff set_mset_mset)
  then show ?thesis using d s by simp
qed

lemma parentChainLoop_path:
  assumes "distinct result" "set result = trueKeys seen" "\<And>i. i < length result \<Longrightarrow>
      mgetd [] idx ((name # result) ! i) \<noteq> [] \<and> hd (mgetd [] idx ((name # result) ! i)) = result ! i"
    "current = last (name # result)"
  shows "let chain = parentChainLoop idx seen result current in
    distinct chain \<and> (\<forall>i < length chain. mgetd [] idx ((name # chain) ! i) \<noteq> []
      \<and> hd (mgetd [] idx ((name # chain) ! i)) = chain ! i)
    \<and> (mgetd [] idx (last (name # chain)) = [] \<or> hd (mgetd [] idx (last (name # chain))) \<in> set chain)"
  using assms
proof (induction idx seen result current rule: parentChainLoop.induct)
  case (1 idx seen result current)
  show ?case
  proof (cases "mgetd [] idx current")
    case Nil
    then show ?thesis using 1(2-) by (simp add: parentChainLoop.simps)
  next
    case (Cons p ps)
    show ?thesis
    proof (cases "mgetd False seen p")
      case True
      then have "p \<in> set result" using 1(3) by auto
      then show ?thesis using 1(2-) Cons True by (simp add: parentChainLoop.simps)
    next
      case False
      have new: "mgetd [] idx ((name # result @ [p]) ! i) \<noteq> []
          \<and> hd (mgetd [] idx ((name # result @ [p]) ! i)) = (result @ [p]) ! i" if "i < length (result @ [p])" for i
      proof (cases "i < length result")
        case True
        then show ?thesis using 1(4)[OF True] by (simp add: nth_append nth_Cons split: nat.splits)
      next
        case False
        then have i: "i = length result" using that by simp
        then have "(name # result @ [p]) ! i = current"
          using 1(5) by (cases result rule: rev_cases) (simp_all add: nth_append)
        then show ?thesis using Cons i by simp
      qed
      have "parentChainLoop idx seen result current = parentChainLoop idx (mput p True seen) (result @ [p]) p"
        using Cons False by (simp add: parentChainLoop.simps)
      moreover have "p \<notin> set result" using False 1(3) by auto
      moreover have "set (result @ [p]) = trueKeys (mput p True seen)" unfolding trueKeys_mput using 1(3) by auto
      ultimately show ?thesis using 1(1)[OF Cons False _ _ new] 1(2) by simp
    qed
  qed
qed

text \<open>
  C8: the parent chain of a name follows the first parent at every step, visits no name
  twice, and stops only where there is no parent or where the next parent is already on the chain. The
  loop ends for every index, also one with cycles.
\<close>

theorem QueryParentChain_path:
  "distinct (QueryParentChain t name)
   \<and> list_all (\<lambda>i. QueryParents t ((name # QueryParentChain t name) ! i) \<noteq> []
        \<and> hd (QueryParents t ((name # QueryParentChain t name) ! i)) = QueryParentChain t name ! i)
       [0..<length (QueryParentChain t name)]
   \<and> (QueryParents t (last (name # QueryParentChain t name)) = []
      \<or> hd (QueryParents t (last (name # QueryParentChain t name))) \<in> set (QueryParentChain t name))"
  using parentChainLoop_path[of "[]" "[]" "ParentIndex t" name name]
  by (simp add: QueryParentChain_def QueryParents_def Let_def list_all_iff)

end
