(* ===== verification/Topology_Label.thy ===== *)
theory Topology_Label
  imports Go_Prelude
begin

text \<open>
  Label key templates of \<open>src/pkg/topologylabel/template.go\<close>. The parser of \<open>text/template\<close> and
  the Kubernetes check \<open>IsQualifiedName\<close> are arguments of \<open>Compile\<close>; everything the package does
  with the parse tree, the regular expression it builds and the automata it compares is modelled.
  The regular expression is a list of quoted texts around the expression of a tier; \<open>regexp.MustCompile\<close> panics on none of them as
  long as the text is ASCII, as it is throughout the development (invalid UTF-8 is the only text it refuses).
\<close>

subsection \<open>Parse trees and errors\<close>

datatype parseArg = FieldNode "string list" | OtherArg

type_synonym commandNode = "parseArg list"

record pipeNode =
  Pipe_Decl :: nat
  Pipe_IsAssign :: bool
  Pipe_Cmds :: "commandNode option list"

datatype parseNode = TextNode string | ActionNode "pipeNode option" | OtherNode

datatype labelError =
    EmptyTemplate | ParseFailed | NoSyntaxTree
  | BadAction | BadPipeline | BadField | ForbiddenNode | WrongActionCount
  | NotCompiled | TierTooSmall | ExecuteFailed
  | InvalidKey int string "string list"
  | OverlappingKeys string string string

datatype rxItem = Lit string | TierGroup

record Template =
  Tmpl_raw :: string
  Tmpl_parsed :: "parseNode list"
  Tmpl_matcher :: "rxItem list"
  Tmpl_prefix :: string
  Tmpl_suffix :: string

record Set =
  ScaleUp :: Template
  ScaleOut :: Template
  Storage :: Template

subsection \<open>Rendering and matching\<close>

text \<open>\<open>Execute\<close> on the data \<open>TierData{Tier: tier}\<close>: text is copied, the field \<open>.Tier\<close> prints its decimal.\<close>

definition executeNode :: "int \<Rightarrow> parseNode \<Rightarrow> string option" where
  "executeNode t node = (case node of
       TextNode text \<Rightarrow> Some text
     | ActionNode (Some pipe) \<Rightarrow>
         (if Pipe_Cmds pipe = [Some [FieldNode [''Tier'']]] then Some (Itoa t) else None)
     | _ \<Rightarrow> None)"

definition executeNodes :: "parseNode list \<Rightarrow> int \<Rightarrow> string option" where
  "executeNodes nodes t = ofold (\<lambda>node out. map_option (\<lambda>s. out @ s) (executeNode t node)) nodes []"

definition Render :: "Template option \<Rightarrow> int \<Rightarrow> labelError + string" where
  "Render tmpl t = (case tmpl of
       None \<Rightarrow> Inl NotCompiled
     | Some tp \<Rightarrow>
         if t < 1 then Inl TierTooSmall
         else case executeNodes (Tmpl_parsed tp) t of None \<Rightarrow> Inl ExecuteFailed | Some out \<Rightarrow> Inr out)"

text \<open>
  \<open>FindStringSubmatch\<close> for the anchored expressions built here: a list of quoted literals and the
  group \<open>([1-9][0-9]*)\<close>, which prefers the longest text. The result holds the groups.
\<close>

fun rxMatch :: "rxItem list \<Rightarrow> string \<Rightarrow> string list option" where
  "rxMatch [] s = (if s = [] then Some [] else None)"
| "rxMatch (Lit l # items) s =
     (if take (length l) s = l then rxMatch items (drop (length l) s) else None)"
| "rxMatch (TierGroup # items) s =
     (case filter (\<lambda>k. isTierDigits (take k s) \<and> rxMatch items (drop k s) \<noteq> None) (rev [0..<Suc (length s)]) of
        [] \<Rightarrow> None
      | k # _ \<Rightarrow> map_option (\<lambda>gs. take k s # gs) (rxMatch items (drop k s)))"

definition MatchTier :: "Template option \<Rightarrow> string \<Rightarrow> int option" where
  "MatchTier tmpl key = (case tmpl of
       None \<Rightarrow> None
     | Some tp \<Rightarrow>
         (case rxMatch (Tmpl_matcher tp) key of
            Some [digits] \<Rightarrow>
              (case Atoi digits of
                 None \<Rightarrow> None
               | Some t \<Rightarrow> if t < 1 then None else Some t)
          | _ \<Rightarrow> None))"

subsection \<open>Compilation\<close>

definition validateTierAction :: "pipeNode option \<Rightarrow> labelError + unit" where
  "validateTierAction action = (case action of
       None \<Rightarrow> Inl BadAction
     | Some pipe \<Rightarrow>
         if Pipe_Decl pipe \<noteq> 0 \<or> Pipe_IsAssign pipe \<or> length (Pipe_Cmds pipe) \<noteq> 1 then Inl BadAction
         else case Pipe_Cmds pipe ! 0 of
                None \<Rightarrow> Inl BadPipeline
              | Some args \<Rightarrow>
                  if length args \<noteq> 1 then Inl BadPipeline
                  else case args ! 0 of
                         FieldNode ident \<Rightarrow> if ident = [''Tier''] then Inr () else Inl BadField
                       | OtherArg \<Rightarrow> Inl BadField)"

record compileState =
  Cs_matcher :: "rxItem list"
  Cs_prefix :: string
  Cs_suffix :: string
  Cs_actions :: nat
  Cs_actionSeen :: bool

definition compileNode :: "parseNode \<Rightarrow> compileState \<Rightarrow> labelError + compileState" where
  "compileNode node st = (case node of
       TextNode text \<Rightarrow>
         Inr (if Cs_actionSeen st
              then st\<lparr>Cs_matcher := Cs_matcher st @ [Lit text], Cs_suffix := Cs_suffix st @ text\<rparr>
              else st\<lparr>Cs_matcher := Cs_matcher st @ [Lit text], Cs_prefix := Cs_prefix st @ text\<rparr>)
     | ActionNode pipe \<Rightarrow>
         (case validateTierAction pipe of
            Inl e \<Rightarrow> Inl e
          | Inr _ \<Rightarrow> Inr (st\<lparr>Cs_actions := Cs_actions st + 1, Cs_matcher := Cs_matcher st @ [TierGroup],
                             Cs_actionSeen := True\<rparr>))
     | OtherNode \<Rightarrow> Inl ForbiddenNode)"

definition checkRendered :: "(string \<Rightarrow> string list) \<Rightarrow> Template \<Rightarrow> int \<Rightarrow> unit \<Rightarrow> labelError + unit" where
  "checkRendered isQualifiedName compiled t _ =
     (case Render (Some compiled) t of
        Inl e \<Rightarrow> Inl e
      | Inr key \<Rightarrow> (let problems = isQualifiedName key in
          if problems \<noteq> [] then Inl (InvalidKey t key problems) else Inr ()))"

text \<open>
  The argument \<open>parse\<close> is \<open>template.Parse\<close>: \<open>None\<close> for an error, \<open>Some None\<close> for a result without
  a tree, otherwise the nodes of the root.
\<close>

definition Compile :: "(string \<Rightarrow> parseNode list option option) \<Rightarrow> (string \<Rightarrow> string list) \<Rightarrow> string
    \<Rightarrow> labelError + Template" where
  "Compile parse isQualifiedName raw =
     (if raw = [] then Inl EmptyTemplate
      else case parse raw of
        None \<Rightarrow> Inl ParseFailed
      | Some None \<Rightarrow> Inl NoSyntaxTree
      | Some (Some nodes) \<Rightarrow>
          (case efold compileNode nodes
                  \<lparr>Cs_matcher = [], Cs_prefix = [], Cs_suffix = [], Cs_actions = 0, Cs_actionSeen = False\<rparr> of
             Inl e \<Rightarrow> Inl e
           | Inr st \<Rightarrow>
               if Cs_actions st \<noteq> 1 then Inl WrongActionCount
               else let compiled = \<lparr>Tmpl_raw = raw, Tmpl_parsed = nodes, Tmpl_matcher = Cs_matcher st,
                      Tmpl_prefix = Cs_prefix st, Tmpl_suffix = Cs_suffix st\<rparr>
                    in case efold (checkRendered isQualifiedName compiled) [1, 12] () of
                         Inl e \<Rightarrow> Inl e
                       | Inr _ \<Rightarrow> Inr compiled))"

subsection \<open>Languages of templates\<close>

record tierLanguage =
  Lang_prefix :: string
  Lang_suffix :: string
  Lang_digitState :: nat
  Lang_suffixStart :: nat
  Lang_acceptState :: nat

definition newTierLanguage :: "Template \<Rightarrow> tierLanguage" where
  "newTierLanguage tmpl =
     (let digitState = length (Tmpl_prefix tmpl) + 1;
          suffixStart = digitState + 1
      in \<lparr>Lang_prefix = Tmpl_prefix tmpl, Lang_suffix = Tmpl_suffix tmpl, Lang_digitState = digitState,
          Lang_suffixStart = suffixStart, Lang_acceptState = suffixStart + length (Tmpl_suffix tmpl)\<rparr>)"

definition closure :: "tierLanguage \<Rightarrow> nat set \<Rightarrow> nat set" where
  "closure n states =
     (if Lang_digitState n \<in> states then insert (Lang_suffixStart n) states else states)"

definition transitionState :: "tierLanguage \<Rightarrow> char \<Rightarrow> nat \<Rightarrow> nat set" where
  "transitionState n character state =
     (if state < length (Lang_prefix n)
      then (if Lang_prefix n ! state = character then {state + 1} else {})
      else if state = length (Lang_prefix n)
      then (if CHR ''1'' \<le> character \<and> character \<le> CHR ''9'' then {Lang_digitState n} else {})
      else if state = Lang_digitState n
      then (if CHR ''0'' \<le> character \<and> character \<le> CHR ''9'' then {Lang_digitState n} else {})
      else if Lang_suffixStart n \<le> state \<and> state < Lang_acceptState n
      then (if Lang_suffix n ! (state - Lang_suffixStart n) = character then {state + 1} else {})
      else {})"

definition transition :: "tierLanguage \<Rightarrow> nat set \<Rightarrow> char \<Rightarrow> nat set" where
  "transition n states character = closure n (\<Union>state\<in>states. transitionState n character state)"

definition accepts :: "tierLanguage \<Rightarrow> nat set \<Rightarrow> bool" where
  "accepts n states \<longleftrightarrow> Lang_acceptState n \<in> states"

definition languageAlphabet :: "tierLanguage \<Rightarrow> tierLanguage \<Rightarrow> char list" where
  "languageAlphabet l r = sort (remdups
     (''0123456789'' @ Lang_prefix l @ Lang_suffix l @ Lang_prefix r @ Lang_suffix r))"

definition stateSetKey :: "nat set \<Rightarrow> string" where
  "stateSetKey states = concat (map (\<lambda>state. Itoa (int state) @ '','') (sorted_list_of_set states))"

definition pairStateKey :: "nat set \<Rightarrow> nat set \<Rightarrow> string" where
  "pairStateKey l r = stateSetKey l @ ''|'' @ stateSetKey r"

type_synonym languagePairState = "nat set \<times> nat set \<times> string"

text \<open>The conversion \<open>string(character)\<close> of a byte: the UTF-8 encoding of that code point.\<close>

definition byteString :: "char \<Rightarrow> string" where
  "byteString c = (let b = (of_char c :: nat) in
     if b < 128 then [c] else [char_of (192 + b div 64), char_of (128 + b mod 64)])"

definition expandCharacter :: "tierLanguage \<Rightarrow> tierLanguage \<Rightarrow> languagePairState \<Rightarrow> char
    \<Rightarrow> languagePairState list \<times> string set \<Rightarrow> languagePairState list \<times> string set" where
  "expandCharacter l r current character = (\<lambda>(queue, visited).
     case current of (cl, cr, example) \<Rightarrow>
       let nextLeft = transition l cl character;
           nextRight = transition r cr character
       in if nextLeft = {} \<or> nextRight = {} then (queue, visited)
          else let key = pairStateKey nextLeft nextRight in
            if key \<in> visited then (queue, visited)
            else (queue @ [(nextLeft, nextRight, example @ byteString character)], insert key visited))"

lemma transitionState_bound:
  "transitionState (newTierLanguage t) c s \<subseteq> {..Lang_acceptState (newTierLanguage t)}"
  by (auto simp: transitionState_def newTierLanguage_def Let_def split: if_splits)

lemma transition_bound: "transition (newTierLanguage t) X c \<subseteq> {..Lang_acceptState (newTierLanguage t)}"
proof -
  have "Lang_suffixStart (newTierLanguage t) \<le> Lang_acceptState (newTierLanguage t)"
    by (simp add: newTierLanguage_def Let_def)
  then show ?thesis using transitionState_bound[of t c] by (auto simp: transition_def closure_def)
qed

definition pairKeys :: "tierLanguage \<Rightarrow> tierLanguage \<Rightarrow> string set" where
  "pairKeys l r = (\<lambda>(x, y). pairStateKey x y) ` (Pow {..Lang_acceptState l} \<times> Pow {..Lang_acceptState r})"

lemma finite_pairKeys: "finite (pairKeys l r)"
  by (simp add: pairKeys_def)

lemma expandCharacters_measure:
  fixes left right :: Template
  defines "l \<equiv> newTierLanguage left" and "r \<equiv> newTierLanguage right"
  assumes "fold (expandCharacter l r current) cs (queue, visited) = (queue', visited')"
  shows "2 * card (pairKeys l r - visited') + length queue' \<le> 2 * card (pairKeys l r - visited) + length queue"
  using assms(3)
proof (induction cs arbitrary: queue visited)
  case (Cons c cs)
  obtain cl cr ex where cur: "current = (cl, cr, ex)" by (cases current) auto
  let ?L = "transition l cl c" and ?R = "transition r cr c"
  let ?k = "pairStateKey ?L ?R"
  show ?case
  proof (cases "?L = {} \<or> ?R = {} \<or> ?k \<in> visited")
    case True
    then have "expandCharacter l r current c (queue, visited) = (queue, visited)"
      by (auto simp: expandCharacter_def cur Let_def)
    then show ?thesis using Cons by simp
  next
    case False
    then have e: "expandCharacter l r current c (queue, visited) = (queue @ [(?L, ?R, ex @ byteString c)], insert ?k visited)"
      by (auto simp: expandCharacter_def cur Let_def)
    have "?k \<in> pairKeys l r"
      using transition_bound unfolding pairKeys_def l_def r_def by (intro image_eqI[of _ _ "(_, _)"]) auto
    then have "card (pairKeys l r - visited) = Suc (card (pairKeys l r - insert ?k visited))"
      using False finite_pairKeys by (metis Diff_insert card.remove Diff_iff finite_Diff)
    moreover have "2 * card (pairKeys l r - visited') + length queue'
        \<le> 2 * card (pairKeys l r - insert ?k visited) + length (queue @ [(?L, ?R, ex @ byteString c)])"
      using Cons.IH[of "queue @ [(?L, ?R, ex @ byteString c)]" "insert ?k visited"] Cons.prems e by simp
    ultimately show ?thesis by simp
  qed
qed simp

function intersectionLoop :: "Template \<Rightarrow> Template \<Rightarrow> languagePairState list \<Rightarrow> string set \<Rightarrow> string \<times> bool" where
  "intersectionLoop left right [] visited = ([], False)"
| "intersectionLoop left right (current # queue) visited =
     (let l = newTierLanguage left; r = newTierLanguage right in
      case current of (cl, cr, example) \<Rightarrow>
        if accepts l cl \<and> accepts r cr then (example, True)
        else case fold (expandCharacter l r current) (languageAlphabet l r) (queue, visited) of
               (queue', visited') \<Rightarrow> intersectionLoop left right queue' visited')"
  by pat_completeness auto
termination
proof (relation "measure (\<lambda>(left, right, queue, visited).
    2 * card (pairKeys (newTierLanguage left) (newTierLanguage right) - visited) + length queue)", simp, goal_cases)
  case (1 left right current queue visited l r cl y cr ex queue' visited')
  have "fold (expandCharacter (newTierLanguage left) (newTierLanguage right) current)
      (languageAlphabet l r) (queue, visited) = (queue', visited')"
    using 1 by simp
  from expandCharacters_measure[OF this] show ?case by simp
qed

definition intersectionExample :: "Template \<Rightarrow> Template \<Rightarrow> string \<times> bool" where
  "intersectionExample left right =
     (let l = newTierLanguage left; r = newTierLanguage right;
          start = (closure l {0}, closure r {0}, [])
      in intersectionLoop left right [start] {pairStateKey (closure l {0}) (closure r {0})})"

definition compileAll :: "(string \<Rightarrow> parseNode list option option) \<Rightarrow> (string \<Rightarrow> string list) \<Rightarrow> (string \<times> string) list
    \<Rightarrow> (string \<times> labelError) + Template list" where
  "compileAll parse isQualifiedName values =
     efold (\<lambda>(name, raw) compiled.
        case Compile parse isQualifiedName raw of
          Inl e \<Rightarrow> Inl (name, e)
        | Inr item \<Rightarrow> Inr (compiled @ [item])) values []"

definition checkOverlap :: "(string \<times> string) list \<Rightarrow> Template list \<Rightarrow> nat \<times> nat \<Rightarrow> unit \<Rightarrow> (string \<times> labelError) + unit" where
  "checkOverlap values compiled = (\<lambda>(left, right) _.
     case intersectionExample (compiled ! left) (compiled ! right) of
       (example, overlaps) \<Rightarrow>
         if overlaps
         then Inl (fst (values ! left), OverlappingKeys (fst (values ! left)) (fst (values ! right)) example)
         else Inr ())"

definition CompileSet :: "(string \<Rightarrow> parseNode list option option) \<Rightarrow> (string \<Rightarrow> string list) \<Rightarrow> string \<Rightarrow> string \<Rightarrow> string
    \<Rightarrow> (string \<times> labelError) + Set" where
  "CompileSet parse isQualifiedName scaleUp scaleOut storage =
     (let values = [(''topologyLabels.scaleUp'', scaleUp), (''topologyLabels.scaleOut'', scaleOut),
                    (''topologyLabels.storage'', storage)]
      in case compileAll parse isQualifiedName values of
           Inl e \<Rightarrow> Inl e
         | Inr compiled \<Rightarrow>
             (case efold (checkOverlap values compiled)
                     (concat (map (\<lambda>left. map (Pair left) [left + 1..<length compiled]) [0..<length compiled])) () of
                Inl e \<Rightarrow> Inl e
              | Inr _ \<Rightarrow> Inr \<lparr>ScaleUp = compiled ! 0, ScaleOut = compiled ! 1, Storage = compiled ! 2\<rparr>))"

definition Raw :: "Template option \<Rightarrow> string" where
  "Raw tmpl = (case tmpl of None \<Rightarrow> [] | Some tp \<Rightarrow> Tmpl_raw tp)"

definition ForTopology :: "Set option \<Rightarrow> string \<Rightarrow> Template option" where
  "ForTopology s name = (case s of
       None \<Rightarrow> None
     | Some st \<Rightarrow>
         if name = ''scaleup'' then Some (ScaleUp st)
         else if name = ''scaleout'' then Some (ScaleOut st)
         else if name = ''storage'' then Some (Storage st)
         else None)"

definition AllTemplates :: "Set option \<Rightarrow> Template list" where
  "AllTemplates s = (case s of None \<Rightarrow> [] | Some st \<Rightarrow> [ScaleUp st, ScaleOut st, Storage st])"

subsection \<open>Compiled templates\<close>

lemma validateTierAction_ok: "validateTierAction pipe = Inr u \<Longrightarrow> executeNode t (ActionNode pipe) = Some (Itoa t)"
  by (auto simp: validateTierAction_def executeNode_def length_Suc_conv split: option.splits if_splits parseArg.splits)

definition compileInv :: "parseNode list \<Rightarrow> compileState \<Rightarrow> bool" where
  "compileInv nodes st \<longleftrightarrow> (Cs_actionSeen st \<longleftrightarrow> Cs_actions st \<noteq> 0)
     \<and> (Cs_actions st = 0 \<longrightarrow> Cs_suffix st = [] \<and> (\<forall>t. executeNodes nodes t = Some (Cs_prefix st))
          \<and> (\<exists>ls. Cs_matcher st = map Lit ls \<and> concat ls = Cs_prefix st))
     \<and> (Cs_actions st = 1 \<longrightarrow> (\<forall>t. executeNodes nodes t = Some (Cs_prefix st @ Itoa t @ Cs_suffix st))
          \<and> (\<exists>ls ks. Cs_matcher st = map Lit ls @ TierGroup # map Lit ks \<and> concat ls = Cs_prefix st \<and> concat ks = Cs_suffix st))"

lemma executeNodes_snoc:
  "executeNodes (nodes @ [node]) t = (case executeNodes nodes t of None \<Rightarrow> None
     | Some out \<Rightarrow> map_option (\<lambda>s. out @ s) (executeNode t node))"
  by (simp add: executeNodes_def ofold_snoc)

lemma compileInv_Text:
  assumes "compileInv nodes st" "compileNode (TextNode text) st = Inr st'"
  shows "compileInv (nodes @ [TextNode text]) st'"
proof -
  have e: "executeNode t (TextNode text) = Some text" for t by (simp add: executeNode_def)
  show ?thesis
  proof (cases "Cs_actions st = 0")
    case True
    then obtain ls where ls: "Cs_matcher st = map Lit ls" "concat ls = Cs_prefix st" using assms(1) by (auto simp: compileInv_def)
    have "\<exists>ls'. map Lit ls @ [Lit text] = map Lit ls' \<and> concat ls' = Cs_prefix st @ text"
      by (rule exI[of _ "ls @ [text]"]) (simp add: ls)
    then show ?thesis using assms True by (auto simp: compileInv_def compileNode_def executeNodes_snoc e ls(1))
  next
    case False
    show ?thesis
    proof (cases "Cs_actions st = 1")
      case True
      then obtain ls ks where ls: "Cs_matcher st = map Lit ls @ TierGroup # map Lit ks" "concat ls = Cs_prefix st" "concat ks = Cs_suffix st"
        using assms(1) by (auto simp: compileInv_def)
      have "\<exists>ls' ks'. map Lit ls @ TierGroup # map Lit ks @ [Lit text] = map Lit ls' @ TierGroup # map Lit ks'
          \<and> concat ls' = Cs_prefix st \<and> concat ks' = Cs_suffix st @ text"
        by (rule exI[of _ ls], rule exI[of _ "ks @ [text]"]) (simp add: ls)
      then show ?thesis using assms True
        by (auto simp: compileInv_def compileNode_def executeNodes_snoc e ls(1)) blast
    qed (use assms False in \<open>auto simp: compileInv_def compileNode_def\<close>)
  qed
qed

lemma compileInv_Action:
  assumes "compileInv nodes st" "compileNode (ActionNode pipe) st = Inr st'"
  shows "compileInv (nodes @ [ActionNode pipe]) st'"
proof -
  obtain u where v: "validateTierAction pipe = Inr u" and st': "st' = st\<lparr>Cs_actions := Cs_actions st + 1,
      Cs_matcher := Cs_matcher st @ [TierGroup], Cs_actionSeen := True\<rparr>"
    using assms(2) by (auto simp: compileNode_def split: sum.splits)
  show ?thesis
  proof (cases "Cs_actions st = 0")
    case True
    then obtain ls where ls: "Cs_matcher st = map Lit ls" "concat ls = Cs_prefix st" using assms(1) by (auto simp: compileInv_def)
    have "\<exists>ls' ks'. map Lit ls @ [TierGroup] = map Lit ls' @ TierGroup # map Lit ks'
          \<and> concat ls' = Cs_prefix st \<and> concat ks' = []"
      by (rule exI[of _ ls], rule exI[of _ "[]"]) (simp add: ls)
    then show ?thesis using assms(1) True
      by (auto simp: compileInv_def st' executeNodes_snoc validateTierAction_ok[OF v] ls(1))
  qed (use assms(1) in \<open>auto simp: compileInv_def st'\<close>)
qed

lemma compileInv_efold:
  "efold compileNode nodes \<lparr>Cs_matcher = [], Cs_prefix = [], Cs_suffix = [], Cs_actions = 0, Cs_actionSeen = False\<rparr> = Inr st
   \<Longrightarrow> compileInv nodes st"
proof (induction nodes arbitrary: st rule: rev_induct)
  case Nil
  then show ?case by (auto simp: compileInv_def executeNodes_def)
next
  case (snoc node nodes)
  then obtain st0 where "compileInv nodes st0" "compileNode node st0 = Inr st"
    by (auto simp: efold_snoc split: sum.splits)
  then show ?case
    by (cases node) (auto intro: compileInv_Text compileInv_Action simp: compileNode_def[of OtherNode])
qed

text \<open>What compilation establishes: how the template renders and what its expression matches.\<close>

definition tmplOk :: "Template \<Rightarrow> bool" where
  "tmplOk t \<longleftrightarrow> (\<forall>n. executeNodes (Tmpl_parsed t) n = Some (Tmpl_prefix t @ Itoa n @ Tmpl_suffix t))
     \<and> (\<exists>ls ks. Tmpl_matcher t = map Lit ls @ TierGroup # map Lit ks
          \<and> concat ls = Tmpl_prefix t \<and> concat ks = Tmpl_suffix t)"

lemma Compile_tmplOk: "Compile parse isQualifiedName raw = Inr t \<Longrightarrow> tmplOk t"
  unfolding Compile_def
  by (auto simp: tmplOk_def Let_def split: if_splits option.splits sum.splits dest!: compileInv_efold)
     (auto simp: compileInv_def)

lemma rxMatch_Lits:
  "rxMatch (map Lit ls @ items) s = (if take (length (concat ls)) s = concat ls
     then rxMatch items (drop (length (concat ls)) s) else None)"
proof (induction ls arbitrary: s)
  case (Cons l ls)
  have "take (length l + length (concat ls)) s = l @ concat ls \<longleftrightarrow>
      take (length l) s = l \<and> take (length (concat ls)) (drop (length l) s) = concat ls"
  proof (cases "length s < length l")
    case True
    then have "take (length l) s \<noteq> l" by (metis length_take min.strict_order_iff min.commute)
    moreover have "take (length l + length (concat ls)) s \<noteq> l @ concat ls"
      using True by (metis calculation length_append take_all_iff add_leD1 append_eq_conv_conj take_take min.absorb_iff1 le_add1)
    ultimately show ?thesis by simp
  next
    case False
    then show ?thesis unfolding take_add by (intro append_eq_append_conv) simp
  qed
  then show ?case using Cons by (simp add: add.commute)
qed simp

lemma rxMatch_only_Lits: "rxMatch (map Lit ls) s = (if s = concat ls then Some [] else None)"
proof -
  have "take (length (concat ls)) s = concat ls \<and> drop (length (concat ls)) s = [] \<longleftrightarrow> s = concat ls"
    by (metis append_Nil2 append_take_drop_id drop_all order_refl take_all)
  then show ?thesis using rxMatch_Lits[of ls "[]" s] by (auto split: if_splits)
qed

lemma rxMatch_group:
  "rxMatch (TierGroup # map Lit ks) s = Some gs \<longleftrightarrow> (\<exists>d. gs = [d] \<and> isTierDigits d \<and> s = d @ concat ks)"
proof -
  let ?P = "\<lambda>k. isTierDigits (take k s) \<and> drop k s = concat ks"
  have f: "filter (\<lambda>k. isTierDigits (take k s) \<and> rxMatch (map Lit ks) (drop k s) \<noteq> None) (rev [0..<Suc (length s)])
     = filter ?P (rev [0..<Suc (length s)])"
    by (rule filter_cong) (simp_all add: rxMatch_only_Lits)
  show ?thesis
  proof (cases "filter ?P (rev [0..<Suc (length s)])")
    case Nil
    have "\<not> (isTierDigits d \<and> s = d @ concat ks)" for d
    proof
      assume d: "isTierDigits d \<and> s = d @ concat ks"
      then have "length d \<in> set (rev [0..<Suc (length s)])" "?P (length d)" by (simp_all only: set_rev set_upt, simp_all)
      with Nil show False unfolding filter_empty_conv by blast
    qed
    then show ?thesis using Nil f by auto
  next
    case (Cons k kk)
    then have "k \<in> set (filter ?P (rev [0..<Suc (length s)]))" by simp
    then have k: "isTierDigits (take k s)" "drop k s = concat ks" unfolding set_filter by blast+
    have u: "d = take k s" if "s = d @ concat ks" for d
      using that k(2) by (metis append_take_drop_id append_same_eq)
    have e: "s = take k s @ concat ks" using k(2) by (metis append_take_drop_id)
    have r: "rxMatch (TierGroup # map Lit ks) s = Some [take k s]"
      unfolding rxMatch.simps f Cons by (simp add: rxMatch_only_Lits k(2))
    show ?thesis
    proof
      assume "rxMatch (TierGroup # map Lit ks) s = Some gs"
      then have "gs = [take k s]" using r by simp
      then show "\<exists>d. gs = [d] \<and> isTierDigits d \<and> s = d @ concat ks" using k(1) e by (intro exI[of _ "take k s"] conjI)
    next
      assume "\<exists>d. gs = [d] \<and> isTierDigits d \<and> s = d @ concat ks"
      then obtain d where "gs = [d]" "s = d @ concat ks" by blast
      then show "rxMatch (TierGroup # map Lit ks) s = Some gs" using r u[of d] by (simp only:)
    qed
  qed
qed

lemma MatchTier_iff:
  assumes "tmplOk t"
  shows "MatchTier (Some t) key = Some n \<longleftrightarrow> 1 \<le> n \<and> n < 2 ^ 63 \<and> key = Tmpl_prefix t @ Itoa n @ Tmpl_suffix t"
proof -
  obtain ls ks where ls: "Tmpl_matcher t = map Lit ls @ TierGroup # map Lit ks"
    "concat ls = Tmpl_prefix t" "concat ks = Tmpl_suffix t" using assms by (auto simp: tmplOk_def)
  have rx: "rxMatch (Tmpl_matcher t) key = Some [d] \<longleftrightarrow> isTierDigits d \<and> key = Tmpl_prefix t @ d @ Tmpl_suffix t" for d
  proof -
    have "take (length (Tmpl_prefix t)) key = Tmpl_prefix t \<and> drop (length (Tmpl_prefix t)) key = d @ Tmpl_suffix t
        \<longleftrightarrow> key = Tmpl_prefix t @ d @ Tmpl_suffix t"
      by (metis append_eq_conv_conj append_take_drop_id)
    moreover have "rxMatch (TierGroup # map Lit ks) s = Some [d] \<longleftrightarrow> isTierDigits d \<and> s = d @ Tmpl_suffix t" for s
      using rxMatch_group[of ks s "[d]"] ls(3) by simp
    ultimately show ?thesis unfolding ls(1) rxMatch_Lits ls(2)
      by (simp del: rxMatch.simps) blast
  qed
  have one: "\<exists>d. gs = [d]" if "rxMatch (Tmpl_matcher t) key = Some gs" for gs
    using that rxMatch_group[of ks _ gs] unfolding ls(1) rxMatch_Lits
    by (simp del: rxMatch.simps split: if_splits) blast
  have m: "MatchTier (Some t) key = Some n \<longleftrightarrow>
      (\<exists>d. rxMatch (Tmpl_matcher t) key = Some [d] \<and> Atoi d = Some n \<and> 1 \<le> n)"
    using one by (auto simp: MatchTier_def split: option.splits list.splits)
  have a: "isTierDigits d \<and> Atoi d = Some n \<and> 1 \<le> n \<longleftrightarrow> 1 \<le> n \<and> n < 2 ^ 63 \<and> d = Itoa n" for d
  proof
    assume d: "isTierDigits d \<and> Atoi d = Some n \<and> 1 \<le> n"
    then have "d \<noteq> []" "list_all isDigit d" by (auto simp: isTierDigits_list_all isTierDigits_def)
    then have "n = int (digits_val d)" "digits_val d < 2 ^ 63" using d by (auto simp: Atoi_digits split: if_splits)
    then show "1 \<le> n \<and> n < 2 ^ 63 \<and> d = Itoa n" using d nat_str_digits_val[of d] by (simp add: Itoa_def)
  next
    assume "1 \<le> n \<and> n < 2 ^ 63 \<and> d = Itoa n"
    then show "isTierDigits d \<and> Atoi d = Some n \<and> 1 \<le> n"
      using Atoi_Itoa[of n] isTierDigits_nat_str[of "nat n"] by (simp add: Itoa_def)
  qed
  show ?thesis unfolding m rx using a by blast
qed

lemma Render_ok: "tmplOk t \<Longrightarrow> Render (Some t) n = (if n < 1 then Inl TierTooSmall else Inr (Tmpl_prefix t @ Itoa n @ Tmpl_suffix t))"
  by (simp add: Render_def tmplOk_def)

subsection \<open>The codec of a template\<close>

text \<open>The contract that label consumers rely on: rendering and matching are inverse to each other.\<close>

locale label_codec =
  fixes ok :: "'t \<Rightarrow> bool"
    and render :: "'t \<Rightarrow> int \<Rightarrow> 'e + string"
    and matchT :: "'t \<Rightarrow> string \<Rightarrow> int option"
  assumes render_total: "ok t \<Longrightarrow> 1 \<le> n \<Longrightarrow> \<exists>k. render t n = Inr k"
    and match_render: "ok t \<Longrightarrow> 1 \<le> n \<Longrightarrow> n < 2 ^ 63 \<Longrightarrow> render t n = Inr k \<Longrightarrow> matchT t k = Some n"
    and render_match: "ok t \<Longrightarrow> matchT t k = Some n \<Longrightarrow> render t n = Inr k \<and> 1 \<le> n \<and> n < 2 ^ 63"
begin

lemma match_inj: "ok t \<Longrightarrow> matchT t k = Some n \<Longrightarrow> matchT t k' = Some n \<Longrightarrow> k = k'"
  using render_match[of t k n] render_match[of t k' n] by simp

lemma render_inj:
  "ok t \<Longrightarrow> render t m = Inr k \<Longrightarrow> render t n = Inr k \<Longrightarrow> 1 \<le> m \<Longrightarrow> m < 2 ^ 63 \<Longrightarrow> 1 \<le> n \<Longrightarrow> n < 2 ^ 63 \<Longrightarrow> m = n"
  using match_render[of t m k] match_render[of t n k] by simp

end

interpretation tl: label_codec tmplOk "\<lambda>t. Render (Some t)" "\<lambda>t. MatchTier (Some t)"
  by unfold_locales (auto simp: Render_ok MatchTier_iff split: if_splits)

subsection \<open>The automaton of a template accepts its keys\<close>

definition tierKeys :: "Template \<Rightarrow> string set" where
  "tierKeys t = {Tmpl_prefix t @ d @ Tmpl_suffix t |d. isTierDigits d}"

definition runStates :: "tierLanguage \<Rightarrow> string \<Rightarrow> nat set" where
  "runStates n w = foldl (transition n) (closure n {0}) w"

lemma runStates_snoc [simp]: "runStates n (w @ [c]) = transition n (runStates n w) c"
  by (simp add: runStates_def)

lemmas language_simps = newTierLanguage_def Let_def transition_def transitionState_def closure_def

lemma start_states: "closure (newTierLanguage t) {0} = {0}"
  by (simp add: language_simps)

lemma run_prefix: "s \<le> length (Tmpl_prefix t) \<Longrightarrow> s \<in> runStates (newTierLanguage t) w \<longleftrightarrow> w = take s (Tmpl_prefix t)"
proof (induction w arbitrary: s rule: rev_induct)
  case Nil
  then show ?case by (cases "Tmpl_prefix t") (simp_all add: runStates_def start_states eq_commute[of "[]"])
next
  case (snoc c w)
  have "s \<in> transition (newTierLanguage t) X c \<longleftrightarrow> (\<exists>j. s = Suc j \<and> j \<in> X \<and> Tmpl_prefix t ! j = c)" for X
    using snoc.prems by (auto simp: language_simps split: if_splits)
  moreover have "w @ [c] = take s (Tmpl_prefix t) \<longleftrightarrow> (\<exists>j. s = Suc j \<and> w = take j (Tmpl_prefix t) \<and> Tmpl_prefix t ! j = c)"
    using snoc.prems by (cases s) (auto simp: take_Suc_conv_app_nth)
  ultimately show ?case using snoc.IH[of "s - 1"] snoc.prems by (cases s) simp_all
qed

lemma run_digits:
  "Suc (length (Tmpl_prefix t)) \<in> runStates (newTierLanguage t) w \<longleftrightarrow> (\<exists>d. isTierDigits d \<and> w = Tmpl_prefix t @ d)"
proof (induction w rule: rev_induct)
  case Nil
  then show ?case using start_states[of t] by (auto simp: runStates_def isTierDigits_def)
next
  case (snoc c w)
  let ?p = "Tmpl_prefix t"
  have "Suc (length ?p) \<in> transition (newTierLanguage t) X c \<longleftrightarrow>
      length ?p \<in> X \<and> CHR ''1'' \<le> c \<and> c \<le> CHR ''9'' \<or> Suc (length ?p) \<in> X \<and> isDigit c" for X
    by (auto simp: language_simps isDigit_def split: if_splits)
  moreover have "(\<exists>d. isTierDigits d \<and> w @ [c] = ?p @ d) \<longleftrightarrow>
      w = ?p \<and> CHR ''1'' \<le> c \<and> c \<le> CHR ''9'' \<or> (\<exists>d. isTierDigits d \<and> w = ?p @ d) \<and> isDigit c"
  proof
    assume "\<exists>d. isTierDigits d \<and> w @ [c] = ?p @ d"
    then obtain d where d: "isTierDigits d" "w @ [c] = ?p @ d" by blast
    then obtain e x where e: "d = e @ [x]" by (metis isTierDigits_def rev_exhaust)
    then have "x = c" "w = ?p @ e" using d(2) by auto
    then show "w = ?p \<and> CHR ''1'' \<le> c \<and> c \<le> CHR ''9'' \<or> (\<exists>d. isTierDigits d \<and> w = ?p @ d) \<and> isDigit c"
      using d(1) e isTierDigits_snoc[of e x] by (cases "e = []") (auto simp: isTierDigits_def[of "[_]"])
  next
    assume "w = ?p \<and> CHR ''1'' \<le> c \<and> c \<le> CHR ''9'' \<or> (\<exists>d. isTierDigits d \<and> w = ?p @ d) \<and> isDigit c"
    then show "\<exists>d. isTierDigits d \<and> w @ [c] = ?p @ d"
    proof
      assume "w = ?p \<and> CHR ''1'' \<le> c \<and> c \<le> CHR ''9''"
      then show ?thesis by (intro exI[of _ "[c]"]) (simp add: isTierDigits_def)
    next
      assume "(\<exists>d. isTierDigits d \<and> w = ?p @ d) \<and> isDigit c"
      then obtain d where "isTierDigits d" "w = ?p @ d" "isDigit c" by blast
      then show ?thesis using isTierDigits_snoc[of d c] by (intro exI[of _ "d @ [c]"]) (auto simp: isTierDigits_def)
    qed
  qed
  ultimately show ?case using snoc run_prefix[of "length ?p" t w] by simp
qed

lemma run_suffix:
  "k \<le> length (Tmpl_suffix t) \<Longrightarrow> Suc (Suc (length (Tmpl_prefix t))) + k \<in> runStates (newTierLanguage t) w
    \<longleftrightarrow> (\<exists>d. isTierDigits d \<and> w = Tmpl_prefix t @ d @ take k (Tmpl_suffix t))"
proof (induction w arbitrary: k rule: rev_induct)
  case Nil
  then show ?case using start_states[of t] by (auto simp: runStates_def isTierDigits_def)
next
  case (snoc c w)
  let ?p = "Tmpl_prefix t" and ?q = "Tmpl_suffix t"
  show ?case
  proof (cases k)
    case 0
    have "Suc (Suc (length ?p)) \<in> transition (newTierLanguage t) X c \<longleftrightarrow> Suc (length ?p) \<in> transition (newTierLanguage t) X c" for X
      by (auto simp: language_simps split: if_splits)
    then show ?thesis using 0 run_digits[of t "w @ [c]"] by simp
  next
    case (Suc j)
    have "Suc (Suc (length ?p)) + Suc j \<in> transition (newTierLanguage t) X c \<longleftrightarrow> Suc (Suc (length ?p)) + j \<in> X \<and> ?q ! j = c" for X
      using snoc.prems Suc by (auto simp: language_simps split: if_splits)
    moreover have "w @ [c] = ?p @ d @ take (Suc j) ?q \<longleftrightarrow> w = ?p @ d @ take j ?q \<and> ?q ! j = c" for d
      using snoc.prems Suc by (auto simp: take_Suc_conv_app_nth)
    ultimately show ?thesis using snoc.IH[of j] snoc.prems Suc by auto
  qed
qed

lemma run_accepts: "accepts (newTierLanguage t) (runStates (newTierLanguage t) w) \<longleftrightarrow> w \<in> tierKeys t"
  using run_suffix[of "length (Tmpl_suffix t)" t w]
  by (auto simp: accepts_def tierKeys_def newTierLanguage_def Let_def)

subsection \<open>Keys of state pairs\<close>

definition encodeStates :: "nat list \<Rightarrow> string" where
  "encodeStates xs = concat (map (\<lambda>x. Itoa (int x) @ '','') xs)"

lemma Itoa_no_sep: "CHR '','' \<notin> set (Itoa (int x))" "CHR ''|'' \<notin> set (Itoa (int x))" "Itoa (int x) \<noteq> []"
  using isDigit_nat_str[of x] by (auto simp: Itoa_def list_all_iff isDigit_def less_eq_char_def)

lemma split_at_sep:
  assumes "a @ c # u = b @ c # v" "c \<notin> set a" "c \<notin> set b"
  shows "a = b \<and> u = v"
proof -
  have "takeWhile (\<lambda>x. x \<noteq> c) (a @ c # u) = a" "takeWhile (\<lambda>x. x \<noteq> c) (b @ c # v) = b"
    using assms(2,3) by (simp_all add: takeWhile_tail takeWhile_append)
  then show ?thesis using assms(1) by simp
qed

lemma encodeStates_inj:
  "encodeStates xs @ CHR ''|'' # u = encodeStates ys @ CHR ''|'' # v \<Longrightarrow> xs = ys \<and> u = v"
proof (induction xs arbitrary: ys)
  case Nil
  show ?case
  proof (cases ys)
    case (Cons y ys')
    then show ?thesis using Nil Itoa_no_sep[of y] by (cases "Itoa (int y)") (auto simp: encodeStates_def)
  qed (use Nil in \<open>simp add: encodeStates_def\<close>)
next
  case (Cons x xs)
  show ?case
  proof (cases ys)
    case Nil
    then show ?thesis using Cons.prems Itoa_no_sep[of x] by (cases "Itoa (int x)") (auto simp: encodeStates_def)
  next
    case (Cons y ys')
    have "Itoa (int x) @ CHR '','' # (encodeStates xs @ CHR ''|'' # u) = Itoa (int y) @ CHR '','' # (encodeStates ys' @ CHR ''|'' # v)"
      using Cons.prems Cons by (simp add: encodeStates_def)
    from split_at_sep[OF this Itoa_no_sep(1) Itoa_no_sep(1)]
    have "Itoa (int x) = Itoa (int y)" "encodeStates xs @ CHR ''|'' # u = encodeStates ys' @ CHR ''|'' # v" by simp_all
    then show ?thesis using Cons.IH[of ys'] Cons Itoa_inj_nonneg[of "int x" "int y"] by simp
  qed
qed

lemma pairStateKey_inj:
  assumes "finite a" "finite b" "finite c" "finite d" "pairStateKey a b = pairStateKey c d"
  shows "a = c \<and> b = d"
proof -
  have k: "stateSetKey s = encodeStates (sorted_list_of_set s)" for s by (simp add: stateSetKey_def encodeStates_def)
  have "encodeStates (sorted_list_of_set a) @ CHR ''|'' # stateSetKey b
      = encodeStates (sorted_list_of_set c) @ CHR ''|'' # stateSetKey d"
    using assms(5) by (simp add: pairStateKey_def k)
  then have "sorted_list_of_set a = sorted_list_of_set c" "stateSetKey b = stateSetKey d"
    using encodeStates_inj by blast+
  moreover from this(2) have "sorted_list_of_set b = sorted_list_of_set d"
    using encodeStates_inj[of "sorted_list_of_set b" "[]" "sorted_list_of_set d" "[]"] by (simp add: k)
  ultimately show ?thesis using assms(1-4) by (metis set_sorted_list_of_set)
qed

subsection \<open>The search decides intersection\<close>

definition asciiTemplate :: "Template \<Rightarrow> bool" where
  "asciiTemplate t \<longleftrightarrow> (\<forall>c \<in> set (Tmpl_prefix t) \<union> set (Tmpl_suffix t). of_char c < (128 :: nat))"

definition pairReached :: "Template \<Rightarrow> Template \<Rightarrow> languagePairState \<Rightarrow> bool" where
  "pairReached l r = (\<lambda>(L, R, ex). \<exists>w. L = runStates (newTierLanguage l) w \<and> R = runStates (newTierLanguage r) w
     \<and> (asciiTemplate l \<and> asciiTemplate r \<longrightarrow> ex = w))"

definition alphabetOf :: "Template \<Rightarrow> Template \<Rightarrow> char list" where
  "alphabetOf l r = languageAlphabet (newTierLanguage l) (newTierLanguage r)"

lemma set_alphabetOf:
  "set (alphabetOf l r) = set ''0123456789'' \<union> set (Tmpl_prefix l) \<union> set (Tmpl_suffix l) \<union> set (Tmpl_prefix r) \<union> set (Tmpl_suffix r)"
  unfolding alphabetOf_def languageAlphabet_def newTierLanguage_def Let_def
  by (simp only: set_sort set_remdups set_append tierLanguage.select_convs Un_assoc)

lemma byteString_ascii:
  "asciiTemplate l \<Longrightarrow> asciiTemplate r \<Longrightarrow> c \<in> set (alphabetOf l r) \<Longrightarrow> byteString c = [c]"
  by (auto simp: set_alphabetOf asciiTemplate_def byteString_def)

definition nextPair :: "Template \<Rightarrow> Template \<Rightarrow> nat set \<times> nat set \<Rightarrow> char \<Rightarrow> nat set \<times> nat set" where
  "nextPair l r = (\<lambda>(L, R) c. (transition (newTierLanguage l) L c, transition (newTierLanguage r) R c))"

lemma finite_transition: "finite (transition (newTierLanguage t) X c)"
  using transition_bound by (rule finite_subset) simp

text \<open>
  The pairs \<open>V\<close> whose keys are visited: each is still queued, or is no accepting pair and has its live
  successors in \<open>V\<close> (for the pair in progress, those for the characters done so far).
\<close>

definition searchInv :: "Template \<Rightarrow> Template \<Rightarrow> (nat set \<times> nat set) set \<Rightarrow> languagePairState list \<Rightarrow> string set \<Rightarrow> bool" where
  "searchInv l r V queue visited \<longleftrightarrow> visited = (\<lambda>(L, R). pairStateKey L R) ` V
     \<and> (\<forall>(L, R) \<in> V. finite L \<and> finite R) \<and> (\<forall>p \<in> set queue. pairReached l r p)"

definition liveClosed :: "Template \<Rightarrow> Template \<Rightarrow> (nat set \<times> nat set) set \<Rightarrow> nat set \<times> nat set \<Rightarrow> char list \<Rightarrow> bool" where
  "liveClosed l r V p cs \<longleftrightarrow> (\<forall>c \<in> set cs. fst (nextPair l r p c) \<noteq> {} \<and> snd (nextPair l r p c) \<noteq> {} \<longrightarrow> nextPair l r p c \<in> V)"

definition pairOf :: "languagePairState \<Rightarrow> nat set \<times> nat set" where
  "pairOf p = (fst p, fst (snd p))"

lemma expandCharacter_inv:
  assumes inv: "searchInv l r V queue visited" and cur: "pairReached l r (L, R, ex)" and c: "c \<in> set (alphabetOf l r)"
    and e: "expandCharacter (newTierLanguage l) (newTierLanguage r) (L, R, ex) c (queue, visited) = (queue', visited')"
  shows "\<exists>V' new. searchInv l r V' queue' visited' \<and> queue' = queue @ new \<and> V \<subseteq> V'
     \<and> V' = V \<union> pairOf ` set new \<and> liveClosed l r V' (L, R) [c]"
proof -
  let ?L = "transition (newTierLanguage l) L c" and ?R = "transition (newTierLanguage r) R c"
  have nx: "nextPair l r (L, R) c = (?L, ?R)" by (simp add: nextPair_def)
  consider (dead) "?L = {} \<or> ?R = {}" | (seen) "?L \<noteq> {}" "?R \<noteq> {}" "pairStateKey ?L ?R \<in> visited"
    | (new) "?L \<noteq> {}" "?R \<noteq> {}" "pairStateKey ?L ?R \<notin> visited" by blast
  then show ?thesis
  proof cases
    case dead
    then have "queue' = queue" "visited' = visited" using e by (auto simp: expandCharacter_def Let_def)
    then show ?thesis using inv dead by (intro exI[of _ V] exI[of _ "[]"]) (auto simp: liveClosed_def nx)
  next
    case seen
    then have q: "queue' = queue" "visited' = visited" using e by (auto simp: expandCharacter_def Let_def)
    obtain A B where AB: "(A, B) \<in> V" "pairStateKey ?L ?R = pairStateKey A B" using seen(3) inv by (auto simp: searchInv_def)
    then have "?L = A \<and> ?R = B"
      using inv by (intro pairStateKey_inj finite_transition) (auto simp: searchInv_def)
    then show ?thesis using inv q AB(1) by (intro exI[of _ V] exI[of _ "[]"]) (auto simp: liveClosed_def nx)
  next
    case new
    then have q: "queue' = queue @ [(?L, ?R, ex @ byteString c)]" "visited' = insert (pairStateKey ?L ?R) visited"
      using e by (auto simp: expandCharacter_def Let_def)
    obtain w where w: "L = runStates (newTierLanguage l) w" "R = runStates (newTierLanguage r) w"
      "asciiTemplate l \<and> asciiTemplate r \<longrightarrow> ex = w" using cur by (auto simp: pairReached_def)
    have "pairReached l r (?L, ?R, ex @ byteString c)"
      using w c byteString_ascii[of l r c] unfolding pairReached_def by (auto intro!: exI[of _ "w @ [c]"])
    then have "searchInv l r (insert (?L, ?R) V) queue' visited'"
      using inv q finite_transition by (auto simp: searchInv_def)
    then show ?thesis using q(1) by (intro exI[of _ "insert (?L, ?R) V"] exI[of _ "[(?L, ?R, ex @ byteString c)]"])
      (auto simp: liveClosed_def nx pairOf_def)
  qed
qed

lemma liveClosed_mono: "liveClosed l r V p cs \<Longrightarrow> V \<subseteq> V' \<Longrightarrow> liveClosed l r V' p cs"
  by (auto simp: liveClosed_def)

lemma liveClosed_append: "liveClosed l r V p (cs @ ds) \<longleftrightarrow> liveClosed l r V p cs \<and> liveClosed l r V p ds"
  by (auto simp: liveClosed_def)

lemma expandCharacters_inv:
  assumes "searchInv l r V queue visited" "pairReached l r (L, R, ex)" "set cs \<subseteq> set (alphabetOf l r)"
    and "fold (expandCharacter (newTierLanguage l) (newTierLanguage r) (L, R, ex)) cs (queue, visited) = (queue', visited')"
  shows "\<exists>V' new. searchInv l r V' queue' visited' \<and> queue' = queue @ new
     \<and> V' = V \<union> pairOf ` set new \<and> liveClosed l r V' (L, R) cs"
  using assms
proof (induction cs arbitrary: V queue visited)
  case Nil
  then show ?case by (intro exI[of _ V] exI[of _ "[]"]) (simp add: liveClosed_def)
next
  case (Cons c cs)
  obtain q1 v1 where e: "expandCharacter (newTierLanguage l) (newTierLanguage r) (L, R, ex) c (queue, visited) = (q1, v1)" by force
  have "c \<in> set (alphabetOf l r)" using Cons.prems(3) by simp
  from expandCharacter_inv[OF Cons.prems(1,2) this e] obtain V1 n1 where
    1: "searchInv l r V1 q1 v1" "q1 = queue @ n1" "V1 = V \<union> pairOf ` set n1" "liveClosed l r V1 (L, R) [c]" by blast
  have "fold (expandCharacter (newTierLanguage l) (newTierLanguage r) (L, R, ex)) cs (q1, v1) = (queue', visited')"
    using Cons.prems(4) e by simp
  from Cons.IH[OF 1(1) Cons.prems(2) _ this] Cons.prems(3) obtain V2 n2 where
    2: "searchInv l r V2 queue' visited'" "queue' = q1 @ n2" "V2 = V1 \<union> pairOf ` set n2" "liveClosed l r V2 (L, R) cs" by auto
  have "liveClosed l r V2 (L, R) (c # cs)"
    using liveClosed_mono[OF 1(4), of V2] 2(3,4) by (auto simp: liveClosed_def)
  then show ?case using 1(2,3) 2 by (intro exI[of _ V2] exI[of _ "n1 @ n2"]) (simp add: image_Un Un_assoc)
qed

definition doneOrQueued :: "Template \<Rightarrow> Template \<Rightarrow> (nat set \<times> nat set) set \<Rightarrow> languagePairState list \<Rightarrow> bool" where
  "doneOrQueued l r V queue \<longleftrightarrow> (\<forall>(L, R) \<in> V. (\<exists>ex. (L, R, ex) \<in> set queue)
     \<or> \<not> (accepts (newTierLanguage l) L \<and> accepts (newTierLanguage r) R) \<and> liveClosed l r V (L, R) (alphabetOf l r))"

lemma intersectionLoop_inv:
  assumes "searchInv l r V queue visited" "doneOrQueued l r V queue"
  shows "case intersectionLoop l r queue visited of
      (ex, True) \<Rightarrow> (\<exists>w. w \<in> tierKeys l \<inter> tierKeys r \<and> (asciiTemplate l \<and> asciiTemplate r \<longrightarrow> ex = w))
    | (ex, False) \<Rightarrow> (\<exists>V'. V \<subseteq> V' \<and> doneOrQueued l r V' [])"
  using assms
proof (induction l r queue visited arbitrary: V rule: intersectionLoop.induct)
  case (1 l r visited)
  then show ?case by auto
next
  case (2 l r current queue visited)
  obtain L R ex where cur: "current = (L, R, ex)" by (cases current) auto
  have reached: "pairReached l r (L, R, ex)" using 2(2) cur by (simp add: searchInv_def)
  show ?case
  proof (cases "accepts (newTierLanguage l) L \<and> accepts (newTierLanguage r) R")
    case True
    obtain w where "L = runStates (newTierLanguage l) w" "R = runStates (newTierLanguage r) w"
      "asciiTemplate l \<and> asciiTemplate r \<longrightarrow> ex = w" using reached by (auto simp: pairReached_def)
    then show ?thesis using True run_accepts by (auto simp: cur Let_def)
  next
    case False
    obtain queue' visited' where f: "fold (expandCharacter (newTierLanguage l) (newTierLanguage r) (L, R, ex))
        (alphabetOf l r) (queue, visited) = (queue', visited')" by force
    have "searchInv l r V queue visited" using 2(2) by (simp add: searchInv_def)
    from expandCharacters_inv[OF this reached _ f] obtain V' new where
      V': "searchInv l r V' queue' visited'" "queue' = queue @ new" "V' = V \<union> pairOf ` set new"
        "liveClosed l r V' (L, R) (alphabetOf l r)" by auto
    have old: "(\<exists>e. (A, B, e) \<in> set queue') \<or> \<not> (accepts (newTierLanguage l) A \<and> accepts (newTierLanguage r) B)
        \<and> liveClosed l r V' (A, B) (alphabetOf l r)" if "(A, B) \<in> V" for A B
    proof (cases "(A, B) = (L, R)")
      case True
      then show ?thesis using False V'(4) by simp
    next
      case False
      have "(\<exists>e. (A, B, e) \<in> set (current # queue)) \<or> \<not> (accepts (newTierLanguage l) A \<and> accepts (newTierLanguage r) B)
          \<and> liveClosed l r V (A, B) (alphabetOf l r)"
        using 2(3) that by (auto simp: doneOrQueued_def)
      then show ?thesis using False V'(2,3) cur liveClosed_mono[of l r V "(A, B)" "alphabetOf l r" V'] by auto
    qed
    have "\<exists>e. (A, B, e) \<in> set queue'" if "(A, B) \<in> pairOf ` set new" for A B
      using that V'(2) by (auto simp: pairOf_def)
    then have dq: "doneOrQueued l r V' queue'" unfolding doneOrQueued_def V'(3)[THEN equalityD1] using old V'(3) by blast
    have step: "intersectionLoop l r (current # queue) visited = intersectionLoop l r queue' visited'"
      using False f by (auto simp: cur Let_def alphabetOf_def)
    have IH: "case intersectionLoop l r queue' visited' of
        (ex, True) \<Rightarrow> (\<exists>w. w \<in> tierKeys l \<inter> tierKeys r \<and> (asciiTemplate l \<and> asciiTemplate r \<longrightarrow> ex = w))
      | (ex, False) \<Rightarrow> (\<exists>V2. V' \<subseteq> V2 \<and> doneOrQueued l r V2 [])"
      by (rule 2(1)[OF refl refl cur[symmetric] refl False, unfolded cur, OF f[unfolded alphabetOf_def, symmetric] V'(1)]) (rule dq)
    obtain ex' b where il: "intersectionLoop l r queue' visited' = (ex', b)" by force
    show ?thesis
    proof (cases b)
      case True
      then show ?thesis using IH unfolding step il by simp
    next
      case False
      then obtain V2 where "V' \<subseteq> V2" "doneOrQueued l r V2 []" using IH unfolding il by auto
      then show ?thesis using False V'(3) unfolding step il by auto
    qed
  qed
qed

lemma run_live: "runStates n (u @ v) \<noteq> {} \<Longrightarrow> runStates n u \<noteq> {}"
proof (induction v rule: rev_induct)
  case (snoc c v)
  have "transition n {} c = {}" by (simp add: transition_def closure_def)
  then show ?case using snoc by (metis append_assoc runStates_snoc)
qed simp

lemma digit_in_set: "CHR ''0'' \<le> c \<Longrightarrow> c \<le> CHR ''9'' \<Longrightarrow> c \<in> set ''0123456789''"
proof -
  assume "CHR ''0'' \<le> c" "c \<le> CHR ''9''"
  then have "isDigit c" by (simp add: isDigit_def)
  then have "c \<in> digit_char ` set [0..<10]" by (intro image_eqI[of _ _ "digit_val c"]) simp_all
  moreover have "digit_char ` set [0..<10] = set ''0123456789''" by code_simp
  ultimately show ?thesis by simp
qed

lemma transition_alphabet:
  assumes "transition (newTierLanguage t) X c \<noteq> {}"
  shows "c \<in> set ''0123456789'' \<union> set (Tmpl_prefix t) \<union> set (Tmpl_suffix t)"
proof -
  obtain s where "transitionState (newTierLanguage t) c s \<noteq> {}" using assms by (auto simp: transition_def closure_def split: if_splits)
  then show ?thesis
    using digit_in_set[of c] order.trans[of "CHR ''0''" "CHR ''1''" c]
    by (auto simp: transitionState_def newTierLanguage_def Let_def less_eq_char_def split: if_splits simp del: set_simps)
qed

lemma intersection_complete:
  assumes V: "({0}, {0}) \<in> V" "doneOrQueued l r V []"
  shows "tierKeys l \<inter> tierKeys r = {}"
proof (rule ccontr)
  let ?l = "newTierLanguage l" and ?r = "newTierLanguage r"
  assume "tierKeys l \<inter> tierKeys r \<noteq> {}"
  then obtain w where w: "w \<in> tierKeys l" "w \<in> tierKeys r" by blast
  have ne: "runStates ?l w \<noteq> {}" "runStates ?r w \<noteq> {}" using w run_accepts by (auto simp: accepts_def)
  have "(runStates ?l u, runStates ?r u) \<in> V" if "w = u @ v" for u v
    using that
  proof (induction u arbitrary: v rule: rev_induct)
    case Nil
    then show ?case using V(1) by (simp add: runStates_def start_states)
  next
    case (snoc c u)
    have live: "runStates ?l (u @ [c]) \<noteq> {}" "runStates ?r (u @ [c]) \<noteq> {}"
      using ne run_live[of _ "u @ [c]" v] snoc.prems by auto
    then have "c \<in> set (alphabetOf l r)" using transition_alphabet[of l "runStates ?l u" c] by (auto simp: set_alphabetOf)
    moreover have "liveClosed l r V (runStates ?l u, runStates ?r u) (alphabetOf l r)"
      using snoc.IH[of "c # v"] snoc.prems V(2) by (fastforce simp: doneOrQueued_def)
    ultimately show ?case using live by (auto simp: liveClosed_def nextPair_def)
  qed
  then have "(runStates ?l w, runStates ?r w) \<in> V" by simp
  then show False using V(2) w run_accepts by (fastforce simp: doneOrQueued_def)
qed

lemma intersectionExample_correct:
  "case intersectionExample l r of
      (ex, True) \<Rightarrow> (\<exists>w. w \<in> tierKeys l \<inter> tierKeys r \<and> (asciiTemplate l \<and> asciiTemplate r \<longrightarrow> ex = w))
    | (ex, False) \<Rightarrow> tierKeys l \<inter> tierKeys r = {}"
proof -
  let ?V = "{({0::nat}, {0::nat})}"
  have "pairReached l r ({0}, {0}, [])" by (auto simp: pairReached_def runStates_def start_states intro: exI[of _ "[]"])
  then have "searchInv l r ?V [({0}, {0}, [])] {pairStateKey {0} {0}}" by (simp add: searchInv_def)
  moreover have "doneOrQueued l r ?V [({0}, {0}, [])]" by (simp add: doneOrQueued_def)
  ultimately have "case intersectionExample l r of
      (ex, True) \<Rightarrow> (\<exists>w. w \<in> tierKeys l \<inter> tierKeys r \<and> (asciiTemplate l \<and> asciiTemplate r \<longrightarrow> ex = w))
    | (ex, False) \<Rightarrow> (\<exists>V'. ?V \<subseteq> V' \<and> doneOrQueued l r V' [])"
    unfolding intersectionExample_def Let_def start_states by (rule intersectionLoop_inv)
  then show ?thesis using intersection_complete by (auto split: prod.splits bool.splits)
qed

subsection \<open>Properties of label templates\<close>

definition exParse :: "string \<Rightarrow> parseNode list option option" where
  "exParse raw = Some (Some [TextNode raw,
     ActionNode (Some \<lparr>Pipe_Decl = 0, Pipe_IsAssign = False, Pipe_Cmds = [Some [FieldNode [''Tier'']]]\<rparr>)])"

text \<open>
  C9: for a compiled template, every tier from 1 up to the 64-bit limit renders to a key that
  matches back to the same tier, and a key that matches a tier is exactly the key that tier renders to.
\<close>

theorem Template_roundtrip:
  assumes "Compile parse isQualifiedName raw = Inr t"
  shows "(\<forall>n. 1 \<le> n \<and> n < 2 ^ 63 \<longrightarrow> (\<exists>key. Render (Some t) n = Inr key \<and> MatchTier (Some t) key = Some n))
    \<and> (\<forall>key n. MatchTier (Some t) key = Some n \<longrightarrow> Render (Some t) n = Inr key \<and> 1 \<le> n \<and> n < 2 ^ 63)"
  using Compile_tmplOk[OF assms] tl.render_total tl.match_render tl.render_match by blast

theorem Template_roundtrip_witness:
  "\<exists>t. Compile exParse (\<lambda>_. []) ''dc/leaf-'' = Inr t \<and> MatchTier (Some t) ''dc/leaf-12'' = Some 12"
proof -
  let ?c = "Compile exParse (\<lambda>_. []) ''dc/leaf-''"
  have "\<not> isl ?c" "Render (Some (projr ?c)) 12 = Inr ''dc/leaf-12''" by code_simp+
  then obtain t where t: "?c = Inr t" "Render (Some t) 12 = Inr ''dc/leaf-12''" by (cases ?c) auto
  have "\<exists>key. Render (Some t) 12 = Inr key \<and> MatchTier (Some t) key = Some 12"
    using Template_roundtrip[OF t(1)] by simp
  then show ?thesis using t by auto
qed

text \<open>
  C10: the product search over the two automata ends, reports an overlap exactly when some
  key belongs to both templates, and for ASCII templates its example is such a key.
\<close>

theorem intersectionExample_decides:
  "(snd (intersectionExample left right) \<longleftrightarrow> tierKeys left \<inter> tierKeys right \<noteq> {})
   \<and> (snd (intersectionExample left right) \<and> asciiTemplate left \<and> asciiTemplate right
       \<longrightarrow> fst (intersectionExample left right) \<in> tierKeys left \<inter> tierKeys right)"
  using intersectionExample_correct[of left right] by (auto split: prod.splits bool.splits)

theorem intersectionExample_decides_witness:
  "fst (intersectionExample (projr (Compile exParse (\<lambda>_. []) ''t'')) (projr (Compile exParse (\<lambda>_. []) ''t1'')))
     \<in> tierKeys (projr (Compile exParse (\<lambda>_. []) ''t'')) \<inter> tierKeys (projr (Compile exParse (\<lambda>_. []) ''t1''))"
proof -
  let ?l = "projr (Compile exParse (\<lambda>_. []) ''t'')" and ?r = "projr (Compile exParse (\<lambda>_. []) ''t1'')"
  have "snd (intersectionExample ?l ?r)" "asciiTemplate ?l" "asciiTemplate ?r" by code_simp+
  then show ?thesis using intersectionExample_decides[of ?l ?r] by blast
qed

lemma efold_checkOverlap:
  "(\<exists>u. efold (checkOverlap vs compiled) ps () = Inr u) \<longleftrightarrow>
     (\<forall>(i, j) \<in> set ps. \<not> snd (intersectionExample (compiled ! i) (compiled ! j)))"
  by (induction ps) (auto simp: checkOverlap_def split: prod.splits)

lemma compileAll_three:
  "compileAll parse q [(a, ra), (b, rb), (c, rc)] = Inr ts \<longleftrightarrow>
     (\<exists>x y z. Compile parse q ra = Inr x \<and> Compile parse q rb = Inr y \<and> Compile parse q rc = Inr z \<and> ts = [x, y, z])"
  by (auto simp: compileAll_def split: sum.splits)

lemma CompileSet_iff:
  "CompileSet parse q ra rb rc = Inr s \<longleftrightarrow>
     (\<exists>x y z. Compile parse q ra = Inr x \<and> Compile parse q rb = Inr y \<and> Compile parse q rc = Inr z
        \<and> tierKeys x \<inter> tierKeys y = {} \<and> tierKeys x \<inter> tierKeys z = {} \<and> tierKeys y \<inter> tierKeys z = {}
        \<and> s = \<lparr>ScaleUp = x, ScaleOut = y, Storage = z\<rparr>)"
proof -
  have pairs: "concat (map (\<lambda>left. map (Pair left) [left + 1..<length [x, y, z]]) [0..<length [x, y, z]])
      = [(0, 1), (0, 2), (1, 2)]" for x y z :: Template
    by (simp add: upt_conv_Cons)
  have ov: "(\<exists>u. efold (checkOverlap vs [x, y, z]) [(0, 1), (0, 2), (1, 2)] () = Inr u) \<longleftrightarrow>
      tierKeys x \<inter> tierKeys y = {} \<and> tierKeys x \<inter> tierKeys z = {} \<and> tierKeys y \<inter> tierKeys z = {}" for vs x y z
    using intersectionExample_correct[of x y] intersectionExample_correct[of x z] intersectionExample_correct[of y z]
    unfolding efold_checkOverlap by (auto split: prod.splits bool.splits)
  let ?vs = "[(''topologyLabels.scaleUp'', ra), (''topologyLabels.scaleOut'', rb), (''topologyLabels.storage'', rc)]"
  note three = compileAll_three[of parse q _ ra _ rb _ rc]
  show ?thesis
  proof (cases "compileAll parse q ?vs")
    case (Inl e)
    then have "\<not> (\<exists>x y z. Compile parse q ra = Inr x \<and> Compile parse q rb = Inr y \<and> Compile parse q rc = Inr z)"
    proof (intro notI, elim exE conjE)
      fix x y z assume "Compile parse q ra = Inr x" "Compile parse q rb = Inr y" "Compile parse q rc = Inr z"
      then have "compileAll parse q ?vs = Inr [x, y, z]" unfolding three by simp
      then show False using Inl by simp
    qed
    then show ?thesis unfolding CompileSet_def Let_def Inl by auto
  next
    case (Inr ts)
    then obtain x y z where c: "Compile parse q ra = Inr x" "Compile parse q rb = Inr y" "Compile parse q rc = Inr z"
      and ts: "ts = [x, y, z]" unfolding three by blast
    have "CompileSet parse q ra rb rc = Inr s \<longleftrightarrow>
        (\<exists>u. efold (checkOverlap ?vs [x, y, z]) [(0, 1), (0, 2), (1, 2)] () = Inr u) \<and> s = \<lparr>ScaleUp = x, ScaleOut = y, Storage = z\<rparr>"
      unfolding CompileSet_def Let_def Inr ts sum.case pairs by (auto split: sum.splits)
    then show ?thesis unfolding ov using c by auto
  qed
qed

text \<open>
  C11: a compiled set of templates is unambiguous: no label key is matched by two of its
  three templates, for any of the infinitely many tiers.
\<close>

theorem CompileSet_unambiguous:
  assumes "CompileSet parse isQualifiedName scaleUp scaleOut storage = Inr s"
  shows "length (filter (\<lambda>t. MatchTier (Some t) key \<noteq> None) (AllTemplates (Some s))) \<le> 1"
proof -
  obtain x y z where c: "Compile parse isQualifiedName scaleUp = Inr x" "Compile parse isQualifiedName scaleOut = Inr y"
    "Compile parse isQualifiedName storage = Inr z" and d: "tierKeys x \<inter> tierKeys y = {}" "tierKeys x \<inter> tierKeys z = {}"
    "tierKeys y \<inter> tierKeys z = {}" and s: "s = \<lparr>ScaleUp = x, ScaleOut = y, Storage = z\<rparr>"
    using assms unfolding CompileSet_iff by blast
  have key: "key \<in> tierKeys t" if "MatchTier (Some t) key \<noteq> None" "tmplOk t" for t
    using that MatchTier_iff[OF that(2)] isTierDigits_nat_str by (fastforce simp: tierKeys_def Itoa_def)
  note k = key[OF _ Compile_tmplOk[OF c(1)]] key[OF _ Compile_tmplOk[OF c(2)]] key[OF _ Compile_tmplOk[OF c(3)]]
  have "MatchTier (Some x) key = None \<or> MatchTier (Some y) key = None" "MatchTier (Some x) key = None \<or> MatchTier (Some z) key = None"
    "MatchTier (Some y) key = None \<or> MatchTier (Some z) key = None" using k d by blast+
  then show ?thesis by (auto simp: s AllTemplates_def)
qed

theorem CompileSet_unambiguous_witness:
  "\<exists>s. CompileSet exParse (\<lambda>_. []) ''up/t'' ''out/t'' ''out/t-'' = Inr s
     \<and> length (filter (\<lambda>t. MatchTier (Some t) ''out/t12'' \<noteq> None) (AllTemplates (Some s))) \<le> 1"
proof -
  let ?c = "CompileSet exParse (\<lambda>_. []) ''up/t'' ''out/t'' ''out/t-''"
  have "\<not> isl ?c" by code_simp
  then obtain s where s: "?c = Inr s" by (cases ?c) auto
  then show ?thesis using CompileSet_unambiguous[OF s, of "''out/t12''"] by blast
qed

text \<open>
  a set of three templates is accepted exactly when each of them compiles and no key belongs to
  two of them; every overlap is found.
\<close>

theorem CompileSet_complete:
  "(\<exists>s. CompileSet parse isQualifiedName scaleUp scaleOut storage = Inr s) \<longleftrightarrow>
     (\<exists>x y z. Compile parse isQualifiedName scaleUp = Inr x \<and> Compile parse isQualifiedName scaleOut = Inr y
        \<and> Compile parse isQualifiedName storage = Inr z
        \<and> tierKeys x \<inter> tierKeys y = {} \<and> tierKeys x \<inter> tierKeys z = {} \<and> tierKeys y \<inter> tierKeys z = {})"
  unfolding CompileSet_iff by blast

end
