(* ===== verification/Topology_Status.thy ===== *)
theory Topology_Status
  imports Topology_Label
begin

text \<open>
  The status builder of \<open>src/pkg/controller/topologystatus/build.go\<close>: domains, parents and node
  groups computed from the labels of Nodes and Switches. The Kubernetes check \<open>IsValidLabelValue\<close>
  is the argument \<open>isValid\<close>, which returns the list of problems.
\<close>

subsection \<open>Data\<close>

record LabeledResource =
  Res_Name :: string
  Res_Labels :: "(string, string) gomap"

record LabelSnapshot =
  Snap_Nodes :: "LabeledResource list"
  Snap_Switches :: "LabeledResource list"

record TopologyDomain =
  Dom_Name :: string
  Dom_Tier :: int
  Dom_Parent :: string
  Dom_SwitchMember :: "string list"

record TopologyNodeGroup =
  Grp_Name :: string
  Grp_Nodes :: "string list"
  Grp_SwitchDomainPath :: "string list"

record TopologyStatus =
  Status_Domains :: "TopologyDomain list"
  Status_Nodes :: "TopologyNodeGroup list"

record BuildResult =
  Result_Status :: TopologyStatus
  Result_Pending :: "string list"

type_synonym strset = "(string, unit) gomap"

record domainState =
  Ds_domain :: TopologyDomain
  Ds_parents :: strset
  Ds_members :: strset

type_synonym domains = "(string, domainState) gomap"

datatype statusError =
    NilTemplate
  | TierConflict int string string
  | DiscontinuousPath int int
  | EmptyDomain
  | InvalidDomain string "string list"
  | TierRange int
  | DomainTierConflict string int int
  | MultipleParents string "string list"
  | NilDereference
  | AtNode string statusError
  | AtTier int statusError
  | AtSwitch string statusError

subsection \<open>Helpers\<close>

definition collectTierLabel :: "Template \<Rightarrow> (string, string) gomap \<Rightarrow> string \<Rightarrow> (int, string) gomap
    \<Rightarrow> statusError + (int, string) gomap" where
  "collectTierLabel labelTemplate labels key result =
     (case MatchTier (Some labelTemplate) key of
        None \<Rightarrow> Inr result
      | Some t \<Rightarrow>
          let v = mgetd [] labels key in
          if v = [] then Inr result
          else case map_of result t of
                 Some existing \<Rightarrow> if existing \<noteq> v then Inl (TierConflict t existing v) else Inr (mput t v result)
               | None \<Rightarrow> Inr (mput t v result))"

definition labelsByTier :: "Template \<Rightarrow> (string, string) gomap \<Rightarrow> statusError + (int, string) gomap" where
  "labelsByTier labelTemplate labels = efold (collectTierLabel labelTemplate labels) (sort (mkeys labels)) []"

definition MaxInt32 :: int where
  "MaxInt32 = 2147483647"

definition ensureDomain :: "string \<Rightarrow> int \<Rightarrow> domains \<Rightarrow> statusError + domains" where
  "ensureDomain name t domains =
     (if t > MaxInt32 then Inl (TierRange t)
      else case map_of domains name of
        Some existing \<Rightarrow>
          if Dom_Tier (Ds_domain existing) \<noteq> t
          then Inl (DomainTierConflict name (Dom_Tier (Ds_domain existing)) t) else Inr domains
      | None \<Rightarrow> Inr (mput name \<lparr>Ds_domain = \<lparr>Dom_Name = name, Dom_Tier = t, Dom_Parent = [], Dom_SwitchMember = []\<rparr>,
                  Ds_parents = [], Ds_members = []\<rparr> domains))"

definition validateDomainName :: "(string \<Rightarrow> string list) \<Rightarrow> string \<Rightarrow> statusError + unit" where
  "validateDomainName isValid name =
     (if name = [] then Inl EmptyDomain
      else let problems = isValid name in
        if problems \<noteq> [] then Inl (InvalidDomain name problems) else Inr ())"

definition sortedTiers :: "(int, string) gomap \<Rightarrow> int list" where
  "sortedTiers m = sort (mkeys m)"

definition sortedSet :: "strset \<Rightarrow> string list" where
  "sortedSet m = sort (mkeys m)"

definition nodeGroupKey :: "string list \<Rightarrow> string" where
  "nodeGroupKey path = Join path [CHR 0x00]"

definition nodeGroupNamePrefix :: string where
  "nodeGroupNamePrefix = ''node-group''"

definition parseNodeGroupNumber :: "string \<Rightarrow> int option" where
  "parseNodeGroupNumber name =
     (if take (length nodeGroupNamePrefix) name \<noteq> nodeGroupNamePrefix then None
      else let suffix = drop (length nodeGroupNamePrefix) name in
        if suffix = [] then None
        else case Atoi suffix of
               None \<Rightarrow> None
             | Some number \<Rightarrow> if number \<le> 0 then None else Some number)"

subsection \<open>Names of node groups\<close>

text \<open>The inner loop of \<open>assignNodeGroupNames\<close>: the first number from \<open>n\<close> on that is not taken.\<close>

definition takenFrom :: "(int, unit) gomap \<Rightarrow> int \<Rightarrow> int set" where
  "takenFrom used n = {k \<in> keyset used. n \<le> k}"

function nextFree :: "(int, unit) gomap \<Rightarrow> int \<Rightarrow> int" where
  "nextFree used n = (if map_of used n \<noteq> None then nextFree used (n + 1) else n)"
  by pat_completeness auto
termination
proof (relation "measure (\<lambda>(used, n). card (takenFrom used n))", simp, goal_cases)
  case (1 used n)
  then have "n \<in> takenFrom used n" by (auto simp: takenFrom_def)
  moreover have "n \<notin> takenFrom used (n + 1)" "takenFrom used (n + 1) \<subseteq> takenFrom used n"
    by (auto simp: takenFrom_def)
  ultimately have "takenFrom used (n + 1) \<subset> takenFrom used n" by blast
  then show ?case by (simp add: psubset_card_mono takenFrom_def)
qed

declare nextFree.simps [simp del]

definition collectPrevious :: "TopologyNodeGroup \<Rightarrow> (string, string) gomap \<times> (int, unit) gomap
    \<Rightarrow> (string, string) gomap \<times> (int, unit) gomap" where
  "collectPrevious previous = (\<lambda>(names, used).
     (mput (nodeGroupKey (Grp_SwitchDomainPath previous)) (Grp_Name previous) names,
      case parseNodeGroupNumber (Grp_Name previous) of
        Some number \<Rightarrow> mput number () used
      | None \<Rightarrow> used))"

fun assignLoop :: "(string, string) gomap \<Rightarrow> (int, unit) gomap \<Rightarrow> int \<Rightarrow> TopologyNodeGroup list \<Rightarrow> TopologyNodeGroup list" where
  "assignLoop names used nextNumber [] = []"
| "assignLoop names used nextNumber (g # groups) =
     (case map_of names (nodeGroupKey (Grp_SwitchDomainPath g)) of
        Some name \<Rightarrow>
          if name \<noteq> [] then g\<lparr>Grp_Name := name\<rparr> # assignLoop names used nextNumber groups
          else let n = nextFree used nextNumber in
            g\<lparr>Grp_Name := nodeGroupNamePrefix @ Itoa n\<rparr> # assignLoop names (mput n () used) (n + 1) groups
      | None \<Rightarrow>
          let n = nextFree used nextNumber in
            g\<lparr>Grp_Name := nodeGroupNamePrefix @ Itoa n\<rparr> # assignLoop names (mput n () used) (n + 1) groups)"

definition assignNodeGroupNames :: "TopologyNodeGroup list \<Rightarrow> TopologyNodeGroup list \<Rightarrow> TopologyNodeGroup list" where
  "assignNodeGroupNames groups previousNodeGroups =
     (case fold collectPrevious previousNodeGroups ([], []) of
        (names, used) \<Rightarrow> assignLoop names used 1 groups)"

subsection \<open>The builder\<close>

text \<open>One tier of a node: its place in the path, its name, and its domain.\<close>

definition checkTier :: "(string \<Rightarrow> string list) \<Rightarrow> (int, string) gomap \<Rightarrow> nat \<times> int \<Rightarrow> domains \<Rightarrow> statusError + domains" where
  "checkTier isValid valuesByTier = (\<lambda>(index, t) domains.
     if t \<noteq> int index + 1 then Inl (DiscontinuousPath (int index + 1) t)
     else let v = mgetd [] valuesByTier t in
       case validateDomainName isValid v of
         Inl e \<Rightarrow> Inl (AtTier t e)
       | Inr _ \<Rightarrow> ensureDomain v t domains)"

definition linkParent :: "(int, string) gomap \<Rightarrow> int \<Rightarrow> domains \<Rightarrow> statusError + domains" where
  "linkParent valuesByTier t domains =
     (let childName = mgetd [] valuesByTier t;
          parentName = mgetd [] valuesByTier (t + 1)
      in case map_of domains childName of
           None \<Rightarrow> Inl NilDereference
         | Some child \<Rightarrow>
             let parents = mput parentName () (Ds_parents child);
                 domains' = mput childName (child\<lparr>Ds_parents := parents\<rparr>) domains
             in if length parents > 1 then Inl (MultipleParents childName (sortedSet parents))
                else Inr domains')"

definition addToGroup :: "string list \<Rightarrow> string \<Rightarrow> (string, TopologyNodeGroup) gomap \<Rightarrow> (string, TopologyNodeGroup) gomap" where
  "addToGroup path name nodeGroups =
     (let groupKey = nodeGroupKey path;
          grp = (case map_of nodeGroups groupKey of
                   Some grp \<Rightarrow> grp
                 | None \<Rightarrow> \<lparr>Grp_Name = [], Grp_Nodes = [], Grp_SwitchDomainPath = path\<rparr>)
      in mput groupKey (grp\<lparr>Grp_Nodes := Grp_Nodes grp @ [name]\<rparr>) nodeGroups)"

definition addNode :: "(string \<Rightarrow> string list) \<Rightarrow> Template \<Rightarrow> LabeledResource
    \<Rightarrow> domains \<times> (string, TopologyNodeGroup) gomap \<Rightarrow> statusError + domains \<times> (string, TopologyNodeGroup) gomap" where
  "addNode isValid labelTemplate node = (\<lambda>(domains, nodeGroups).
     case labelsByTier labelTemplate (Res_Labels node) of
       Inl e \<Rightarrow> Inl (AtNode (Res_Name node) e)
     | Inr valuesByTier \<Rightarrow>
         if length valuesByTier = 0 then Inr (domains, nodeGroups)
         else let tiers = sortedTiers valuesByTier in
           case efold (checkTier isValid valuesByTier) (zip [0..<length tiers] tiers) domains of
             Inl e \<Rightarrow> Inl (AtNode (Res_Name node) e)
           | Inr domains1 \<Rightarrow>
               (case efold (linkParent valuesByTier) (map int [1..<length tiers]) domains1 of
                  Inl e \<Rightarrow> Inl e
                | Inr domains2 \<Rightarrow>
                    let path = map (\<lambda>t. mgetd [] valuesByTier (int t)) (rev [1..<Suc (length tiers)])
                    in Inr (domains2, addToGroup path (Res_Name node) nodeGroups)))"

definition TopologyDomainLabel :: string where
  "TopologyDomainLabel = ''unifabric.io/domain''"

definition pendingMessage :: "string \<Rightarrow> string \<Rightarrow> string" where
  "pendingMessage name v = ''Switch '' @ Quote name @ '' domain '' @ Quote v @ '' has no matching Node domain''"

definition addSwitch :: "(string \<Rightarrow> string list) \<Rightarrow> LabeledResource \<Rightarrow> domains \<times> string list
    \<Rightarrow> statusError + domains \<times> string list" where
  "addSwitch isValid sw = (\<lambda>(domains, pending).
     let v = mgetd [] (Res_Labels sw) TopologyDomainLabel in
     if v = [] then Inr (domains, pending)
     else case validateDomainName isValid v of
       Inl e \<Rightarrow> Inl (AtSwitch (Res_Name sw) e)
     | Inr _ \<Rightarrow>
         (case map_of domains v of
            None \<Rightarrow> Inr (domains, pending @ [pendingMessage (Res_Name sw) v])
          | Some domain \<Rightarrow>
              Inr (mput v (domain\<lparr>Ds_members := mput (Res_Name sw) () (Ds_members domain)\<rparr>) domains, pending)))"

definition finishDomain :: "domainState \<Rightarrow> TopologyDomain" where
  "finishDomain state =
     (let domain = (if length (Ds_parents state) = 1
            then (Ds_domain state)\<lparr>Dom_Parent := sortedSet (Ds_parents state) ! 0\<rparr> else Ds_domain state)
      in domain\<lparr>Dom_SwitchMember := sortedSet (Ds_members state)\<rparr>)"

definition BuildTopologyStatus :: "(string \<Rightarrow> string list) \<Rightarrow> Template option \<Rightarrow> LabelSnapshot \<Rightarrow> TopologyNodeGroup list
    \<Rightarrow> statusError + BuildResult" where
  "BuildTopologyStatus isValid labelTemplate snapshot previousNodeGroups =
     (case labelTemplate of
        None \<Rightarrow> Inl NilTemplate
      | Some tmpl \<Rightarrow>
          (case efold (addNode isValid tmpl) (sort_key Res_Name (Snap_Nodes snapshot)) ([], []) of
             Inl e \<Rightarrow> Inl e
           | Inr (domains, nodeGroups) \<Rightarrow>
               (case efold (addSwitch isValid) (sort_key Res_Name (Snap_Switches snapshot)) (domains, []) of
                  Inl e \<Rightarrow> Inl e
                | Inr (domains', pending) \<Rightarrow>
                    let statusDomains = sort_key (\<lambda>d. (- Dom_Tier d, Dom_Name d)) (map (finishDomain \<circ> snd) domains');
                        groups = map (\<lambda>(_, grp). grp\<lparr>Grp_Nodes := sort (Grp_Nodes grp)\<rparr>) nodeGroups;
                        statusNodes = sort_key (\<lambda>grp. (Join (Grp_SwitchDomainPath grp) [CHR 0x00],
                                                       Join (Grp_Nodes grp) [CHR 0x00])) groups
                    in Inr \<lparr>Result_Status = \<lparr>Status_Domains = statusDomains,
                               Status_Nodes = assignNodeGroupNames statusNodes previousNodeGroups\<rparr>,
                             Result_Pending = sort pending\<rparr>)))"

subsection \<open>Labels by tier\<close>

definition tierLabel :: "Template \<Rightarrow> (string, string) gomap \<Rightarrow> int \<Rightarrow> string \<Rightarrow> bool" where
  "tierLabel tmpl labels t v \<longleftrightarrow> v \<noteq> [] \<and> (\<exists>key. MatchTier (Some tmpl) key = Some t \<and> map_of labels key = Some v)"

lemma labelsByTier_keys:
  assumes ok: "tmplOk tmpl"
  shows "distinct ks \<Longrightarrow> \<exists>m. efold (collectTierLabel tmpl labels) ks [] = Inr m \<and> mwf m
      \<and> (\<forall>t v. map_of m t = Some v \<longleftrightarrow> v \<noteq> [] \<and> (\<exists>k\<in>set ks. MatchTier (Some tmpl) k = Some t \<and> mgetd [] labels k = v))"
proof (induction ks rule: rev_induct)
  case (snoc k ks)
  then obtain m where m: "efold (collectTierLabel tmpl labels) ks [] = Inr m" "mwf m"
    "\<And>t v. map_of m t = Some v \<longleftrightarrow> v \<noteq> [] \<and> (\<exists>k\<in>set ks. MatchTier (Some tmpl) k = Some t \<and> mgetd [] labels k = v)"
    by auto
  show ?case
  proof (cases "MatchTier (Some tmpl) k")
    case None
    then show ?thesis using m by (auto simp: efold_snoc collectTierLabel_def[of _ _ k])
  next
    case (Some t)
    have other: "MatchTier (Some tmpl) k' \<noteq> Some t" if "k' \<in> set ks" for k'
      using tl.match_inj[OF ok Some] snoc.prems that by auto
    then have "map_of m t = None" using m(3)[of t] by (cases "map_of m t") auto
    then show ?thesis using m(1,2) Some other by (auto simp: efold_snoc collectTierLabel_def[of _ _ k] Let_def m(3))
  qed
qed simp

lemma labelsByTier_ok:
  assumes "tmplOk tmpl" "mwf labels"
  shows "\<exists>m. labelsByTier tmpl labels = Inr m \<and> mwf m \<and> (\<forall>t v. map_of m t = Some v \<longleftrightarrow> tierLabel tmpl labels t v)"
proof -
  have "distinct (sort (mkeys labels))" using assms(2) by simp
  from labelsByTier_keys[OF assms(1) this, of labels]
  obtain m where m: "labelsByTier tmpl labels = Inr m" "mwf m"
    "\<And>t v. map_of m t = Some v \<longleftrightarrow> v \<noteq> [] \<and> (\<exists>k\<in>keyset labels. MatchTier (Some tmpl) k = Some t \<and> mgetd [] labels k = v)"
    by (auto simp: labelsByTier_def)
  have "k \<in> keyset labels \<and> mgetd [] labels k = v \<longleftrightarrow> map_of labels k = Some v" for k v
    by (auto simp: keyset_iff mgetd_def)
  then have "map_of m t = Some v \<longleftrightarrow> tierLabel tmpl labels t v" for t v
    unfolding m(3) tierLabel_def by metis
  then show ?thesis using m(1,2) by blast
qed

lemma tierLabel_pos: "tmplOk tmpl \<Longrightarrow> tierLabel tmpl labels t v \<Longrightarrow> 1 \<le> t"
  using tl.render_match by (auto simp: tierLabel_def)

subsection \<open>The facts that the labels state\<close>

text \<open>
  A label states that a domain is on a tier, two labels of adjacent tiers that one domain has the
  other as parent. \<open>BadPath\<close> stands for a path with a gap or an invalid name.
\<close>

datatype labelFact = TierOf string int | ParentOf string string | BadPath

definition consistentFacts :: "labelFact set \<Rightarrow> bool" where
  "consistentFacts E \<longleftrightarrow> BadPath \<notin> E \<and> (\<forall>v t. TierOf v t \<in> E \<longrightarrow> t \<le> MaxInt32)
     \<and> (\<forall>v t t'. TierOf v t \<in> E \<longrightarrow> TierOf v t' \<in> E \<longrightarrow> t = t')
     \<and> (\<forall>v p p'. ParentOf v p \<in> E \<longrightarrow> ParentOf v p' \<in> E \<longrightarrow> p = p')"

lemma consistentFacts_mono: "\<forall>A B. consistentFacts (A \<union> B) \<longrightarrow> consistentFacts A"
  by (auto simp: consistentFacts_def)

definition domainOk :: "labelFact set \<Rightarrow> string \<Rightarrow> domainState \<Rightarrow> bool" where
  "domainOk E v d \<longleftrightarrow> Dom_Name (Ds_domain d) = v \<and> Dom_Parent (Ds_domain d) = [] \<and> Ds_members d = []
     \<and> TierOf v (Dom_Tier (Ds_domain d)) \<in> E
     \<and> mwf (Ds_parents d) \<and> length (Ds_parents d) \<le> 1 \<and> keyset (Ds_parents d) = {p. ParentOf v p \<in> E}"

definition domainsInv :: "labelFact set \<Rightarrow> domains \<Rightarrow> bool" where
  "domainsInv E D \<longleftrightarrow> mwf D \<and> BadPath \<notin> E
     \<and> (\<forall>v d. map_of D v = Some d \<longrightarrow> domainOk E v d)
     \<and> (\<forall>v t. TierOf v t \<in> E \<longrightarrow> t \<le> MaxInt32 \<and> (\<exists>d. map_of D v = Some d \<and> Dom_Tier (Ds_domain d) = t))
     \<and> (\<forall>v p. ParentOf v p \<in> E \<longrightarrow> (\<exists>t. TierOf v t \<in> E))"

lemma domainsInvD:
  assumes "domainsInv E D"
  shows "mwf D" "BadPath \<notin> E" "map_of D v = Some d \<Longrightarrow> domainOk E v d"
    "TierOf v t \<in> E \<Longrightarrow> t \<le> MaxInt32" "TierOf v t \<in> E \<Longrightarrow> \<exists>d. map_of D v = Some d \<and> Dom_Tier (Ds_domain d) = t"
    "ParentOf v p \<in> E \<Longrightarrow> \<exists>t. TierOf v t \<in> E"
  using assms by (auto simp: domainsInv_def)

lemma domainsInvI:
  assumes "mwf D" "BadPath \<notin> E" "\<And>v d. map_of D v = Some d \<Longrightarrow> domainOk E v d"
    "\<And>v t. TierOf v t \<in> E \<Longrightarrow> t \<le> MaxInt32"
    "\<And>v t. TierOf v t \<in> E \<Longrightarrow> \<exists>d. map_of D v = Some d \<and> Dom_Tier (Ds_domain d) = t"
    "\<And>v p. ParentOf v p \<in> E \<Longrightarrow> \<exists>t. TierOf v t \<in> E"
  shows "domainsInv E D"
  using assms by (simp add: domainsInv_def)

lemma domainsInv_Nil: "domainsInv {} []"
  by (simp add: domainsInv_def)

lemma ensureDomain_step:
  assumes inv: "domainsInv E D"
  shows "case ensureDomain v t D of Inl e \<Rightarrow> \<not> consistentFacts (E \<union> {TierOf v t})
    | Inr D' \<Rightarrow> domainsInv (E \<union> {TierOf v t}) D'"
proof (cases "t > MaxInt32")
  case True
  then show ?thesis by (auto simp: ensureDomain_def consistentFacts_def)
next
  case le: False
  show ?thesis
  proof (cases "map_of D v")
    case (Some d)
    note d = domainsInvD(3)[OF inv Some]
    show ?thesis
    proof (cases "Dom_Tier (Ds_domain d) = t")
      case True
      then have "E \<union> {TierOf v t} = E" using d by (auto simp: domainOk_def)
      then show ?thesis using True Some le inv by (simp add: ensureDomain_def)
    next
      case False
      then have "\<not> consistentFacts (E \<union> {TierOf v t})"
        using d unfolding consistentFacts_def domainOk_def by blast
      then show ?thesis using False Some le by (simp add: ensureDomain_def)
    qed
  next
    case None
    have no: "TierOf v t' \<notin> E" for t' using domainsInvD(5)[OF inv, of v t'] None by auto
    then have np: "ParentOf v p \<notin> E" for p using domainsInvD(6)[OF inv, of v p] by auto
    have "domainsInv (E \<union> {TierOf v t}) (mput v \<lparr>Ds_domain = \<lparr>Dom_Name = v, Dom_Tier = t, Dom_Parent = [], Dom_SwitchMember = []\<rparr>,
                  Ds_parents = [], Ds_members = []\<rparr> D)"
    proof (rule domainsInvI)
      show "\<exists>t'. TierOf w t' \<in> E \<union> {TierOf v t}" if "ParentOf w p \<in> E \<union> {TierOf v t}" for w p
        using that domainsInvD(6)[OF inv, of w p] by auto
    qed (use domainsInvD(1-5)[OF inv] le np no in \<open>auto simp: domainOk_def split: if_splits\<close>)
    then show ?thesis using None le by (simp add: ensureDomain_def)
  qed
qed

lemma length_mput_le1:
  assumes "mwf m" "length m \<le> 1"
  shows "length (mput k u m) > 1 \<longleftrightarrow> (\<exists>k'\<in>keyset m. k' \<noteq> k)"
proof -
  have "length (mput k u m) = card (insert k (keyset m))" using card_keyset[of "mput k u m"] assms(1) by simp
  moreover have "m = [] \<or> (\<exists>a b. m = [(a, b)])" using assms(2) by (cases m) auto
  ultimately show ?thesis by (auto simp: card_insert_if)
qed

lemma linkParent_step:
  assumes inv: "domainsInv E D" and child: "TierOf (mgetd [] V t) t' \<in> E"
  shows "case linkParent V t D of Inl e \<Rightarrow> \<not> consistentFacts (E \<union> {ParentOf (mgetd [] V t) (mgetd [] V (t + 1))})
    | Inr D' \<Rightarrow> domainsInv (E \<union> {ParentOf (mgetd [] V t) (mgetd [] V (t + 1))}) D'"
proof -
  let ?c = "mgetd [] V t" and ?p = "mgetd [] V (t + 1)"
  obtain d where d: "map_of D ?c = Some d" using domainsInvD(5)[OF inv child] by blast
  note ok = domainsInvD(3)[OF inv d]
  then have many: "length (mput ?p () (Ds_parents d)) > 1 \<longleftrightarrow> (\<exists>q. ParentOf ?c q \<in> E \<and> q \<noteq> ?p)"
    by (subst length_mput_le1) (auto simp: domainOk_def)
  show ?thesis
  proof (cases "length (mput ?p () (Ds_parents d)) > 1")
    case True
    then have "\<not> consistentFacts (E \<union> {ParentOf ?c ?p})" unfolding many consistentFacts_def by blast
    then show ?thesis using True d by (simp add: linkParent_def Let_def)
  next
    case False
    have "domainOk (E \<union> {ParentOf ?c ?p}) ?c (d\<lparr>Ds_parents := mput ?p () (Ds_parents d)\<rparr>)"
      using ok False by (auto simp: domainOk_def)
    moreover have "domainOk (E \<union> {ParentOf ?c ?p}) v e" if "map_of D v = Some e" "v \<noteq> ?c" for v e
      using domainsInvD(3)[OF inv that(1)] that(2) by (auto simp: domainOk_def)
    ultimately have "domainsInv (E \<union> {ParentOf ?c ?p}) (mput ?c (d\<lparr>Ds_parents := mput ?p () (Ds_parents d)\<rparr>) D)"
    proof (intro domainsInvI)
      show "\<exists>t'. TierOf w t' \<in> E \<union> {ParentOf ?c ?p}" if "ParentOf w p \<in> E \<union> {ParentOf ?c ?p}" for w p
        using that domainsInvD(6)[OF inv, of w p] child by auto
      show "\<exists>e. map_of (mput ?c (d\<lparr>Ds_parents := mput ?p () (Ds_parents d)\<rparr>) D) w = Some e \<and> Dom_Tier (Ds_domain e) = u"
        if "TierOf w u \<in> E \<union> {ParentOf ?c ?p}" for w u
        using that domainsInvD(5)[OF inv, of w u] d by auto
    qed (use domainsInvD(1,2,4)[OF inv] in \<open>auto split: if_splits\<close>)
    then show ?thesis using False d by (simp add: linkParent_def Let_def)
  qed
qed

subsection \<open>One node\<close>

definition nodeValues :: "Template \<Rightarrow> LabeledResource \<Rightarrow> (int, string) gomap" where
  "nodeValues tmpl n = (case labelsByTier tmpl (Res_Labels n) of Inl _ \<Rightarrow> [] | Inr m \<Rightarrow> m)"

definition nodePath :: "Template \<Rightarrow> LabeledResource \<Rightarrow> string list" where
  "nodePath tmpl n = map (\<lambda>t. mgetd [] (nodeValues tmpl n) (int t)) (rev [1..<Suc (length (nodeValues tmpl n))])"

definition checkFact :: "(string \<Rightarrow> string list) \<Rightarrow> (int, string) gomap \<Rightarrow> nat \<times> int \<Rightarrow> labelFact" where
  "checkFact isValid V = (\<lambda>(i, t). if t \<noteq> int i + 1 \<or> mgetd [] V t = [] \<or> isValid (mgetd [] V t) \<noteq> [] then BadPath
     else TierOf (mgetd [] V t) t)"

definition checkFacts :: "(string \<Rightarrow> string list) \<Rightarrow> (int, string) gomap \<Rightarrow> labelFact set" where
  "checkFacts isValid V = checkFact isValid V ` set (zip [0..<length V] (sortedTiers V))"

definition linkFacts :: "(int, string) gomap \<Rightarrow> labelFact set" where
  "linkFacts V = (\<lambda>t. ParentOf (mgetd [] V (int t)) (mgetd [] V (int t + 1))) ` {1..<length V}"

definition nodeFacts :: "(string \<Rightarrow> string list) \<Rightarrow> Template \<Rightarrow> LabeledResource \<Rightarrow> labelFact set" where
  "nodeFacts isValid tmpl n = checkFacts isValid (nodeValues tmpl n) \<union> linkFacts (nodeValues tmpl n)"

lemma length_sortedTiers [simp]: "length (sortedTiers V) = length V"
  by (simp add: sortedTiers_def mkeys_def)

lemma checkTier_step:
  assumes inv: "domainsInv E D"
  shows "case checkTier isValid V x D of Inl e \<Rightarrow> \<not> consistentFacts (E \<union> {checkFact isValid V x})
    | Inr D' \<Rightarrow> domainsInv (E \<union> {checkFact isValid V x}) D'"
proof (cases "checkFact isValid V x = BadPath")
  case True
  then have "\<exists>e. checkTier isValid V x D = Inl e"
    by (auto simp: checkFact_def checkTier_def validateDomainName_def Let_def split: prod.splits if_splits)
  then show ?thesis using True by (auto simp: consistentFacts_def)
next
  case False
  obtain i t where x: "x = (i, t)" by (cases x)
  have "checkTier isValid V x D = ensureDomain (mgetd [] V t) t D" "checkFact isValid V x = TierOf (mgetd [] V t) t"
    using False x by (auto simp: checkFact_def checkTier_def validateDomainName_def split: if_splits)
  then show ?thesis using ensureDomain_step[OF inv, of "mgetd [] V t" t] by (simp only:)
qed

lemma checkTiers_decide:
  assumes "domainsInv E D"
  shows "case efold (checkTier isValid V) (zip [0..<length V] (sortedTiers V)) D of
      Inl e \<Rightarrow> \<not> consistentFacts (E \<union> checkFacts isValid V) | Inr D' \<Rightarrow> domainsInv (E \<union> checkFacts isValid V) D'"
  using efold_decides[where Q = domainsInv and E = E and s = D and xs = "zip [0..<length V] (sortedTiers V)"
      and f = "checkTier isValid V" and C = consistentFacts and F = "\<lambda>x. {checkFact isValid V x}", OF assms checkTier_step consistentFacts_mono]
  by (simp add: checkFacts_def UNION_singleton_eq_range split: sum.splits)

lemma checkFacts_nth:
  assumes "BadPath \<notin> checkFacts isValid V" "i < length V"
  shows "sortedTiers V ! i = int i + 1" "TierOf (mgetd [] V (int i + 1)) (int i + 1) \<in> checkFacts isValid V"
    "mgetd [] V (int i + 1) \<noteq> []" "isValid (mgetd [] V (int i + 1)) = []"
proof -
  have "(i, sortedTiers V ! i) \<in> set (zip [0..<length V] (sortedTiers V))" using assms(2) by (auto simp: set_zip intro!: exI[of _ i])
  then have m: "checkFact isValid V (i, sortedTiers V ! i) \<in> checkFacts isValid V" by (simp add: checkFacts_def)
  then have "checkFact isValid V (i, sortedTiers V ! i) \<noteq> BadPath" using assms(1) by auto
  then show "sortedTiers V ! i = int i + 1" "TierOf (mgetd [] V (int i + 1)) (int i + 1) \<in> checkFacts isValid V"
    "mgetd [] V (int i + 1) \<noteq> []" "isValid (mgetd [] V (int i + 1)) = []"
    using m by (auto simp: checkFact_def split: if_splits)
qed

lemma linkParents_decide:
  assumes inv: "domainsInv E D" and sub: "checkFacts isValid V \<subseteq> E"
  shows "case efold (linkParent V) (map int [1..<length V]) D of
      Inl e \<Rightarrow> \<not> consistentFacts (E \<union> linkFacts V) | Inr D' \<Rightarrow> domainsInv (E \<union> linkFacts V) D'"
proof -
  have good: "BadPath \<notin> checkFacts isValid V" using domainsInvD(2)[OF inv] sub by blast
  have child: "TierOf (mgetd [] V t) t \<in> E" if "t \<in> set (map int [1..<length V])" for t
  proof -
    define k where "k = nat t"
    then have "t = int k" "1 \<le> k" "k < length V" using that by auto
    then show ?thesis using checkFacts_nth(2)[OF good, of "k - 1"] sub by (auto simp: of_nat_diff)
  qed
  let ?Q = "\<lambda>F D. domainsInv F D \<and> E \<subseteq> F"
  have step: "case linkParent V t D of Inl e \<Rightarrow> \<not> consistentFacts (F \<union> {ParentOf (mgetd [] V t) (mgetd [] V (t + 1))})
      | Inr D' \<Rightarrow> ?Q (F \<union> {ParentOf (mgetd [] V t) (mgetd [] V (t + 1))}) D'"
    if "t \<in> set (map int [1..<length V])" "?Q F D" for t F D
    using linkParent_step[of F D V t t] child[OF that(1)] that(2) by (auto split: sum.splits)
  have "(\<Union>t\<in>set (map int [1..<length V]). {ParentOf (mgetd [] V t) (mgetd [] V (t + 1))}) = linkFacts V"
    by (auto simp: linkFacts_def)
  then show ?thesis
    using efold_decides[where Q = ?Q and E = E and s = D and xs = "map int [1..<length V]" and f = "linkParent V"
      and C = consistentFacts and F = "\<lambda>t. {ParentOf (mgetd [] V t) (mgetd [] V (t + 1))}", OF _ step consistentFacts_mono] inv
    by (simp split: sum.splits)
qed

definition groupStep :: "Template \<Rightarrow> LabeledResource \<Rightarrow> (string, TopologyNodeGroup) gomap \<Rightarrow> (string, TopologyNodeGroup) gomap" where
  "groupStep tmpl n G = (if nodeValues tmpl n = [] then G else addToGroup (nodePath tmpl n) (Res_Name n) G)"

lemma addNode_step:
  assumes ok: "tmplOk tmpl" "mwf (Res_Labels n)" and inv: "domainsInv E D"
  shows "case addNode isValid tmpl n (D, G) of Inl e \<Rightarrow> \<not> consistentFacts (E \<union> nodeFacts isValid tmpl n)
    | Inr (D', G') \<Rightarrow> domainsInv (E \<union> nodeFacts isValid tmpl n) D' \<and> G' = groupStep tmpl n G"
proof -
  obtain V where V: "labelsByTier tmpl (Res_Labels n) = Inr V" using labelsByTier_ok[OF ok] by blast
  then have nV: "nodeValues tmpl n = V" by (simp add: nodeValues_def)
  show ?thesis
  proof (cases "V = []")
    case True
    then show ?thesis using V nV inv
      by (simp add: addNode_def nodeFacts_def checkFacts_def linkFacts_def groupStep_def)
  next
    case False
    show ?thesis
    proof (cases "efold (checkTier isValid V) (zip [0..<length V] (sortedTiers V)) D")
      case (Inl e)
      then have "\<not> consistentFacts (E \<union> nodeFacts isValid tmpl n)"
        using checkTiers_decide[OF inv, of isValid V] consistentFacts_mono[rule_format, of "E \<union> checkFacts isValid V"]
        by (auto simp: nodeFacts_def nV Un_assoc)
      then show ?thesis using V False Inl by (simp add: addNode_def Let_def)
    next
      case (Inr D1)
      then have inv1: "domainsInv (E \<union> checkFacts isValid V) D1" using checkTiers_decide[OF inv, of isValid V] by simp
      show ?thesis
        using linkParents_decide[OF inv1, of isValid V] V False Inr
        by (auto simp: addNode_def Let_def nodeFacts_def nV Un_assoc groupStep_def nodePath_def split: sum.splits)
    qed
  qed
qed

lemma addNodes_decide:
  assumes ok: "tmplOk tmpl" "\<And>n. n \<in> set ns \<Longrightarrow> mwf (Res_Labels n)"
  shows "case efold (addNode isValid tmpl) ns ([], []) of Inl e \<Rightarrow> \<not> consistentFacts (\<Union>n\<in>set ns. nodeFacts isValid tmpl n)
    | Inr (D, G) \<Rightarrow> domainsInv (\<Union>n\<in>set ns. nodeFacts isValid tmpl n) D"
proof -
  let ?Q = "\<lambda>E (D, G). domainsInv E D"
  have step: "case addNode isValid tmpl n s of Inl e \<Rightarrow> \<not> consistentFacts (E \<union> nodeFacts isValid tmpl n)
      | Inr s' \<Rightarrow> ?Q (E \<union> nodeFacts isValid tmpl n) s'" if "n \<in> set ns" "?Q E s" for n s E
    using addNode_step[OF ok(1) ok(2)[OF that(1)], of E "fst s" isValid "snd s"] that(2)
    by (cases s) (auto split: sum.splits prod.splits)
  show ?thesis
    using efold_decides[where Q = ?Q and E = "{}" and s = "([], [])" and xs = ns and f = "addNode isValid tmpl"
        and C = consistentFacts and F = "nodeFacts isValid tmpl", OF _ step consistentFacts_mono] domainsInv_Nil
    by (auto split: sum.splits)
qed

lemma addNodes_groups:
  assumes ok: "tmplOk tmpl" "\<And>n. n \<in> set ns \<Longrightarrow> mwf (Res_Labels n)"
  shows "efold (addNode isValid tmpl) ns ([], []) = Inr (D, G) \<Longrightarrow> G = fold (groupStep tmpl) ns []"
  using ok(2)
proof (induction ns arbitrary: D G rule: rev_induct)
  case (snoc n ns)
  then obtain D0 G0 where s: "efold (addNode isValid tmpl) ns ([], []) = Inr (D0, G0)" "addNode isValid tmpl n (D0, G0) = Inr (D, G)"
    by (auto simp: efold_snoc split: sum.splits)
  have "domainsInv (\<Union>n\<in>set ns. nodeFacts isValid tmpl n) D0"
    using addNodes_decide[OF ok(1), of ns isValid] snoc.prems(2) s(1) by simp
  from addNode_step[OF ok(1) _ this, of n isValid G0] s(2) snoc.prems(2)
  have "G = groupStep tmpl n G0" by simp
  moreover have "G0 = fold (groupStep tmpl) ns []" using snoc.IH[OF s(1)] snoc.prems(2) by simp
  ultimately show ?case by simp
qed simp

subsection \<open>Node groups\<close>

definition groupMembers :: "Template \<Rightarrow> LabeledResource list \<Rightarrow> string \<Rightarrow> LabeledResource list" where
  "groupMembers tmpl ns k = filter (\<lambda>n. nodeValues tmpl n \<noteq> [] \<and> nodeGroupKey (nodePath tmpl n) = k) ns"

lemma groups_closed:
  "mwf (fold (groupStep tmpl) ns []) \<and> (\<forall>k. map_of (fold (groupStep tmpl) ns []) k =
     (if groupMembers tmpl ns k = [] then None
      else Some \<lparr>Grp_Name = [], Grp_Nodes = map Res_Name (groupMembers tmpl ns k),
                 Grp_SwitchDomainPath = nodePath tmpl (hd (groupMembers tmpl ns k))\<rparr>))"
proof (induction ns rule: rev_induct)
  case Nil
  then show ?case by (simp add: groupMembers_def)
next
  case (snoc n ns)
  show ?case
  proof (cases "nodeValues tmpl n = []")
    case True
    then show ?thesis using snoc by (simp add: groupStep_def[of _ n] groupMembers_def)
  next
    case False
    let ?k = "nodeGroupKey (nodePath tmpl n)"
    have same: "groupMembers tmpl (ns @ [n]) ?k = groupMembers tmpl ns ?k @ [n]" using False by (simp add: groupMembers_def)
    have other: "groupMembers tmpl (ns @ [n]) k = groupMembers tmpl ns k" if "k \<noteq> ?k" for k
      using that by (simp add: groupMembers_def)
    have "map_of (fold (groupStep tmpl) (ns @ [n]) []) k =
     (if groupMembers tmpl (ns @ [n]) k = [] then None
      else Some \<lparr>Grp_Name = [], Grp_Nodes = map Res_Name (groupMembers tmpl (ns @ [n]) k),
                 Grp_SwitchDomainPath = nodePath tmpl (hd (groupMembers tmpl (ns @ [n]) k))\<rparr>)" for k
      using snoc False by (cases "k = ?k") (auto simp: same other groupStep_def[of _ n] addToGroup_def Let_def)
    then show ?thesis using snoc False by (simp add: groupStep_def[of _ n] addToGroup_def Let_def)
  qed
qed

lemma Join_inj:
  assumes "list_all (\<lambda>x. c \<notin> set x \<and> x \<noteq> []) xs" "list_all (\<lambda>x. c \<notin> set x \<and> x \<noteq> []) ys"
    "Join xs [c] = Join ys [c]"
  shows "xs = ys"
  using assms
proof (induction xs arbitrary: ys)
  case Nil
  then show ?case by (cases ys) (auto split: if_splits)
next
  case (Cons x xs)
  then obtain y ys' where ys: "ys = y # ys'" by (cases ys) (auto split: if_splits)
  show ?case
  proof (cases "xs = []")
    case True
    then show ?thesis using Cons.prems ys by (cases "ys' = []") (auto dest: arg_cong[where f = set])
  next
    case False
    then have ne: "ys' \<noteq> []" using Cons.prems ys by (auto dest: arg_cong[where f = set])
    then have e: "x @ c # Join xs [c] = y @ c # Join ys' [c]" using Cons.prems ys False by simp
    have "x = y" "Join xs [c] = Join ys' [c]"
      using split_at_sep[OF e] Cons.prems ys by auto
    then show ?thesis using Cons.IH[of ys'] Cons.prems ys by simp
  qed
qed

subsection \<open>Switches\<close>

abbreviation switchDomain :: "LabeledResource \<Rightarrow> string" where
  "switchDomain sw \<equiv> mgetd [] (Res_Labels sw) TopologyDomainLabel"

definition switchOk :: "(string \<Rightarrow> string list) \<Rightarrow> LabeledResource \<Rightarrow> bool" where
  "switchOk isValid sw \<longleftrightarrow> switchDomain sw = [] \<or> isValid (switchDomain sw) = []"

definition withMembers :: "LabeledResource list \<Rightarrow> domains \<Rightarrow> domains \<Rightarrow> bool" where
  "withMembers sws D D' \<longleftrightarrow> mwf D' \<and> keyset D' = keyset D
     \<and> (\<forall>v d. map_of D v = Some d \<longrightarrow> (\<exists>m. map_of D' v = Some (d\<lparr>Ds_members := m\<rparr>) \<and> mwf m
          \<and> keyset m = Res_Name ` {sw \<in> set sws. switchDomain sw = v \<and> v \<noteq> []}))"

lemma addSwitches_decide:
  assumes D: "mwf D" "\<And>v d. map_of D v = Some d \<Longrightarrow> Ds_members d = []"
  shows "case efold (addSwitch isValid) sws (D, []) of Inl e \<Rightarrow> \<not> list_all (switchOk isValid) sws
    | Inr (D', pending) \<Rightarrow> list_all (switchOk isValid) sws \<and> withMembers sws D D'
        \<and> pending = map (\<lambda>sw. pendingMessage (Res_Name sw) (switchDomain sw))
             (filter (\<lambda>sw. switchDomain sw \<noteq> [] \<and> switchDomain sw \<notin> keyset D) sws)"
proof (induction sws rule: rev_induct)
  case Nil
  have "d\<lparr>Ds_members := []\<rparr> = d" if "map_of D v = Some d" for v d
    using D(2)[OF that] by (cases d) simp
  then have "withMembers [] D D" unfolding withMembers_def using D(1) by (auto intro!: exI[of _ "[]"])
  then show ?case by simp
next
  case (snoc sw sws)
  show ?case
  proof (cases "efold (addSwitch isValid) sws (D, [])")
    case (Inl e)
    then show ?thesis using snoc by (simp add: efold_snoc)
  next
    case (Inr s)
    obtain D1 p1 where s: "s = (D1, p1)" by (cases s)
    have w: "withMembers sws D D1" using snoc Inr s by simp
    show ?thesis
    proof (cases "switchDomain sw \<noteq> [] \<and> switchDomain sw \<in> keyset D \<and> switchOk isValid sw")
      case False
      have "{sw' \<in> set (sws @ [sw]). switchDomain sw' = v \<and> v \<noteq> []} = {sw' \<in> set sws. switchDomain sw' = v \<and> v \<noteq> []}"
        if "switchOk isValid sw" "map_of D v = Some d" for v d
        using False that(1) map_of_keyset[OF that(2)] by auto
      then have "withMembers (sws @ [sw]) D D1" if "switchOk isValid sw"
        using w that unfolding withMembers_def by simp
      moreover have "map_of D1 (switchDomain sw) = None" if "switchDomain sw \<notin> keyset D"
        using w that by (simp add: withMembers_def map_of_None_keyset)
      ultimately show ?thesis using snoc Inr s False
        by (auto simp: efold_snoc addSwitch_def[of _ sw] Let_def validateDomainName_def switchOk_def[of _ sw])
    next
      case True
      let ?v = "switchDomain sw"
      obtain d where d: "map_of D ?v = Some d" using True by blast
      then obtain m where m: "map_of D1 ?v = Some (d\<lparr>Ds_members := m\<rparr>)" "mwf m"
        "keyset m = Res_Name ` {sw \<in> set sws. switchDomain sw = ?v \<and> ?v \<noteq> []}"
        using w unfolding withMembers_def by blast
      have "\<exists>m'. map_of (mput ?v (d\<lparr>Ds_members := mput (Res_Name sw) () m\<rparr>) D1) v = Some (e\<lparr>Ds_members := m'\<rparr>) \<and> mwf m'
          \<and> keyset m' = Res_Name ` {sw' \<in> set (sws @ [sw]). switchDomain sw' = v \<and> v \<noteq> []}"
        if "map_of D v = Some e" for v e
      proof (cases "v = ?v")
        case True
        then show ?thesis using that d m \<open>_ \<and> _ \<and> _\<close>
          by (intro exI[of _ "mput (Res_Name sw) () m"]) auto
      next
        case False
        then have "{sw' \<in> set (sws @ [sw]). switchDomain sw' = v \<and> v \<noteq> []} = {sw' \<in> set sws. switchDomain sw' = v \<and> v \<noteq> []}"
          by auto
        then show ?thesis using that w False unfolding withMembers_def by simp
      qed
      then have "withMembers (sws @ [sw]) D (mput ?v (d\<lparr>Ds_members := mput (Res_Name sw) () m\<rparr>) D1)"
        using w True unfolding withMembers_def by auto
      then show ?thesis using snoc Inr s m True
        by (auto simp: efold_snoc addSwitch_def[of _ sw] Let_def validateDomainName_def switchOk_def[of _ sw])
    qed
  qed
qed

subsection \<open>Names of node groups are stable and fresh\<close>

lemma nextFree_spec:
  "n \<le> nextFree used n \<and> nextFree used n \<notin> keyset used \<and> {n..<nextFree used n} \<subseteq> keyset used"
proof (induction used n rule: nextFree.induct)
  case (1 used n)
  show ?case
  proof (cases "map_of used n = None")
    case True
    then show ?thesis by (simp add: nextFree.simps[of used n] map_of_None_keyset)
  next
    case False
    then have "n \<in> keyset used" by auto
    then show ?thesis using 1 False by (auto simp: nextFree.simps[of used n]) (metis atLeastLessThan_iff in_mono le_less zless_imp_add1_zle)
  qed
qed

lemma nextFree_restart:
  assumes "{1..<n} \<subseteq> keyset used" "1 \<le> n"
  shows "nextFree used n = nextFree used 1"
proof (rule antisym)
  note a = nextFree_spec[of n used] and b = nextFree_spec[of 1 used]
  have "n \<le> nextFree used 1" using assms b by (meson atLeastLessThan_iff not_less subsetD)
  then show "nextFree used n \<le> nextFree used 1" using a b by (meson atLeastLessThan_iff not_less subsetD)
  show "nextFree used 1 \<le> nextFree used n" using a b assms by (meson atLeastLessThan_iff not_less order_trans subsetD)
qed

text \<open>The reference: a group without a previous name takes the least positive number not in use.\<close>

definition previousName :: "(string, string) gomap \<Rightarrow> TopologyNodeGroup \<Rightarrow> string" where
  "previousName names g = mgetd [] names (nodeGroupKey (Grp_SwitchDomainPath g))"

fun assignReference :: "(string, string) gomap \<Rightarrow> (int, unit) gomap \<Rightarrow> TopologyNodeGroup list \<Rightarrow> TopologyNodeGroup list" where
  "assignReference names used [] = []"
| "assignReference names used (g # gs) =
     (if previousName names g \<noteq> [] then g\<lparr>Grp_Name := previousName names g\<rparr> # assignReference names used gs
      else let n = nextFree used 1 in
        g\<lparr>Grp_Name := nodeGroupNamePrefix @ Itoa n\<rparr> # assignReference names (mput n () used) gs)"

lemma assignLoop_reference:
  "{1..<k} \<subseteq> keyset used \<Longrightarrow> 1 \<le> k \<Longrightarrow> assignLoop names used k gs = assignReference names used gs"
proof (induction gs arbitrary: used k)
  case (Cons g gs)
  let ?n = "nextFree used k"
  have n: "?n = nextFree used 1" by (rule nextFree_restart[OF Cons.prems])
  have "{1..<?n + 1} \<subseteq> keyset (mput ?n () used)" "1 \<le> ?n + 1"
    using nextFree_spec[of k used] Cons.prems by (auto simp: subset_iff) (metis not_less order_le_less)
  from Cons.IH[OF this] Cons.IH[OF Cons.prems] n show ?case
    by (auto simp: previousName_def mgetd_def Let_def split: option.splits)
qed simp

definition previousNames :: "TopologyNodeGroup list \<Rightarrow> (string, string) gomap" where
  "previousNames prev = fst (fold collectPrevious prev ([], []))"

definition usedNumbers :: "TopologyNodeGroup list \<Rightarrow> (int, unit) gomap" where
  "usedNumbers prev = snd (fold collectPrevious prev ([], []))"

lemma assignNodeGroupNames_reference:
  "assignNodeGroupNames groups prev = assignReference (previousNames prev) (usedNumbers prev) groups"
  by (simp add: assignNodeGroupNames_def previousNames_def usedNumbers_def assignLoop_reference split: prod.splits)

lemma length_mput: "length (mput k v m) \<le> Suc (length m)"
  by (induction m) (auto simp: mput_def)

lemma collectPrevious_fold:
  "keyset (usedNumbers prev) = {n. \<exists>g\<in>set prev. parseNodeGroupNumber (Grp_Name g) = Some n}
   \<and> mwf (usedNumbers prev) \<and> length (usedNumbers prev) \<le> length prev
   \<and> (\<forall>k name. map_of (previousNames prev) k = Some name \<longrightarrow>
        (\<exists>g\<in>set prev. nodeGroupKey (Grp_SwitchDomainPath g) = k \<and> Grp_Name g = name))
   \<and> keyset (previousNames prev) = (\<lambda>g. nodeGroupKey (Grp_SwitchDomainPath g)) ` set prev"
proof (induction prev rule: rev_induct)
  case Nil
  then show ?case by (simp add: previousNames_def usedNumbers_def)
next
  case (snoc g prev)
  have p: "previousNames (prev @ [g]) = mput (nodeGroupKey (Grp_SwitchDomainPath g)) (Grp_Name g) (previousNames prev)"
    by (simp add: previousNames_def collectPrevious_def[of g] split: prod.splits)
  have u: "usedNumbers (prev @ [g]) = (case parseNodeGroupNumber (Grp_Name g) of Some n \<Rightarrow> mput n () (usedNumbers prev) | None \<Rightarrow> usedNumbers prev)"
    by (simp add: usedNumbers_def collectPrevious_def[of g] split: prod.splits option.splits)
  have "length (mput n () (usedNumbers prev)) \<le> Suc (length (usedNumbers prev))" for n
    by (rule length_mput)
  then have "length (usedNumbers (prev @ [g])) \<le> length (prev @ [g])"
    using snoc by (auto simp: u split: option.splits) (meson le_trans Suc_le_mono)
  then show ?case using snoc by (auto simp: p u split: option.splits if_splits)
qed

lemmas usedNumbers_props = collectPrevious_fold[THEN conjunct1]
  collectPrevious_fold[THEN conjunct2, THEN conjunct1] collectPrevious_fold[THEN conjunct2, THEN conjunct2, THEN conjunct1]

lemmas previousNames_props = collectPrevious_fold[THEN conjunct2, THEN conjunct2, THEN conjunct2, THEN conjunct1, rule_format]
  collectPrevious_fold[THEN conjunct2, THEN conjunct2, THEN conjunct2, THEN conjunct2]

lemma parseNodeGroupNumber_name:
  assumes "1 \<le> n" "n < 2 ^ 63"
  shows "parseNodeGroupNumber (nodeGroupNamePrefix @ Itoa n) = Some n"
proof -
  have "Itoa n \<noteq> []" using Itoa_no_sep(3)[of "nat n"] assms(1) by simp
  then show ?thesis using assms by (simp add: parseNodeGroupNumber_def Let_def Atoi_Itoa)
qed

lemma nextFree_bound: "mwf used \<Longrightarrow> nextFree used 1 \<le> int (length used) + 1"
proof -
  assume "mwf used"
  moreover have "card {1..<nextFree used 1} \<le> card (keyset used)"
    using nextFree_spec[of 1 used] by (intro card_mono) auto
  ultimately show ?thesis by (simp add: card_keyset)
qed

lemma assignReference_shape:
  "map Grp_Nodes (assignReference names used gs) = map Grp_Nodes gs
   \<and> map Grp_SwitchDomainPath (assignReference names used gs) = map Grp_SwitchDomainPath gs"
  by (induction names used gs rule: assignReference.induct) (simp_all add: Let_def)

definition numberedName :: "int \<Rightarrow> string" where
  "numberedName n = nodeGroupNamePrefix @ Itoa n"

lemma numberedName_inj: "1 \<le> m \<Longrightarrow> 1 \<le> n \<Longrightarrow> numberedName m = numberedName n \<Longrightarrow> m = n"
  by (auto simp: numberedName_def intro: Itoa_inj_nonneg)

text \<open>Each group either keeps its previous name or takes a number that is not in use.\<close>

lemma assignReference_names:
  assumes "mwf used" "int (length used) + int (length gs) < 2 ^ 63" "h \<in> set (assignReference names used gs)"
  shows "(previousName names h \<noteq> [] \<and> Grp_Name h = previousName names h)
    \<or> (previousName names h = [] \<and> (\<exists>n. 1 \<le> n \<and> n < 2 ^ 63 \<and> n \<notin> keyset used \<and> Grp_Name h = numberedName n))"
  using assms
proof (induction names used gs arbitrary: h rule: assignReference.induct)
  case (2 names used g gs)
  note spec = nextFree_spec[of 1 used] and bound = nextFree_bound[OF "2.prems"(1)]
  let ?n = "nextFree used 1"
  have head: "previousName names (g\<lparr>Grp_Name := x\<rparr>) = previousName names g" for x by (simp add: previousName_def)
  show ?case
  proof (cases "previousName names g = []")
    case False
    then show ?thesis using 2 head by auto
  next
    case True
    have l: "int (length (mput ?n () used)) + int (length gs) < 2 ^ 63"
      using length_mput[of ?n "()" used] "2.prems"(2) by simp
    consider "h = g\<lparr>Grp_Name := numberedName ?n\<rparr>" | "h \<in> set (assignReference names (mput ?n () used) gs)"
      using "2.prems"(3) True by (auto simp: Let_def numberedName_def)
    then show ?thesis
    proof cases
      case 1
      then show ?thesis using True head spec bound "2.prems"(2) by auto
    next
      case h: 2
      then show ?thesis using "2.IH"(2)[OF _ refl _ l h] True "2.prems"(1) by auto
    qed
  qed
qed simp

abbreviation groupKeys :: "TopologyNodeGroup list \<Rightarrow> string list" where
  "groupKeys gs \<equiv> map (\<lambda>g. nodeGroupKey (Grp_SwitchDomainPath g)) gs"

definition namesOk :: "(string, string) gomap \<Rightarrow> (int, unit) gomap \<Rightarrow> bool" where
  "namesOk names used \<longleftrightarrow> mwf used
     \<and> (\<forall>k k' name. map_of names k = Some name \<longrightarrow> map_of names k' = Some name \<longrightarrow> name \<noteq> [] \<longrightarrow> k = k')
     \<and> (\<forall>k n. map_of names k = Some (numberedName n) \<longrightarrow> 1 \<le> n \<longrightarrow> n < 2 ^ 63 \<longrightarrow> n \<in> keyset used)"

lemma groupKeys_assignReference: "groupKeys (assignReference names used gs) = groupKeys gs"
  using assignReference_shape[of names used gs] by (metis (no_types, lifting) list.map_comp map_eq_conv comp_apply)

lemma previousName_Some: "previousName names g \<noteq> [] \<Longrightarrow> map_of names (nodeGroupKey (Grp_SwitchDomainPath g)) = Some (previousName names g)"
  by (auto simp: previousName_def mgetd_def split: option.splits)

lemma assignReference_distinct:
  assumes "namesOk names used" "int (length used) + int (length gs) < 2 ^ 63" "distinct (groupKeys gs)"
  shows "distinct (map Grp_Name (assignReference names used gs))"
  using assms
proof (induction names used gs rule: assignReference.induct)
  case (2 names used g gs)
  let ?n = "nextFree used 1"
  let ?key = "\<lambda>g. nodeGroupKey (Grp_SwitchDomainPath g)"
  have n: "1 \<le> ?n" "?n \<notin> keyset used" "?n < 2 ^ 63"
    using nextFree_spec[of 1 used] nextFree_bound[of used] "2.prems"(1,2) by (auto simp: namesOk_def)
  show ?case
  proof (cases "previousName names g = []")
    case False
    have "Grp_Name h \<noteq> previousName names g" if h: "h \<in> set (assignReference names used gs)" for h
    proof
      assume eq: "Grp_Name h = previousName names g"
      have "?key h \<in> set (groupKeys gs)" using h by (metis (no_types, lifting) groupKeys_assignReference image_eqI list.set_map)
      then have ne: "?key h \<noteq> ?key g" using "2.prems"(3) by auto
      have "mwf used" "int (length used) + int (length gs) < 2 ^ 63" using "2.prems"(1,2) by (auto simp: namesOk_def)
      from assignReference_names[OF this h] show False
      proof (elim disjE conjE exE)
        assume "previousName names h \<noteq> []" "Grp_Name h = previousName names h"
        then show False using eq ne False "2.prems"(1) previousName_Some[of names h] previousName_Some[of names g]
          unfolding namesOk_def by metis
      next
        fix m assume "1 \<le> m" "m < 2 ^ 63" "m \<notin> keyset used" "Grp_Name h = numberedName m"
        then show False using eq False "2.prems"(1) previousName_Some[of names g] unfolding namesOk_def by metis
      qed
    qed
    then have "previousName names g \<notin> Grp_Name ` set (assignReference names used gs)" by (metis imageE)
    then show ?thesis using False 2 by simp
  next
    case True
    let ?used = "mput ?n () used"
    have ok: "namesOk names ?used" using "2.prems"(1) by (auto simp: namesOk_def)
    have l: "int (length ?used) + int (length gs) < 2 ^ 63" using length_mput[of ?n "()" used] "2.prems"(2) by simp
    have "Grp_Name h \<noteq> numberedName ?n" if h: "h \<in> set (assignReference names ?used gs)" for h
    proof
      assume eq: "Grp_Name h = numberedName ?n"
      have "mwf ?used" using ok by (simp add: namesOk_def)
      from assignReference_names[OF this l h] show False
      proof (elim disjE conjE exE)
        assume "previousName names h \<noteq> []" "Grp_Name h = previousName names h"
        then show False using eq n "2.prems"(1) previousName_Some[of names h] unfolding namesOk_def by metis
      next
        fix m assume "1 \<le> m" "m < 2 ^ 63" "m \<notin> keyset ?used" "Grp_Name h = numberedName m"
        then show False using eq n numberedName_inj[of m ?n] by auto
      qed
    qed
    then have "numberedName ?n \<notin> Grp_Name ` set (assignReference names ?used gs)" by (metis imageE)
    then show ?thesis using True 2 ok l by (simp add: Let_def numberedName_def)
  qed
qed simp

text \<open>Groups as every status holds them: one per path, with distinct numbered names.\<close>

definition groupsOk :: "TopologyNodeGroup list \<Rightarrow> bool" where
  "groupsOk gs \<longleftrightarrow> distinct (groupKeys gs) \<and> distinct (map Grp_Name gs)
     \<and> list_all (\<lambda>g. \<exists>n. 1 \<le> n \<and> n < 2 ^ 63 \<and> Grp_Name g = numberedName n) gs"

lemma groupsOk_Nil: "groupsOk []"
  by (simp add: groupsOk_def)

lemma namesOk_previous:
  assumes "groupsOk prev"
  shows "namesOk (previousNames prev) (usedNumbers prev)"
  unfolding namesOk_def
proof (intro conjI allI impI)
  show "mwf (usedNumbers prev)" by (rule usedNumbers_props)
next
  fix k k' name
  assume "map_of (previousNames prev) k = Some name" "map_of (previousNames prev) k' = Some name"
  then obtain g g' where "g \<in> set prev" "g' \<in> set prev" "nodeGroupKey (Grp_SwitchDomainPath g) = k"
      "nodeGroupKey (Grp_SwitchDomainPath g') = k'" "Grp_Name g = name" "Grp_Name g' = name"
    by (blast dest: previousNames_props(1))
  moreover have "inj_on Grp_Name (set prev)" using assms by (simp add: groupsOk_def distinct_map)
  ultimately show "k = k'" by (auto dest: inj_onD)
next
  fix k n
  assume "map_of (previousNames prev) k = Some (numberedName n)" "1 \<le> n" "n < 2 ^ 63"
  then show "n \<in> keyset (usedNumbers prev)"
    using previousNames_props(1)[of prev k "numberedName n"] parseNodeGroupNumber_name[of n]
    unfolding usedNumbers_props(1) numberedName_def by (metis (mono_tags, lifting) mem_Collect_eq)
qed

lemma assignNodeGroupNames_ok:
  assumes prev: "groupsOk prev" and l: "int (length prev) + int (length gs) < 2 ^ 63" and d: "distinct (groupKeys gs)"
  shows "groupsOk (assignNodeGroupNames gs prev)"
proof -
  let ?names = "previousNames prev" and ?used = "usedNumbers prev"
  have l': "int (length ?used) + int (length gs) < 2 ^ 63" using usedNumbers_props(3)[of prev] l by simp
  have "\<exists>n. 1 \<le> n \<and> n < 2 ^ 63 \<and> Grp_Name h = numberedName n" if h: "h \<in> set (assignReference ?names ?used gs)" for h
    using assignReference_names[OF usedNumbers_props(2) l' h]
  proof (elim disjE conjE)
    assume "previousName ?names h \<noteq> []" "Grp_Name h = previousName ?names h"
    then obtain g where "g \<in> set prev" "Grp_Name g = Grp_Name h"
      using previousName_Some[of ?names h] previousNames_props(1) by metis
    then show ?thesis using prev by (fastforce simp: groupsOk_def list_all_iff)
  qed blast
  then show ?thesis
    using assignReference_distinct[OF namesOk_previous[OF prev] l' d] d
    by (simp add: groupsOk_def assignNodeGroupNames_reference groupKeys_assignReference list_all_iff)
qed

subsection \<open>Facts and labels\<close>

abbreviation nodeLabel :: "Template \<Rightarrow> LabeledResource \<Rightarrow> int \<Rightarrow> string \<Rightarrow> bool" where
  "nodeLabel tmpl n \<equiv> tierLabel tmpl (Res_Labels n)"

lemma nodeValues_label:
  assumes "tmplOk tmpl" "mwf (Res_Labels n)"
  shows "mwf (nodeValues tmpl n)" "map_of (nodeValues tmpl n) t = Some v \<longleftrightarrow> nodeLabel tmpl n t v"
  using labelsByTier_ok[OF assms] by (auto simp: nodeValues_def)

lemma downclosed_interval:
  assumes "finite A" "\<And>t :: int. t \<in> A \<Longrightarrow> 1 \<le> t \<and> (t = 1 \<or> t - 1 \<in> A)"
  shows "A = {1..int (card A)}"
proof (cases "A = {}")
  case False
  let ?m = "Max A"
  have m: "?m \<in> A" using False assms(1) by simp
  have "?m - int k \<in> A \<or> ?m - int k < 1" for k
  proof (induction k)
    case (Suc k)
    then show ?case using assms(2)[of "?m - int k"] by (auto simp: algebra_simps)
  qed (simp add: m)
  then have "t \<in> A" if "1 \<le> t" "t \<le> ?m" for t
    using that by (metis diff_diff_eq2 diff_ge_0_iff_ge add_diff_cancel_left' int_nat_eq not_less)
  then have "{1..?m} \<subseteq> A" by (meson atLeastAtMost_iff subsetI)
  moreover have "A \<subseteq> {1..?m}" using assms(2) Max_ge[OF assms(1)] by (meson atLeastAtMost_iff subsetI)
  ultimately have A: "A = {1..?m}" by (simp only: set_eq_subset)
  then have "int (card A) = ?m" using assms(2)[OF m] by (metis card_atLeastAtMost_int diff_add_cancel int_nat_eq linear order_trans zero_le_one)
  then show ?thesis using A by simp
qed simp

lemma sortedTiers_interval:
  assumes "mwf V" "keyset V = {1..int (length V)}"
  shows "sortedTiers V = map (\<lambda>i. int i + 1) [0..<length V]"
proof (rule sorted_distinct_unique)
  show "set (sortedTiers V) = set (map (\<lambda>i. int i + 1) [0..<length V])"
  proof (intro set_eqI iffI)
    fix t assume "t \<in> set (sortedTiers V)"
    then have "1 \<le> t" "t \<le> int (length V)" using assms(2) by (simp_all add: sortedTiers_def)
    then have "t = int (nat (t - 1)) + 1" "nat (t - 1) \<in> set [0..<length V]" by auto
    then show "t \<in> set (map (\<lambda>i. int i + 1) [0..<length V])" unfolding set_map by (rule image_eqI)
  qed (use assms(2) in \<open>auto simp: sortedTiers_def\<close>)
  show "sorted (map (\<lambda>i. int i + 1) [0..<length V])" by (simp add: sorted_wrt_iff_nth_less)
  show "distinct (map (\<lambda>i. int i + 1) [0..<length V])" by (simp add: distinct_map inj_on_def)
qed (use assms(1) in \<open>simp_all add: sortedTiers_def\<close>)

lemma noBadPath_iff:
  assumes ok: "tmplOk tmpl" "mwf (Res_Labels n)"
  shows "BadPath \<notin> nodeFacts isValid tmpl n \<longleftrightarrow>
    (\<forall>t v. nodeLabel tmpl n t v \<longrightarrow> isValid v = [] \<and> (t = 1 \<or> (\<exists>u. nodeLabel tmpl n (t - 1) u)))"
    (is "_ \<longleftrightarrow> ?R")
proof -
  let ?V = "nodeValues tmpl n"
  note V = nodeValues_label[OF ok]
  have key: "t \<in> keyset ?V \<longleftrightarrow> (\<exists>v. nodeLabel tmpl n t v)" for t by (auto simp: keyset_iff V(2))
  have bad: "BadPath \<notin> nodeFacts isValid tmpl n \<longleftrightarrow> BadPath \<notin> checkFacts isValid ?V"
    by (auto simp: nodeFacts_def linkFacts_def)
  show ?thesis
  proof
    assume "BadPath \<notin> nodeFacts isValid tmpl n"
    then have good: "BadPath \<notin> checkFacts isValid ?V" by (simp add: bad)
    have mem: "\<exists>i<length ?V. t = int i + 1" if "t \<in> keyset ?V" for t
      using that checkFacts_nth(1)[OF good]
      by (metis in_set_conv_nth length_sortedTiers set_mkeys set_sort sortedTiers_def)
    show ?R
    proof (intro allI impI conjI)
      fix t v assume l: "nodeLabel tmpl n t v"
      then have "t \<in> keyset ?V" using key by blast
      then obtain i where i: "i < length ?V" "t = int i + 1" using mem by blast
      show "isValid v = []" using checkFacts_nth(4)[OF good i(1)] i(2) l V(2)[of t v] by simp
      show "t = 1 \<or> (\<exists>u. nodeLabel tmpl n (t - 1) u)"
      proof (cases i)
        case (Suc j)
        then have "sortedTiers ?V ! j = t - 1" "j < length (sortedTiers ?V)" using checkFacts_nth(1)[OF good, of j] i by auto
        then have "t - 1 \<in> keyset ?V" by (metis nth_mem set_mkeys set_sort sortedTiers_def)
        then show ?thesis using key by blast
      qed (simp add: i)
    qed
  next
    assume R: ?R
    have "keyset ?V = {1..int (card (keyset ?V))}"
    proof (rule downclosed_interval)
      fix t assume "t \<in> keyset ?V"
      then show "1 \<le> t \<and> (t = 1 \<or> t - 1 \<in> keyset ?V)" using R tierLabel_pos[OF ok(1)] unfolding key by blast
    qed simp
    then have "keyset ?V = {1..int (length ?V)}" using card_keyset[OF V(1)] by simp
    then have s: "sortedTiers ?V = map (\<lambda>i. int i + 1) [0..<length ?V]" by (rule sortedTiers_interval[OF V(1)])
    have "checkFact isValid ?V (i, sortedTiers ?V ! i) \<noteq> BadPath" if i: "i < length ?V" for i
    proof -
      have t: "sortedTiers ?V ! i = int i + 1" using s i by simp
      then have "int i + 1 \<in> keyset ?V" using i by (metis length_sortedTiers nth_mem set_mkeys set_sort sortedTiers_def)
      then obtain v where v: "map_of ?V (int i + 1) = Some v" by blast
      then have "nodeLabel tmpl n (int i + 1) v" using V(2) by blast
      then have "v \<noteq> []" "isValid v = []" using R by (auto simp: tierLabel_def)
      then show ?thesis using t v by (simp add: checkFact_def)
    qed
    then show "BadPath \<notin> nodeFacts isValid tmpl n" unfolding bad by (fastforce simp: checkFacts_def set_zip)
  qed
qed

lemma nodeFacts_TierOf:
  assumes ok: "tmplOk tmpl" "mwf (Res_Labels n)" and good: "BadPath \<notin> nodeFacts isValid tmpl n"
  shows "keyset (nodeValues tmpl n) = {1..int (length (nodeValues tmpl n))}"
    "TierOf v t \<in> nodeFacts isValid tmpl n \<longleftrightarrow> nodeLabel tmpl n t v"
    "ParentOf c p \<in> nodeFacts isValid tmpl n \<longleftrightarrow> (\<exists>t. nodeLabel tmpl n t c \<and> nodeLabel tmpl n (t + 1) p)"
proof -
  let ?V = "nodeValues tmpl n"
  note V = nodeValues_label[OF ok]
  have good': "BadPath \<notin> checkFacts isValid ?V" using good by (simp add: nodeFacts_def)
  note nth = checkFacts_nth[OF good']
  have "set (sortedTiers ?V) = {1..int (length ?V)}"
  proof (intro set_eqI iffI)
    fix t assume "t \<in> set (sortedTiers ?V)"
    then show "t \<in> {1..int (length ?V)}" using nth(1) by (auto simp: in_set_conv_nth)
  next
    fix t assume t: "t \<in> {1..int (length ?V)}"
    then have "nat (t - 1) < length ?V" "sortedTiers ?V ! nat (t - 1) = t" using nth(1)[of "nat (t - 1)"] by auto
    then show "t \<in> set (sortedTiers ?V)" by (metis length_sortedTiers nth_mem)
  qed
  then show k: "keyset ?V = {1..int (length ?V)}" by (simp add: sortedTiers_def)
  have get: "map_of ?V t = Some (mgetd [] ?V t)" if "1 \<le> t" "t \<le> int (length ?V)" for t
    using that by (intro mgetd_eq_Some) (simp add: k)
  have pos: "1 \<le> t \<and> t \<le> int (length ?V)" if "nodeLabel tmpl n t v" for t v
    using that k V(2)[of t v] map_of_keyset[of ?V t v] by auto
  have nl: "nodeLabel tmpl n t v \<longleftrightarrow> 1 \<le> t \<and> t \<le> int (length ?V) \<and> mgetd [] ?V t = v" for t v
    using get[of t] pos[of t v] V(2)[of t v] by auto
  show "TierOf v t \<in> nodeFacts isValid tmpl n \<longleftrightarrow> nodeLabel tmpl n t v"
  proof
    assume "TierOf v t \<in> nodeFacts isValid tmpl n"
    then obtain i where "i < length ?V" "checkFact isValid ?V (i, sortedTiers ?V ! i) = TierOf v t"
      by (auto simp: nodeFacts_def linkFacts_def checkFacts_def set_zip)
    then show "nodeLabel tmpl n t v" using nth(1)[of i] by (auto simp: checkFact_def nl split: if_splits)
  next
    assume "nodeLabel tmpl n t v"
    then show "TierOf v t \<in> nodeFacts isValid tmpl n"
      using nth(2)[of "nat (t - 1)"] by (auto simp: nl nodeFacts_def)
  qed
  show "ParentOf c p \<in> nodeFacts isValid tmpl n \<longleftrightarrow> (\<exists>t. nodeLabel tmpl n t c \<and> nodeLabel tmpl n (t + 1) p)"
  proof
    assume "ParentOf c p \<in> nodeFacts isValid tmpl n"
    then obtain k where "1 \<le> k" "k < length ?V" "c = mgetd [] ?V (int k)" "p = mgetd [] ?V (int k + 1)"
      by (auto simp: nodeFacts_def linkFacts_def checkFacts_def checkFact_def split: if_splits)
    then show "\<exists>t. nodeLabel tmpl n t c \<and> nodeLabel tmpl n (t + 1) p" unfolding nl by (intro exI[of _ "int k"]) auto
  next
    assume "\<exists>t. nodeLabel tmpl n t c \<and> nodeLabel tmpl n (t + 1) p"
    then obtain t where "1 \<le> t" "t + 1 \<le> int (length ?V)" "c = mgetd [] ?V t" "p = mgetd [] ?V (t + 1)" unfolding nl by auto
    then have "ParentOf c p \<in> linkFacts ?V" unfolding linkFacts_def by (intro image_eqI[of _ _ "nat t"]) auto
    then show "ParentOf c p \<in> nodeFacts isValid tmpl n" by (simp add: nodeFacts_def)
  qed
qed

subsection \<open>The result of the builder\<close>

definition snapshotOk :: "LabelSnapshot \<Rightarrow> bool" where
  "snapshotOk snap \<longleftrightarrow> list_all (\<lambda>n. mwf (Res_Labels n)) (Snap_Nodes snap)"

definition labelsConsistent :: "(string \<Rightarrow> string list) \<Rightarrow> Template \<Rightarrow> LabelSnapshot \<Rightarrow> bool" where
  "labelsConsistent isValid tmpl snap \<longleftrightarrow>
     (\<forall>n \<in> set (Snap_Nodes snap). \<forall>t v. nodeLabel tmpl n t v \<longrightarrow>
        isValid v = [] \<and> t \<le> MaxInt32 \<and> (t = 1 \<or> (\<exists>u. nodeLabel tmpl n (t - 1) u)))
   \<and> (\<forall>m \<in> set (Snap_Nodes snap). \<forall>n \<in> set (Snap_Nodes snap). \<forall>t u v.
        nodeLabel tmpl m t v \<longrightarrow> nodeLabel tmpl n u v \<longrightarrow> t = u)
   \<and> (\<forall>m \<in> set (Snap_Nodes snap). \<forall>n \<in> set (Snap_Nodes snap). \<forall>t u c p q.
        nodeLabel tmpl m t c \<longrightarrow> nodeLabel tmpl m (t + 1) p \<longrightarrow>
        nodeLabel tmpl n u c \<longrightarrow> nodeLabel tmpl n (u + 1) q \<longrightarrow> p = q)
   \<and> list_all (switchOk isValid) (Snap_Switches snap)"

abbreviation snapFacts :: "(string \<Rightarrow> string list) \<Rightarrow> Template \<Rightarrow> LabelSnapshot \<Rightarrow> labelFact set" where
  "snapFacts isValid tmpl snap \<equiv> (\<Union>n\<in>set (Snap_Nodes snap). nodeFacts isValid tmpl n)"

lemma snapFacts_iff:
  assumes ok: "tmplOk tmpl" "snapshotOk snap" and good: "BadPath \<notin> snapFacts isValid tmpl snap"
  shows "TierOf v t \<in> snapFacts isValid tmpl snap \<longleftrightarrow> (\<exists>n\<in>set (Snap_Nodes snap). nodeLabel tmpl n t v)"
    "ParentOf c p \<in> snapFacts isValid tmpl snap \<longleftrightarrow>
       (\<exists>n\<in>set (Snap_Nodes snap). \<exists>t. nodeLabel tmpl n t c \<and> nodeLabel tmpl n (t + 1) p)"
proof -
  have wf: "mwf (Res_Labels n)" if "n \<in> set (Snap_Nodes snap)" for n using ok(2) that by (simp add: snapshotOk_def list_all_iff)
  have g: "BadPath \<notin> nodeFacts isValid tmpl n" if "n \<in> set (Snap_Nodes snap)" for n using good that by blast
  show "TierOf v t \<in> snapFacts isValid tmpl snap \<longleftrightarrow> (\<exists>n\<in>set (Snap_Nodes snap). nodeLabel tmpl n t v)"
    using nodeFacts_TierOf(2)[OF ok(1) wf g] by simp
  show "ParentOf c p \<in> snapFacts isValid tmpl snap \<longleftrightarrow>
       (\<exists>n\<in>set (Snap_Nodes snap). \<exists>t. nodeLabel tmpl n t c \<and> nodeLabel tmpl n (t + 1) p)"
    using nodeFacts_TierOf(3)[OF ok(1) wf g] by simp
qed

lemma snapFacts_consistent:
  assumes ok: "tmplOk tmpl" "snapshotOk snap"
  shows "labelsConsistent isValid tmpl snap \<longleftrightarrow>
    consistentFacts (snapFacts isValid tmpl snap) \<and> list_all (switchOk isValid) (Snap_Switches snap)"
proof -
  have bad: "BadPath \<notin> snapFacts isValid tmpl snap \<longleftrightarrow> (\<forall>n \<in> set (Snap_Nodes snap). \<forall>t v. nodeLabel tmpl n t v \<longrightarrow>
        isValid v = [] \<and> (t = 1 \<or> (\<exists>u. nodeLabel tmpl n (t - 1) u)))"
    using noBadPath_iff[OF ok(1)] ok(2) by (simp add: snapshotOk_def list_all_iff)
  show ?thesis
  proof (cases "BadPath \<in> snapFacts isValid tmpl snap")
    case True
    then show ?thesis using bad unfolding labelsConsistent_def consistentFacts_def by blast
  next
    case False
    note f = snapFacts_iff[OF ok False]
    let ?N = "set (Snap_Nodes snap)"
    have "(\<forall>n \<in> ?N. \<forall>t v. nodeLabel tmpl n t v \<longrightarrow> isValid v = [] \<and> t \<le> MaxInt32 \<and> (t = 1 \<or> (\<exists>u. nodeLabel tmpl n (t - 1) u)))
        \<longleftrightarrow> (\<forall>v t. (\<exists>n\<in>?N. nodeLabel tmpl n t v) \<longrightarrow> t \<le> MaxInt32)"
      using bad[THEN iffD1, OF False] by meson
    moreover have "(\<forall>m \<in> ?N. \<forall>n \<in> ?N. \<forall>t u v. nodeLabel tmpl m t v \<longrightarrow> nodeLabel tmpl n u v \<longrightarrow> t = u)
        \<longleftrightarrow> (\<forall>v t u. (\<exists>m\<in>?N. nodeLabel tmpl m t v) \<longrightarrow> (\<exists>n\<in>?N. nodeLabel tmpl n u v) \<longrightarrow> t = u)"
      by blast
    moreover have "(\<forall>m \<in> ?N. \<forall>n \<in> ?N. \<forall>t u c p q. nodeLabel tmpl m t c \<longrightarrow> nodeLabel tmpl m (t + 1) p \<longrightarrow>
          nodeLabel tmpl n u c \<longrightarrow> nodeLabel tmpl n (u + 1) q \<longrightarrow> p = q)
        \<longleftrightarrow> (\<forall>c p q. (\<exists>m\<in>?N. \<exists>t. nodeLabel tmpl m t c \<and> nodeLabel tmpl m (t + 1) p) \<longrightarrow>
          (\<exists>n\<in>?N. \<exists>u. nodeLabel tmpl n u c \<and> nodeLabel tmpl n (u + 1) q) \<longrightarrow> p = q)"
      by blast
    ultimately show ?thesis unfolding labelsConsistent_def consistentFacts_def f using False by (simp only: simp_thms conj_assoc)
  qed
qed

lemma domainsInv_consistent:
  assumes inv: "domainsInv E D"
  shows "consistentFacts E"
  unfolding consistentFacts_def
proof (intro conjI allI impI)
  show "BadPath \<notin> E" by (rule domainsInvD(2)[OF inv])
  show "t \<le> MaxInt32" if "TierOf v t \<in> E" for v t by (rule domainsInvD(4)[OF inv that])
  show "t = t'" if "TierOf v t \<in> E" "TierOf v t' \<in> E" for v t t'
    using domainsInvD(5)[OF inv that(1)] domainsInvD(5)[OF inv that(2)] by auto
  show "p = q" if e: "ParentOf v p \<in> E" "ParentOf v q \<in> E" for v p q
  proof -
    obtain d where "map_of D v = Some d" using domainsInvD(5,6)[OF inv] e by blast
    from domainsInvD(3)[OF inv this]
    have k: "mwf (Ds_parents d)" "length (Ds_parents d) \<le> 1" "keyset (Ds_parents d) = {p. ParentOf v p \<in> E}" by (auto simp: domainOk_def)
    then have "card {p. ParentOf v p \<in> E} \<le> 1" using card_keyset[of "Ds_parents d"] by simp
    moreover have "finite {p. ParentOf v p \<in> E}" using k(3) finite_keyset by metis
    ultimately show ?thesis using e by (auto simp: card_le_Suc0_iff_eq)
  qed
qed

lemma Build_cases:
  assumes ok: "tmplOk tmpl" "snapshotOk snap"
  shows "case BuildTopologyStatus isValid (Some tmpl) snap prev of
      Inl e \<Rightarrow> \<not> labelsConsistent isValid tmpl snap
    | Inr r \<Rightarrow> labelsConsistent isValid tmpl snap \<and> (\<exists>D D'. domainsInv (snapFacts isValid tmpl snap) D
        \<and> withMembers (sort_key Res_Name (Snap_Switches snap)) D D'
        \<and> Status_Domains (Result_Status r) = sort_key (\<lambda>d. (- Dom_Tier d, Dom_Name d)) (map (finishDomain \<circ> snd) D')
        \<and> Status_Nodes (Result_Status r) = assignNodeGroupNames
            (sort_key (\<lambda>grp. (Join (Grp_SwitchDomainPath grp) [CHR 0x00], Join (Grp_Nodes grp) [CHR 0x00]))
              (map (\<lambda>(_, grp). grp\<lparr>Grp_Nodes := sort (Grp_Nodes grp)\<rparr>)
                (fold (groupStep tmpl) (sort_key Res_Name (Snap_Nodes snap)) []))) prev
        \<and> Result_Pending r = sort (map (\<lambda>sw. pendingMessage (Res_Name sw) (switchDomain sw))
             (filter (\<lambda>sw. switchDomain sw \<noteq> [] \<and> switchDomain sw \<notin> keyset D) (sort_key Res_Name (Snap_Switches snap)))))"
proof -
  let ?ns = "sort_key Res_Name (Snap_Nodes snap)" and ?sws = "sort_key Res_Name (Snap_Switches snap)"
  let ?F = "snapFacts isValid tmpl snap"
  have wf: "\<And>n. n \<in> set ?ns \<Longrightarrow> mwf (Res_Labels n)" using ok(2) by (simp add: snapshotOk_def list_all_iff)
  note cons = snapFacts_consistent[OF ok, of isValid]
  have sw: "list_all (switchOk isValid) ?sws \<longleftrightarrow> list_all (switchOk isValid) (Snap_Switches snap)" by (simp add: list_all_iff)
  show ?thesis
  proof (cases "efold (addNode isValid tmpl) ?ns ([], [])")
    case (Inl e)
    then show ?thesis using addNodes_decide[OF ok(1), of ?ns isValid] wf cons by (simp add: BuildTopologyStatus_def)
  next
    case (Inr s)
    obtain D G where s: "s = (D, G)" by (cases s)
    have inv: "domainsInv ?F D" using addNodes_decide[OF ok(1), of ?ns isValid] wf Inr s by simp
    have G: "G = fold (groupStep tmpl) ?ns []" using addNodes_groups[OF ok(1) wf] Inr s by blast
    have mem: "Ds_members d = []" if "map_of D v = Some d" for v d
      using domainsInvD(3)[OF inv that] by (simp add: domainOk_def)
    note c = domainsInv_consistent[OF inv]
    show ?thesis
    proof (cases "efold (addSwitch isValid) ?sws (D, [])")
      case Inl2: (Inl e)
      then show ?thesis using addSwitches_decide[OF domainsInvD(1)[OF inv], of isValid ?sws] mem Inr s cons sw
        by (simp add: BuildTopologyStatus_def)
    next
      case Inr2: (Inr s2)
      obtain D' pending where s2: "s2 = (D', pending)" by (cases s2)
      have "labelsConsistent isValid tmpl snap"
        using addSwitches_decide[OF domainsInvD(1)[OF inv], of isValid ?sws] mem Inr2 s2 cons sw c by simp
      moreover have "withMembers ?sws D D'" "pending = map (\<lambda>sw. pendingMessage (Res_Name sw) (switchDomain sw))
             (filter (\<lambda>sw. switchDomain sw \<noteq> [] \<and> switchDomain sw \<notin> keyset D) ?sws)"
        using addSwitches_decide[OF domainsInvD(1)[OF inv], of isValid ?sws] mem Inr2 s2 by simp_all
      ultimately show ?thesis using inv Inr s Inr2 s2
        by (auto simp: BuildTopologyStatus_def Let_def G)
    qed
  qed
qed

subsection \<open>Domains of a result\<close>

lemma Dom_finish [simp]:
  "Dom_Name (finishDomain s) = Dom_Name (Ds_domain s)" "Dom_Tier (finishDomain s) = Dom_Tier (Ds_domain s)"
  by (simp_all add: finishDomain_def Let_def)

lemma withMembers_lookup:
  assumes w: "withMembers sws D D'" and inv: "domainsInv E D" and d: "map_of D' v = Some e"
  shows "Dom_Name (Ds_domain e) = v" "TierOf v (Dom_Tier (Ds_domain e)) \<in> E" "Dom_Parent (Ds_domain e) = []"
    "mwf (Ds_parents e)" "length (Ds_parents e) \<le> 1" "keyset (Ds_parents e) = {p. ParentOf v p \<in> E}"
    "mwf (Ds_members e)" "keyset (Ds_members e) = Res_Name ` {sw \<in> set sws. switchDomain sw = v \<and> v \<noteq> []}"
proof -
  have "v \<in> keyset D" using w map_of_keyset[OF d] by (simp add: withMembers_def)
  then obtain d0 where d0: "map_of D v = Some d0" by blast
  then obtain m where "map_of D' v = Some (d0\<lparr>Ds_members := m\<rparr>)"
    and m0: "mwf m" "keyset m = Res_Name ` {sw \<in> set sws. switchDomain sw = v \<and> v \<noteq> []}"
    using w unfolding withMembers_def by blast
  then have m: "e = d0\<lparr>Ds_members := m\<rparr>" using d by simp
  show "Dom_Name (Ds_domain e) = v" "TierOf v (Dom_Tier (Ds_domain e)) \<in> E" "Dom_Parent (Ds_domain e) = []"
    "mwf (Ds_parents e)" "length (Ds_parents e) \<le> 1" "keyset (Ds_parents e) = {p. ParentOf v p \<in> E}"
    "mwf (Ds_members e)" "keyset (Ds_members e) = Res_Name ` {sw \<in> set sws. switchDomain sw = v \<and> v \<noteq> []}"
    using domainsInvD(3)[OF inv d0] m m0 by (simp_all add: domainOk_def)
qed

lemma finishDomain_Parent:
  assumes "Dom_Parent (Ds_domain e) = []" "mwf (Ds_parents e)" "length (Ds_parents e) \<le> 1" "[] \<notin> keyset (Ds_parents e)"
  shows "p \<noteq> [] \<and> Dom_Parent (finishDomain e) = p \<longleftrightarrow> p \<in> keyset (Ds_parents e)"
proof -
  have "Ds_parents e = [] \<or> (\<exists>a u. Ds_parents e = [(a, u)])" using assms(3) by (cases "Ds_parents e") auto
  then show ?thesis using assms by (auto simp: finishDomain_def Let_def sortedSet_def mkeys_def)
qed

lemma status_domains:
  assumes w: "withMembers sws D D'" and inv: "domainsInv E D"
    and doms: "doms = sort_key (\<lambda>d. (- Dom_Tier d, Dom_Name d)) (map (finishDomain \<circ> snd) D')"
  shows "distinct (map Dom_Name doms)" "d \<in> set doms \<longleftrightarrow> (\<exists>e. map_of D' (Dom_Name d) = Some e \<and> d = finishDomain e)"
proof -
  have D': "mwf D'" using w by (simp add: withMembers_def)
  have name: "Dom_Name (Ds_domain e) = v" if "(v, e) \<in> set D'" for v e
    using withMembers_lookup(1)[OF w inv] map_of_mem_iff[OF D', of v e] that by blast
  then have "map Dom_Name (map (finishDomain \<circ> snd) D') = map fst D'" by auto
  then have "distinct (map Dom_Name (map (finishDomain \<circ> snd) D'))" using D' by (simp only:)
  then show "distinct (map Dom_Name doms)" unfolding doms
    by (metis (no_types, lifting) distinct_map distinct_sort set_sort)
  show "d \<in> set doms \<longleftrightarrow> (\<exists>e. map_of D' (Dom_Name d) = Some e \<and> d = finishDomain e)"
  proof
    assume "d \<in> set doms"
    then obtain v e where "(v, e) \<in> set D'" "d = finishDomain e" unfolding doms by auto
    then show "\<exists>e. map_of D' (Dom_Name d) = Some e \<and> d = finishDomain e"
      using name[of v e] map_of_mem_iff[OF D', of v e] by auto
  next
    assume "\<exists>e. map_of D' (Dom_Name d) = Some e \<and> d = finishDomain e"
    then obtain e where "(Dom_Name d, e) \<in> set D'" "d = finishDomain e" using map_of_mem_iff[OF D'] by blast
    then show "d \<in> set doms" unfolding doms by (auto simp: image_iff intro!: bexI[of _ "(Dom_Name d, e)"])
  qed
qed

lemma status_domain_iff:
  assumes w: "withMembers sws D D'" and inv: "domainsInv E D"
    and doms: "doms = sort_key (\<lambda>d. (- Dom_Tier d, Dom_Name d)) (map (finishDomain \<circ> snd) D')"
    and ne: "\<And>v p. ParentOf v p \<in> E \<Longrightarrow> p \<noteq> []"
  shows "(\<exists>d\<in>set doms. Dom_Name d = v \<and> Dom_Tier d = t) \<longleftrightarrow> TierOf v t \<in> E"
    "d \<in> set doms \<Longrightarrow> p \<noteq> [] \<and> Dom_Parent d = p \<longleftrightarrow> ParentOf (Dom_Name d) p \<in> E"
    "d \<in> set doms \<Longrightarrow> sorted (Dom_SwitchMember d) \<and> distinct (Dom_SwitchMember d)
       \<and> set (Dom_SwitchMember d) = Res_Name ` {sw \<in> set sws. switchDomain sw = Dom_Name d \<and> Dom_Name d \<noteq> []}"
proof -
  note mem = status_domains(2)[OF w inv doms] and look = withMembers_lookup[OF w inv]
  show "(\<exists>d\<in>set doms. Dom_Name d = v \<and> Dom_Tier d = t) \<longleftrightarrow> TierOf v t \<in> E"
  proof
    assume "\<exists>d\<in>set doms. Dom_Name d = v \<and> Dom_Tier d = t"
    then obtain d e where "map_of D' (Dom_Name d) = Some e" "d = finishDomain e" "Dom_Name d = v" "Dom_Tier d = t"
      using mem by blast
    then show "TierOf v t \<in> E" using look(2)[of v e] by simp
  next
    assume t: "TierOf v t \<in> E"
    then obtain d where "map_of D v = Some d" using domainsInvD(5)[OF inv] by blast
    then obtain e where e: "map_of D' v = Some e" using w unfolding withMembers_def by blast
    have "Dom_Tier (Ds_domain e) = t" using look(2)[OF e] t domainsInv_consistent[OF inv] unfolding consistentFacts_def by blast
    then have "finishDomain e \<in> set doms \<and> Dom_Name (finishDomain e) = v \<and> Dom_Tier (finishDomain e) = t"
      using e look(1)[OF e] unfolding mem by auto
    then show "\<exists>d\<in>set doms. Dom_Name d = v \<and> Dom_Tier d = t" by blast
  qed
  assume d: "d \<in> set doms"
  then obtain e where e: "map_of D' (Dom_Name d) = Some e" "d = finishDomain e" unfolding mem by blast
  have "[] \<notin> keyset (Ds_parents e)" using look(6)[OF e(1)] ne by auto
  from finishDomain_Parent[OF look(3)[OF e(1)] look(4)[OF e(1)] look(5)[OF e(1)] this, of p]
  show "p \<noteq> [] \<and> Dom_Parent d = p \<longleftrightarrow> ParentOf (Dom_Name d) p \<in> E" using look(6)[OF e(1)] e(2) by simp
  have "Dom_SwitchMember d = sort (mkeys (Ds_members e))" using e(2) by (simp add: finishDomain_def Let_def sortedSet_def)
  then show "sorted (Dom_SwitchMember d) \<and> distinct (Dom_SwitchMember d)
       \<and> set (Dom_SwitchMember d) = Res_Name ` {sw \<in> set sws. switchDomain sw = Dom_Name d \<and> Dom_Name d \<noteq> []}"
    using look(7,8)[OF e(1)] by simp
qed

definition pathOf :: "Template \<Rightarrow> LabeledResource \<Rightarrow> string list \<Rightarrow> bool" where
  "pathOf tmpl n path \<longleftrightarrow> path \<noteq> [] \<and>
     (\<forall>t v. nodeLabel tmpl n t v \<longleftrightarrow> 1 \<le> t \<and> t \<le> int (length path) \<and> path ! (length path - nat t) = v)"

lemma pathOf_nodePath:
  assumes ok: "tmplOk tmpl" "mwf (Res_Labels n)" and good: "BadPath \<notin> nodeFacts isValid tmpl n"
  shows "pathOf tmpl n path \<longleftrightarrow> nodeValues tmpl n \<noteq> [] \<and> path = nodePath tmpl n"
proof -
  let ?V = "nodeValues tmpl n" and ?p = "nodePath tmpl n"
  note V = nodeValues_label[OF ok] and k = nodeFacts_TierOf(1)[OF ok good]
  have len: "length ?p = length ?V" by (simp add: nodePath_def del: upt_Suc)
  have nth: "?p ! (length ?p - nat t) = mgetd [] ?V t" if "1 \<le> t" "t \<le> int (length ?V)" for t
  proof -
    let ?L = "length ?V"
    have i: "?L - nat t < length [1..<Suc ?L]" using that by auto
    have "rev [1..<Suc ?L] ! (?L - nat t) = [1..<Suc ?L] ! (length [1..<Suc ?L] - Suc (?L - nat t))" by (rule rev_nth[OF i])
    also have "\<dots> = nat t" using that by (simp add: nth_upt del: upt_Suc)
    finally show ?thesis using that i by (simp add: len nodePath_def del: upt_Suc)
  qed
  have nl: "nodeLabel tmpl n t v \<longleftrightarrow> 1 \<le> t \<and> t \<le> int (length ?p) \<and> ?p ! (length ?p - nat t) = v" for t v
  proof -
    have "nodeLabel tmpl n t v \<longleftrightarrow> t \<in> keyset ?V \<and> mgetd [] ?V t = v"
      unfolding V(2)[symmetric] by (auto simp: mgetd_def keyset_iff)
    then show ?thesis using nth[of t] unfolding k len by auto
  qed
  show ?thesis
  proof
    assume p: "pathOf tmpl n path"
    have iff: "1 \<le> t \<and> t \<le> int (length path) \<longleftrightarrow> 1 \<le> t \<and> t \<le> int (length ?p)" for t
      using p nl unfolding pathOf_def by blast
    have l: "length path = length ?p" using iff[of "int (length path)"] iff[of "int (length ?p)"] by (cases path; cases ?p) auto
    have "path ! i = ?p ! i" if i: "i < length path" for i
    proof -
      let ?t = "int (length path - i)"
      have t: "1 \<le> ?t" "?t \<le> int (length path)" "length path - nat ?t = i" using i by auto
      then have "nodeLabel tmpl n ?t (path ! i)" using p unfolding pathOf_def by metis
      then show ?thesis using nl[of ?t "path ! i"] t(3) l by metis
    qed
    then have "path = ?p" using l by (intro nth_equalityI) auto
    then show "?V \<noteq> [] \<and> path = ?p" using p len by (auto simp: pathOf_def)
  next
    assume "?V \<noteq> [] \<and> path = ?p"
    then show "pathOf tmpl n path" unfolding pathOf_def using nl len by fastforce
  qed
qed

lemma nodePath_valid:
  assumes ok: "tmplOk tmpl" "mwf (Res_Labels n)" and good: "BadPath \<notin> nodeFacts isValid tmpl n"
  shows "list_all (\<lambda>x. x \<noteq> [] \<and> isValid x = []) (nodePath tmpl n)"
proof -
  let ?V = "nodeValues tmpl n"
  have good': "BadPath \<notin> checkFacts isValid ?V" using good by (simp add: nodeFacts_def)
  have "mgetd [] ?V (int t) \<noteq> [] \<and> isValid (mgetd [] ?V (int t)) = []" if "1 \<le> t" "t \<le> length ?V" for t
    using checkFacts_nth(3,4)[OF good', of "t - 1"] that by (simp add: of_nat_diff)
  then show ?thesis by (auto simp: nodePath_def list_all_iff)
qed

text \<open>The groups of a snapshot before they get names.\<close>

definition snapGroups :: "Template \<Rightarrow> LabelSnapshot \<Rightarrow> TopologyNodeGroup list" where
  "snapGroups tmpl snap = sort_key (\<lambda>grp. (Join (Grp_SwitchDomainPath grp) [CHR 0x00], Join (Grp_Nodes grp) [CHR 0x00]))
     (map (\<lambda>(_, grp). grp\<lparr>Grp_Nodes := sort (Grp_Nodes grp)\<rparr>)
       (fold (groupStep tmpl) (sort_key Res_Name (Snap_Nodes snap)) []))"

lemma snapGroups_mem:
  "g \<in> set (snapGroups tmpl snap) \<longleftrightarrow> (\<exists>k ms. ms = groupMembers tmpl (sort_key Res_Name (Snap_Nodes snap)) k \<and> ms \<noteq> []
     \<and> g = \<lparr>Grp_Name = [], Grp_Nodes = sort (map Res_Name ms), Grp_SwitchDomainPath = nodePath tmpl (hd ms)\<rparr>)"
proof -
  let ?G = "fold (groupStep tmpl) (sort_key Res_Name (Snap_Nodes snap)) []"
  note c = groups_closed[of tmpl "sort_key Res_Name (Snap_Nodes snap)"]
  have "g \<in> set (snapGroups tmpl snap) \<longleftrightarrow> (\<exists>k grp. (k, grp) \<in> set ?G \<and> g = grp\<lparr>Grp_Nodes := sort (Grp_Nodes grp)\<rparr>)"
    by (force simp: snapGroups_def)
  also have "\<dots> \<longleftrightarrow> (\<exists>k grp. map_of ?G k = Some grp \<and> g = grp\<lparr>Grp_Nodes := sort (Grp_Nodes grp)\<rparr>)"
    by (simp only: map_of_mem_iff[OF c[THEN conjunct1]])
  finally show ?thesis using c[THEN conjunct2] by (auto split: if_splits)
qed

lemma groupMembers_hd:
  assumes "groupMembers tmpl ns k \<noteq> []"
  shows "hd (groupMembers tmpl ns k) \<in> set ns" "nodeValues tmpl (hd (groupMembers tmpl ns k)) \<noteq> []"
    "nodeGroupKey (nodePath tmpl (hd (groupMembers tmpl ns k))) = k"
  using hd_in_set[OF assms] by (simp_all add: groupMembers_def)

lemma snapGroups_keys: "distinct (groupKeys (snapGroups tmpl snap))"
proof -
  let ?ns = "sort_key Res_Name (Snap_Nodes snap)"
  let ?G = "fold (groupStep tmpl) ?ns []"
  note c = groups_closed[of tmpl ?ns]
  have "nodeGroupKey (Grp_SwitchDomainPath grp) = k" if "(k, grp) \<in> set ?G" for k grp
  proof -
    have "map_of ?G k = Some grp" using map_of_mem_iff[OF c[THEN conjunct1]] that by blast
    then show ?thesis using c[THEN conjunct2] groupMembers_hd(3)[of tmpl ?ns k] by (auto split: if_splits)
  qed
  then have "groupKeys (map (\<lambda>(_, grp). grp\<lparr>Grp_Nodes := sort (Grp_Nodes grp)\<rparr>) ?G) = map fst ?G" by auto
  then have "distinct (groupKeys (map (\<lambda>(_, grp). grp\<lparr>Grp_Nodes := sort (Grp_Nodes grp)\<rparr>) ?G))"
    using c[THEN conjunct1] by (simp only:)
  then show ?thesis unfolding snapGroups_def by (metis (no_types, lifting) distinct_map distinct_sort set_sort)
qed


subsection \<open>Properties of the status builder\<close>

lemma Build_success:
  assumes ok: "tmplOk tmpl" "snapshotOk snap" and r: "BuildTopologyStatus isValid (Some tmpl) snap prev = Inr r"
  shows "BadPath \<notin> snapFacts isValid tmpl snap"
    "Status_Nodes (Result_Status r) = assignNodeGroupNames (snapGroups tmpl snap) prev"
    "\<exists>D D'. domainsInv (snapFacts isValid tmpl snap) D \<and> withMembers (sort_key Res_Name (Snap_Switches snap)) D D'
        \<and> Status_Domains (Result_Status r) = sort_key (\<lambda>d. (- Dom_Tier d, Dom_Name d)) (map (finishDomain \<circ> snd) D')
        \<and> set (Result_Pending r) = (\<lambda>sw. pendingMessage (Res_Name sw) (switchDomain sw)) `
             {sw \<in> set (Snap_Switches snap). switchDomain sw \<noteq> [] \<and> switchDomain sw \<notin> keyset D}"
proof -
  obtain D D' where D: "domainsInv (snapFacts isValid tmpl snap) D" "withMembers (sort_key Res_Name (Snap_Switches snap)) D D'"
    "Status_Domains (Result_Status r) = sort_key (\<lambda>d. (- Dom_Tier d, Dom_Name d)) (map (finishDomain \<circ> snd) D')"
    "Status_Nodes (Result_Status r) = assignNodeGroupNames (snapGroups tmpl snap) prev"
    "Result_Pending r = sort (map (\<lambda>sw. pendingMessage (Res_Name sw) (switchDomain sw))
       (filter (\<lambda>sw. switchDomain sw \<noteq> [] \<and> switchDomain sw \<notin> keyset D) (sort_key Res_Name (Snap_Switches snap))))"
    using Build_cases[OF ok, of isValid prev] r unfolding snapGroups_def[symmetric] by auto
  show "BadPath \<notin> snapFacts isValid tmpl snap" by (rule domainsInvD(2)[OF D(1)])
  show "Status_Nodes (Result_Status r) = assignNodeGroupNames (snapGroups tmpl snap) prev" by (rule D(4))
  have "set (Result_Pending r) = (\<lambda>sw. pendingMessage (Res_Name sw) (switchDomain sw)) `
     {sw \<in> set (Snap_Switches snap). switchDomain sw \<noteq> [] \<and> switchDomain sw \<notin> keyset D}"
    unfolding D(5) by simp
  then show "\<exists>D D'. domainsInv (snapFacts isValid tmpl snap) D \<and> withMembers (sort_key Res_Name (Snap_Switches snap)) D D'
        \<and> Status_Domains (Result_Status r) = sort_key (\<lambda>d. (- Dom_Tier d, Dom_Name d)) (map (finishDomain \<circ> snd) D')
        \<and> set (Result_Pending r) = (\<lambda>sw. pendingMessage (Res_Name sw) (switchDomain sw)) `
             {sw \<in> set (Snap_Switches snap). switchDomain sw \<noteq> [] \<and> switchDomain sw \<notin> keyset D}"
    using D(1-3) by (intro exI[of _ D] exI[of _ D'] conjI)
qed

text \<open>A concrete snapshot.\<close>

definition exTmpl :: Template where
  "exTmpl = projr (Compile exParse (\<lambda>_. []) ''t'')"

definition exNode :: "string \<Rightarrow> string \<Rightarrow> string \<Rightarrow> LabeledResource" where
  "exNode name leaf spine = \<lparr>Res_Name = name, Res_Labels = [(''t1'', leaf), (''t2'', spine)]\<rparr>"

definition exSnap :: LabelSnapshot where
  "exSnap = \<lparr>Snap_Nodes = [exNode ''n2'' ''L'' ''S'', exNode ''n1'' ''L'' ''S''],
     Snap_Switches = [\<lparr>Res_Name = ''sw'', Res_Labels = [(TopologyDomainLabel, ''L'')]\<rparr>]\<rparr>"

lemma exTmpl_ok: "Compile exParse (\<lambda>_. []) ''t'' = Inr exTmpl"
proof -
  have "\<not> isl (Compile exParse (\<lambda>_. []) ''t'')" by code_simp
  then show ?thesis by (cases "Compile exParse (\<lambda>_. []) ''t''") (simp_all add: exTmpl_def)
qed

lemma exSnap_ok: "snapshotOk exSnap"
  by (simp add: snapshotOk_def exSnap_def exNode_def)

definition exValid :: "string \<Rightarrow> string list" where
  "exValid v = (if CHR 0x00 \<in> set v then [''nul''] else [])"

lemma exBuild_ok: "\<exists>r. BuildTopologyStatus exValid (Some exTmpl) exSnap [] = Inr r"
proof -
  have "\<not> isl (BuildTopologyStatus exValid (Some exTmpl) exSnap [])" by code_simp
  then show ?thesis by (cases "BuildTopologyStatus exValid (Some exTmpl) exSnap []") simp_all
qed

text \<open>
  C12: for a compiled label template the builder succeeds exactly when the labels are
  consistent: every Node path is continuous from tier 1 with valid names, no domain name is on two tiers,
  no domain has two parents and every Switch names a valid domain. In particular the branch that reports
  two keys for one tier is never taken.
\<close>

theorem BuildTopologyStatus_decides:
  assumes "Compile parse isQualifiedName raw = Inr tmpl" "snapshotOk snap"
  shows "(\<exists>r. BuildTopologyStatus isValid (Some tmpl) snap prev = Inr r) \<longleftrightarrow> labelsConsistent isValid tmpl snap"
  using Build_cases[OF Compile_tmplOk[OF assms(1)] assms(2), of isValid prev]
  by (cases "BuildTopologyStatus isValid (Some tmpl) snap prev") auto

theorem BuildTopologyStatus_decides_witness: "labelsConsistent exValid exTmpl exSnap"
  using BuildTopologyStatus_decides[OF exTmpl_ok exSnap_ok, of exValid "[]"] exBuild_ok by simp

text \<open>
  C13: the domains of a built status form a forest over the labels. Names are distinct, a
  domain is listed with a tier exactly when some Node carries it on that tier, its parent is the domain
  that some Node carries one tier above it, which is listed one tier higher, and its members are
  the Switches that name it.
\<close>

theorem BuildTopologyStatus_forest:
  assumes c: "Compile parse isQualifiedName raw = Inr tmpl" and s: "snapshotOk snap"
    and r: "BuildTopologyStatus isValid (Some tmpl) snap prev = Inr r"
  shows "distinct (map Dom_Name (Status_Domains (Result_Status r)))
    \<and> (\<forall>v t. (\<exists>d\<in>set (Status_Domains (Result_Status r)). Dom_Name d = v \<and> Dom_Tier d = t)
          \<longleftrightarrow> (\<exists>n\<in>set (Snap_Nodes snap). nodeLabel tmpl n t v))
    \<and> (\<forall>d\<in>set (Status_Domains (Result_Status r)).
          (\<forall>p. p \<noteq> [] \<and> Dom_Parent d = p \<longleftrightarrow> (\<exists>n\<in>set (Snap_Nodes snap). \<exists>t. nodeLabel tmpl n t (Dom_Name d) \<and> nodeLabel tmpl n (t + 1) p))
        \<and> (Dom_Parent d \<noteq> [] \<longrightarrow> (\<exists>q\<in>set (Status_Domains (Result_Status r)). Dom_Name q = Dom_Parent d \<and> Dom_Tier q = Dom_Tier d + 1))
        \<and> set (Dom_SwitchMember d) = Res_Name ` {sw \<in> set (Snap_Switches snap). switchDomain sw = Dom_Name d \<and> Dom_Name d \<noteq> []})"
proof -
  note ok = Compile_tmplOk[OF c] s
  let ?doms = "Status_Domains (Result_Status r)"
  obtain D D' where D: "domainsInv (snapFacts isValid tmpl snap) D" "withMembers (sort_key Res_Name (Snap_Switches snap)) D D'"
    "?doms = sort_key (\<lambda>d. (- Dom_Tier d, Dom_Name d)) (map (finishDomain \<circ> snd) D')"
    using Build_success(3)[OF ok r] by blast
  note f = snapFacts_iff[OF ok Build_success(1)[OF ok r]]
  have ne: "p \<noteq> []" if "ParentOf v p \<in> snapFacts isValid tmpl snap" for v p
    using that unfolding f by (auto simp: tierLabel_def)
  let ?F = "snapFacts isValid tmpl snap"
  have dom1: "(\<exists>d\<in>set ?doms. Dom_Name d = v \<and> Dom_Tier d = t) \<longleftrightarrow> TierOf v t \<in> ?F" for v t
    by (rule status_domain_iff(1)[OF D(2,1,3)]) (erule ne)
  have dom2: "p \<noteq> [] \<and> Dom_Parent d = p \<longleftrightarrow> ParentOf (Dom_Name d) p \<in> ?F" if "d \<in> set ?doms" for d p
    by (rule status_domain_iff(2)[OF D(2,1,3) _ that]) (erule ne)
  have dom3: "sorted (Dom_SwitchMember d) \<and> distinct (Dom_SwitchMember d) \<and> set (Dom_SwitchMember d) =
      Res_Name ` {sw \<in> set (sort_key Res_Name (Snap_Switches snap)). switchDomain sw = Dom_Name d \<and> Dom_Name d \<noteq> []}"
    if "d \<in> set ?doms" for d
    by (rule status_domain_iff(3)[OF D(2,1,3) _ that]) (erule ne)
  have up: "\<exists>q\<in>set ?doms. Dom_Name q = Dom_Parent d \<and> Dom_Tier q = Dom_Tier d + 1"
    if d: "d \<in> set ?doms" and p: "Dom_Parent d \<noteq> []" for d
  proof -
    have "ParentOf (Dom_Name d) (Dom_Parent d) \<in> snapFacts isValid tmpl snap" using dom2[OF d, of "Dom_Parent d"] p by simp
    then obtain n t where nt: "n \<in> set (Snap_Nodes snap)" "nodeLabel tmpl n t (Dom_Name d)" "nodeLabel tmpl n (t + 1) (Dom_Parent d)"
      unfolding f by blast
    have "TierOf (Dom_Name d) t \<in> snapFacts isValid tmpl snap" "TierOf (Dom_Name d) (Dom_Tier d) \<in> snapFacts isValid tmpl snap"
      using nt(1,2) dom1[of "Dom_Name d" "Dom_Tier d"] d unfolding f by blast+
    then have "t = Dom_Tier d" using domainsInv_consistent[OF D(1)] unfolding consistentFacts_def by blast
    then show ?thesis using dom1[of "Dom_Parent d" "Dom_Tier d + 1"] nt unfolding f by blast
  qed
  show ?thesis
  proof (intro conjI ballI)
    show "distinct (map Dom_Name ?doms)" by (rule status_domains(1)[OF D(2,1,3)])
    show "\<forall>v t. (\<exists>d\<in>set ?doms. Dom_Name d = v \<and> Dom_Tier d = t) \<longleftrightarrow> (\<exists>n\<in>set (Snap_Nodes snap). nodeLabel tmpl n t v)"
      using dom1 unfolding f by blast
    fix d assume d: "d \<in> set ?doms"
    show "\<forall>p. p \<noteq> [] \<and> Dom_Parent d = p \<longleftrightarrow> (\<exists>n\<in>set (Snap_Nodes snap). \<exists>t. nodeLabel tmpl n t (Dom_Name d) \<and> nodeLabel tmpl n (t + 1) p)"
      using dom2[OF d] unfolding f by blast
    show "Dom_Parent d \<noteq> [] \<longrightarrow> (\<exists>q\<in>set ?doms. Dom_Name q = Dom_Parent d \<and> Dom_Tier q = Dom_Tier d + 1)"
      using up[OF d] by blast
    show "set (Dom_SwitchMember d) = Res_Name ` {sw \<in> set (Snap_Switches snap). switchDomain sw = Dom_Name d \<and> Dom_Name d \<noteq> []}"
      using dom3[OF d] unfolding set_sort by blast
  qed
qed

theorem BuildTopologyStatus_forest_witness:
  "\<exists>r. BuildTopologyStatus exValid (Some exTmpl) exSnap [] = Inr r
     \<and> (\<exists>d\<in>set (Status_Domains (Result_Status r)). Dom_Name d = ''S'' \<and> Dom_Tier d = 2)"
proof -
  obtain r where r: "BuildTopologyStatus exValid (Some exTmpl) exSnap [] = Inr r" using exBuild_ok by blast
  have "MatchTier (Some exTmpl) ''t2'' = Some 2" by code_simp
  then have "nodeLabel exTmpl (exNode ''n1'' ''L'' ''S'') 2 ''S''"
    by (auto simp: tierLabel_def exNode_def intro!: exI[of _ "''t2''"])
  moreover have "exNode ''n1'' ''L'' ''S'' \<in> set (Snap_Nodes exSnap)" by (simp add: exSnap_def)
  ultimately have "\<exists>d\<in>set (Status_Domains (Result_Status r)). Dom_Name d = ''S'' \<and> Dom_Tier d = 2"
    using BuildTopologyStatus_forest[OF exTmpl_ok exSnap_ok r, THEN conjunct2, THEN conjunct1, rule_format, of "''S''" 2] by blast
  then show ?thesis using r by blast
qed

text \<open>
  C14: the node groups of a built status partition the labelled Nodes by their complete
  path. Paths are distinct; a group with a path is listed exactly when some Node has that path, and it
  holds the sorted names of all such Nodes.
\<close>

theorem BuildTopologyStatus_groups:
  assumes c: "Compile parse isQualifiedName raw = Inr tmpl" and s: "snapshotOk snap"
    and noNul: "\<And>v. isValid v = [] \<Longrightarrow> CHR 0x00 \<notin> set v"
    and r: "BuildTopologyStatus isValid (Some tmpl) snap prev = Inr r"
  shows "distinct (map Grp_SwitchDomainPath (Status_Nodes (Result_Status r)))
    \<and> (\<forall>path. path \<in> Grp_SwitchDomainPath ` set (Status_Nodes (Result_Status r)) \<longleftrightarrow> (\<exists>n\<in>set (Snap_Nodes snap). pathOf tmpl n path))
    \<and> (\<forall>g\<in>set (Status_Nodes (Result_Status r)). sorted (Grp_Nodes g) \<and>
         mset (Grp_Nodes g) = image_mset Res_Name (filter_mset (\<lambda>n. pathOf tmpl n (Grp_SwitchDomainPath g)) (mset (Snap_Nodes snap))))"
proof -
  note ok = Compile_tmplOk[OF c] s
  let ?N = "set (Snap_Nodes snap)" and ?ns = "sort_key Res_Name (Snap_Nodes snap)"
  have wf: "mwf (Res_Labels n)" if "n \<in> ?N" for n using s that by (simp add: snapshotOk_def list_all_iff)
  have good: "BadPath \<notin> nodeFacts isValid tmpl n" if "n \<in> ?N" for n using Build_success(1)[OF ok r] that by blast
  have path: "pathOf tmpl n path \<longleftrightarrow> nodeValues tmpl n \<noteq> [] \<and> path = nodePath tmpl n" if "n \<in> ?N" for n path
    by (rule pathOf_nodePath[OF ok(1) wf[OF that] good[OF that]])
  have valid: "list_all (\<lambda>x. CHR 0x00 \<notin> set x \<and> x \<noteq> []) (nodePath tmpl n)" if "n \<in> ?N" for n
    using nodePath_valid[OF ok(1) wf[OF that] good[OF that]] noNul by (auto simp: list_all_iff)
  have inj: "nodePath tmpl m = nodePath tmpl n" if "m \<in> ?N" "n \<in> ?N" "nodeGroupKey (nodePath tmpl m) = nodeGroupKey (nodePath tmpl n)" for m n
    using Join_inj[OF valid[OF that(1)] valid[OF that(2)]] that(3) by (simp add: nodeGroupKey_def)
  have members: "groupMembers tmpl ?ns (nodeGroupKey (nodePath tmpl m)) = filter (\<lambda>n. pathOf tmpl n (nodePath tmpl m)) ?ns" if "m \<in> ?N" for m
    unfolding groupMembers_def
  proof (intro filter_cong refl)
    fix x assume "x \<in> set ?ns"
    then have x: "x \<in> ?N" by simp
    show "(nodeValues tmpl x \<noteq> [] \<and> nodeGroupKey (nodePath tmpl x) = nodeGroupKey (nodePath tmpl m)) = pathOf tmpl x (nodePath tmpl m)"
      using path[OF x] inj[OF x that] by metis
  qed
  have shape: "map Grp_Nodes (Status_Nodes (Result_Status r)) = map Grp_Nodes (snapGroups tmpl snap)"
    "map Grp_SwitchDomainPath (Status_Nodes (Result_Status r)) = map Grp_SwitchDomainPath (snapGroups tmpl snap)"
    unfolding Build_success(2)[OF ok r] assignNodeGroupNames_reference by (simp_all add: assignReference_shape)
  have grp: "\<exists>m\<in>?N. nodeValues tmpl m \<noteq> [] \<and> Grp_SwitchDomainPath g = nodePath tmpl m
      \<and> Grp_Nodes g = sort (map Res_Name (filter (\<lambda>n. pathOf tmpl n (nodePath tmpl m)) ?ns))" if g: "g \<in> set (snapGroups tmpl snap)" for g
  proof -
    obtain k where k: "groupMembers tmpl ?ns k \<noteq> []" "Grp_SwitchDomainPath g = nodePath tmpl (hd (groupMembers tmpl ?ns k))"
      "Grp_Nodes g = sort (map Res_Name (groupMembers tmpl ?ns k))" using g unfolding snapGroups_mem by auto
    note h = groupMembers_hd[OF k(1)]
    have m: "hd (groupMembers tmpl ?ns k) \<in> ?N" using h(1) by simp
    show ?thesis using members[OF m] h k m by (intro bexI[OF _ m]) simp
  qed
  have dist: "distinct (map Grp_SwitchDomainPath (snapGroups tmpl snap))"
    using snapGroups_keys[of tmpl snap] by (auto simp: distinct_map inj_on_def)
  have paths: "path \<in> set (map Grp_SwitchDomainPath (snapGroups tmpl snap)) \<longleftrightarrow> (\<exists>n\<in>?N. pathOf tmpl n path)" for path
  proof
    assume "path \<in> set (map Grp_SwitchDomainPath (snapGroups tmpl snap))"
    then obtain g where "g \<in> set (snapGroups tmpl snap)" "path = Grp_SwitchDomainPath g" by auto
    then show "\<exists>n\<in>?N. pathOf tmpl n path" using grp path by metis
  next
    assume "\<exists>n\<in>?N. pathOf tmpl n path"
    then obtain n where n: "n \<in> ?N" "pathOf tmpl n path" by blast
    then have p: "path = nodePath tmpl n" using path by blast
    let ?ms = "groupMembers tmpl ?ns (nodeGroupKey path)"
    have ne: "?ms \<noteq> []" using n members[OF n(1)] p by (auto simp: filter_empty_conv)
    then have "nodePath tmpl (hd ?ms) = path" using groupMembers_hd[OF ne] inj[of "hd ?ms" n] n p by simp
    then have "\<lparr>Grp_Name = [], Grp_Nodes = sort (map Res_Name ?ms), Grp_SwitchDomainPath = path\<rparr> \<in> set (snapGroups tmpl snap)"
      using ne unfolding snapGroups_mem by (intro exI[of _ "nodeGroupKey path"] exI[of _ ?ms]) simp
    then show "path \<in> set (map Grp_SwitchDomainPath (snapGroups tmpl snap))" by force
  qed
  have nodes: "sorted (Grp_Nodes g) \<and> mset (Grp_Nodes g) = image_mset Res_Name (filter_mset (\<lambda>n. pathOf tmpl n (Grp_SwitchDomainPath g)) (mset (Snap_Nodes snap)))"
    if gm: "g \<in> set (Status_Nodes (Result_Status r))" for g
  proof -
    obtain i where i: "i < length (Status_Nodes (Result_Status r))" "g = Status_Nodes (Result_Status r) ! i"
      using gm unfolding in_set_conv_nth by blast
    have l: "length (Status_Nodes (Result_Status r)) = length (snapGroups tmpl snap)" using shape(1) by (metis length_map)
    let ?h = "snapGroups tmpl snap ! i"
    have e: "Grp_Nodes g = Grp_Nodes ?h" "Grp_SwitchDomainPath g = Grp_SwitchDomainPath ?h"
      using shape i l by (metis nth_map)+
    have "?h \<in> set (snapGroups tmpl snap)" using i l by simp
    from grp[OF this] show ?thesis unfolding e by (auto simp: mset_filter)
  qed
  show ?thesis using dist paths nodes unfolding shape(2)[symmetric] set_map by blast
qed

theorem BuildTopologyStatus_groups_witness:
  "\<exists>r. BuildTopologyStatus exValid (Some exTmpl) exSnap [] = Inr r
     \<and> distinct (map Grp_SwitchDomainPath (Status_Nodes (Result_Status r)))"
proof -
  obtain r where r: "BuildTopologyStatus exValid (Some exTmpl) exSnap [] = Inr r" using exBuild_ok by blast
  have "\<And>v. exValid v = [] \<Longrightarrow> CHR 0x00 \<notin> set v" by (simp add: exValid_def split: if_splits)
  from BuildTopologyStatus_groups[OF exTmpl_ok exSnap_ok this r] show ?thesis using r by simp
qed

text \<open>
  C15: against earlier groups with distinct numbered names, a group whose path existed
  keeps its name, every other group gets a \<open>node-group\<close> number that no earlier group has, and all names of
  the result are distinct again. Paths and Nodes are unchanged.
\<close>

theorem assignNodeGroupNames_stable:
  assumes prev: "groupsOk prev" and l: "int (length prev) + int (length gs) < 2 ^ 63" and d: "distinct (groupKeys gs)"
  shows "groupsOk (assignNodeGroupNames gs prev)
    \<and> map Grp_SwitchDomainPath (assignNodeGroupNames gs prev) = map Grp_SwitchDomainPath gs
    \<and> map Grp_Nodes (assignNodeGroupNames gs prev) = map Grp_Nodes gs
    \<and> (\<forall>h\<in>set (assignNodeGroupNames gs prev).
         (\<exists>g\<in>set prev. nodeGroupKey (Grp_SwitchDomainPath g) = nodeGroupKey (Grp_SwitchDomainPath h) \<and> Grp_Name g = Grp_Name h)
       \<or> (nodeGroupKey (Grp_SwitchDomainPath h) \<notin> set (groupKeys prev) \<and> Grp_Name h \<notin> Grp_Name ` set prev))"
proof -
  let ?names = "previousNames prev" and ?used = "usedNumbers prev"
  have l': "int (length ?used) + int (length gs) < 2 ^ 63" using usedNumbers_props(3)[of prev] l by simp
  have each: "(\<exists>g\<in>set prev. nodeGroupKey (Grp_SwitchDomainPath g) = nodeGroupKey (Grp_SwitchDomainPath h) \<and> Grp_Name g = Grp_Name h)
       \<or> (nodeGroupKey (Grp_SwitchDomainPath h) \<notin> set (groupKeys prev) \<and> Grp_Name h \<notin> Grp_Name ` set prev)"
    if h: "h \<in> set (assignReference ?names ?used gs)" for h
    using assignReference_names[OF usedNumbers_props(2) l' h]
  proof (elim disjE conjE exE)
    assume "previousName ?names h \<noteq> []" "Grp_Name h = previousName ?names h"
    then show ?thesis using previousName_Some[of ?names h] previousNames_props(1) by metis
  next
    fix n assume n: "previousName ?names h = []" "1 \<le> n" "n < 2 ^ 63" "n \<notin> keyset ?used" "Grp_Name h = numberedName n"
    have named: "Grp_Name g \<noteq> []" if "g \<in> set prev" for g
      using prev that by (auto simp: groupsOk_def list_all_iff numberedName_def nodeGroupNamePrefix_def)
    have "nodeGroupKey (Grp_SwitchDomainPath h) \<notin> set (groupKeys prev)"
    proof
      assume "nodeGroupKey (Grp_SwitchDomainPath h) \<in> set (groupKeys prev)"
      then obtain name where nm: "map_of ?names (nodeGroupKey (Grp_SwitchDomainPath h)) = Some name"
        using previousNames_props(2)[of prev] by (metis keysetE list.set_map)
      then have "name = []" using n(1) by (simp add: previousName_def)
      then show False using previousNames_props(1)[OF nm] named by metis
    qed
    moreover have "Grp_Name h \<notin> Grp_Name ` set prev"
    proof
      assume "Grp_Name h \<in> Grp_Name ` set prev"
      then have "n \<in> keyset ?used" unfolding usedNumbers_props(1)
        using n(5) parseNodeGroupNumber_name[OF n(2,3)] by (auto simp: numberedName_def)
      then show False using n(4) by simp
    qed
    ultimately show ?thesis by blast
  qed
  then show ?thesis
    using assignNodeGroupNames_ok[OF prev l d] assignReference_shape[of ?names ?used gs]
    unfolding assignNodeGroupNames_reference by blast
qed

definition exPrev :: "TopologyNodeGroup list" where
  "exPrev = [\<lparr>Grp_Name = ''node-group2'', Grp_Nodes = [''a''], Grp_SwitchDomainPath = [''p'']\<rparr>]"

definition exGroups :: "TopologyNodeGroup list" where
  "exGroups = [\<lparr>Grp_Name = [], Grp_Nodes = [''b''], Grp_SwitchDomainPath = [''o'']\<rparr>,
     \<lparr>Grp_Name = [], Grp_Nodes = [''a''], Grp_SwitchDomainPath = [''p'']\<rparr>]"

theorem assignNodeGroupNames_stable_witness:
  "map Grp_Name (assignNodeGroupNames exGroups exPrev) = [''node-group1'', ''node-group2'']
   \<and> groupsOk (assignNodeGroupNames exGroups exPrev)"
proof -
  have "numberedName 2 = ''node-group2''" by code_simp
  then have "\<exists>n. 1 \<le> n \<and> n < 2 ^ 63 \<and> ''node-group2'' = numberedName n" by (intro exI[of _ 2]) simp
  then have "groupsOk exPrev" by (simp add: groupsOk_def exPrev_def)
  moreover have "distinct (groupKeys exGroups)" by (simp add: exGroups_def nodeGroupKey_def)
  moreover have "map Grp_Name (assignNodeGroupNames exGroups exPrev) = [''node-group1'', ''node-group2'']" by code_simp
  ultimately show ?thesis using assignNodeGroupNames_stable[of exPrev exGroups] by (simp add: exPrev_def exGroups_def)
qed

end
