(* ===== verification/Topology_Controller.thy ===== *)
theory Topology_Controller
  imports Topology_Status
begin

text \<open>
  The reconcilers of \<open>src/pkg/controller/topologystatus\<close>: \<open>controller.go\<close>, which publishes the
  status of the fixed topologies, and \<open>fabricnode_controller.go\<close>, which publishes the topologies
  of a FabricNode. The answers of the Kubernetes client are the record \<open>apiView\<close>; the calls that
  change the cluster, the events and the metrics are the list of effects, in the order of the code.
  Log messages are left out.
\<close>

subsection \<open>Data\<close>

record SwitchObject =
  Sw_Name :: string
  Sw_Labels :: "(string, string) gomap"
  Sw_Role :: string

record TopologyObject =
  Topo_Name :: string
  Topo_DeletionTimestamp :: "int option"
  Topo_Status :: TopologyStatus

datatype 'a getResult = GetOk 'a | GetNotFound | GetError string
datatype createResult = CreateOk | CreateExists | CreateError string

record apiView =
  View_topology :: "TopologyObject getResult"
  View_nodes :: "string + LabeledResource list"
  View_switches :: "string + SwitchObject list"
  View_create :: createResult
  View_patch :: "string option"

datatype reconcileError = ApiError string | BuildError statusError
datatype reconcileResult = Done | RequeueAfter int | Requeue | Failed reconcileError

datatype effect =
    IncReconcile
  | IncError string
  | SetStale bool
  | SetPending nat
  | SetLastSuccess
  | EventConflict statusError
  | EventPending string
  | CreateTopology TopologyObject
  | PatchStatus string TopologyStatus

subsection \<open>Names, roles and labels\<close>

definition TopologyScaleOut :: string where "TopologyScaleOut = ''scaleout''"
definition TopologyScaleUp :: string where "TopologyScaleUp = ''scaleup''"
definition TopologyStorage :: string where "TopologyStorage = ''storage''"
definition SwitchRoleScaleOut :: string where "SwitchRoleScaleOut = ''ScaleOut''"
definition SwitchRoleScaleUp :: string where "SwitchRoleScaleUp = ''ScaleUp''"
definition SwitchRoleStorage :: string where "SwitchRoleStorage = ''Storage''"

definition FixedTopologyNames :: "string list" where
  "FixedTopologyNames = [TopologyScaleOut, TopologyScaleUp, TopologyStorage]"

definition IsFixedTopologyName :: "string \<Rightarrow> bool" where
  "IsFixedTopologyName name = list_ex (\<lambda>candidate. candidate = name) FixedTopologyNames"

definition IsTopologyDomainLabel :: "string \<Rightarrow> bool" where
  "IsTopologyDomainLabel label \<longleftrightarrow> label = TopologyDomainLabel"

definition effectiveTopologySwitchRole :: "SwitchObject \<Rightarrow> string" where
  "effectiveTopologySwitchRole sw = (if Sw_Role sw = [] then SwitchRoleScaleOut else Sw_Role sw)"

definition switchBelongsToTopology :: "SwitchObject \<Rightarrow> string \<Rightarrow> bool" where
  "switchBelongsToTopology sw topologyName =
     (let role = effectiveTopologySwitchRole sw in
      if topologyName = TopologyScaleOut then role = SwitchRoleScaleOut
      else if topologyName = TopologyScaleUp then role = SwitchRoleScaleUp
      else if topologyName = TopologyStorage then role = SwitchRoleStorage
      else False)"

definition topologyLabelKey :: "Set option \<Rightarrow> string \<Rightarrow> bool" where
  "topologyLabelKey templates key \<longleftrightarrow> IsTopologyDomainLabel key
     \<or> list_ex (\<lambda>labelTemplate. MatchTier (Some labelTemplate) key \<noteq> None) (AllTemplates templates)"

definition filteredTopologyLabels :: "(string, string) gomap \<Rightarrow> Set option \<Rightarrow> (string, string) gomap" where
  "filteredTopologyLabels labels templates =
     (if templates = None then []
      else fold (\<lambda>(key, v) result. if topologyLabelKey templates key then mput key v result else result) labels [])"

definition hasTopologyLabels :: "(string, string) gomap \<Rightarrow> Set option \<Rightarrow> bool" where
  "hasTopologyLabels labels templates \<longleftrightarrow> length (filteredTopologyLabels labels templates) \<noteq> 0"

definition fixedTopologyRequests :: "string list" where
  "fixedTopologyRequests = FixedTopologyNames"

definition topologyStatusEmpty :: "TopologyStatus \<Rightarrow> bool" where
  "topologyStatusEmpty status \<longleftrightarrow> length (Status_Domains status) = 0 \<and> length (Status_Nodes status) = 0"

definition newFixedTopology :: "string \<Rightarrow> TopologyObject" where
  "newFixedTopology name = \<lparr>Topo_Name = name, Topo_DeletionTimestamp = None,
     Topo_Status = \<lparr>Status_Domains = [], Status_Nodes = []\<rparr>\<rparr>"

subsection \<open>Watches\<close>

text \<open>An object as the label predicate sees it: its labels and, for a Switch, its role.\<close>

datatype watched = WatchedNode "(string, string) gomap" | WatchedSwitch SwitchObject

fun watchedLabels :: "watched \<Rightarrow> (string, string) gomap" where
  "watchedLabels (WatchedNode labels) = labels"
| "watchedLabels (WatchedSwitch sw) = Sw_Labels sw"

datatype watchEvent = CreateEvent watched | DeleteEvent watched | UpdateEvent watched watched | GenericEvent watched

definition sameMap :: "('k, 'v) gomap \<Rightarrow> ('k, 'v) gomap \<Rightarrow> bool" where
  "sameMap m m' \<longleftrightarrow> list_all (\<lambda>k. map_of m k = map_of m' k) (mkeys m @ mkeys m')"

fun roleChanged :: "watched \<Rightarrow> watched \<Rightarrow> bool" where
  "roleChanged (WatchedSwitch old) (WatchedSwitch new) = (effectiveTopologySwitchRole old \<noteq> effectiveTopologySwitchRole new)"
| "roleChanged _ _ = False"

fun topologyLabelPredicate :: "Set option \<Rightarrow> watchEvent \<Rightarrow> bool" where
  "topologyLabelPredicate templates (CreateEvent object) = hasTopologyLabels (watchedLabels object) templates"
| "topologyLabelPredicate templates (DeleteEvent object) = hasTopologyLabels (watchedLabels object) templates"
| "topologyLabelPredicate templates (UpdateEvent old new) =
     (if roleChanged old new then True
      else \<not> sameMap (filteredTopologyLabels (watchedLabels old) templates) (filteredTopologyLabels (watchedLabels new) templates))"
| "topologyLabelPredicate templates (GenericEvent object) = hasTopologyLabels (watchedLabels object) templates"

datatype topologyEvent =
    TopologyCreate "TopologyObject option"
  | TopologyDelete "TopologyObject option"
  | TopologyGeneric "TopologyObject option"
  | TopologyUpdate TopologyObject "TopologyObject option"

definition fixedTopology :: "TopologyObject option \<Rightarrow> bool" where
  "fixedTopology object = (case object of None \<Rightarrow> False | Some t \<Rightarrow> IsFixedTopologyName (Topo_Name t))"

fun fixedTopologyPredicate :: "topologyEvent \<Rightarrow> bool" where
  "fixedTopologyPredicate (TopologyCreate object) = fixedTopology object"
| "fixedTopologyPredicate (TopologyDelete object) = fixedTopology object"
| "fixedTopologyPredicate (TopologyGeneric object) = fixedTopology object"
| "fixedTopologyPredicate (TopologyUpdate old new) =
     (case new of None \<Rightarrow> False
      | Some t \<Rightarrow> fixedTopology new \<and> Topo_DeletionTimestamp old \<noteq> Topo_DeletionTimestamp t)"

subsection \<open>Debounce\<close>

definition debounceDelay :: "int \<Rightarrow> (string, int) gomap \<Rightarrow> string \<Rightarrow> int \<Rightarrow> int \<times> (string, int) gomap" where
  "debounceDelay debounce notBefore name now =
     (if debounce \<le> 0 then (0, notBefore)
      else case map_of notBefore name of
        None \<Rightarrow> (debounce, mput name (now + debounce) notBefore)
      | Some deadline \<Rightarrow> if now < deadline then (deadline - now, notBefore) else (0, mdel name notBefore))"

subsection \<open>Reconcile\<close>

definition switchResources :: "string \<Rightarrow> SwitchObject list \<Rightarrow> LabeledResource list" where
  "switchResources name switches = map (\<lambda>sw. \<lparr>Res_Name = Sw_Name sw, Res_Labels = Sw_Labels sw\<rparr>)
     (filter (\<lambda>sw. switchBelongsToTopology sw name) switches)"

definition writeStatus :: "TopologyObject \<Rightarrow> TopologyStatus \<Rightarrow> string option \<Rightarrow> reconcileResult \<times> effect list" where
  "writeStatus object status patchError =
     (if Topo_Status object = status then (Done, [SetLastSuccess, SetStale False])
      else case patchError of
        Some e \<Rightarrow> (Failed (ApiError e), [IncError ''write'', SetStale True])
      | None \<Rightarrow> (Done, [PatchStatus (Topo_Name object) status, SetLastSuccess, SetStale False]))"

definition publish :: "string \<Rightarrow> TopologyObject option \<Rightarrow> BuildResult \<Rightarrow> apiView \<Rightarrow> reconcileResult \<times> effect list" where
  "publish name existing result view =
     (case existing of
        Some object \<Rightarrow> writeStatus object (Result_Status result) (View_patch view)
      | None \<Rightarrow>
          if topologyStatusEmpty (Result_Status result) then (Done, [SetLastSuccess, SetStale False])
          else case View_create view of
            CreateExists \<Rightarrow> (Requeue, [])
          | CreateError e \<Rightarrow> (Failed (ApiError e), [IncError ''create'', SetStale True])
          | CreateOk \<Rightarrow>
              let object = newFixedTopology name in
              case writeStatus object (Result_Status result) (View_patch view) of
                (res, effects) \<Rightarrow> (res, CreateTopology object # effects))"

definition buildAndPublish :: "(string \<Rightarrow> string list) \<Rightarrow> Set option \<Rightarrow> string \<Rightarrow> TopologyObject option
    \<Rightarrow> LabeledResource list \<Rightarrow> SwitchObject list \<Rightarrow> apiView \<Rightarrow> reconcileResult \<times> effect list" where
  "buildAndPublish isValid templates name existing nodes switches view =
     (let snapshot = \<lparr>Snap_Nodes = nodes, Snap_Switches = switchResources name switches\<rparr>;
          previous = (case existing of Some object \<Rightarrow> Status_Nodes (Topo_Status object) | None \<Rightarrow> [])
      in case BuildTopologyStatus isValid (ForTopology templates name) snapshot previous of
           Inl e \<Rightarrow> (Failed (BuildError e),
             [IncError ''conflict'', SetStale True] @ (if existing \<noteq> None then [EventConflict e] else []))
         | Inr result \<Rightarrow>
             (case publish name existing result view of
                (res, effects) \<Rightarrow> (res, SetPending (length (Result_Pending result))
                    # (if existing \<noteq> None then map EventPending (Result_Pending result) else []) @ effects)))"

definition readFailed :: "string \<Rightarrow> reconcileResult \<times> effect list" where
  "readFailed e = (Failed (ApiError e), [IncError ''read'', SetStale True])"

definition reconcileRead :: "(string \<Rightarrow> string list) \<Rightarrow> Set option \<Rightarrow> string \<Rightarrow> TopologyObject option \<Rightarrow> apiView
    \<Rightarrow> reconcileResult \<times> effect list" where
  "reconcileRead isValid templates name existing view =
     (case View_nodes view of
        Inl e \<Rightarrow> readFailed e
      | Inr nodes \<Rightarrow>
          (case View_switches view of
             Inl e \<Rightarrow> readFailed e
           | Inr switches \<Rightarrow> buildAndPublish isValid templates name existing nodes switches view))"

definition reconcileNow :: "(string \<Rightarrow> string list) \<Rightarrow> Set option \<Rightarrow> string \<Rightarrow> apiView \<Rightarrow> reconcileResult \<times> effect list" where
  "reconcileNow isValid templates name view =
     (case View_topology view of
        GetError e \<Rightarrow> readFailed e
      | GetNotFound \<Rightarrow> reconcileRead isValid templates name None view
      | GetOk object \<Rightarrow> if Topo_DeletionTimestamp object \<noteq> None then (Done, []) else reconcileRead isValid templates name (Some object) view)"

definition Reconcile :: "(string \<Rightarrow> string list) \<Rightarrow> Set option \<Rightarrow> int \<Rightarrow> (string, int) gomap \<Rightarrow> string \<Rightarrow> int \<Rightarrow> apiView
    \<Rightarrow> reconcileResult \<times> effect list \<times> (string, int) gomap" where
  "Reconcile isValid templates debounce notBefore name now view =
     (if \<not> IsFixedTopologyName name then (Done, [], notBefore)
      else case debounceDelay debounce notBefore name now of
        (delay, notBefore') \<Rightarrow>
          if delay > 0 then (RequeueAfter delay, [], notBefore')
          else case reconcileNow isValid templates name view of
            (res, effects) \<Rightarrow> (res, IncReconcile # effects, notBefore'))"

subsection \<open>Topologies of a FabricNode\<close>

datatype patchResult = PatchOk | PatchConflict | PatchError string

definition matchingTopologies :: "(string, string) gomap \<Rightarrow> Set option \<Rightarrow> string list" where
  "matchingTopologies labels templates =
     (if templates = None \<or> length labels = 0 then []
      else filter (\<lambda>name. list_ex (\<lambda>key. MatchTier (ForTopology templates name) key \<noteq> None) (mkeys labels)) FixedTopologyNames)"

definition fabricNodeReconcile :: "Set option \<Rightarrow> (string, string) gomap getResult \<Rightarrow> string list getResult \<Rightarrow> patchResult
    \<Rightarrow> reconcileResult \<times> string list option" where
  "fabricNodeReconcile templates node fabricNode patch =
     (case node of
        GetNotFound \<Rightarrow> (Done, None)
      | GetError e \<Rightarrow> (Failed (ApiError e), None)
      | GetOk labels \<Rightarrow>
          (case fabricNode of
             GetNotFound \<Rightarrow> (Done, None)
           | GetError e \<Rightarrow> (Failed (ApiError e), None)
           | GetOk topologies \<Rightarrow>
               let desired = matchingTopologies labels templates in
               if topologies = desired then (Done, None)
               else case patch of
                 PatchConflict \<Rightarrow> (Requeue, None)
               | PatchError e \<Rightarrow> (Failed (ApiError e), None)
               | PatchOk \<Rightarrow> (Done, Some desired)))"

fun createOnlyPredicate :: "watchEvent \<Rightarrow> bool" where
  "createOnlyPredicate (CreateEvent _) = True"
| "createOnlyPredicate (UpdateEvent _ _) = False"
| "createOnlyPredicate (DeleteEvent _) = False"
| "createOnlyPredicate (GenericEvent _) = False"

subsection \<open>The stored object\<close>

text \<open>What the API server does with the calls of one reconcile, for the topology object of one name.\<close>

fun applyEffect :: "effect \<Rightarrow> TopologyObject option \<Rightarrow> TopologyObject option" where
  "applyEffect (CreateTopology object) stored = Some object"
| "applyEffect (PatchStatus name status) stored = map_option (\<lambda>object. object\<lparr>Topo_Status := status\<rparr>) stored"
| "applyEffect _ stored = stored"

definition applyEffects :: "effect list \<Rightarrow> TopologyObject option \<Rightarrow> TopologyObject option" where
  "applyEffects effects stored = fold applyEffect effects stored"

definition viewOf :: "TopologyObject option \<Rightarrow> TopologyObject getResult" where
  "viewOf stored = (case stored of None \<Rightarrow> GetNotFound | Some object \<Rightarrow> GetOk object)"

definition viewOk :: "apiView \<Rightarrow> bool" where
  "viewOk view \<longleftrightarrow> (case View_nodes view of Inl _ \<Rightarrow> True | Inr nodes \<Rightarrow> list_all (\<lambda>n. mwf (Res_Labels n)) nodes)"

text \<open>The lists of Nodes and of stored groups fit the machine: their lengths sum to a 64-bit number.\<close>

definition viewBound :: "apiView \<Rightarrow> TopologyObject option \<Rightarrow> bool" where
  "viewBound view stored \<longleftrightarrow> (case View_nodes view of Inl _ \<Rightarrow> True | Inr nodes \<Rightarrow>
     int (length nodes) + (case stored of None \<Rightarrow> 0 | Some object \<Rightarrow> int (length (Status_Nodes (Topo_Status object)))) < 2 ^ 63)"

inductive stored :: "(string \<Rightarrow> string list) \<Rightarrow> Set option \<Rightarrow> int \<Rightarrow> string \<Rightarrow> TopologyObject option \<Rightarrow> bool"
  for isValid templates debounce name where
  absent: "stored isValid templates debounce name None"
| reconcile: "stored isValid templates debounce name object \<Longrightarrow> viewOk view \<Longrightarrow> viewBound view object
    \<Longrightarrow> View_topology view = viewOf object \<or> (\<exists>e. View_topology view = GetError e)
    \<Longrightarrow> Reconcile isValid templates debounce notBefore name now view = (res, effects, notBefore')
    \<Longrightarrow> stored isValid templates debounce name (applyEffects effects object)"
| marked: "stored isValid templates debounce name (Some object)
    \<Longrightarrow> stored isValid templates debounce name (Some (object\<lparr>Topo_DeletionTimestamp := Some t\<rparr>))"

lemma applyEffects_Nil [simp]: "applyEffects [] s = s"
  by (simp add: applyEffects_def)

lemma applyEffects_Cons [simp]: "applyEffects (e # es) s = applyEffects es (applyEffect e s)"
  by (simp add: applyEffects_def)

lemma applyEffects_append [simp]: "applyEffects (es @ fs) s = applyEffects fs (applyEffects es s)"
  by (simp add: applyEffects_def)

lemma applyEffects_events [simp]: "applyEffects (map EventPending ps) s = s"
  by (induction ps) simp_all

definition emptyStatus :: TopologyStatus where
  "emptyStatus = \<lparr>Status_Domains = [], Status_Nodes = []\<rparr>"

lemma publish_stored:
  assumes "publish name object result view = (res, effects)"
  shows "applyEffects effects object = object
    \<or> (\<exists>o'. applyEffects effects object = Some o' \<and> (Topo_Status o' = Result_Status result \<or> Topo_Status o' = emptyStatus))"
  using assms unfolding publish_def writeStatus_def newFixedTopology_def emptyStatus_def
  by (auto split: option.splits createResult.splits if_splits simp: Let_def)

lemma buildAndPublish_stored:
  assumes "buildAndPublish isValid templates name object nodes switches view = (res, effects)"
  shows "applyEffects effects object = object
    \<or> (\<exists>o'. applyEffects effects object = Some o' \<and> (Topo_Status o' = emptyStatus
         \<or> (\<exists>result. BuildTopologyStatus isValid (ForTopology templates name)
               \<lparr>Snap_Nodes = nodes, Snap_Switches = switchResources name switches\<rparr>
               (case object of Some t \<Rightarrow> Status_Nodes (Topo_Status t) | None \<Rightarrow> []) = Inr result \<and> Topo_Status o' = Result_Status result)))"
proof -
  let ?b = "BuildTopologyStatus isValid (ForTopology templates name)
     \<lparr>Snap_Nodes = nodes, Snap_Switches = switchResources name switches\<rparr>
     (case object of Some t \<Rightarrow> Status_Nodes (Topo_Status t) | None \<Rightarrow> [])"
  show ?thesis
  proof (cases ?b)
    case (Inl e)
    then show ?thesis using assms by (auto simp: buildAndPublish_def Let_def split: if_splits)
  next
    case (Inr result)
    obtain res' effects' where p: "publish name object result view = (res', effects')" by (cases "publish name object result view")
    then have "effects = SetPending (length (Result_Pending result))
        # (if object \<noteq> None then map EventPending (Result_Pending result) else []) @ effects'"
      using assms Inr by (auto simp: buildAndPublish_def Let_def)
    then have "applyEffects effects object = applyEffects effects' object" by simp
    then show ?thesis using publish_stored[OF p] Inr by metis
  qed
qed

definition templatesOk :: "Set option \<Rightarrow> bool" where
  "templatesOk templates \<longleftrightarrow> (\<forall>name t. ForTopology templates name = Some t \<longrightarrow> tmplOk t)"

lemma CompileSet_templatesOk: "CompileSet parse q ra rb rc = Inr s \<Longrightarrow> templatesOk (Some s)"
  unfolding CompileSet_iff by (auto simp: templatesOk_def ForTopology_def Compile_tmplOk split: if_splits)

lemma length_snapGroups: "length (snapGroups tmpl snap) \<le> length (Snap_Nodes snap)"
proof -
  have step: "length (groupStep tmpl n G) \<le> Suc (length G)" for n G
    by (simp add: groupStep_def addToGroup_def Let_def length_mput)
  have "length (fold (groupStep tmpl) ns G) \<le> length ns + length G" for ns G
  proof (induction ns arbitrary: G)
    case (Cons n ns)
    from Cons[of "groupStep tmpl n G"] step[of n G] show ?case by simp
  qed simp
  from this[of "sort_key Res_Name (Snap_Nodes snap)" "[]"] show ?thesis by (simp add: snapGroups_def)
qed

lemma Build_groupsOk:
  assumes "tmplOk tmpl" "snapshotOk snap" "groupsOk prev"
    "int (length prev) + int (length (Snap_Nodes snap)) < 2 ^ 63"
    "BuildTopologyStatus isValid (Some tmpl) snap prev = Inr r"
  shows "groupsOk (Status_Nodes (Result_Status r))"
  unfolding Build_success(2)[OF assms(1,2,5)]
  using assms(3,4) length_snapGroups[of tmpl snap] snapGroups_keys[of tmpl snap] by (intro assignNodeGroupNames_ok) auto

lemma stored_groupsOk:
  assumes "stored isValid templates debounce name object" "templatesOk templates"
  shows "case object of None \<Rightarrow> True | Some t \<Rightarrow> groupsOk (Status_Nodes (Topo_Status t))"
  using assms
proof (induction rule: stored.induct)
  case (reconcile object view notBefore now res effects notBefore')
  have IH: "case object of None \<Rightarrow> True | Some t \<Rightarrow> groupsOk (Status_Nodes (Topo_Status t))" using reconcile by blast
  show ?case
  proof (cases "applyEffects effects object = object")
    case True
    then show ?thesis using IH by simp
  next
    case False
    obtain nodes switches effects' where n: "View_nodes view = Inr nodes" "View_switches view = Inr switches"
      "buildAndPublish isValid templates name object nodes switches view = (res, effects')"
      "applyEffects effects object = applyEffects effects' object"
      using reconcile.hyps(4,5) False
      by (auto simp: Reconcile_def reconcileNow_def reconcileRead_def readFailed_def viewOf_def
          split: if_splits prod.splits getResult.splits sum.splits option.splits)
    let ?prev = "case object of Some t \<Rightarrow> Status_Nodes (Topo_Status t) | None \<Rightarrow> []"
    let ?snap = "\<lparr>Snap_Nodes = nodes, Snap_Switches = switchResources name switches\<rparr>"
    obtain t where t: "applyEffects effects object = Some t" "Topo_Status t = emptyStatus \<or>
        (\<exists>result. BuildTopologyStatus isValid (ForTopology templates name) ?snap ?prev = Inr result \<and> Topo_Status t = Result_Status result)"
      using buildAndPublish_stored[OF n(3)] False n(4) by auto
    have "groupsOk (Status_Nodes (Topo_Status t))" using t(2)
    proof (elim disjE exE conjE)
      assume "Topo_Status t = emptyStatus"
      then show ?thesis by (simp add: emptyStatus_def groupsOk_Nil)
    next
      fix result assume b: "BuildTopologyStatus isValid (ForTopology templates name) ?snap ?prev = Inr result" "Topo_Status t = Result_Status result"
      then obtain tmpl where tm: "ForTopology templates name = Some tmpl" by (cases "ForTopology templates name") (auto simp: BuildTopologyStatus_def)
      have "tmplOk tmpl" using reconcile.prems tm by (simp add: templatesOk_def)
      moreover have "snapshotOk ?snap" using reconcile.hyps(2) n(1) by (simp add: viewOk_def snapshotOk_def)
      moreover have "groupsOk ?prev" using IH by (cases object) (simp_all add: groupsOk_Nil)
      moreover have "int (length ?prev) + int (length (Snap_Nodes ?snap)) < 2 ^ 63"
        using reconcile.hyps(3) n(1) by (auto simp: viewBound_def split: option.splits)
      ultimately show ?thesis using b tm by (simp add: Build_groupsOk)
    qed
    then show ?thesis using t(1) by simp
  qed
qed simp_all

subsection \<open>Reconciling again changes nothing\<close>

lemma assignReference_kept:
  "\<forall>g\<in>set gs. previousName names g \<noteq> [] \<Longrightarrow> assignReference names used gs = map (\<lambda>g. g\<lparr>Grp_Name := previousName names g\<rparr>) gs"
  by (induction gs) simp_all

lemma previousName_self:
  assumes "distinct (groupKeys R)" "h \<in> set R"
  shows "previousName (previousNames R) h = Grp_Name h"
proof -
  let ?k = "nodeGroupKey (Grp_SwitchDomainPath h)"
  obtain name where n: "map_of (previousNames R) ?k = Some name"
    using previousNames_props(2)[of R] assms(2) by (metis (no_types, lifting) image_eqI keysetE)
  then obtain g where "g \<in> set R" "nodeGroupKey (Grp_SwitchDomainPath g) = ?k" "Grp_Name g = name"
    using previousNames_props(1)[OF n] by blast
  then have "g = h" using assms by (auto simp: distinct_map inj_on_def)
  then show ?thesis using n \<open>Grp_Name g = name\<close> by (simp add: previousName_def)
qed

lemma assignNodeGroupNames_idem:
  assumes prev: "groupsOk prev" "int (length prev) + int (length gs) < 2 ^ 63" "distinct (groupKeys gs)"
  shows "assignNodeGroupNames gs (assignNodeGroupNames gs prev) = assignNodeGroupNames gs prev"
proof -
  let ?R = "assignNodeGroupNames gs prev"
  have ok: "groupsOk ?R" by (rule assignNodeGroupNames_ok[OF prev])
  have shape: "map Grp_Nodes ?R = map Grp_Nodes gs" "map Grp_SwitchDomainPath ?R = map Grp_SwitchDomainPath gs"
    unfolding assignNodeGroupNames_reference by (simp_all add: assignReference_shape)
  have len: "length ?R = length gs" using shape(1) by (metis length_map)
  have at: "Grp_Nodes (?R ! i) = Grp_Nodes (gs ! i)" "Grp_SwitchDomainPath (?R ! i) = Grp_SwitchDomainPath (gs ! i)" if "i < length gs" for i
    using shape that len by (metis nth_map)+
  have name: "previousName (previousNames ?R) (gs ! i) = Grp_Name (?R ! i)" "Grp_Name (?R ! i) \<noteq> []" if i: "i < length gs" for i
  proof -
    have m: "?R ! i \<in> set ?R" using i len by simp
    then show "Grp_Name (?R ! i) \<noteq> []"
      using ok by (auto simp: groupsOk_def list_all_iff numberedName_def nodeGroupNamePrefix_def)
    have "previousName (previousNames ?R) (?R ! i) = Grp_Name (?R ! i)"
      using previousName_self[OF _ m] ok by (simp add: groupsOk_def)
    then show "previousName (previousNames ?R) (gs ! i) = Grp_Name (?R ! i)" using at(2)[OF i] by (simp add: previousName_def)
  qed
  have "\<forall>g\<in>set gs. previousName (previousNames ?R) g \<noteq> []" using name by (fastforce simp: in_set_conv_nth)
  then have "assignNodeGroupNames gs ?R = map (\<lambda>g. g\<lparr>Grp_Name := previousName (previousNames ?R) g\<rparr>) gs"
    unfolding assignNodeGroupNames_reference[of gs ?R] by (rule assignReference_kept)
  also have "\<dots> = ?R"
  proof (rule nth_equalityI)
    fix i assume "i < length (map (\<lambda>g. g\<lparr>Grp_Name := previousName (previousNames ?R) g\<rparr>) gs)"
    then have i: "i < length gs" by simp
    show "map (\<lambda>g. g\<lparr>Grp_Name := previousName (previousNames ?R) g\<rparr>) gs ! i = ?R ! i"
      using i name(1)[OF i] at[OF i] by (cases "?R ! i", cases "gs ! i") simp
  qed (simp add: len)
  finally show ?thesis .
qed

lemma Build_previous:
  assumes "BuildTopologyStatus isValid tm snap prev = Inr r"
  shows "\<exists>r'. BuildTopologyStatus isValid tm snap prev' = Inr r'
    \<and> Status_Domains (Result_Status r') = Status_Domains (Result_Status r) \<and> Result_Pending r' = Result_Pending r"
  using assms unfolding BuildTopologyStatus_def by (auto simp: Let_def split: option.splits sum.splits prod.splits)

lemma Build_idem:
  assumes ok: "tmplOk tmpl" "snapshotOk snap" "groupsOk prev" "int (length prev) + int (length (Snap_Nodes snap)) < 2 ^ 63"
    and r: "BuildTopologyStatus isValid (Some tmpl) snap prev = Inr r"
  shows "BuildTopologyStatus isValid (Some tmpl) snap (Status_Nodes (Result_Status r)) = Inr r"
proof -
  obtain r' where r': "BuildTopologyStatus isValid (Some tmpl) snap (Status_Nodes (Result_Status r)) = Inr r'"
    "Status_Domains (Result_Status r') = Status_Domains (Result_Status r)" "Result_Pending r' = Result_Pending r"
    using Build_previous[OF r] by blast
  have l: "int (length prev) + int (length (snapGroups tmpl snap)) < 2 ^ 63" using ok(4) length_snapGroups[of tmpl snap] by simp
  have "Status_Nodes (Result_Status r') = Status_Nodes (Result_Status r)"
    unfolding Build_success(2)[OF ok(1,2) r'(1)] Build_success(2)[OF ok(1,2) r]
    by (rule assignNodeGroupNames_idem[OF ok(3) l snapGroups_keys])
  then have "r' = r" using r'(2,3) by simp
  then show ?thesis using r'(1) by simp
qed

definition isWrite :: "effect \<Rightarrow> bool" where
  "isWrite e = (case e of CreateTopology _ \<Rightarrow> True | PatchStatus _ _ \<Rightarrow> True | _ \<Rightarrow> False)"

lemma isWrite_simps [simp]:
  "\<not> isWrite (SetPending n)" "\<not> isWrite SetLastSuccess" "\<not> isWrite (SetStale b)" "\<not> isWrite (EventPending p)"
  "\<not> isWrite (IncError s)" "\<not> isWrite (EventConflict e)" "\<not> isWrite IncReconcile"
  by (simp_all add: isWrite_def)

lemma publish_ok:
  assumes "View_create view = CreateOk" "View_patch view = None"
  shows "\<exists>effects. publish name object result view = (Done, effects)
    \<and> applyEffects effects object = (case object of
        None \<Rightarrow> if topologyStatusEmpty (Result_Status result) then None else Some ((newFixedTopology name)\<lparr>Topo_Status := Result_Status result\<rparr>)
      | Some t \<Rightarrow> Some (t\<lparr>Topo_Status := Result_Status result\<rparr>))
    \<and> ((case object of None \<Rightarrow> topologyStatusEmpty (Result_Status result) | Some t \<Rightarrow> Topo_Status t = Result_Status result)
         \<longrightarrow> list_all (\<lambda>e. \<not> isWrite e) effects)"
  using assms
  by (cases object) (auto simp: publish_def writeStatus_def newFixedTopology_def topologyStatusEmpty_def Let_def)

subsection \<open>What the watches drop\<close>

lemma efold_filter:
  assumes "\<And>x s. \<not> P x \<Longrightarrow> f x s = Inr s"
  shows "efold f xs s = efold f (filter P xs) s"
proof (induction xs arbitrary: s)
  case (Cons x xs)
  then show ?case using assms[of x s] by (cases "P x"; cases "f x s") simp_all
qed simp

lemma efold_cong_set: "(\<And>x s. x \<in> set xs \<Longrightarrow> f x s = g x s) \<Longrightarrow> efold f xs s = efold g xs s"
  by (induction xs arbitrary: s) (simp_all split: sum.splits)

lemma labelsByTier_cong:
  assumes "mwf l" "mwf l'" "\<And>key. MatchTier (Some tmpl) key \<noteq> None \<Longrightarrow> map_of l key = map_of l' key"
  shows "labelsByTier tmpl l = labelsByTier tmpl l'"
proof -
  let ?P = "\<lambda>key. MatchTier (Some tmpl) key \<noteq> None"
  have skip: "efold (collectTierLabel tmpl m) ks [] = efold (collectTierLabel tmpl m) (filter ?P ks) []" for m ks
    by (rule efold_filter) (simp add: collectTierLabel_def)
  have "set (filter ?P (sort (mkeys l))) = set (filter ?P (sort (mkeys l')))"
    using assms(3) by (auto simp: keyset_iff)
  then have keys: "filter ?P (sort (mkeys l)) = filter ?P (sort (mkeys l'))"
    using assms(1,2) by (intro sorted_distinct_unique) (auto intro: sorted_filter[where f = "\<lambda>x. x", simplified])
  have "collectTierLabel tmpl l key r = collectTierLabel tmpl l' key r" if "?P key" for key r
  proof -
    have e: "mgetd [] l key = mgetd [] l' key" using assms(3)[OF that] by (simp add: mgetd_def)
    show ?thesis unfolding collectTierLabel_def e by (rule refl)
  qed
  then show ?thesis unfolding labelsByTier_def skip[of l "sort (mkeys l)"] skip[of l' "sort (mkeys l')"] keys
    by (intro efold_cong_set) auto
qed

lemma map_of_filtered:
  assumes "mwf labels"
  shows "map_of (filteredTopologyLabels labels (Some s)) key = (if topologyLabelKey (Some s) key then map_of labels key else None)"
proof -
  have "map_of (fold (\<lambda>(key, v) result. if topologyLabelKey (Some s) key then mput key v result else result) ls m) key
      = (if topologyLabelKey (Some s) key \<and> key \<in> keyset ls then map_of ls key else map_of m key)" if "mwf ls" for ls m
    using that
  proof (induction ls arbitrary: m)
    case (Cons kv ls)
    obtain k v where kv: "kv = (k, v)" by (cases kv)
    then have "k \<notin> keyset ls" using Cons.prems by (simp add: keyset_def)
    then show ?case using Cons kv by (auto simp: map_of_None_keyset)
  qed simp
  from this[OF assms, of "[]"] map_of_None_keyset[of labels key] show ?thesis by (auto simp: filteredTopologyLabels_def)
qed

lemma sameMap_iff: "sameMap m m' \<longleftrightarrow> map_of m = map_of m'"
proof
  assume s: "sameMap m m'"
  show "map_of m = map_of m'"
  proof
    fix k
    show "map_of m k = map_of m' k"
    proof (cases "k \<in> keyset m \<union> keyset m'")
      case True
      then show ?thesis using s by (auto simp: sameMap_def list_all_iff)
    next
      case False
      then have "map_of m k = None" "map_of m' k = None" by (simp_all add: map_of_None_keyset)
      then show ?thesis by simp
    qed
  qed
qed (simp add: sameMap_def list_all_iff)

lemma dropped_labels:
  assumes "mwf l" "mwf l'" "sameMap (filteredTopologyLabels l (Some s)) (filteredTopologyLabels l' (Some s))" "topologyLabelKey (Some s) key"
  shows "map_of l key = map_of l' key"
proof -
  have "map_of (filteredTopologyLabels l (Some s)) key = map_of (filteredTopologyLabels l' (Some s)) key"
    using assms(3) by (simp add: sameMap_iff)
  then show ?thesis using assms(4) by (simp add: map_of_filtered[OF assms(1)] map_of_filtered[OF assms(2)])
qed

lemma ForTopology_All: "ForTopology (Some s) name = Some t \<Longrightarrow> t \<in> set (AllTemplates (Some s))"
  by (auto simp: ForTopology_def AllTemplates_def split: if_splits)

lemma addNode_cong:
  assumes "labelsByTier tmpl (Res_Labels n) = labelsByTier tmpl (Res_Labels n')" "Res_Name n = Res_Name n'"
  shows "addNode isValid tmpl n = addNode isValid tmpl n'"
  unfolding addNode_def assms by (rule refl)

lemma addSwitch_cong:
  assumes "switchDomain sw = switchDomain sw'" "Res_Name sw = Res_Name sw'"
  shows "addSwitch isValid sw = addSwitch isValid sw'"
  unfolding addSwitch_def assms by (rule refl)

lemma insort_key_map:
  assumes "\<And>x. k (f x) = k x"
  shows "sort_key k (map f xs) = map f (sort_key k xs)"
proof -
  have "insort_key k (f x) (map f ys) = map f (insort_key k x ys)" for x ys
    using assms by (induction ys) simp_all
  then show ?thesis by (induction xs) simp_all
qed

lemma efold_map: "efold f (map g xs) s = efold (\<lambda>x. f (g x)) xs s"
  by (induction xs arbitrary: s) (simp_all split: sum.splits)

subsection \<open>Properties of the reconcilers\<close>

definition exTemplate :: "string \<Rightarrow> Template" where
  "exTemplate raw = projr (Compile exParse (\<lambda>_. []) raw)"

definition exSet :: Set where
  "exSet = \<lparr>ScaleUp = exTemplate ''u'', ScaleOut = exTemplate ''o'', Storage = exTmpl\<rparr>"

lemma exSet_ok: "CompileSet exParse (\<lambda>_. []) ''u'' ''o'' ''t'' = Inr exSet"
proof -
  have "\<not> isl (Compile exParse (\<lambda>_. []) ''u'')" "\<not> isl (Compile exParse (\<lambda>_. []) ''o'')" by code_simp+
  then have "Compile exParse (\<lambda>_. []) ''u'' = Inr (exTemplate ''u'')" "Compile exParse (\<lambda>_. []) ''o'' = Inr (exTemplate ''o'')"
    by (auto simp: exTemplate_def isl_def split: sum.splits)
  moreover have "Tmpl_prefix (exTemplate ''u'') = ''u''" "Tmpl_prefix (exTemplate ''o'') = ''o''" "Tmpl_prefix exTmpl = ''t''"
    by code_simp+
  ultimately show ?thesis using exTmpl_ok unfolding CompileSet_iff exSet_def by (auto simp: tierKeys_def)
qed

definition exView :: apiView where
  "exView = \<lparr>View_topology = GetNotFound, View_nodes = Inr (Snap_Nodes exSnap), View_switches = Inr [],
     View_create = CreateOk, View_patch = None\<rparr>"

lemma exView_ok: "viewOk exView" "viewBound exView None"
  by (simp_all add: viewOk_def viewBound_def exView_def exSnap_def exNode_def)

abbreviation exStorageSnap :: LabelSnapshot where
  "exStorageSnap \<equiv> \<lparr>Snap_Nodes = Snap_Nodes exSnap, Snap_Switches = switchResources ''storage'' []\<rparr>"

lemma exStorage: "ForTopology (Some exSet) ''storage'' = Some exTmpl"
  by (simp add: ForTopology_def exSet_def)

lemma exStorageBuild:
  "\<exists>r. BuildTopologyStatus exValid (Some exTmpl) exStorageSnap [] = Inr r \<and> \<not> topologyStatusEmpty (Result_Status r)"
proof -
  let ?b = "BuildTopologyStatus exValid (Some exTmpl) exStorageSnap []"
  have "case ?b of Inl _ \<Rightarrow> False | Inr r \<Rightarrow> \<not> topologyStatusEmpty (Result_Status r)" by code_simp
  then show ?thesis by (cases ?b) simp_all
qed

lemma exConsistent: "labelsConsistent exValid exTmpl exStorageSnap"
proof -
  have "snapshotOk exStorageSnap" using exSnap_ok by (simp add: snapshotOk_def)
  from Build_cases[OF Compile_tmplOk[OF exTmpl_ok] this, of exValid "[]"] exStorageBuild show ?thesis by auto
qed

text \<open>
  C16: whatever happens to the API calls, the stored status of a topology never holds two node groups
  with the same name or the same path, and every name is a positive number after the prefix.
\<close>

theorem Reconcile_names:
  assumes "CompileSet parse isQualifiedName scaleUp scaleOut storage = Inr s"
    and "stored isValid (Some s) debounce name (Some object)"
  shows "groupsOk (Status_Nodes (Topo_Status object))"
  using stored_groupsOk[OF assms(2) CompileSet_templatesOk[OF assms(1)]] by simp

theorem Reconcile_names_witness:
  "\<exists>object. stored exValid (Some exSet) 0 ''storage'' (Some object) \<and> groupsOk (Status_Nodes (Topo_Status object))"
proof -
  let ?r = "Reconcile exValid (Some exSet) 0 [] ''storage'' 0 exView"
  obtain r where r: "BuildTopologyStatus exValid (Some exTmpl) exStorageSnap [] = Inr r" "\<not> topologyStatusEmpty (Result_Status r)"
    using exStorageBuild by blast
  have "reconcileNow exValid (Some exSet) ''storage'' exView = buildAndPublish exValid (Some exSet) ''storage'' None (Snap_Nodes exSnap) [] exView"
    by (simp add: reconcileNow_def reconcileRead_def exView_def)
  moreover have "IsFixedTopologyName ''storage''" by (simp add: IsFixedTopologyName_def FixedTopologyNames_def TopologyStorage_def)
  moreover obtain es object where es: "publish ''storage'' None r exView = (Done, es)" "applyEffects es None = Some object"
    using publish_ok[of exView "''storage''" None r] r(2) by (auto simp: exView_def)
  ultimately have o: "applyEffects (fst (snd ?r)) None = Some object"
    using r(1) exStorage by (simp add: Reconcile_def debounceDelay_def buildAndPublish_def)
  have "stored exValid (Some exSet) 0 ''storage'' (applyEffects (fst (snd ?r)) None)"
  proof (rule stored.reconcile[OF stored.absent exView_ok])
    show "View_topology exView = viewOf None \<or> (\<exists>e. View_topology exView = GetError e)" by (simp add: exView_def viewOf_def)
    show "?r = (fst ?r, fst (snd ?r), snd (snd ?r))" by simp
  qed
  then have "stored exValid (Some exSet) 0 ''storage'' (Some object)" unfolding o .
  then show ?thesis using Reconcile_names[OF exSet_ok] by blast
qed

text \<open>
  A reconcile that fails never changes a published status. The only trace it can leave is the
  freshly created topology object with an empty status.
\<close>

lemma Reconcile_failure:
  "case Reconcile isValid templates debounce notBefore name now (view\<lparr>View_topology := viewOf object\<rparr>) of
     (Failed e, effects, notBefore') \<Rightarrow>
        applyEffects effects object = object \<or> (object = None \<and> applyEffects effects object = Some (newFixedTopology name))
   | _ \<Rightarrow> True"
  by (cases object)
    (auto simp: Reconcile_def reconcileNow_def reconcileRead_def readFailed_def viewOf_def buildAndPublish_def publish_def writeStatus_def Let_def
      split: reconcileResult.splits if_splits prod.splits getResult.splits sum.splits option.splits createResult.splits)

text \<open>
  A debounced request is delayed without any call, and a second reconcile once the reported delay
  has passed runs the build, whatever the API then answers.
\<close>

lemma Reconcile_requeue:
  "case Reconcile isValid templates debounce notBefore name now view of
     (RequeueAfter d, effects, notBefore') \<Rightarrow> effects = [] \<and> 0 < d
        \<and> (\<exists>effects'. Reconcile isValid templates debounce notBefore' name (now + d) view'
              = (fst (reconcileNow isValid templates name view'), IncReconcile # effects', mdel name notBefore'))
   | _ \<Rightarrow> True"
proof -
  have no: "reconcileNow isValid templates name view \<noteq> (RequeueAfter d, x)" for d x
    by (auto simp: reconcileNow_def reconcileRead_def readFailed_def buildAndPublish_def publish_def writeStatus_def Let_def
      split: getResult.splits sum.splits option.splits createResult.splits if_splits prod.splits)
  show ?thesis
    using no by (auto simp: Reconcile_def debounceDelay_def split: reconcileResult.splits prod.splits option.splits if_splits)
qed

text \<open>
  C17: when the API calls succeed and the labels are consistent, a reconcile publishes exactly the
  status that the builder computes, and reconciling again on the same labels writes nothing.
\<close>

theorem Reconcile_converges:
  assumes c: "CompileSet parse isQualifiedName scaleUp scaleOut storage = Inr s" and tm: "ForTopology (Some s) name = Some tmpl"
    and st: "stored isValid (Some s) debounce name object" and v: "viewOk view" "viewBound view object"
    and live: "View_topology view = viewOf object" "\<forall>t. object = Some t \<longrightarrow> Topo_DeletionTimestamp t = None"
    and io: "View_nodes view = Inr nodes" "View_switches view = Inr switches" "View_create view = CreateOk" "View_patch view = None"
    and lc: "labelsConsistent isValid tmpl \<lparr>Snap_Nodes = nodes, Snap_Switches = switchResources name switches\<rparr>"
  shows "\<exists>r effects object' effects'.
     BuildTopologyStatus isValid (Some tmpl) \<lparr>Snap_Nodes = nodes, Snap_Switches = switchResources name switches\<rparr>
       (case object of Some t \<Rightarrow> Status_Nodes (Topo_Status t) | None \<Rightarrow> []) = Inr r
   \<and> reconcileNow isValid (Some s) name view = (Done, effects) \<and> applyEffects effects object = object'
   \<and> (case object' of None \<Rightarrow> topologyStatusEmpty (Result_Status r) | Some t \<Rightarrow> Topo_Status t = Result_Status r)
   \<and> reconcileNow isValid (Some s) name (view\<lparr>View_topology := viewOf object'\<rparr>) = (Done, effects')
   \<and> list_all (\<lambda>e. \<not> isWrite e) effects'"
proof -
  let ?snap = "\<lparr>Snap_Nodes = nodes, Snap_Switches = switchResources name switches\<rparr>"
  let ?prev = "case object of Some t \<Rightarrow> Status_Nodes (Topo_Status t) | None \<Rightarrow> []"
  have tok: "tmplOk tmpl" using CompileSet_templatesOk[OF c] tm by (simp add: templatesOk_def)
  have sok: "snapshotOk ?snap" using v(1) io(1) by (simp add: viewOk_def snapshotOk_def)
  have gok: "groupsOk ?prev"
    using stored_groupsOk[OF st CompileSet_templatesOk[OF c]] by (cases object) (simp_all add: groupsOk_Nil)
  have b: "int (length ?prev) + int (length (Snap_Nodes ?snap)) < 2 ^ 63"
    using v(2) io(1) by (cases object) (simp_all add: viewBound_def)
  obtain r where r: "BuildTopologyStatus isValid (Some tmpl) ?snap ?prev = Inr r"
    using Build_cases[OF tok sok, of isValid ?prev] lc by (cases "BuildTopologyStatus isValid (Some tmpl) ?snap ?prev") auto
  note again = Build_idem[OF tok sok gok b r]
  have run: "reconcileNow isValid (Some s) name (view\<lparr>View_topology := viewOf obj\<rparr>) =
      (fst (publish name obj r' view), SetPending (length (Result_Pending r'))
         # (if obj \<noteq> None then map EventPending (Result_Pending r') else []) @ snd (publish name obj r' view))"
    if "BuildTopologyStatus isValid (Some tmpl) ?snap (case obj of Some t \<Rightarrow> Status_Nodes (Topo_Status t) | None \<Rightarrow> []) = Inr r'"
      "\<forall>t. obj = Some t \<longrightarrow> Topo_DeletionTimestamp t = None" for obj r'
  proof -
    have p: "publish name obj r' (view\<lparr>View_topology := viewOf obj\<rparr>) = publish name obj r' view"
      by (cases obj; cases "View_create view") (simp_all add: publish_def)
    show ?thesis using that io(1,2) tm p
      by (cases obj) (simp_all add: reconcileNow_def reconcileRead_def viewOf_def buildAndPublish_def Let_def split: prod.splits)
  qed
  have self: "view\<lparr>View_topology := viewOf object\<rparr> = view" using live(1) by (cases view) simp
  obtain es where es: "publish name object r view = (Done, es)"
    "applyEffects es object = (case object of
        None \<Rightarrow> if topologyStatusEmpty (Result_Status r) then None else Some ((newFixedTopology name)\<lparr>Topo_Status := Result_Status r\<rparr>)
      | Some t \<Rightarrow> Some (t\<lparr>Topo_Status := Result_Status r\<rparr>))"
    using publish_ok[OF io(3,4), of name object r] by blast
  define es1 where "es1 = SetPending (length (Result_Pending r)) # (if object \<noteq> None then map EventPending (Result_Pending r) else []) @ es"
  have first: "reconcileNow isValid (Some s) name view = (Done, es1)" using run[OF r live(2)] es(1) unfolding self es1_def by simp
  define object' where "object' = applyEffects es1 object"
  have o': "object' = applyEffects es object" by (simp add: object'_def es1_def)
  have status: "case object' of None \<Rightarrow> topologyStatusEmpty (Result_Status r) \<and> object = None | Some t \<Rightarrow> Topo_Status t = Result_Status r \<and> Topo_DeletionTimestamp t = None"
    using es(2) live(2) unfolding o' by (auto simp: newFixedTopology_def split: option.splits if_splits)
  have second: "BuildTopologyStatus isValid (Some tmpl) ?snap (case object' of Some t \<Rightarrow> Status_Nodes (Topo_Status t) | None \<Rightarrow> []) = Inr r"
    using status r again by (cases object') auto
  obtain es' where es': "publish name object' r view = (Done, es')" "list_all (\<lambda>e. \<not> isWrite e) es'"
    using publish_ok[OF io(3,4), of name object' r] status by (cases object') auto
  have "\<forall>t. object' = Some t \<longrightarrow> Topo_DeletionTimestamp t = None" using status by auto
  from run[OF second this] es' have "\<exists>effects'. reconcileNow isValid (Some s) name (view\<lparr>View_topology := viewOf object'\<rparr>) = (Done, effects')
      \<and> list_all (\<lambda>e. \<not> isWrite e) effects'" by (auto simp: list_all_iff)
  then obtain effects' where e': "reconcileNow isValid (Some s) name (view\<lparr>View_topology := viewOf object'\<rparr>) = (Done, effects')"
    "list_all (\<lambda>e. \<not> isWrite e) effects'" by blast
  have st': "case object' of None \<Rightarrow> topologyStatusEmpty (Result_Status r) | Some t \<Rightarrow> Topo_Status t = Result_Status r"
    using status by (cases object') simp_all
  show ?thesis by (intro exI conjI, rule r, rule first, rule object'_def[symmetric], rule st', rule e'(1), rule e'(2))
qed

theorem Reconcile_converges_witness:
  "\<exists>effects. reconcileNow exValid (Some exSet) ''storage'' exView = (Done, effects)"
proof -
  from Reconcile_converges[OF exSet_ok exStorage stored.absent exView_ok _ _ _ _ _ _ exConsistent]
  show ?thesis by (auto simp: exView_def viewOf_def)
qed

text \<open>
  C18: an update that the watch filter drops cannot change any topology. If the filter
  drops the updates of Nodes (labels replaced through \<open>f\<close>) and of Switches (through \<open>g\<close>), the builder returns the same
  result on the snapshot with the old and with the new labels.
\<close>

theorem topologyLabelPredicate_complete:
  assumes "ForTopology (Some s) name = Some tmpl"
    and f: "\<And>n. Res_Name (f n) = Res_Name n" and g: "\<And>sw. Sw_Name (g sw) = Sw_Name sw"
    and nodes: "\<And>n. n \<in> set ns \<Longrightarrow> mwf (Res_Labels n) \<and> mwf (Res_Labels (f n))
       \<and> \<not> topologyLabelPredicate (Some s) (UpdateEvent (WatchedNode (Res_Labels n)) (WatchedNode (Res_Labels (f n))))"
    and switches: "\<And>sw. sw \<in> set sws \<Longrightarrow> mwf (Sw_Labels sw) \<and> mwf (Sw_Labels (g sw))
       \<and> \<not> topologyLabelPredicate (Some s) (UpdateEvent (WatchedSwitch sw) (WatchedSwitch (g sw)))"
  shows "BuildTopologyStatus isValid (Some tmpl) \<lparr>Snap_Nodes = map f ns, Snap_Switches = switchResources name (map g sws)\<rparr> prev
    = BuildTopologyStatus isValid (Some tmpl) \<lparr>Snap_Nodes = ns, Snap_Switches = switchResources name sws\<rparr> prev"
proof -
  have lab: "labelsByTier tmpl (Res_Labels (f n)) = labelsByTier tmpl (Res_Labels n)" if n: "n \<in> set ns" for n
  proof (rule labelsByTier_cong)
    fix key assume "MatchTier (Some tmpl) key \<noteq> None"
    then have "topologyLabelKey (Some s) key"
      using ForTopology_All[OF assms(1)] by (auto simp: topologyLabelKey_def list_ex_iff)
    moreover have "sameMap (filteredTopologyLabels (Res_Labels n) (Some s)) (filteredTopologyLabels (Res_Labels (f n)) (Some s))"
      using nodes[OF n] by simp
    ultimately show "map_of (Res_Labels (f n)) key = map_of (Res_Labels n) key"
      using dropped_labels[of "Res_Labels n" "Res_Labels (f n)" s key] nodes[OF n] by simp
  qed (use nodes[OF n] in simp_all)
  have sw: "switchBelongsToTopology (g sw) name = switchBelongsToTopology sw name"
    "mgetd [] (Sw_Labels (g sw)) TopologyDomainLabel = mgetd [] (Sw_Labels sw) TopologyDomainLabel" if m: "sw \<in> set sws" for sw
  proof -
    have role: "effectiveTopologySwitchRole sw = effectiveTopologySwitchRole (g sw)"
      and same: "sameMap (filteredTopologyLabels (Sw_Labels sw) (Some s)) (filteredTopologyLabels (Sw_Labels (g sw)) (Some s))"
      using switches[OF m] by (auto split: if_splits)
    show "switchBelongsToTopology (g sw) name = switchBelongsToTopology sw name"
      by (simp add: switchBelongsToTopology_def role Let_def)
    have "topologyLabelKey (Some s) TopologyDomainLabel" by (simp add: topologyLabelKey_def IsTopologyDomainLabel_def)
    then show "mgetd [] (Sw_Labels (g sw)) TopologyDomainLabel = mgetd [] (Sw_Labels sw) TopologyDomainLabel"
      using dropped_labels[OF _ _ same] switches[OF m] by (simp add: mgetd_def)
  qed
  let ?old = "\<lparr>Snap_Nodes = ns, Snap_Switches = switchResources name sws\<rparr>"
  have n: "efold (addNode isValid tmpl) (sort_key Res_Name (map f ns)) s0 = efold (addNode isValid tmpl) (sort_key Res_Name ns) s0" for s0
    unfolding insort_key_map[of Res_Name f, OF f] efold_map by (rule efold_cong_set) (simp add: addNode_cong[OF lab f])
  let ?res = "\<lambda>sw. \<lparr>Res_Name = Sw_Name sw, Res_Labels = Sw_Labels sw\<rparr>"
  let ?sws = "filter (\<lambda>sw. switchBelongsToTopology sw name) sws"
  have filt: "filter (\<lambda>sw. switchBelongsToTopology sw name) (map g sws) = map g ?sws"
    using sw(1) by (simp add: filter_map comp_def cong: filter_cong)
  have pull: "sort_key Res_Name (map h xs) = map h (sort_key Sw_Name xs)" if "\<And>x. Res_Name (h x) = Sw_Name x" for h :: "SwitchObject \<Rightarrow> LabeledResource" and xs
  proof -
    have "insort_key Res_Name (h x) (map h ys) = map h (insort_key Sw_Name x ys)" for x ys using that by (induction ys) simp_all
    then show ?thesis by (induction xs) simp_all
  qed
  have s1: "efold (addSwitch isValid) (sort_key Res_Name (switchResources name (map g sws))) s0
      = efold (addSwitch isValid) (sort_key Res_Name (switchResources name sws)) s0" for s0
  proof -
    have "sort_key Res_Name (switchResources name (map g sws)) = map (\<lambda>sw. ?res (g sw)) (sort_key Sw_Name ?sws)"
      unfolding switchResources_def filt map_map comp_def by (rule pull) (simp add: g)
    moreover have "sort_key Res_Name (switchResources name sws) = map ?res (sort_key Sw_Name ?sws)"
      unfolding switchResources_def by (rule pull) simp
    moreover have "efold (\<lambda>x. addSwitch isValid (?res (g x))) (sort_key Sw_Name ?sws) s0 = efold (\<lambda>x. addSwitch isValid (?res x)) (sort_key Sw_Name ?sws) s0"
    proof (rule efold_cong_set)
      fix x s' assume "x \<in> set (sort_key Sw_Name ?sws)"
      then have "addSwitch isValid (?res (g x)) = addSwitch isValid (?res x)" by (intro addSwitch_cong) (simp_all add: sw(2) g)
      then show "addSwitch isValid (?res (g x)) s' = addSwitch isValid (?res x) s'" by simp
    qed
    ultimately show ?thesis by (simp only: efold_map)
  qed
  show ?thesis by (simp only: BuildTopologyStatus_def LabelSnapshot.select_convs option.case n s1)
qed

definition exRelabel :: "LabeledResource \<Rightarrow> LabeledResource" where
  "exRelabel n = n\<lparr>Res_Labels := mput ''x'' ''y'' (Res_Labels n)\<rparr>"

theorem topologyLabelPredicate_complete_witness:
  "BuildTopologyStatus exValid (Some exTmpl) \<lparr>Snap_Nodes = map exRelabel (Snap_Nodes exSnap), Snap_Switches = switchResources ''storage'' (map id [])\<rparr> []
    = BuildTopologyStatus exValid (Some exTmpl) exStorageSnap []"
proof (rule topologyLabelPredicate_complete[OF exStorage])
  fix n assume n: "n \<in> set (Snap_Nodes exSnap)"
  have "list_all (\<lambda>n. \<not> topologyLabelPredicate (Some exSet) (UpdateEvent (WatchedNode (Res_Labels n)) (WatchedNode (Res_Labels (exRelabel n)))))
      (Snap_Nodes exSnap)" by code_simp
  then show "mwf (Res_Labels n) \<and> mwf (Res_Labels (exRelabel n))
     \<and> \<not> topologyLabelPredicate (Some exSet) (UpdateEvent (WatchedNode (Res_Labels n)) (WatchedNode (Res_Labels (exRelabel n))))"
    using n exSnap_ok by (simp add: list_all_iff snapshotOk_def exRelabel_def)
qed (simp_all add: exRelabel_def)

end
