(* ===== verification/Topology_Inputs.thy ===== *)
theory Topology_Inputs
  imports Go_Json Fabric_Topology Topology_Controller
begin

text \<open>
  The inputs of topology discovery, \<open>src/pkg/controller/switchtopology/topology_inputs.go\<close>: which
  hosts and switches of a role take part and which neighbors each switch has, from the NICs of
  FabricNodes, the LLDP neighbors of Switches and their manual neighbor annotations.
\<close>

subsection \<open>Data\<close>

record NicInfo =
  Nic_State :: string
  Nic_Hostname :: string
  Nic_Port :: string

record FabricNode =
  Fn_Name :: string
  Fn_NodeRole :: string
  Fn_ScaleOutNics :: "NicInfo list"
  Fn_StorageNics :: "NicInfo list"

record SwitchNeighbor =
  Nb_RemoteSystemType :: string
  Nb_RemoteSystemName :: string

record SwitchResource = SwitchObject +
  Sw_Annotations :: "(string, string) gomap"
  Sw_Hostname :: string
  Sw_LLDPNeighbors :: "SwitchNeighbor list"

record topologyInputs =
  In_hosts :: "Host list"
  In_switches :: "Switch list"
  In_nodeOnly :: bool
  In_syntheticSwitches :: "(string, bool) gomap"

record topologySwitchBuilder =
  Bld_data :: Switch
  Bld_seen :: "(string, bool) gomap"

type_synonym builders = "(string, topologySwitchBuilder) gomap"

datatype inputError =
    BadAnnotation string
  | EmptyNeighbor string
  | UnknownNeighbor string string
  | SelfNeighbor string

definition SwitchNeighborsAnnotation :: string where
  "SwitchNeighborsAnnotation = ''unifabric.io/switch-neighbors''"

definition RemoteSystemTypeKubernetesNode :: string where
  "RemoteSystemTypeKubernetesNode = ''KubernetesNode''"

definition NodeRoleStorage :: string where
  "NodeRoleStorage = ''Storage''"

subsection \<open>Names\<close>

definition isNameChar :: "char \<Rightarrow> bool" where
  "isNameChar c \<longleftrightarrow> (CHR ''a'' \<le> c \<and> c \<le> CHR ''z'') \<or> (CHR ''0'' \<le> c \<and> c \<le> CHR ''9'')"

fun normalizeLoop :: "bool \<Rightarrow> string \<Rightarrow> string" where
  "normalizeLoop previousDash [] = []"
| "normalizeLoop previousDash (r # rs) =
     (if isNameChar r then r # normalizeLoop False rs
      else if \<not> previousDash then CHR ''-'' # normalizeLoop True rs
      else normalizeLoop previousDash rs)"

definition normalizeResourceName :: "string \<Rightarrow> string" where
  "normalizeResourceName name = trimBy (\<lambda>c. c = CHR ''-'') (normalizeLoop False (ToLower (TrimSpace name)))"

definition effectiveSwitchRole :: "'a SwitchObject_scheme \<Rightarrow> string" where
  "effectiveSwitchRole sw = (if Sw_Role sw = [] then SwitchRoleScaleOut else Sw_Role sw)"

definition nodeNicsForRole :: "FabricNode \<Rightarrow> string \<Rightarrow> NicInfo list" where
  "nodeNicsForRole node role =
     (if role = SwitchRoleScaleOut then (if Fn_NodeRole node = NodeRoleStorage then [] else Fn_ScaleOutNics node)
      else if role = SwitchRoleScaleUp then []
      else if role = SwitchRoleStorage then Fn_StorageNics node
      else [])"

definition hasManualSwitchNeighbors :: "SwitchResource \<Rightarrow> bool" where
  "hasManualSwitchNeighbors sw \<longleftrightarrow> map_of (Sw_Annotations sw) SwitchNeighborsAnnotation \<noteq> None"

fun dedupeLoop :: "string \<Rightarrow> string list \<Rightarrow> string list" where
  "dedupeLoop previous [] = []"
| "dedupeLoop previous (v # vs) = (if v \<noteq> previous then v # dedupeLoop v vs else dedupeLoop v vs)"

definition dedupeStrings :: "string list \<Rightarrow> string list" where
  "dedupeStrings values = (case values of [] \<Rightarrow> [] | v # vs \<Rightarrow> v # dedupeLoop v vs)"

definition parseManualSwitchNeighbors :: "SwitchResource \<Rightarrow> inputError + string list" where
  "parseManualSwitchNeighbors sw =
     (let raw = TrimSpace (mgetd [] (Sw_Annotations sw) SwitchNeighborsAnnotation) in
      if raw = [] then Inr []
      else case UnmarshalStrings raw of
        None \<Rightarrow> Inl (BadAnnotation (Sw_Name sw))
      | Some neighbors \<Rightarrow>
          let trimmed = map TrimSpace neighbors in
          if [] \<in> set trimmed then Inl (EmptyNeighbor (Sw_Name sw))
          else Inr (dedupeStrings (sort trimmed)))"

subsection \<open>Builders\<close>

definition newBuilder :: "string \<Rightarrow> topologySwitchBuilder" where
  "newBuilder switchName = \<lparr>Bld_data = \<lparr>Switch_Name = switchName, Switch_Neighbors = []\<rparr>, Bld_seen = []\<rparr>"

definition ensureSwitchBuilder :: "string \<Rightarrow> builders \<Rightarrow> builders" where
  "ensureSwitchBuilder switchName builders =
     (case map_of builders switchName of
        Some _ \<Rightarrow> builders
      | None \<Rightarrow> mput switchName (newBuilder switchName) builders)"

definition addNeighbor :: "Neighbor \<Rightarrow> topologySwitchBuilder \<Rightarrow> topologySwitchBuilder" where
  "addNeighbor neighbor b =
     (if RemoteSystemName neighbor = [] then b
      else let key = RemoteSystemName neighbor in
        if mgetd False (Bld_seen b) key then b
        else b\<lparr>Bld_seen := mput key True (Bld_seen b),
               Bld_data := (Bld_data b)\<lparr>Switch_Neighbors := Switch_Neighbors (Bld_data b) @ [neighbor]\<rparr>\<rparr>)"

text \<open>\<open>ensureSwitchBuilder(name).addNeighbor(...)\<close>, on the builder behind the pointer.\<close>

definition addNeighborTo :: "string \<Rightarrow> string \<Rightarrow> builders \<Rightarrow> builders" where
  "addNeighborTo switchName remote builders =
     (let bs = ensureSwitchBuilder switchName builders
      in mput switchName (addNeighbor \<lparr>LocalDeviceName = switchName, RemoteSystemName = remote\<rparr>
                            (mgetd (newBuilder switchName) bs switchName)) bs)"

definition resolveSwitchName :: "string \<Rightarrow> (string, string) gomap \<Rightarrow> builders \<Rightarrow> string \<times> bool" where
  "resolveSwitchName raw normalizedSwitchNames existing =
     (if map_of existing raw \<noteq> None then (raw, True)
      else case map_of normalizedSwitchNames (normalizeResourceName raw) of
        None \<Rightarrow> ([], False)
      | Some switchName \<Rightarrow> (switchName, map_of existing switchName \<noteq> None))"

definition canonicalRemoteSystemName :: "string \<Rightarrow> (string, bool) gomap \<Rightarrow> (string, string) gomap \<Rightarrow> string" where
  "canonicalRemoteSystemName raw hostNames normalizedSwitchNames =
     (if mgetd False hostNames raw then raw
      else case map_of normalizedSwitchNames (normalizeResourceName raw) of
        Some switchName \<Rightarrow> switchName
      | None \<Rightarrow> raw)"

subsection \<open>The inputs of a role\<close>

definition recordSwitchName :: "SwitchResource \<Rightarrow> (string, string) gomap \<Rightarrow> (string, string) gomap" where
  "recordSwitchName sw normalized =
     (let normalized1 = mput (normalizeResourceName (Sw_Name sw)) (Sw_Name sw) normalized
      in if Sw_Hostname sw \<noteq> [] then mput (normalizeResourceName (Sw_Hostname sw)) (Sw_Name sw) normalized1 else normalized1)"

definition addNic :: "bool \<Rightarrow> (string, string) gomap \<Rightarrow> string \<Rightarrow> NicInfo \<Rightarrow> builders \<times> (string, bool) gomap \<times> bool
    \<Rightarrow> builders \<times> (string, bool) gomap \<times> bool" where
  "addNic mayInvent normalized host nic = (\<lambda>(builders, synthetic, matched).
     if Nic_State nic \<noteq> ''up'' \<or> Nic_Hostname nic = [] \<or> Nic_Port nic = [] then (builders, synthetic, matched)
     else case resolveSwitchName (Nic_Hostname nic) normalized builders of
       (switchName, matchedReal) \<Rightarrow>
         if \<not> matchedReal \<and> mayInvent then
           let invented = normalizeResourceName (Nic_Hostname nic) in
           if invented = [] then (builders, synthetic, matched)
           else (addNeighborTo invented host builders, mput invented True synthetic, True)
         else if \<not> matchedReal then (builders, synthetic, matched)
         else (addNeighborTo switchName host builders, synthetic, True))"

definition addFabricNode :: "string \<Rightarrow> bool \<Rightarrow> (string, string) gomap \<Rightarrow> FabricNode
    \<Rightarrow> builders \<times> (string, bool) gomap \<times> (string, bool) gomap
    \<Rightarrow> builders \<times> (string, bool) gomap \<times> (string, bool) gomap" where
  "addFabricNode role mayInvent normalized node = (\<lambda>(builders, synthetic, participating).
     let nics = nodeNicsForRole node role in
     if length nics = 0 then (builders, synthetic, participating)
     else case fold (addNic mayInvent normalized (Fn_Name node)) nics (builders, synthetic, False) of
       (builders', synthetic', matchedHost) \<Rightarrow>
         (builders', synthetic', if matchedHost then mput (Fn_Name node) True participating else participating))"

definition addManualNeighbor :: "(string, string) gomap \<Rightarrow> (string, bool) gomap \<Rightarrow> SwitchResource \<Rightarrow> string \<Rightarrow> builders
    \<Rightarrow> inputError + builders" where
  "addManualNeighbor normalized synthetic sw neighborName builders =
     (let (resolved, exists) = resolveSwitchName neighborName normalized builders;
          (neighborSwitchName, exists') =
            (if \<not> exists then (normalizeResourceName neighborName, mgetd False synthetic (normalizeResourceName neighborName))
             else (resolved, exists))
      in if \<not> exists' then Inl (UnknownNeighbor (Sw_Name sw) neighborName)
         else if neighborSwitchName = Sw_Name sw then Inl (SelfNeighbor (Sw_Name sw))
         else Inr (addNeighborTo (Sw_Name sw) neighborSwitchName builders))"

definition addLLDPNeighbor :: "(string, bool) gomap \<Rightarrow> (string, string) gomap \<Rightarrow> SwitchResource \<Rightarrow> SwitchNeighbor \<Rightarrow> builders \<Rightarrow> builders" where
  "addLLDPNeighbor managedHostSet normalized sw neighbor builders =
     (let remoteSystemName = canonicalRemoteSystemName (Nb_RemoteSystemName neighbor) managedHostSet normalized;
          isHostPeer = (Nb_RemoteSystemType neighbor = RemoteSystemTypeKubernetesNode \<or> mgetd False managedHostSet remoteSystemName)
      in if isHostPeer then builders else addNeighborTo (Sw_Name sw) remoteSystemName builders)"

definition addSwitchNeighbors :: "bool \<Rightarrow> (string, bool) gomap \<Rightarrow> (string, string) gomap \<Rightarrow> (string, bool) gomap \<Rightarrow> SwitchResource
    \<Rightarrow> builders \<Rightarrow> inputError + builders" where
  "addSwitchNeighbors semiAutomatic managedHostSet normalized synthetic sw builders0 =
     (let builders = ensureSwitchBuilder (Sw_Name sw) builders0 in
      if semiAutomatic then
        (case parseManualSwitchNeighbors sw of
           Inl e \<Rightarrow> Inl e
         | Inr manualNeighbors \<Rightarrow> efold (addManualNeighbor normalized synthetic sw) manualNeighbors builders)
      else Inr (fold (addLLDPNeighbor managedHostSet normalized sw) (Sw_LLDPNeighbors sw) builders))"

definition sortedMapKeys :: "(string, bool) gomap \<Rightarrow> string list" where
  "sortedMapKeys values = sort (mkeys values)"

definition buildersToBoolMap :: "builders \<Rightarrow> (string, bool) gomap" where
  "buildersToBoolMap values = fold (\<lambda>key result. mput key True result) (mkeys values) []"

definition finishSwitch :: "builders \<Rightarrow> string \<Rightarrow> Switch" where
  "finishSwitch builders switchName =
     (let data = Bld_data (mgetd (newBuilder switchName) builders switchName)
      in data\<lparr>Switch_Neighbors := sort_key RemoteSystemName (Switch_Neighbors data)\<rparr>)"

definition buildTopologyInputsForRole :: "string \<Rightarrow> FabricNode list \<Rightarrow> SwitchResource list \<Rightarrow> inputError + topologyInputs" where
  "buildTopologyInputsForRole role fabricNodes switches =
     (let managedHostSet = fold (\<lambda>node. mput (Fn_Name node) True) fabricNodes [];
          roleSwitches = filter (\<lambda>sw. effectiveSwitchRole sw = role) switches;
          normalized = fold recordSwitchName roleSwitches [];
          nodeOnly = (length roleSwitches = 0);
          semiAutomatic = (\<not> nodeOnly \<and> list_all hasManualSwitchNeighbors roleSwitches);
          builders0 = fold (\<lambda>sw. ensureSwitchBuilder (Sw_Name sw)) roleSwitches []
      in case fold (addFabricNode role (nodeOnly \<or> semiAutomatic) normalized) fabricNodes (builders0, [], []) of
           (builders1, synthetic, participating) \<Rightarrow>
             (case efold (addSwitchNeighbors semiAutomatic managedHostSet normalized synthetic) roleSwitches builders1 of
                Inl e \<Rightarrow> Inl e
              | Inr builders2 \<Rightarrow>
                  Inr \<lparr>In_hosts = map (\<lambda>hostName. \<lparr>Host_Name = hostName\<rparr>) (sortedMapKeys participating),
                       In_switches = map (finishSwitch builders2) (sortedMapKeys (buildersToBoolMap builders2)),
                       In_nodeOnly = nodeOnly,
                       In_syntheticSwitches = synthetic\<rparr>))"

subsection \<open>Normalized names\<close>

fun okDash :: "bool \<Rightarrow> string \<Rightarrow> bool" where
  "okDash previousDash [] = True"
| "okDash previousDash (c # cs) = (if isNameChar c then okDash False cs else c = CHR ''-'' \<and> \<not> previousDash \<and> okDash True cs)"

lemma not_isNameChar_dash [simp]: "\<not> isNameChar (CHR ''-'')"
  by (simp add: isNameChar_def less_eq_char_def)

lemma okDash_normalizeLoop: "okDash p (normalizeLoop p s)"
  by (induction p s rule: normalizeLoop.induct) auto

lemma normalizeLoop_okDash: "okDash p s \<Longrightarrow> normalizeLoop p s = s"
  by (induction p s rule: okDash.induct) (auto split: if_splits)

lemma okDash_False: "okDash p s \<Longrightarrow> okDash False s"
  by (cases s) (auto split: if_splits)

lemma okDash_suffix: "okDash p (s @ t) \<Longrightarrow> okDash False t"
  by (induction p s rule: okDash.induct) (auto split: if_splits intro: okDash_False)

lemma okDash_dropWhile: "okDash p s \<Longrightarrow> okDash False (dropWhile P s)"
  by (metis okDash_suffix takeWhile_dropWhile_id)

lemma okDash_append: "okDash p (s @ t) \<Longrightarrow> okDash p s"
  by (induction p s rule: okDash.induct) (auto split: if_splits)

lemma okDash_trimBy: "okDash False s \<Longrightarrow> okDash False (trimBy P s)"
proof -
  assume "okDash False s"
  then have "okDash False (dropWhile P s)" by (rule okDash_dropWhile)
  moreover have "dropWhile P s = trimBy P s @ rev (takeWhile P (rev (dropWhile P s)))"
    unfolding trimBy_def by (metis rev_append rev_rev_ident takeWhile_dropWhile_id)
  ultimately show ?thesis by (metis okDash_append)
qed

lemma trimBy_fix: "(s \<noteq> [] \<Longrightarrow> \<not> P (hd s) \<and> \<not> P (last s)) \<Longrightarrow> trimBy P s = s"
  by (cases s) (auto simp: trimBy_def hd_rev[symmetric] dropWhile_eq_self_iff)

lemma hd_trimBy:
  assumes "trimBy P s \<noteq> []"
  shows "\<not> P (hd (trimBy P s)) \<and> \<not> P (last (trimBy P s))"
proof -
  let ?d = "dropWhile P s" and ?e = "dropWhile P (rev (dropWhile P s))"
  have ne: "?e \<noteq> []" using assms by (simp add: trimBy_def)
  have l: "last (trimBy P s) = hd ?e" using ne by (simp add: trimBy_def last_rev)
  have "?d = rev ?e @ rev (takeWhile P (rev ?d))" by (metis rev_append rev_rev_ident takeWhile_dropWhile_id)
  then have "hd ?d = hd (rev ?e)" using ne by (metis hd_append2 rev_is_Nil_conv)
  moreover have "?d \<noteq> []" using ne by (metis dropWhile.simps(1) rev.simps(1))
  ultimately show ?thesis using l ne hd_dropWhile[of P s] hd_dropWhile[of P "rev ?d"] by (simp add: trimBy_def)
qed

lemma okDash_chars: "okDash p s \<Longrightarrow> c \<in> set s \<Longrightarrow> isNameChar c \<or> c = CHR ''-''"
  by (induction p s rule: okDash.induct) (auto split: if_splits)

lemma nameChar_plain: "isNameChar c \<or> c = CHR ''-'' \<Longrightarrow> \<not> isSpace c \<and> toLowerChar c = c"
  by (auto simp: isNameChar_def isSpace_def toLowerChar_def less_eq_char_def)

lemma okDash_normalizeResourceName: "okDash False (normalizeResourceName s)"
  by (simp add: normalizeResourceName_def okDash_trimBy okDash_normalizeLoop)

lemma normalizeResourceName_idem: "normalizeResourceName (normalizeResourceName s) = normalizeResourceName s"
proof -
  let ?r = "normalizeResourceName s"
  note plain = nameChar_plain[OF okDash_chars[OF okDash_normalizeResourceName[of s]]]
  have "TrimSpace ?r = ?r" unfolding TrimSpace_def by (rule trimBy_fix) (simp add: plain)
  moreover have "ToLower ?r = ?r" unfolding ToLower_def by (rule map_idI) (simp add: plain)
  moreover have "normalizeLoop False ?r = ?r" by (rule normalizeLoop_okDash[OF okDash_normalizeResourceName])
  moreover have "trimBy (\<lambda>c. c = CHR ''-'') ?r = ?r"
    by (rule trimBy_fix) (use hd_trimBy[of "\<lambda>c. c = CHR ''-''"] in \<open>simp add: normalizeResourceName_def\<close>)
  ultimately show ?thesis by (simp add: normalizeResourceName_def[of ?r])
qed

text \<open>
  A normalized name consists of lower-case letters, digits and single inner dashes,
  and normalizing it again changes nothing, so names can be compared by their normal forms.
\<close>

lemma normalizeResourceName_normal:
  "normalizeResourceName (normalizeResourceName s) = normalizeResourceName s
   \<and> okDash True (normalizeResourceName s)
   \<and> (normalizeResourceName s \<noteq> [] \<longrightarrow> last (normalizeResourceName s) \<noteq> CHR ''-'')"
proof -
  have e: "normalizeResourceName s \<noteq> [] \<Longrightarrow> hd (normalizeResourceName s) \<noteq> CHR ''-'' \<and> last (normalizeResourceName s) \<noteq> CHR ''-''"
    using hd_trimBy[of "\<lambda>c. c = CHR ''-''"] by (simp add: normalizeResourceName_def)
  have "okDash True (normalizeResourceName s)"
    using okDash_normalizeResourceName[of s] e by (cases "normalizeResourceName s") (auto split: if_splits)
  then show ?thesis using normalizeResourceName_idem e by blast
qed

subsection \<open>Builders\<close>

definition remotes :: "topologySwitchBuilder \<Rightarrow> string list" where
  "remotes b = map RemoteSystemName (Switch_Neighbors (Bld_data b))"

definition builderOk :: "string \<Rightarrow> topologySwitchBuilder \<Rightarrow> bool" where
  "builderOk n b \<longleftrightarrow> Switch_Name (Bld_data b) = n \<and> list_all (\<lambda>x. LocalDeviceName x = n) (Switch_Neighbors (Bld_data b))
     \<and> distinct (remotes b) \<and> [] \<notin> set (remotes b) \<and> (\<forall>k. mgetd False (Bld_seen b) k \<longleftrightarrow> k \<in> set (remotes b))"

definition buildersOk :: "builders \<Rightarrow> bool" where
  "buildersOk bs \<longleftrightarrow> mwf bs \<and> (\<forall>n b. map_of bs n = Some b \<longrightarrow> builderOk n b)"

definition linked :: "builders \<Rightarrow> string \<Rightarrow> string \<Rightarrow> bool" where
  "linked bs n r \<longleftrightarrow> (\<exists>b. map_of bs n = Some b \<and> r \<in> set (remotes b))"

lemma builderOk_new: "builderOk n (newBuilder n)" "remotes (newBuilder n) = []"
  by (simp_all add: builderOk_def newBuilder_def remotes_def)

lemma ensure_props:
  assumes "buildersOk bs"
  shows "buildersOk (ensureSwitchBuilder n bs)" "keyset (ensureSwitchBuilder n bs) = insert n (keyset bs)"
    "linked (ensureSwitchBuilder n bs) m r \<longleftrightarrow> linked bs m r" "\<exists>b. map_of (ensureSwitchBuilder n bs) n = Some b \<and> builderOk n b"
  using assms builderOk_new
  by (auto simp: ensureSwitchBuilder_def buildersOk_def linked_def split: option.splits if_splits)

lemma addNeighbor_ok:
  assumes "builderOk n b"
  shows "builderOk n (addNeighbor \<lparr>LocalDeviceName = n, RemoteSystemName = r\<rparr> b)"
    "set (remotes (addNeighbor \<lparr>LocalDeviceName = n, RemoteSystemName = r\<rparr> b)) = set (remotes b) \<union> ({r} - {[]})"
  using assms by (auto simp: builderOk_def addNeighbor_def remotes_def Let_def)

lemma addNeighborTo_props:
  assumes ok: "buildersOk bs"
  shows "buildersOk (addNeighborTo n r bs)" "keyset (addNeighborTo n r bs) = insert n (keyset bs)"
    "linked (addNeighborTo n r bs) m q \<longleftrightarrow> linked bs m q \<or> (m = n \<and> q = r \<and> r \<noteq> [])"
proof -
  note e = ensure_props[OF ok, of n]
  obtain b where b: "map_of (ensureSwitchBuilder n bs) n = Some b" "builderOk n b" using e(4) by blast
  have a: "addNeighborTo n r bs = mput n (addNeighbor \<lparr>LocalDeviceName = n, RemoteSystemName = r\<rparr> b) (ensureSwitchBuilder n bs)"
    using b(1) by (simp add: addNeighborTo_def Let_def)
  show "buildersOk (addNeighborTo n r bs)"
    using e(1) addNeighbor_ok(1)[OF b(2)] unfolding a buildersOk_def by auto
  show "keyset (addNeighborTo n r bs) = insert n (keyset bs)" unfolding a using e(2) by simp
  show "linked (addNeighborTo n r bs) m q \<longleftrightarrow> linked bs m q \<or> (m = n \<and> q = r \<and> r \<noteq> [])"
  proof (cases "m = n")
    case True
    then have "linked bs m q \<longleftrightarrow> q \<in> set (remotes b)" using e(3)[of n q] b(1) by (simp add: linked_def)
    then show ?thesis using True addNeighbor_ok(2)[OF b(2), of r] unfolding a linked_def by auto
  next
    case False
    then show ?thesis using e(3)[of m q] unfolding a linked_def by simp
  qed
qed

subsection \<open>What the inputs are\<close>

text \<open>
  The neighbors of a switch, said of the objects alone and not of the order the code visits them in. A name that is
  no Switch's own stands for the last Switch of the role whose name or hostname has the same normal form;
  a leaf that only NICs report is a switch under its normal form when all the Switches of the role (there may be none) declare
  their neighbors by annotation.
\<close>

definition answersTo :: "string \<Rightarrow> SwitchResource \<Rightarrow> bool" where
  "answersTo key sw \<longleftrightarrow> normalizeResourceName (Sw_Name sw) = key \<or> (Sw_Hostname sw \<noteq> [] \<and> normalizeResourceName (Sw_Hostname sw) = key)"

definition switchCalled :: "SwitchResource list \<Rightarrow> string \<Rightarrow> string option" where
  "switchCalled sws key = map_option Sw_Name (find (answersTo key) (rev sws))"

definition leafOf :: "SwitchResource list \<Rightarrow> string \<Rightarrow> string option" where
  "leafOf sws raw =
     (if raw \<in> Sw_Name ` set sws then Some raw
      else case switchCalled sws (normalizeResourceName raw) of
        Some n \<Rightarrow> Some n
      | None \<Rightarrow> if list_all hasManualSwitchNeighbors sws \<and> normalizeResourceName raw \<noteq> [] then Some (normalizeResourceName raw) else None)"

definition nicLeaf :: "SwitchResource list \<Rightarrow> NicInfo \<Rightarrow> string option" where
  "nicLeaf sws nic = (if Nic_State nic = ''up'' \<and> Nic_Hostname nic \<noteq> [] \<and> Nic_Port nic \<noteq> [] then leafOf sws (Nic_Hostname nic) else None)"

definition nicLinks :: "SwitchResource list \<Rightarrow> string \<Rightarrow> NicInfo \<Rightarrow> (string \<times> string) set" where
  "nicLinks sws host nic = {(n, host) | n. nicLeaf sws nic = Some n}"

definition nodeLinks :: "string \<Rightarrow> SwitchResource list \<Rightarrow> FabricNode \<Rightarrow> (string \<times> string) set" where
  "nodeLinks role sws node = (\<Union>nic\<in>set (nodeNicsForRole node role). nicLinks sws (Fn_Name node) nic)"

definition hostLinks :: "string \<Rightarrow> SwitchResource list \<Rightarrow> FabricNode list \<Rightarrow> (string \<times> string) set" where
  "hostLinks role sws fabricNodes = (\<Union>node\<in>set fabricNodes. nodeLinks role sws node)"

definition manualPeer :: "SwitchResource list \<Rightarrow> string set \<Rightarrow> string \<Rightarrow> string option" where
  "manualPeer sws leaves raw = (case leafOf sws raw of None \<Rightarrow> None | Some n \<Rightarrow> if n \<in> Sw_Name ` set sws \<union> leaves then Some n else None)"

definition lldpPeer :: "SwitchResource list \<Rightarrow> string set \<Rightarrow> SwitchNeighbor \<Rightarrow> string option" where
  "lldpPeer sws hosts nb =
     (let raw = Nb_RemoteSystemName nb;
          r = (if raw \<in> hosts then raw else case switchCalled sws (normalizeResourceName raw) of Some n \<Rightarrow> n | None \<Rightarrow> raw)
      in if Nb_RemoteSystemType nb = RemoteSystemTypeKubernetesNode \<or> r \<in> hosts then None else Some r)"

definition badManual :: "SwitchResource list \<Rightarrow> string set \<Rightarrow> SwitchResource \<Rightarrow> bool" where
  "badManual sws leaves sw \<longleftrightarrow> list_all hasManualSwitchNeighbors sws
     \<and> (case parseManualSwitchNeighbors sw of Inl e \<Rightarrow> True
        | Inr ms \<Rightarrow> list_ex (\<lambda>m. manualPeer sws leaves m = None \<or> manualPeer sws leaves m = Some (Sw_Name sw)) ms)"

definition peersOf :: "SwitchResource list \<Rightarrow> string set \<Rightarrow> string set \<Rightarrow> SwitchResource \<Rightarrow> string set" where
  "peersOf sws hosts leaves sw =
     (if list_all hasManualSwitchNeighbors sws
      then case parseManualSwitchNeighbors sw of Inl e \<Rightarrow> {} | Inr ms \<Rightarrow> {r. \<exists>m\<in>set ms. manualPeer sws leaves m = Some r}
      else {r. \<exists>nb\<in>set (Sw_LLDPNeighbors sw). lldpPeer sws hosts nb = Some r})"

lemma switchCalled_recorded: "map_of (fold recordSwitchName sws []) key = switchCalled sws key"
  by (induction sws rule: rev_induct) (auto simp: switchCalled_def recordSwitchName_def answersTo_def Let_def)

lemma switchCalled_name: "switchCalled sws key = Some n \<Longrightarrow> n \<in> Sw_Name ` set sws"
  by (auto simp: switchCalled_def find_Some_iff rev_nth intro!: imageI nth_mem)

lemma switchCalled_own: "n \<in> Sw_Name ` set sws \<Longrightarrow> switchCalled sws (normalizeResourceName n) \<noteq> None"
  by (auto simp: switchCalled_def find_None_iff answersTo_def)

lemma invented_new: "switchCalled sws (normalizeResourceName raw) = None \<Longrightarrow> normalizeResourceName raw \<notin> Sw_Name ` set sws"
  using switchCalled_own[of "normalizeResourceName raw" sws] normalizeResourceName_idem[of raw] by auto

text \<open>Builders that hold exactly the links of a set, and the invented leaves among them.\<close>

definition holds :: "string set \<Rightarrow> (string \<times> string) set \<Rightarrow> builders \<Rightarrow> bool" where
  "holds K A bs \<longleftrightarrow> buildersOk bs \<and> keyset bs = K \<and> (\<forall>n r. linked bs n r \<longleftrightarrow> (n, r) \<in> A \<and> r \<noteq> [])"

definition invented :: "SwitchResource list \<Rightarrow> string set \<Rightarrow> (string, bool) gomap \<Rightarrow> bool" where
  "invented sws leaves syn \<longleftrightarrow> keyset syn = leaves - Sw_Name ` set sws \<and> (\<forall>n. mgetd False syn n \<longleftrightarrow> n \<in> keyset syn)
     \<and> (\<forall>n\<in>keyset syn. leafOf sws n = Some n)"

lemma holds_add: "holds K A bs \<Longrightarrow> holds (insert n K) (insert (n, r) A) (addNeighborTo n r bs)"
  using addNeighborTo_props[of bs n r] by (auto simp: holds_def)

lemma holds_ensure: "holds K A bs \<Longrightarrow> n \<in> K \<Longrightarrow> holds K A (ensureSwitchBuilder n bs)"
  using ensure_props[of bs n] by (auto simp: holds_def)

lemma leafOf_own: "raw \<in> Sw_Name ` set sws \<Longrightarrow> leafOf sws raw = Some raw"
  by (simp add: leafOf_def)

lemma resolveSwitchName_leaf:
  assumes h: "keyset bs = Sw_Name ` set sws \<union> keyset syn" and i: "invented sws leaves syn"
  shows "case resolveSwitchName raw (fold recordSwitchName sws []) bs of (n, exists) \<Rightarrow>
    (if exists then n \<in> keyset bs \<and> leafOf sws raw = Some n
     else raw \<notin> keyset bs \<and> switchCalled sws (normalizeResourceName raw) = None)"
proof -
  have "raw \<in> keyset bs \<Longrightarrow> leafOf sws raw = Some raw" 
    using leafOf_own[of raw sws] h i by (cases "raw \<in> Sw_Name ` set sws") (simp_all add: invented_def)
  moreover have "raw \<notin> keyset bs \<Longrightarrow> switchCalled sws (normalizeResourceName raw) = Some n \<Longrightarrow> leafOf sws raw = Some n \<and> n \<in> keyset bs" for n
    using switchCalled_name[of sws "normalizeResourceName raw" n] by (auto simp: h leafOf_def)
  moreover have "map_of bs x \<noteq> None \<longleftrightarrow> x \<in> keyset bs" for x by (auto simp: keyset_def map_of_eq_None_iff)
  ultimately show ?thesis unfolding resolveSwitchName_def switchCalled_recorded by (simp split: option.splits)
qed

lemma leafOf_invented:
  assumes "switchCalled sws (normalizeResourceName raw) = None" "list_all hasManualSwitchNeighbors sws" "normalizeResourceName raw \<noteq> []"
  shows "leafOf sws (normalizeResourceName raw) = Some (normalizeResourceName raw)"
  using assms by (simp add: leafOf_def normalizeResourceName_idem invented_new)

lemma invented_add:
  assumes "invented sws leaves syn" "n \<notin> Sw_Name ` set sws" "leafOf sws n = Some n"
  shows "invented sws (insert n leaves) (mput n True syn)"
  using assms by (auto simp: invented_def)

lemma invented_known:
  assumes "invented sws leaves syn" "n \<in> Sw_Name ` set sws \<union> keyset syn"
  shows "invented sws (insert n leaves) syn"
  using assms by (auto simp: invented_def)

text \<open>The loop over the NICs of a node, and over the nodes.\<close>

definition nicState :: "SwitchResource list \<Rightarrow> (string \<times> string) set \<Rightarrow> builders \<times> (string, bool) gomap \<Rightarrow> bool" where
  "nicState sws A = (\<lambda>(bs, syn). holds (Sw_Name ` set sws \<union> keyset syn) A bs \<and> invented sws (fst ` A) syn)"

lemma addNic_links:
  assumes inv: "nicState sws A (bs, syn)"
  shows "case addNic (list_all hasManualSwitchNeighbors sws) (fold recordSwitchName sws []) host nic (bs, syn, matched) of
    (bs', syn', matched') \<Rightarrow> nicState sws (A \<union> nicLinks sws host nic) (bs', syn') \<and> (matched' \<longleftrightarrow> matched \<or> nicLinks sws host nic \<noteq> {})"
proof (cases "Nic_State nic = ''up'' \<and> Nic_Hostname nic \<noteq> [] \<and> Nic_Port nic \<noteq> []")
  case False
  then have "nicLinks sws host nic = {}" by (auto simp: nicLinks_def nicLeaf_def)
  then show ?thesis using False inv by (auto simp: addNic_def)
next
  case up: True
  let ?raw = "Nic_Hostname nic" and ?N = "fold recordSwitchName sws []"
  have h: "holds (Sw_Name ` set sws \<union> keyset syn) A bs" and i: "invented sws (fst ` A) syn" using inv by (simp_all add: nicState_def)
  have k: "keyset bs = Sw_Name ` set sws \<union> keyset syn" using h by (simp add: holds_def)
  obtain n known where r: "resolveSwitchName ?raw ?N bs = (n, known)" by fastforce
  have l: "nicLinks sws host nic = {(n, host) | n. leafOf sws ?raw = Some n}" using up by (simp add: nicLinks_def nicLeaf_def)
  note leaf = resolveSwitchName_leaf[OF k i, of ?raw, unfolded r prod.case]
  show ?thesis
  proof (cases known)
    case True
    then have n: "n \<in> Sw_Name ` set sws \<union> keyset syn" "nicLinks sws host nic = {(n, host)}" using leaf l k by auto
    then have "nicState sws (A \<union> nicLinks sws host nic) (addNeighborTo n host bs, syn)"
      using holds_add[OF h, of n host] invented_known[OF i n(1)] by (simp add: nicState_def insert_absorb)
    then show ?thesis using up True r n(2) by (simp add: addNic_def)
  next
    case False
    let ?n = "normalizeResourceName ?raw"
    have new: "?raw \<notin> Sw_Name ` set sws" "switchCalled sws ?n = None" using leaf False k by auto
    show ?thesis
    proof (cases "list_all hasManualSwitchNeighbors sws \<and> ?n \<noteq> []")
      case True
      then have n: "nicLinks sws host nic = {(?n, host)}" using new l by (auto simp: leafOf_def)
      have "invented sws (insert ?n (fst ` A)) (mput ?n True syn)"
        using True new(2) by (intro invented_add[OF i] invented_new leafOf_invented) simp_all
      moreover have "holds (Sw_Name ` set sws \<union> keyset (mput ?n True syn)) (A \<union> {(?n, host)}) (addNeighborTo ?n host bs)"
        using holds_add[OF h, of ?n host] by simp
      ultimately show ?thesis using up False r n True by (simp add: addNic_def nicState_def Let_def)
    next
      case no: False
      then have "nicLinks sws host nic = {}" using new l by (auto simp: leafOf_def)
      then show ?thesis using up False r no inv by (simp add: addNic_def Let_def)
    qed
  qed
qed

lemma addNics_links:
  assumes "nicState sws A (bs, syn)"
  shows "case fold (addNic (list_all hasManualSwitchNeighbors sws) (fold recordSwitchName sws []) host) nics (bs, syn, matched) of
    (bs', syn', matched') \<Rightarrow> nicState sws (A \<union> (\<Union>nic\<in>set nics. nicLinks sws host nic)) (bs', syn')
      \<and> (matched' \<longleftrightarrow> matched \<or> (\<Union>nic\<in>set nics. nicLinks sws host nic) \<noteq> {})"
  using assms
proof (induction nics arbitrary: A bs syn matched)
  case (Cons nic nics)
  obtain bs1 syn1 m1 where s1: "addNic (list_all hasManualSwitchNeighbors sws) (fold recordSwitchName sws []) host nic (bs, syn, matched) = (bs1, syn1, m1)"
    by (metis prod_cases3)
  note a = addNic_links[OF Cons.prems, of host nic matched, unfolded s1 prod.case]
  show ?case using Cons.IH[OF a[THEN conjunct1], of m1] a[THEN conjunct2] s1 by (auto simp: Un_assoc)
qed simp

definition nodeState :: "SwitchResource list \<Rightarrow> (string \<times> string) set \<Rightarrow> builders \<times> (string, bool) gomap \<times> (string, bool) gomap \<Rightarrow> bool" where
  "nodeState sws A = (\<lambda>(bs, syn, part). nicState sws A (bs, syn) \<and> mwf part \<and> keyset part = snd ` A)"

lemma addFabricNode_links:
  assumes inv: "nodeState sws A s"
  shows "nodeState sws (A \<union> nodeLinks role sws node) (addFabricNode role (list_all hasManualSwitchNeighbors sws) (fold recordSwitchName sws []) node s)"
proof -
  obtain bs syn part where s: "s = (bs, syn, part)" by (cases s)
  have i: "nicState sws A (bs, syn)" "mwf part" "keyset part = snd ` A" using inv s by (simp_all add: nodeState_def)
  obtain bs' syn' m where f: "fold (addNic (list_all hasManualSwitchNeighbors sws) (fold recordSwitchName sws []) (Fn_Name node)) (nodeNicsForRole node role) (bs, syn, False)
    = (bs', syn', m)" by (metis prod_cases3)
  note n = addNics_links[OF i(1), of "Fn_Name node" "nodeNicsForRole node role" False, unfolded f prod.case, folded nodeLinks_def]
  have "snd ` nodeLinks role sws node = (if m then {Fn_Name node} else {})" using n by (force simp: nodeLinks_def nicLinks_def)
  then have "keyset (if m then mput (Fn_Name node) True part else part) = snd ` (A \<union> nodeLinks role sws node)" using i(3) by (simp add: image_Un)
  then show ?thesis using n i f s by (cases "nodeNicsForRole node role = []") (simp_all add: addFabricNode_def nodeState_def Let_def nodeLinks_def)
qed

text \<open>The loop over the switches of the role.\<close>

definition declared :: "SwitchResource list \<Rightarrow> string set \<Rightarrow> string set \<Rightarrow> SwitchResource \<Rightarrow> (string \<times> string) set" where
  "declared sws hosts leaves sw = Pair (Sw_Name sw) ` peersOf sws hosts leaves sw"

lemma manualPeer_resolved:
  assumes k: "keyset bs = Sw_Name ` set sws \<union> leaves" and i: "invented sws leaves syn" and all: "list_all hasManualSwitchNeighbors sws"
  shows "case resolveSwitchName m (fold recordSwitchName sws []) bs of (n, known) \<Rightarrow>
     manualPeer sws leaves m = (if known then Some n else if mgetd False syn (normalizeResourceName m) then Some (normalizeResourceName m) else None)"
proof -
  obtain n known where r: "resolveSwitchName m (fold recordSwitchName sws []) bs = (n, known)" by fastforce
  have k': "keyset bs = Sw_Name ` set sws \<union> keyset syn" using k i by (auto simp: invented_def)
  note leaf = resolveSwitchName_leaf[OF k' i, of m, unfolded r prod.case]
  let ?n = "normalizeResourceName m"
  have syn: "mgetd False syn ?n \<longleftrightarrow> ?n \<in> leaves - Sw_Name ` set sws" "?n \<in> leaves - Sw_Name ` set sws \<Longrightarrow> leafOf sws ?n = Some ?n"
    using i by (auto simp: invented_def)
  show ?thesis
  proof (cases known)
    case True
    then show ?thesis using leaf k r by (simp add: manualPeer_def)
  next
    case False
    then have new: "m \<notin> Sw_Name ` set sws" "switchCalled sws ?n = None" using leaf k by auto
    have "leafOf sws m = (if ?n \<noteq> [] then Some ?n else None)" using new all by (simp add: leafOf_def)
    moreover have "?n \<noteq> []" if "?n \<in> leaves - Sw_Name ` set sws"
      using syn(2)[OF that] that new(2) by (auto simp: leafOf_def normalizeResourceName_idem split: if_splits)
    ultimately show ?thesis using False r syn(1) invented_new[OF new(2)] by (auto simp: manualPeer_def)
  qed
qed

lemma addManualNeighbor_links:
  assumes h: "holds (Sw_Name ` set sws \<union> leaves) A bs" and i: "invented sws leaves syn" and all: "list_all hasManualSwitchNeighbors sws"
    and sw: "sw \<in> set sws"
  shows "case addManualNeighbor (fold recordSwitchName sws []) syn sw m bs of
      Inl e \<Rightarrow> manualPeer sws leaves m = None \<or> manualPeer sws leaves m = Some (Sw_Name sw)
    | Inr bs' \<Rightarrow> \<not> (manualPeer sws leaves m = None \<or> manualPeer sws leaves m = Some (Sw_Name sw))
        \<and> holds (Sw_Name ` set sws \<union> leaves) (A \<union> {(Sw_Name sw, r) | r. manualPeer sws leaves m = Some r}) bs'"
proof -
  obtain n known where r: "resolveSwitchName m (fold recordSwitchName sws []) bs = (n, known)" by fastforce
  have k: "keyset bs = Sw_Name ` set sws \<union> leaves" using h by (simp add: holds_def)
  note p = manualPeer_resolved[OF k i all, of m, unfolded r prod.case]
  have a: "addManualNeighbor (fold recordSwitchName sws []) syn sw m bs =
     (case manualPeer sws leaves m of None \<Rightarrow> Inl (UnknownNeighbor (Sw_Name sw) m)
      | Some q \<Rightarrow> if q = Sw_Name sw then Inl (SelfNeighbor (Sw_Name sw)) else Inr (addNeighborTo (Sw_Name sw) q bs))"
    using p r by (auto simp: addManualNeighbor_def)
  have "insert (Sw_Name sw) (Sw_Name ` set sws \<union> leaves) = Sw_Name ` set sws \<union> leaves" using sw by auto
  then have "holds (Sw_Name ` set sws \<union> leaves) (insert (Sw_Name sw, q) A) (addNeighborTo (Sw_Name sw) q bs)" for q
    using holds_add[OF h, of "Sw_Name sw" q] by simp
  then show ?thesis by (cases "manualPeer sws leaves m") (simp_all add: a)
qed

lemma addLLDPNeighbor_links:
  assumes h: "holds (Sw_Name ` set sws \<union> leaves) A bs" and sw: "sw \<in> set sws" and hosts: "\<And>x. mgetd False hostSet x \<longleftrightarrow> x \<in> hosts"
  shows "holds (Sw_Name ` set sws \<union> leaves) (A \<union> {(Sw_Name sw, r) | r. lldpPeer sws hosts nb = Some r})
    (addLLDPNeighbor hostSet (fold recordSwitchName sws []) sw nb bs)"
proof -
  have k: "insert (Sw_Name sw) (Sw_Name ` set sws \<union> leaves) = Sw_Name ` set sws \<union> leaves" using sw by auto
  have "addLLDPNeighbor hostSet (fold recordSwitchName sws []) sw nb bs =
     (case lldpPeer sws hosts nb of None \<Rightarrow> bs | Some q \<Rightarrow> addNeighborTo (Sw_Name sw) q bs)"
    by (simp add: addLLDPNeighbor_def lldpPeer_def canonicalRemoteSystemName_def switchCalled_recorded hosts Let_def)
  then show ?thesis using h holds_add[OF h, of "Sw_Name sw", unfolded k] by (cases "lldpPeer sws hosts nb") simp_all
qed

lemma addSwitchNeighbors_links:
  assumes h: "holds (Sw_Name ` set sws \<union> leaves) A bs" and i: "invented sws leaves syn" and sw: "sw \<in> set sws"
    and hosts: "\<And>x. mgetd False hostSet x \<longleftrightarrow> x \<in> hosts"
  shows "case addSwitchNeighbors (list_all hasManualSwitchNeighbors sws) hostSet (fold recordSwitchName sws []) syn sw bs of
      Inl e \<Rightarrow> badManual sws leaves sw
    | Inr bs' \<Rightarrow> \<not> badManual sws leaves sw \<and> holds (Sw_Name ` set sws \<union> leaves) (A \<union> declared sws hosts leaves sw) bs'"
proof -
  let ?K = "Sw_Name ` set sws \<union> leaves" and ?N = "fold recordSwitchName sws []"
  have e: "holds ?K A (ensureSwitchBuilder (Sw_Name sw) bs)" using holds_ensure[OF h] sw by simp
  show ?thesis
  proof (cases "list_all hasManualSwitchNeighbors sws")
    case all: True
    show ?thesis
    proof (cases "parseManualSwitchNeighbors sw")
      case (Inl e)
      then show ?thesis using all by (simp add: addSwitchNeighbors_def badManual_def)
    next
      case (Inr ms)
      have "(\<Union>m\<in>set ms. {(Sw_Name sw, r) | r. manualPeer sws leaves m = Some r}) = declared sws hosts leaves sw"
        using all Inr by (auto simp: declared_def peersOf_def)
      then show ?thesis
        using efold_collect[where P = "holds ?K" and xs = ms and f = "addManualNeighbor ?N syn sw", OF e addManualNeighbor_links[OF _ i all sw]] all Inr
        by (simp add: addSwitchNeighbors_def badManual_def list_ex_iff split: sum.splits)
    qed
  next
    case False
    have "(\<Union>nb\<in>set (Sw_LLDPNeighbors sw). {(Sw_Name sw, r) | r. lldpPeer sws hosts nb = Some r}) = declared sws hosts leaves sw"
      using False by (auto simp: declared_def peersOf_def)
    then show ?thesis
      using fold_collect[where P = "holds ?K" and xs = "Sw_LLDPNeighbors sw" and f = "addLLDPNeighbor hostSet ?N sw"
        and F = "\<lambda>nb. {(Sw_Name sw, r) | r. lldpPeer sws hosts nb = Some r}", OF e addLLDPNeighbor_links[OF _ sw hosts]] False
      by (simp add: addSwitchNeighbors_def badManual_def)
  qed
qed

lemma keyset_buildersToBoolMap: "keyset (buildersToBoolMap bs) = keyset bs \<and> mwf (buildersToBoolMap bs)"
proof -
  have "keyset (fold (\<lambda>key result. mput key True result) ks m) = set ks \<union> keyset m
      \<and> (mwf m \<longrightarrow> mwf (fold (\<lambda>key result. mput key True result) ks m))" for ks and m :: "(string, bool) gomap"
    by (induction ks arbitrary: m) auto
  from this[of "mkeys bs" "[]"] show ?thesis by (simp add: buildersToBoolMap_def)
qed

lemma ensure_fold:
  "buildersOk (fold (\<lambda>sw. ensureSwitchBuilder (Sw_Name sw)) sws []) \<and> keyset (fold (\<lambda>sw. ensureSwitchBuilder (Sw_Name sw)) sws []) = Sw_Name ` set sws
   \<and> (\<forall>m q. \<not> linked (fold (\<lambda>sw. ensureSwitchBuilder (Sw_Name sw)) sws []) m q)"
proof (induction sws rule: rev_induct)
  case (snoc sw sws)
  then show ?case using ensure_props[of "fold (\<lambda>sw. ensureSwitchBuilder (Sw_Name sw)) sws []" "Sw_Name sw"] by simp
qed (simp add: buildersOk_def linked_def)

lemma finishSwitch_ok:
  assumes "buildersOk bs" "n \<in> keyset bs"
  shows "Switch_Name (finishSwitch bs n) = n" "sorted (map RemoteSystemName (Switch_Neighbors (finishSwitch bs n)))"
    "distinct (map RemoteSystemName (Switch_Neighbors (finishSwitch bs n)))"
    "list_all (\<lambda>x. LocalDeviceName x = n \<and> RemoteSystemName x \<noteq> []) (Switch_Neighbors (finishSwitch bs n))"
    "RemoteSystemName ` set (Switch_Neighbors (finishSwitch bs n)) = {r. linked bs n r}"
proof -
  obtain b where b: "map_of bs n = Some b" "builderOk n b" using assms by (auto simp: buildersOk_def)
  have f: "finishSwitch bs n = (Bld_data b)\<lparr>Switch_Neighbors := sort_key RemoteSystemName (Switch_Neighbors (Bld_data b))\<rparr>"
    using b(1) by (simp add: finishSwitch_def Let_def)
  have ok: "Switch_Name (Bld_data b) = n" "list_all (\<lambda>x. LocalDeviceName x = n) (Switch_Neighbors (Bld_data b))"
    "distinct (remotes b)" "[] \<notin> set (remotes b)" using b(2) by (auto simp: builderOk_def)
  show "Switch_Name (finishSwitch bs n) = n" using ok by (simp add: f)
  show "sorted (map RemoteSystemName (Switch_Neighbors (finishSwitch bs n)))" by (simp add: f)
  show "distinct (map RemoteSystemName (Switch_Neighbors (finishSwitch bs n)))"
    using ok(3) by (simp add: f remotes_def distinct_map)
  show "list_all (\<lambda>x. LocalDeviceName x = n \<and> RemoteSystemName x \<noteq> []) (Switch_Neighbors (finishSwitch bs n))"
    using ok(2,4) by (force simp: f remotes_def list_all_iff)
  show "RemoteSystemName ` set (Switch_Neighbors (finishSwitch bs n)) = {r. linked bs n r}"
    using b(1) by (auto simp: f linked_def remotes_def)
qed

lemma hostSet_iff: "mgetd False (fold (\<lambda>node. mput (Fn_Name node) True) fabricNodes []) x \<longleftrightarrow> x \<in> Fn_Name ` set fabricNodes"
  by (induction fabricNodes rule: rev_induct) (auto simp: mgetd_def)

lemma finished_switches:
  assumes "holds K A bs"
  defines "switches \<equiv> map (finishSwitch bs) (sortedMapKeys (buildersToBoolMap bs))"
  shows "sorted (map Switch_Name switches)" "distinct (map Switch_Name switches)" "Switch_Name ` set switches = K"
    "sw \<in> set switches \<Longrightarrow> sorted (map RemoteSystemName (Switch_Neighbors sw)) \<and> distinct (map RemoteSystemName (Switch_Neighbors sw))
       \<and> list_all (\<lambda>x. LocalDeviceName x = Switch_Name sw) (Switch_Neighbors sw)
       \<and> RemoteSystemName ` set (Switch_Neighbors sw) = {r. (Switch_Name sw, r) \<in> A \<and> r \<noteq> []}"
proof -
  have ok: "buildersOk bs" "keyset bs = K" "\<And>n r. linked bs n r \<longleftrightarrow> (n, r) \<in> A \<and> r \<noteq> []" using assms by (simp_all add: holds_def)
  let ?ks = "sortedMapKeys (buildersToBoolMap bs)"
  have ks: "set ?ks = keyset bs" "sorted ?ks" "distinct ?ks" using keyset_buildersToBoolMap[of bs] by (simp_all add: sortedMapKeys_def)
  have names: "map Switch_Name switches = ?ks"
    unfolding switches_def map_map by (rule map_idI) (simp add: finishSwitch_ok(1)[OF ok(1)] ks)
  show "sorted (map Switch_Name switches)" "distinct (map Switch_Name switches)" using names ks by simp_all
  show "Switch_Name ` set switches = K" using arg_cong[OF names, of set] ks ok by simp
  show "sorted (map RemoteSystemName (Switch_Neighbors sw)) \<and> distinct (map RemoteSystemName (Switch_Neighbors sw))
       \<and> list_all (\<lambda>x. LocalDeviceName x = Switch_Name sw) (Switch_Neighbors sw)
       \<and> RemoteSystemName ` set (Switch_Neighbors sw) = {r. (Switch_Name sw, r) \<in> A \<and> r \<noteq> []}" if sw: "sw \<in> set switches"
  proof -
    obtain n where n: "n \<in> keyset bs" "sw = finishSwitch bs n" using sw ks(1) by (auto simp: switches_def)
    note f = finishSwitch_ok[OF ok(1) n(1), folded n(2)]
    show ?thesis using f ok(3) by (auto simp: list_all_iff)
  qed
qed

lemma node_loop:
  "nodeState sws (hostLinks role sws fabricNodes)
     (fold (addFabricNode role (list_all hasManualSwitchNeighbors sws) (fold recordSwitchName sws [])) fabricNodes
       (fold (\<lambda>sw. ensureSwitchBuilder (Sw_Name sw)) sws [], [], []))"
proof -
  have "nodeState sws {} (fold (\<lambda>sw. ensureSwitchBuilder (Sw_Name sw)) sws [], [], [])"
    using ensure_fold[of sws] by (simp add: nodeState_def nicState_def holds_def invented_def mgetd_def)
  then have "nodeState sws ({} \<union> (\<Union>node\<in>set fabricNodes. nodeLinks role sws node))
     (fold (addFabricNode role (list_all hasManualSwitchNeighbors sws) (fold recordSwitchName sws [])) fabricNodes
       (fold (\<lambda>sw. ensureSwitchBuilder (Sw_Name sw)) sws [], [], []))"
    by (rule fold_collect[where P = "nodeState sws"]) (rule addFabricNode_links)
  then show ?thesis by (simp add: hostLinks_def)
qed

text \<open>
  C19: the inputs of discovery are exactly what the objects say, whatever the order of nodes, NICs and
  switches. The hosts are the FabricNodes with a NIC on a leaf, sorted and once each; the switches are the Switches of
  the role and the leaves that NICs report, the latter synthetic when no Switch of the role is meant; the neighbors
  of a switch, sorted and once each, are the hosts on it and the peers its Switch declares (by annotation when all
  Switches of the role have one, by LLDP and no host otherwise). The only error is an annotation that is no list of
  names, or that names an unknown switch or the Switch itself.
\<close>

theorem buildTopologyInputsForRole_exact:
  fixes role :: string and fabricNodes :: "FabricNode list" and switches :: "SwitchResource list"
  defines "sws \<equiv> filter (\<lambda>sw. effectiveSwitchRole sw = role) switches"
  defines "links \<equiv> hostLinks role sws fabricNodes"
  shows "case buildTopologyInputsForRole role fabricNodes switches of
     Inl e \<Rightarrow> \<exists>sw\<in>set sws. badManual sws (fst ` links) sw
   | Inr i \<Rightarrow> (\<forall>sw\<in>set sws. \<not> badManual sws (fst ` links) sw)
     \<and> sorted (map Host_Name (In_hosts i)) \<and> distinct (map Host_Name (In_hosts i)) \<and> Host_Name ` set (In_hosts i) = snd ` links
     \<and> sorted (map Switch_Name (In_switches i)) \<and> distinct (map Switch_Name (In_switches i))
     \<and> Switch_Name ` set (In_switches i) = Sw_Name ` set sws \<union> fst ` links
     \<and> keyset (In_syntheticSwitches i) = fst ` links - Sw_Name ` set sws
     \<and> (\<forall>sw\<in>set (In_switches i). sorted (map RemoteSystemName (Switch_Neighbors sw)) \<and> distinct (map RemoteSystemName (Switch_Neighbors sw))
          \<and> list_all (\<lambda>x. LocalDeviceName x = Switch_Name sw) (Switch_Neighbors sw)
          \<and> RemoteSystemName ` set (Switch_Neighbors sw) = {r. r \<noteq> [] \<and> ((Switch_Name sw, r) \<in> links
               \<or> (\<exists>s\<in>set sws. Sw_Name s = Switch_Name sw \<and> r \<in> peersOf sws (Fn_Name ` set fabricNodes) (fst ` links) s))})
     \<and> In_nodeOnly i = (sws = [])"
proof -
  let ?N = "fold recordSwitchName sws []" and ?all = "list_all hasManualSwitchNeighbors sws" and ?H = "Fn_Name ` set fabricNodes"
  let ?hosts = "fold (\<lambda>node. mput (Fn_Name node) True) fabricNodes []"
  obtain bs syn part where s: "fold (addFabricNode role ?all ?N) fabricNodes (fold (\<lambda>sw. ensureSwitchBuilder (Sw_Name sw)) sws [], [], []) = (bs, syn, part)"
    by (metis prod_cases3)
  have inv: "holds (Sw_Name ` set sws \<union> fst ` links) links bs" "invented sws (fst ` links) syn" "mwf part" "keyset part = snd ` links"
    using node_loop[of sws role fabricNodes] unfolding s by (auto simp: nodeState_def nicState_def invented_def links_def)
  have semi: "(length sws = 0 \<or> \<not> length sws = 0 \<and> ?all) = ?all" by auto
  have sweep: "efold (addSwitchNeighbors (\<not> length sws = 0 \<and> ?all) ?hosts ?N syn) sws bs = efold (addSwitchNeighbors ?all ?hosts ?N syn) sws bs"
    by (cases sws) simp_all
  have b: "buildTopologyInputsForRole role fabricNodes switches =
     (case efold (addSwitchNeighbors ?all ?hosts ?N syn) sws bs of Inl e \<Rightarrow> Inl e
      | Inr bs2 \<Rightarrow> Inr \<lparr>In_hosts = map (\<lambda>hostName. \<lparr>Host_Name = hostName\<rparr>) (sortedMapKeys part),
           In_switches = map (finishSwitch bs2) (sortedMapKeys (buildersToBoolMap bs2)), In_nodeOnly = (length sws = 0), In_syntheticSwitches = syn\<rparr>)"
    unfolding buildTopologyInputsForRole_def Let_def sws_def[symmetric] semi s sweep prod.case by (rule refl)
  have loop: "case efold (addSwitchNeighbors ?all ?hosts ?N syn) sws bs of Inl e \<Rightarrow> \<exists>sw\<in>set sws. badManual sws (fst ` links) sw
     | Inr bs2 \<Rightarrow> (\<forall>sw\<in>set sws. \<not> badManual sws (fst ` links) sw)
         \<and> holds (Sw_Name ` set sws \<union> fst ` links) (links \<union> (\<Union>sw\<in>set sws. declared sws ?H (fst ` links) sw)) bs2"
    by (rule efold_collect[where P = "holds (Sw_Name ` set sws \<union> fst ` links)"]) (rule inv(1), rule addSwitchNeighbors_links[OF _ inv(2) _ hostSet_iff])
  show ?thesis
  proof (cases "efold (addSwitchNeighbors ?all ?hosts ?N syn) sws bs")
    case (Inl e)
    then show ?thesis using loop by (simp add: b)
  next
    case (Inr bs2)
    note l = loop[unfolded Inr sum.case]
    note f = finished_switches[OF l[THEN conjunct2]]
    have nbs: "{r. (n, r) \<in> links \<union> (\<Union>sw\<in>set sws. declared sws ?H (fst ` links) sw) \<and> r \<noteq> []} =
      {r. r \<noteq> [] \<and> ((n, r) \<in> links \<or> (\<exists>s\<in>set sws. Sw_Name s = n \<and> r \<in> peersOf sws ?H (fst ` links) s))}" for n
      by (auto simp: declared_def)
    have hosts: "map Host_Name (map (\<lambda>hostName. \<lparr>Host_Name = hostName\<rparr>) (sortedMapKeys part)) = sortedMapKeys part" by (simp add: comp_def)
    have part: "sorted (sortedMapKeys part)" "distinct (sortedMapKeys part)" "set (sortedMapKeys part) = snd ` links"
      using inv(3,4) by (simp_all add: sortedMapKeys_def)
    have syn: "keyset syn = fst ` links - Sw_Name ` set sws" using inv(2) by (simp add: invented_def)
    show ?thesis unfolding b Inr sum.case topologyInputs.select_convs hosts
      using l[THEN conjunct1] part f syn nbs hosts[THEN arg_cong[of _ _ set]] by (simp add: image_image)
  qed
qed

definition exFabricNodes :: "FabricNode list" where
  "exFabricNodes = [\<lparr>Fn_Name = ''n1'', Fn_NodeRole = ''GPU'',
     Fn_ScaleOutNics = [\<lparr>Nic_State = ''up'', Nic_Hostname = ''Leaf.1'', Nic_Port = ''p1''\<rparr>], Fn_StorageNics = []\<rparr>]"

definition exLeaf :: SwitchResource where
  "exLeaf = \<lparr>Sw_Name = ''leaf-1'', Sw_Labels = [], Sw_Role = [], Sw_Annotations = [], Sw_Hostname = [],
     Sw_LLDPNeighbors = [\<lparr>Nb_RemoteSystemType = ''Switch'', Nb_RemoteSystemName = ''Spine_1''\<rparr>,
       \<lparr>Nb_RemoteSystemType = RemoteSystemTypeKubernetesNode, Nb_RemoteSystemName = ''n2''\<rparr>]\<rparr>"

definition exSpine :: SwitchResource where
  "exSpine = \<lparr>Sw_Name = ''sw-7'', Sw_Labels = [], Sw_Role = SwitchRoleScaleOut, Sw_Annotations = [], Sw_Hostname = ''spine.1'', Sw_LLDPNeighbors = []\<rparr>"

lemma exLinks: "hostLinks SwitchRoleScaleOut [exLeaf, exSpine] exFabricNodes = {(''leaf-1'', ''n1'')}"
proof -
  have "nicLeaf [exLeaf, exSpine] \<lparr>Nic_State = ''up'', Nic_Hostname = ''Leaf.1'', Nic_Port = ''p1''\<rparr> = Some ''leaf-1''" by code_simp
  moreover have "nodeNicsForRole (hd exFabricNodes) SwitchRoleScaleOut = [\<lparr>Nic_State = ''up'', Nic_Hostname = ''Leaf.1'', Nic_Port = ''p1''\<rparr>]"
    by code_simp
  ultimately show ?thesis by (simp add: hostLinks_def nodeLinks_def nicLinks_def exFabricNodes_def)
qed

lemma exPeers:
  "peersOf [exLeaf, exSpine] {''n1''} {''leaf-1''} exLeaf = {''sw-7''}" "peersOf [exLeaf, exSpine] {''n1''} {''leaf-1''} exSpine = {}"
  "\<not> badManual [exLeaf, exSpine] {''leaf-1''} s"
proof -
  have n: "\<not> list_all hasManualSwitchNeighbors [exLeaf, exSpine]" by code_simp
  have p: "map (lldpPeer [exLeaf, exSpine] (set [''n1''])) (Sw_LLDPNeighbors exLeaf) = [Some ''sw-7'', None]" by code_simp
  have "peersOf [exLeaf, exSpine] (set [''n1'']) {''leaf-1''} exLeaf = {r. Some r \<in> set (map (lldpPeer [exLeaf, exSpine] (set [''n1''])) (Sw_LLDPNeighbors exLeaf))}"
    using n by (simp only: peersOf_def if_False) (simp add: image_iff eq_commute[of "Some _"])
  then show "peersOf [exLeaf, exSpine] {''n1''} {''leaf-1''} exLeaf = {''sw-7''}" unfolding p by simp
  show "peersOf [exLeaf, exSpine] {''n1''} {''leaf-1''} exSpine = {}" using n by (simp only: peersOf_def if_False) (simp add: exSpine_def)
  show "\<not> badManual [exLeaf, exSpine] {''leaf-1''} s" using n by (simp only: badManual_def simp_thms)
qed

theorem buildTopologyInputsForRole_exact_witness:
  "\<exists>i. buildTopologyInputsForRole SwitchRoleScaleOut exFabricNodes [exLeaf, exSpine] = Inr i
     \<and> Host_Name ` set (In_hosts i) = {''n1''} \<and> Switch_Name ` set (In_switches i) = {''leaf-1'', ''sw-7''}
     \<and> (\<forall>sw\<in>set (In_switches i). RemoteSystemName ` set (Switch_Neighbors sw) = (if Switch_Name sw = ''leaf-1'' then {''n1'', ''sw-7''} else {}))"
proof -
  have f: "filter (\<lambda>sw. effectiveSwitchRole sw = SwitchRoleScaleOut) [exLeaf, exSpine] = [exLeaf, exSpine]"
    by (simp add: exLeaf_def exSpine_def effectiveSwitchRole_def)
  have g: "Sw_Name exLeaf = ''leaf-1''" "Sw_Name exSpine = ''sw-7''" by (simp_all add: exLeaf_def exSpine_def)
  have h: "Fn_Name ` set exFabricNodes = {''n1''}" by (simp add: exFabricNodes_def)
  note e = buildTopologyInputsForRole_exact[where role = SwitchRoleScaleOut and fabricNodes = exFabricNodes and switches = "[exLeaf, exSpine]", unfolded f exLinks h]
  have nb: "{r. r \<noteq> [] \<and> ((n, r) \<in> {(''leaf-1'', ''n1'')} \<or> (\<exists>s\<in>set [exLeaf, exSpine]. Sw_Name s = n \<and> r \<in> peersOf [exLeaf, exSpine] {''n1''} {''leaf-1''} s))}
    = (if n = ''leaf-1'' then {''n1'', ''sw-7''} else {})" for n using g exPeers(1,2) by auto
  show ?thesis
  proof (cases "buildTopologyInputsForRole SwitchRoleScaleOut exFabricNodes [exLeaf, exSpine]")
    case (Inl x)
    then show ?thesis using e exPeers(3) by simp
  next
    case (Inr i)
    have "Host_Name ` set (In_hosts i) = {''n1''}" "Switch_Name ` set (In_switches i) = {''leaf-1'', ''sw-7''}"
      using e g unfolding Inr by auto
    moreover have "RemoteSystemName ` set (Switch_Neighbors sw) = (if Switch_Name sw = ''leaf-1'' then {''n1'', ''sw-7''} else {})" if "sw \<in> set (In_switches i)" for sw
      unfolding nb[symmetric] using e that unfolding Inr by simp
    ultimately show ?thesis by (intro exI[of _ i]) (simp add: Inr)
  qed
qed

end
