(* ===== verification/Auto_Label.thy ===== *)
theory Auto_Label
  imports Topology_Inputs
begin

text \<open>
  The controller that writes topology labels from discovery,
  \<open>src/pkg/controller/switchtopology/autolabel_controller.go\<close>: names of the form
  \<open>tierN-groupM\<close>, the plan of missing labels, its application, and the watch filters. Node and
  Switch objects are the records of \<open>Topology_Inputs\<close> and \<open>Topology_Status\<close>.
\<close>

subsection \<open>Data\<close>

type_synonym labels = "(string, string) gomap"

record managedTopology =
  Mt_name :: string
  Mt_role :: string
  Mt_labelTemplate :: Template

record autoLabelPlan =
  Plan_nodes :: "(string, labels) gomap"
  Plan_switches :: "(string, labels) gomap"

record discoveredGroup =
  Dg_internalName :: string
  Dg_tier :: int
  Dg_members :: "string list"
  Dg_nodes :: "string list"
  Dg_lower :: "string list"

datatype autoError =
    NotAutoName string
  | InvalidTier string
  | InvalidGroup string
  | TierMismatch string int int
  | AtLabel string string autoError
  | ConflictingValues string string string string
  | InputFailed inputError
  | RenderFailed labelError
  | DiscoveryPanic
  | NodeOnlyTier int
  | MissingNode string
  | MissingSwitch string
  | MultipleLocked int "string list"
  | NameReused string
  | LockedTo string string string
  | MultipleDiscoveredParents string "string list"
  | DiscoveredCycle string
  | NotAGroup string string
  | DiscontinuousDiscovery string int int
  | LabelLocked string string string
  | Disappeared string
  | AutoApi string

subsection \<open>Names of automatic domains\<close>

text \<open>The regular expression \<open>^tier([1-9][0-9]*)-group([1-9][0-9]*)$\<close>.\<close>

definition autoDomainMatch :: "string \<Rightarrow> (string \<times> string) option" where
  "autoDomainMatch s =
     (if take 4 s \<noteq> ''tier'' then None
      else let rest = drop 4 s; t = takeWhile isDigit rest; rest2 = dropWhile isDigit rest in
        if \<not> isTierDigits t \<or> take 6 rest2 \<noteq> ''-group'' then None
        else let g = drop 6 rest2 in if isTierDigits g then Some (t, g) else None)"

definition parseAutoDomainNameParts :: "string \<Rightarrow> autoError + int \<times> int" where
  "parseAutoDomainNameParts s =
     (case autoDomainMatch s of
        None \<Rightarrow> Inl (NotAutoName s)
      | Some (a, b) \<Rightarrow>
          (case Atoi a of
             None \<Rightarrow> Inl (InvalidTier s)
           | Some t \<Rightarrow>
               if t < 1 then Inl (InvalidTier s)
               else case Atoi b of
                 None \<Rightarrow> Inl (InvalidGroup s)
               | Some g \<Rightarrow> if g < 1 then Inl (InvalidGroup s) else Inr (t, g)))"

definition parseAutoDomainName :: "string \<Rightarrow> int \<Rightarrow> autoError + int" where
  "parseAutoDomainName s expectedTier =
     (case parseAutoDomainNameParts s of
        Inl e \<Rightarrow> Inl e
      | Inr (t, g) \<Rightarrow> if t \<noteq> expectedTier then Inl (TierMismatch s t expectedTier) else Inr g)"

definition autoDomainName :: "int \<Rightarrow> int \<Rightarrow> string" where
  "autoDomainName t g = ''tier'' @ Itoa t @ ''-group'' @ Itoa g"

definition raiseMax :: "int \<Rightarrow> int \<Rightarrow> (int, int) gomap \<Rightarrow> (int, int) gomap" where
  "raiseMax t g maxByTier = (if g > mgetd 0 maxByTier t then mput t g maxByTier else maxByTier)"

definition scanLabel :: "Template \<Rightarrow> string \<Rightarrow> string \<times> string \<Rightarrow> (int, int) gomap \<Rightarrow> autoError + (int, int) gomap" where
  "scanLabel labelTemplate name = (\<lambda>(key, v) maxByTier.
     case MatchTier (Some labelTemplate) key of
       None \<Rightarrow> Inr maxByTier
     | Some t \<Rightarrow>
         (case parseAutoDomainName v t of
            Inl e \<Rightarrow> Inl (AtLabel name key e)
          | Inr g \<Rightarrow> Inr (raiseMax t g maxByTier)))"

definition scanExistingAutoNames :: "Template \<Rightarrow> LabeledResource \<Rightarrow> (int, int) gomap \<Rightarrow> autoError + (int, int) gomap" where
  "scanExistingAutoNames labelTemplate node = efold (scanLabel labelTemplate (Res_Name node)) (Res_Labels node)"

definition scanExistingAutoMemberName :: "SwitchResource \<Rightarrow> (int, int) gomap \<Rightarrow> autoError + (int, int) gomap" where
  "scanExistingAutoMemberName sw maxByTier =
     (let v = mgetd [] (Sw_Labels sw) TopologyDomainLabel in
      if v = [] then Inr maxByTier
      else case parseAutoDomainNameParts v of
        Inl e \<Rightarrow> Inl (AtLabel (Sw_Name sw) TopologyDomainLabel e)
      | Inr (t, g) \<Rightarrow> Inr (raiseMax t g maxByTier))"

subsection \<open>Plans\<close>

definition newAutoLabelPlan :: autoLabelPlan where
  "newAutoLabelPlan = \<lparr>Plan_nodes = [], Plan_switches = []\<rparr>"

definition addDesired :: "string \<Rightarrow> string \<Rightarrow> string \<Rightarrow> (string, labels) gomap \<Rightarrow> autoError + (string, labels) gomap" where
  "addDesired name key v m =
     (let inner = mgetd [] m name in
      case map_of inner key of
        Some existing \<Rightarrow>
          if existing \<noteq> v then Inl (ConflictingValues name existing v key) else Inr (mput name (mput key v inner) m)
      | None \<Rightarrow> Inr (mput name (mput key v inner) m))"

definition planAddNode :: "string \<Rightarrow> string \<Rightarrow> string \<Rightarrow> autoLabelPlan \<Rightarrow> autoError + autoLabelPlan" where
  "planAddNode name key v p =
     (case addDesired name key v (Plan_nodes p) of Inl e \<Rightarrow> Inl e | Inr m \<Rightarrow> Inr (p\<lparr>Plan_nodes := m\<rparr>))"

definition planAddSwitch :: "string \<Rightarrow> string \<Rightarrow> string \<Rightarrow> autoLabelPlan \<Rightarrow> autoError + autoLabelPlan" where
  "planAddSwitch name key v p =
     (case addDesired name key v (Plan_switches p) of Inl e \<Rightarrow> Inl e | Inr m \<Rightarrow> Inr (p\<lparr>Plan_switches := m\<rparr>))"

definition mergePlan :: "autoLabelPlan \<Rightarrow> autoLabelPlan \<Rightarrow> autoError + autoLabelPlan" where
  "mergePlan other p =
     (case efold (\<lambda>(name, ls). efold (\<lambda>(key, v). planAddNode name key v) ls) (Plan_nodes other) p of
        Inl e \<Rightarrow> Inl e
      | Inr p1 \<Rightarrow> efold (\<lambda>(name, ls). efold (\<lambda>(key, v). planAddSwitch name key v) ls) (Plan_switches other) p1)"

definition planEmpty :: "autoLabelPlan \<Rightarrow> bool" where
  "planEmpty p \<longleftrightarrow> length (Plan_nodes p) = 0 \<and> length (Plan_switches p) = 0"

subsection \<open>Discovered groups\<close>

definition sortedStringSet :: "strset \<Rightarrow> string list" where
  "sortedStringSet values = sort (mkeys values)"

definition realGroups :: "Topology \<Rightarrow> TopologyGroup list" where
  "realGroups discovered = concat (map snd (filter (\<lambda>(t, _). \<not> t < 1) (GroupsByTier discovered)))"

definition indexGroups :: "Topology \<Rightarrow> (string, TopologyGroup) gomap \<times> (string, string) gomap" where
  "indexGroups discovered = fold (\<lambda>g (byName, deviceToGroup).
     (mput (Group_Name g) g byName, fold (\<lambda>member. mput member (Group_Name g)) (Group_Members g) deviceToGroup))
     (realGroups discovered) ([], [])"

text \<open>The path of one host through its parents. Every round adds a new group to \<open>seen\<close>.\<close>

function hostPath :: "(string, string list) gomap \<Rightarrow> (string, TopologyGroup) gomap \<Rightarrow> string \<Rightarrow> string \<Rightarrow> int \<Rightarrow> strset
    \<Rightarrow> (string, strset) gomap \<Rightarrow> autoError + (string, strset) gomap" where
  "hostPath parentIndex groupsByName host current expectedTier seen nodesByGroup =
     (case mgetd [] parentIndex current of
        [] \<Rightarrow> Inr nodesByGroup
      | [parent] \<Rightarrow>
          if map_of seen parent \<noteq> None then Inl (DiscoveredCycle parent)
          else case map_of groupsByName parent of
            None \<Rightarrow> Inl (NotAGroup parent current)
          | Some g \<Rightarrow>
              if Group_Tier g \<noteq> expectedTier then Inl (DiscontinuousDiscovery host expectedTier (Group_Tier g))
              else hostPath parentIndex groupsByName host parent (expectedTier + 1) (mput parent () seen)
                     (mput parent (mput host () (mgetd [] nodesByGroup parent)) nodesByGroup)
      | parents \<Rightarrow> Inl (MultipleDiscoveredParents current parents))"
  by pat_completeness auto
termination
proof (relation "measure (\<lambda>(_, gs, _, _, _, seen, _). card (keyset gs - keyset seen))", simp, goal_cases)
  case (1 pi gs host current t seen nbg parent ps g)
  then have "parent \<in> keyset gs" "parent \<notin> keyset seen" by (auto simp: map_of_None_keyset)
  then have "keyset gs - keyset (mput parent () seen) \<subset> keyset gs - keyset seen" by auto
  then show ?case by (simp add: psubset_card_mono)
qed

declare hostPath.simps [simp del]

definition normalizeGroup :: "(string, string) gomap \<Rightarrow> (string, strset) gomap \<Rightarrow> int \<Rightarrow> TopologyGroup \<Rightarrow> discoveredGroup" where
  "normalizeGroup deviceToGroup nodesByGroup t g =
     (let lower = (if t = 1 then LowerTierNodes g
        else sortedStringSet (fold (\<lambda>device lowerSet.
               let lowerGroup = mgetd [] deviceToGroup device in
               if lowerGroup \<noteq> [] then mput lowerGroup () lowerSet else lowerSet) (LowerTierNodes g) []))
      in \<lparr>Dg_internalName = Group_Name g, Dg_tier = t, Dg_members = sort (Group_Members g),
          Dg_nodes = sortedStringSet (mgetd [] nodesByGroup (Group_Name g)), Dg_lower = sort lower\<rparr>)"

definition normalizeDiscoveredGroups :: "Topology \<Rightarrow> Host list \<Rightarrow> autoError + discoveredGroup list" where
  "normalizeDiscoveredGroups discovered hosts =
     (case indexGroups discovered of
        (groupsByName, deviceToGroup) \<Rightarrow>
          (case efold (\<lambda>host. hostPath (ParentIndex discovered) groupsByName (Host_Name host) (Host_Name host) 1 []) hosts [] of
             Inl e \<Rightarrow> Inl e
           | Inr nodesByGroup \<Rightarrow>
               Inr (concat (map (\<lambda>(t, groups). map (normalizeGroup deviceToGroup nodesByGroup t) groups)
                      (filter (\<lambda>(t, _). \<not> t < 1) (GroupsByTier discovered))))))"

subsection \<open>The plan of a role\<close>

definition wrap64 :: "int \<Rightarrow> int" where
  "wrap64 x = (x + 2 ^ 63) mod 2 ^ 64 - 2 ^ 63"

definition lockNode :: "(string, LabeledResource) gomap \<Rightarrow> string \<Rightarrow> int \<Rightarrow> string \<Rightarrow> strset \<Rightarrow> autoError + strset" where
  "lockNode nodesByName key t nodeName locked =
     (case map_of nodesByName nodeName of
        None \<Rightarrow> Inl (MissingNode nodeName)
      | Some node \<Rightarrow>
          (case map_of (Res_Labels node) key of
             None \<Rightarrow> Inr locked
           | Some v \<Rightarrow>
               (case parseAutoDomainName v t of
                  Inl e \<Rightarrow> Inl (AtLabel nodeName key e)
                | Inr _ \<Rightarrow> Inr (mput v () locked))))"

definition lockSwitch :: "(string, SwitchResource) gomap \<Rightarrow> (string, bool) gomap \<Rightarrow> int \<Rightarrow> string \<Rightarrow> strset \<Rightarrow> autoError + strset" where
  "lockSwitch switchesByName synthetic t switchName locked =
     (case map_of switchesByName switchName of
        None \<Rightarrow> if mgetd False synthetic switchName then Inr locked else Inl (MissingSwitch switchName)
      | Some sw \<Rightarrow>
          let v = mgetd [] (Sw_Labels sw) TopologyDomainLabel in
          if v = [] then Inr locked
          else case parseAutoDomainName v t of
            Inl e \<Rightarrow> Inl (AtLabel switchName TopologyDomainLabel e)
          | Inr _ \<Rightarrow> Inr (mput v () locked))"

definition planNode :: "(string, LabeledResource) gomap \<Rightarrow> string \<Rightarrow> string \<Rightarrow> string \<Rightarrow> autoLabelPlan \<Rightarrow> autoError + autoLabelPlan" where
  "planNode nodesByName key assignedName nodeName p =
     (case map_of (case map_of nodesByName nodeName of None \<Rightarrow> [] | Some node \<Rightarrow> Res_Labels node) key of
        Some current \<Rightarrow> if current \<noteq> assignedName then Inl (LockedTo nodeName current assignedName) else Inr p
      | None \<Rightarrow> planAddNode nodeName key assignedName p)"

definition planSwitch :: "(string, SwitchResource) gomap \<Rightarrow> (string, bool) gomap \<Rightarrow> string \<Rightarrow> string \<Rightarrow> autoLabelPlan
    \<Rightarrow> autoError + autoLabelPlan" where
  "planSwitch switchesByName synthetic assignedName switchName p =
     (case map_of switchesByName switchName of
        None \<Rightarrow> if mgetd False synthetic switchName then Inr p else Inl (MissingSwitch switchName)
      | Some sw \<Rightarrow>
          let current = mgetd [] (Sw_Labels sw) TopologyDomainLabel in
          if current \<noteq> [] then (if current \<noteq> assignedName then Inl (LockedTo switchName current assignedName) else Inr p)
          else planAddSwitch switchName TopologyDomainLabel assignedName p)"

type_synonym assignState = "autoLabelPlan \<times> (int, int) gomap \<times> (string, string) gomap"

definition ownerName :: "int \<Rightarrow> string \<Rightarrow> string" where
  "ownerName t internalName = ''tier'' @ Itoa t @ '':'' @ internalName"

definition chooseName :: "int \<Rightarrow> strset \<Rightarrow> (int, int) gomap \<Rightarrow> string \<times> (int, int) gomap" where
  "chooseName t locked maxByTier =
     (if length locked = 1 then (sortedStringSet locked ! 0, maxByTier)
      else let n = wrap64 (mgetd 0 maxByTier t + 1) in (autoDomainName t n, mput t n maxByTier))"

definition assignGroup :: "(string, LabeledResource) gomap \<Rightarrow> (string, SwitchResource) gomap \<Rightarrow> (string, bool) gomap \<Rightarrow> string
    \<Rightarrow> discoveredGroup \<Rightarrow> assignState \<Rightarrow> autoError + assignState" where
  "assignGroup nodesByName switchesByName synthetic key g = (\<lambda>(p, maxByTier, owners).
     case efold (lockNode nodesByName key (Dg_tier g)) (Dg_nodes g) [] of
       Inl e \<Rightarrow> Inl e
     | Inr locked1 \<Rightarrow>
       (case efold (lockSwitch switchesByName synthetic (Dg_tier g)) (Dg_members g) locked1 of
          Inl e \<Rightarrow> Inl e
        | Inr locked \<Rightarrow>
            if length locked > 1 then Inl (MultipleLocked (Dg_tier g) (sortedStringSet locked))
            else case chooseName (Dg_tier g) locked maxByTier of
              (assignedName, maxByTier') \<Rightarrow>
                let owner = ownerName (Dg_tier g) (Dg_internalName g);
                    taken = (case map_of owners assignedName of Some o' \<Rightarrow> o' \<noteq> owner | None \<Rightarrow> False)
                in if taken then Inl (NameReused assignedName)
                   else case efold (planNode nodesByName key assignedName) (Dg_nodes g) p of
                     Inl e \<Rightarrow> Inl e
                   | Inr p1 \<Rightarrow>
                       (case efold (planSwitch switchesByName synthetic assignedName) (Dg_members g) p1 of
                          Inl e \<Rightarrow> Inl e
                        | Inr p2 \<Rightarrow> Inr (p2, maxByTier', mput assignedName owner owners))))"

definition groupSortKey :: "discoveredGroup \<Rightarrow> string" where
  "groupSortKey g = Join (Dg_members g) [CHR 0x00] @ [CHR 0x01] @ Join (Dg_lower g) [CHR 0x00]"

definition assignTier :: "(string, LabeledResource) gomap \<Rightarrow> (string, SwitchResource) gomap \<Rightarrow> topologyInputs \<Rightarrow> Template
    \<Rightarrow> discoveredGroup list \<Rightarrow> int \<Rightarrow> assignState \<Rightarrow> autoError + assignState" where
  "assignTier nodesByName switchesByName inputs labelTemplate groups t st =
     (if In_nodeOnly inputs \<and> t \<noteq> 1 then Inl (NodeOnlyTier t)
      else case Render (Some labelTemplate) t of
        Inl e \<Rightarrow> Inl (RenderFailed e)
      | Inr key \<Rightarrow>
          efold (assignGroup nodesByName switchesByName (In_syntheticSwitches inputs) key)
            (sort_key groupSortKey (filter (\<lambda>g. Dg_tier g = t) groups)) st)"

definition groupTiers :: "discoveredGroup list \<Rightarrow> int list" where
  "groupTiers groups = sort (remdups (map Dg_tier groups))"

definition indexNodes :: "LabeledResource list \<Rightarrow> (string, LabeledResource) gomap" where
  "indexNodes nodes = fold (\<lambda>node. mput (Res_Name node) node) nodes []"

definition indexSwitches :: "SwitchResource list \<Rightarrow> (string, SwitchResource) gomap" where
  "indexSwitches switches = fold (\<lambda>sw. mput (Sw_Name sw) sw) switches []"

definition scanAll :: "string \<Rightarrow> Template \<Rightarrow> SwitchResource list \<Rightarrow> LabeledResource list \<Rightarrow> autoError + (int, int) gomap" where
  "scanAll role labelTemplate switches nodes =
     (case efold (scanExistingAutoNames labelTemplate) nodes [] of
        Inl e \<Rightarrow> Inl e
      | Inr maxByTier \<Rightarrow> efold scanExistingAutoMemberName (filter (\<lambda>sw. effectiveSwitchRole sw = role) switches) maxByTier)"

definition discoverGroups :: "topologyInputs \<Rightarrow> autoError + discoveredGroup list" where
  "discoverGroups inputs =
     (case DiscoverTopology (In_hosts inputs) (In_switches inputs) [WithHashGroupName, WithHashLength 40] of
        None \<Rightarrow> Inl DiscoveryPanic
      | Some discovered \<Rightarrow> normalizeDiscoveredGroups discovered (In_hosts inputs))"

definition buildAutoLabelPlan :: "string \<Rightarrow> Template \<Rightarrow> FabricNode list \<Rightarrow> SwitchResource list \<Rightarrow> LabeledResource list
    \<Rightarrow> autoError + autoLabelPlan" where
  "buildAutoLabelPlan role labelTemplate fabricNodes switches nodes =
     (case scanAll role labelTemplate switches nodes of
        Inl e \<Rightarrow> Inl e
      | Inr maxByTier \<Rightarrow>
          let nodeNames = fold (\<lambda>node. mput (Res_Name node) ()) nodes [];
              eligibleFabricNodes = filter (\<lambda>fn. map_of nodeNames (Fn_Name fn) \<noteq> None) fabricNodes
          in case buildTopologyInputsForRole role eligibleFabricNodes switches of
               Inl e \<Rightarrow> Inl (InputFailed e)
             | Inr inputs \<Rightarrow>
                 if length (In_hosts inputs) = 0 \<or> length (In_switches inputs) = 0 then Inr newAutoLabelPlan
                 else case discoverGroups inputs of
                   Inl e \<Rightarrow> Inl e
                 | Inr groups \<Rightarrow>
                     (case efold (assignTier (indexNodes nodes) (indexSwitches switches) inputs labelTemplate groups)
                             (groupTiers groups) (newAutoLabelPlan, maxByTier, []) of
                        Inl e \<Rightarrow> Inl e
                      | Inr (p, _, _) \<Rightarrow> Inr p))"

subsection \<open>Writing labels\<close>

definition setDesired :: "string \<times> string \<Rightarrow> labels \<times> bool \<Rightarrow> autoError + labels \<times> bool" where
  "setDesired = (\<lambda>(key, v) (result, changed).
     case map_of result key of
       Some current \<Rightarrow>
         if current \<noteq> [] then (if current \<noteq> v then Inl (LabelLocked key current v) else Inr (result, changed))
         else Inr (mput key v result, True)
     | None \<Rightarrow> Inr (mput key v result, True))"

definition reconcileLabelMap :: "labels \<Rightarrow> labels \<Rightarrow> (string \<Rightarrow> bool) option \<Rightarrow> autoError + labels \<times> bool" where
  "reconcileLabelMap existing desired removeLabel =
     (case removeLabel of
        None \<Rightarrow> efold setDesired desired (existing, False)
      | Some f \<Rightarrow> efold setDesired desired
          (filter (\<lambda>(key, _). \<not> f key) existing, list_ex (\<lambda>(key, _). f key) existing))"

datatype autoEffect =
    PatchNode string labels
  | PatchSwitch string labels
  | CreateTopologyWith string "string list"
  | PatchFinalizers string "string list"
  | ConflictEvent string autoError

definition patchNodeLabels :: "LabeledResource \<Rightarrow> labels \<Rightarrow> Template option \<Rightarrow> autoError + autoEffect option" where
  "patchNodeLabels object desired removeMatching =
     (case reconcileLabelMap (Res_Labels object) desired
             (map_option (\<lambda>labelTemplate key. MatchTier (Some labelTemplate) key \<noteq> None) removeMatching) of
        Inl e \<Rightarrow> Inl (AtLabel (Res_Name object) [] e)
      | Inr (ls, changed) \<Rightarrow> Inr (if \<not> changed then None else Some (PatchNode (Res_Name object) ls)))"

definition patchSwitchLabels :: "SwitchResource \<Rightarrow> labels \<Rightarrow> bool \<Rightarrow> autoError + autoEffect option" where
  "patchSwitchLabels object desired removeMatching =
     (case reconcileLabelMap (Sw_Labels object) desired
             (if removeMatching then Some (\<lambda>key. key = TopologyDomainLabel) else None) of
        Inl e \<Rightarrow> Inl (AtLabel (Sw_Name object) [] e)
      | Inr (ls, changed) \<Rightarrow> Inr (if \<not> changed then None else Some (PatchSwitch (Sw_Name object) ls)))"

text \<open>
  A sequence of writes: it stops at the first error, and what was written before stays written. The
  argument \<open>write\<close> tells which calls the API server refuses.
\<close>

fun writes :: "(autoEffect \<Rightarrow> string option) \<Rightarrow> ('a \<Rightarrow> autoError + autoEffect option) \<Rightarrow> 'a list \<Rightarrow> autoEffect list \<times> autoError option" where
  "writes write f [] = ([], None)"
| "writes write f (x # xs) =
     (case f x of
        Inl e \<Rightarrow> ([], Some e)
      | Inr None \<Rightarrow> writes write f xs
      | Inr (Some eff) \<Rightarrow>
          (case write eff of
             Some msg \<Rightarrow> ([], Some (AutoApi msg))
           | None \<Rightarrow> (case writes write f xs of (effs, r) \<Rightarrow> (eff # effs, r))))"

definition sortedNestedMapKeys :: "(string, labels) gomap \<Rightarrow> string list" where
  "sortedNestedMapKeys values = sort (mkeys values)"

definition applyNode :: "autoLabelPlan \<Rightarrow> (string, LabeledResource) gomap \<Rightarrow> string \<Rightarrow> autoError + autoEffect option" where
  "applyNode p nodesByName name =
     (case map_of nodesByName name of
        None \<Rightarrow> Inl (Disappeared name)
      | Some node \<Rightarrow> patchNodeLabels node (mgetd [] (Plan_nodes p) name) None)"

definition applySwitch :: "autoLabelPlan \<Rightarrow> (string, SwitchResource) gomap \<Rightarrow> string \<Rightarrow> autoError + autoEffect option" where
  "applySwitch p switchesByName name =
     (case map_of switchesByName name of
        None \<Rightarrow> Inl (Disappeared name)
      | Some sw \<Rightarrow> patchSwitchLabels sw (mgetd [] (Plan_switches p) name) False)"

definition applyPlan :: "(autoEffect \<Rightarrow> string option) \<Rightarrow> autoLabelPlan \<Rightarrow> LabeledResource list \<Rightarrow> SwitchResource list
    \<Rightarrow> autoEffect list \<times> autoError option" where
  "applyPlan write p nodes switches =
     (case writes write (applyNode p (indexNodes nodes)) (sortedNestedMapKeys (Plan_nodes p)) of
        (effs, Some e) \<Rightarrow> (effs, Some e)
      | (effs, None) \<Rightarrow>
          (case writes write (applySwitch p (indexSwitches switches)) (sortedNestedMapKeys (Plan_switches p)) of
             (effs', r) \<Rightarrow> (effs @ effs', r)))"

subsection \<open>Finalizers\<close>

record topologyMeta =
  Meta_Name :: string
  Meta_DeletionTimestamp :: "int option"
  Meta_Finalizers :: "string list"

definition autoTopologyFinalizer :: string where
  "autoTopologyFinalizer = ''unifabric.io/auto-discovered-topology-labels''"

definition containsString :: "string list \<Rightarrow> string \<Rightarrow> bool" where
  "containsString values target = list_ex (\<lambda>v. v = target) values"

definition removeString :: "string list \<Rightarrow> string \<Rightarrow> string list" where
  "removeString values target = filter (\<lambda>v. v \<noteq> target) values"

definition ensureTopologyFinalizer :: "topologyMeta getResult \<Rightarrow> string \<Rightarrow> bool \<Rightarrow> autoError + autoEffect option" where
  "ensureTopologyFinalizer got name createIfMissing =
     (case got of
        GetError e \<Rightarrow> Inl (AutoApi e)
      | GetNotFound \<Rightarrow> Inr (if \<not> createIfMissing then None else Some (CreateTopologyWith name [autoTopologyFinalizer]))
      | GetOk object \<Rightarrow>
          if Meta_DeletionTimestamp object \<noteq> None \<or> containsString (Meta_Finalizers object) autoTopologyFinalizer then Inr None
          else Inr (Some (PatchFinalizers (Meta_Name object) (sort (Meta_Finalizers object @ [autoTopologyFinalizer])))))"

fun releaseFinalizers :: "(autoEffect \<Rightarrow> string option) \<Rightarrow> (string \<Rightarrow> topologyMeta getResult) \<Rightarrow> string list \<Rightarrow> string list
    \<Rightarrow> autoEffect list \<times> (autoError + bool)" where
  "releaseFinalizers write get managed [] = ([], Inr False)"
| "releaseFinalizers write get managed (name # rest) =
     (if name \<in> set managed then releaseFinalizers write get managed rest
      else case get name of
        GetNotFound \<Rightarrow> releaseFinalizers write get managed rest
      | GetError e \<Rightarrow> ([], Inl (AutoApi e))
      | GetOk object \<Rightarrow>
          if \<not> containsString (Meta_Finalizers object) autoTopologyFinalizer then releaseFinalizers write get managed rest
          else let eff = PatchFinalizers (Meta_Name object) (removeString (Meta_Finalizers object) autoTopologyFinalizer) in
            (case write eff of
               Some msg \<Rightarrow> ([], Inl (AutoApi msg))
             | None \<Rightarrow> ([eff], Inr True)))"

definition releaseUnmanagedFinalizers :: "(autoEffect \<Rightarrow> string option) \<Rightarrow> (string \<Rightarrow> topologyMeta getResult) \<Rightarrow> managedTopology list
    \<Rightarrow> autoEffect list \<times> (autoError + bool)" where
  "releaseUnmanagedFinalizers write get managedTopologies =
     releaseFinalizers write get (map Mt_name managedTopologies) [TopologyScaleOut, TopologyStorage]"

definition resetTopology :: "(autoEffect \<Rightarrow> string option) \<Rightarrow> topologyMeta \<Rightarrow> Template \<Rightarrow> string \<Rightarrow> string + LabeledResource list
    \<Rightarrow> string + SwitchResource list \<Rightarrow> autoEffect list \<times> autoError option" where
  "resetTopology write object labelTemplate role nodes switches =
     (case nodes of
        Inl e \<Rightarrow> ([], Some (AutoApi e))
      | Inr ns \<Rightarrow>
          (case switches of
             Inl e \<Rightarrow> ([], Some (AutoApi e))
           | Inr sws \<Rightarrow>
               (case writes write (\<lambda>node. patchNodeLabels node [] (Some labelTemplate)) ns of
                  (effs, Some e) \<Rightarrow> (effs, Some e)
                | (effs, None) \<Rightarrow>
                    (case writes write (\<lambda>sw. patchSwitchLabels sw [] True) (filter (\<lambda>sw. effectiveSwitchRole sw = role) sws) of
                       (effs', Some e) \<Rightarrow> (effs @ effs', Some e)
                     | (effs', None) \<Rightarrow>
                         let eff = PatchFinalizers (Meta_Name object) (removeString (Meta_Finalizers object) autoTopologyFinalizer) in
                         (case write eff of
                            Some msg \<Rightarrow> (effs @ effs', Some (AutoApi msg))
                          | None \<Rightarrow> (effs @ effs' @ [eff], None))))))"

subsection \<open>Reconcile\<close>

definition configuredManagedTopologies :: "bool \<Rightarrow> bool \<Rightarrow> Set \<Rightarrow> managedTopology list" where
  "configuredManagedTopologies manageScaleOut manageStorage templates =
     (if manageScaleOut then [\<lparr>Mt_name = TopologyScaleOut, Mt_role = SwitchRoleScaleOut, Mt_labelTemplate = ScaleOut templates\<rparr>] else [])
   @ (if manageStorage then [\<lparr>Mt_name = TopologyStorage, Mt_role = SwitchRoleStorage, Mt_labelTemplate = Storage templates\<rparr>] else [])"

text \<open>
  The answers of the API server during one reconcile: the reads of topology objects by the release
  loop, by the deletion loop and by the finalizer step, the lists for a reset and for the plan, and
  the refused writes.
\<close>

record autoView =
  Av_release :: "string \<Rightarrow> topologyMeta getResult"
  Av_get :: "string \<Rightarrow> topologyMeta getResult"
  Av_ensure :: "string \<Rightarrow> topologyMeta getResult"
  Av_report :: "string \<Rightarrow> bool"
  Av_resetNodes :: "string + LabeledResource list"
  Av_resetSwitches :: "string + SwitchResource list"
  Av_fabricNodes :: "string + FabricNode list"
  Av_switches :: "string + SwitchResource list"
  Av_nodes :: "string + LabeledResource list"
  Av_write :: "autoEffect \<Rightarrow> string option"

datatype autoResult = AutoRequeue int | AutoFailed autoError

definition second :: int where "second = 1000000000"
definition autoTopologyResync :: int where "autoTopologyResync = 5 * 60 * second"

text \<open>The loop over deleted topologies; \<open>None\<close> when no managed topology is being deleted.\<close>

fun checkDeleted :: "autoView \<Rightarrow> managedTopology list \<Rightarrow> (autoEffect list \<times> autoResult) option" where
  "checkDeleted view [] = None"
| "checkDeleted view (mt # rest) =
     (case Av_get view (Mt_name mt) of
        GetNotFound \<Rightarrow> checkDeleted view rest
      | GetError e \<Rightarrow> Some ([], AutoFailed (AutoApi e))
      | GetOk object \<Rightarrow>
          if Meta_DeletionTimestamp object = None then checkDeleted view rest
          else if containsString (Meta_Finalizers object) autoTopologyFinalizer then
            (case resetTopology (Av_write view) object (Mt_labelTemplate mt) (Mt_role mt) (Av_resetNodes view) (Av_resetSwitches view) of
               (effs, Some e) \<Rightarrow> Some (effs, AutoFailed e)
             | (effs, None) \<Rightarrow> Some (effs, AutoRequeue second))
          else Some ([], AutoRequeue second))"

definition reportConflict :: "autoView \<Rightarrow> string \<Rightarrow> autoError \<Rightarrow> autoEffect list" where
  "reportConflict view name e = (if Av_report view name then [ConflictEvent name e] else [])"

fun planAll :: "autoView \<Rightarrow> FabricNode list \<Rightarrow> SwitchResource list \<Rightarrow> LabeledResource list \<Rightarrow> managedTopology list \<Rightarrow> autoLabelPlan
    \<Rightarrow> autoEffect list \<times> (autoError + autoLabelPlan)" where
  "planAll view fabricNodes switches nodes [] p = ([], Inr p)"
| "planAll view fabricNodes switches nodes (mt # rest) p =
     (case buildAutoLabelPlan (Mt_role mt) (Mt_labelTemplate mt) fabricNodes switches nodes of
        Inl e \<Rightarrow> (reportConflict view (Mt_name mt) e, Inl e)
      | Inr rolePlan \<Rightarrow>
          (case writes (Av_write view) (\<lambda>_. ensureTopologyFinalizer (Av_ensure view (Mt_name mt)) (Mt_name mt) (\<not> planEmpty rolePlan)) [()] of
             (effs, Some e) \<Rightarrow> (effs, Inl e)
           | (effs, None) \<Rightarrow>
               (case mergePlan rolePlan p of
                  Inl e \<Rightarrow> (effs @ reportConflict view (Mt_name mt) e, Inl e)
                | Inr p' \<Rightarrow>
                    (case planAll view fabricNodes switches nodes rest p' of (effs', r) \<Rightarrow> (effs @ effs', r)))))"

definition planAndApply :: "autoView \<Rightarrow> managedTopology list \<Rightarrow> FabricNode list \<Rightarrow> SwitchResource list \<Rightarrow> LabeledResource list
    \<Rightarrow> autoEffect list \<times> autoResult" where
  "planAndApply view managed fabricNodes switches nodes =
     (case planAll view fabricNodes switches nodes managed newAutoLabelPlan of
        (effs, Inl e) \<Rightarrow> (effs, AutoFailed e)
      | (effs, Inr p) \<Rightarrow>
          (case applyPlan (Av_write view) p nodes switches of
             (effs', Some e) \<Rightarrow> (effs @ effs', AutoFailed e)
           | (effs', None) \<Rightarrow> (effs @ effs', AutoRequeue autoTopologyResync)))"

definition autoReconcile :: "autoView \<Rightarrow> managedTopology list \<Rightarrow> autoEffect list \<times> autoResult" where
  "autoReconcile view managed =
     (case releaseUnmanagedFinalizers (Av_write view) (Av_release view) managed of
        (effs, Inl e) \<Rightarrow> (effs, AutoFailed e)
      | (effs, Inr True) \<Rightarrow> (effs, AutoRequeue second)
      | (effs, Inr False) \<Rightarrow>
          (case checkDeleted view managed of
             Some r \<Rightarrow> r
           | None \<Rightarrow>
               (case Av_fabricNodes view of
                  Inl e \<Rightarrow> ([], AutoFailed (AutoApi e))
                | Inr fabricNodes \<Rightarrow>
                    (case Av_switches view of
                       Inl e \<Rightarrow> ([], AutoFailed (AutoApi e))
                     | Inr switches \<Rightarrow>
                         (case Av_nodes view of
                            Inl e \<Rightarrow> ([], AutoFailed (AutoApi e))
                          | Inr nodes \<Rightarrow> planAndApply view managed fabricNodes switches nodes)))))"

subsection \<open>Fingerprints and watches\<close>

record nicInputFingerprint =
  Nf_State :: string
  Nf_Hostname :: string
  Nf_Port :: string

record fabricNodeInputFingerprint =
  Ff_Role :: string
  Ff_ScaleOut :: "nicInputFingerprint list"
  Ff_Storage :: "nicInputFingerprint list"

fun dropRepeated :: "'a list \<Rightarrow> 'a list" where
  "dropRepeated (x # y # ys) = (if y = x then dropRepeated (y # ys) else x # dropRepeated (y # ys))"
| "dropRepeated xs = xs"

definition nicFingerprints :: "NicInfo list \<Rightarrow> nicInputFingerprint list" where
  "nicFingerprints nics = dropRepeated (sort_key (\<lambda>f. (Nf_Hostname f, Nf_Port f, Nf_State f))
     (map (\<lambda>nic. \<lparr>Nf_State = Nic_State nic, Nf_Hostname = Nic_Hostname nic, Nf_Port = Nic_Port nic\<rparr>) nics))"

definition fabricNodeFingerprint :: "FabricNode \<Rightarrow> fabricNodeInputFingerprint" where
  "fabricNodeFingerprint node = \<lparr>Ff_Role = Fn_NodeRole node, Ff_ScaleOut = nicFingerprints (Fn_ScaleOutNics node),
     Ff_Storage = nicFingerprints (Fn_StorageNics node)\<rparr>"

record switchInputFingerprint =
  Sf_Role :: string
  Sf_Hostname :: string
  Sf_HasManualNeighbors :: bool
  Sf_ManualNeighbors :: string
  Sf_Neighbors :: "SwitchNeighbor list"

definition switchFingerprint :: "SwitchResource \<Rightarrow> switchInputFingerprint" where
  "switchFingerprint sw =
     \<lparr>Sf_Role = Sw_Role sw, Sf_Hostname = Sw_Hostname sw,
      Sf_HasManualNeighbors = (map_of (Sw_Annotations sw) SwitchNeighborsAnnotation \<noteq> None),
      Sf_ManualNeighbors = mgetd [] (Sw_Annotations sw) SwitchNeighborsAnnotation,
      Sf_Neighbors = dropRepeated (sort_key (\<lambda>n. (Nb_RemoteSystemName n, Nb_RemoteSystemType n)) (Sw_LLDPNeighbors sw))\<rparr>"

datatype 'a objectEvent = ObjectCreate 'a | ObjectDelete 'a | ObjectGeneric 'a | ObjectUpdate 'a 'a

fun fabricNodeTopologyInputPredicate :: "FabricNode objectEvent \<Rightarrow> bool" where
  "fabricNodeTopologyInputPredicate (ObjectUpdate old new) \<longleftrightarrow> fabricNodeFingerprint old \<noteq> fabricNodeFingerprint new"
| "fabricNodeTopologyInputPredicate _ \<longleftrightarrow> True"

fun switchTopologyInputPredicate :: "SwitchResource objectEvent \<Rightarrow> bool" where
  "switchTopologyInputPredicate (ObjectUpdate old new) \<longleftrightarrow> switchFingerprint old \<noteq> switchFingerprint new"
| "switchTopologyInputPredicate _ \<longleftrightarrow> True"

definition ownedTopology :: "topologyMeta \<Rightarrow> bool" where
  "ownedTopology object \<longleftrightarrow> Meta_Name object = TopologyScaleOut \<or> Meta_Name object = TopologyStorage"

fun autoTopologyPredicate :: "topologyMeta objectEvent \<Rightarrow> bool" where
  "autoTopologyPredicate (ObjectCreate object) = ownedTopology object"
| "autoTopologyPredicate (ObjectDelete object) = ownedTopology object"
| "autoTopologyPredicate (ObjectGeneric object) = ownedTopology object"
| "autoTopologyPredicate (ObjectUpdate old new) =
     (if \<not> ownedTopology new then False
      else Meta_DeletionTimestamp old \<noteq> Meta_DeletionTimestamp new \<or> Meta_Finalizers old \<noteq> Meta_Finalizers new)"

subsection \<open>Names round trip\<close>

lemma takeWhile_digits: "list_all isDigit d \<Longrightarrow> \<not> isDigit c \<Longrightarrow> takeWhile isDigit (d @ c # r) = d \<and> dropWhile isDigit (d @ c # r) = c # r"
  by (induction d) simp_all

lemma not_isDigit_dash [simp]: "\<not> isDigit (CHR ''-'')"
  by (simp add: isDigit_def less_eq_char_def)

lemma autoDomainMatch_iff:
  "autoDomainMatch s = Some (a, b) \<longleftrightarrow> isTierDigits a \<and> isTierDigits b \<and> s = ''tier'' @ a @ ''-group'' @ b"
proof
  assume m: "autoDomainMatch s = Some (a, b)"
  let ?r = "drop 4 s"
  have p: "take 4 s = ''tier''" "a = takeWhile isDigit ?r" "isTierDigits a" "take 6 (dropWhile isDigit ?r) = ''-group''"
    "b = drop 6 (dropWhile isDigit ?r)" "isTierDigits b"
    using m by (auto simp: autoDomainMatch_def Let_def split: if_splits)
  have "dropWhile isDigit ?r = ''-group'' @ b" using p(4,5) by (metis append_take_drop_id)
  then have "?r = a @ ''-group'' @ b" using p(2) by (metis takeWhile_dropWhile_id)
  then have "s = ''tier'' @ a @ ''-group'' @ b" using p(1) by (metis append_take_drop_id)
  then show "isTierDigits a \<and> isTierDigits b \<and> s = ''tier'' @ a @ ''-group'' @ b" using p by blast
next
  assume h: "isTierDigits a \<and> isTierDigits b \<and> s = ''tier'' @ a @ ''-group'' @ b"
  then have "list_all isDigit a" by (simp add: isTierDigits_list_all)
  from takeWhile_digits[OF this, of "CHR ''-''" "''group'' @ b"] h
  show "autoDomainMatch s = Some (a, b)" by (simp add: autoDomainMatch_def)
qed

lemma Atoi_tierDigits: "isTierDigits d \<and> Atoi d = Some n \<and> 1 \<le> n \<longleftrightarrow> 1 \<le> n \<and> n < 2 ^ 63 \<and> d = Itoa n"
proof
  assume d: "isTierDigits d \<and> Atoi d = Some n \<and> 1 \<le> n"
  then have "d \<noteq> []" "list_all isDigit d" by (auto simp: isTierDigits_list_all isTierDigits_def)
  then have "n = int (digits_val d)" "digits_val d < 2 ^ 63" using d by (auto simp: Atoi_digits split: if_splits)
  then show "1 \<le> n \<and> n < 2 ^ 63 \<and> d = Itoa n" using d nat_str_digits_val[of d] by (simp add: Itoa_def)
next
  assume "1 \<le> n \<and> n < 2 ^ 63 \<and> d = Itoa n"
  then show "isTierDigits d \<and> Atoi d = Some n \<and> 1 \<le> n"
    using Atoi_Itoa[of n] isTierDigits_nat_str[of "nat n"] by (simp add: Itoa_def)
qed

lemma parseAutoDomainNameParts_iff:
  "parseAutoDomainNameParts s = Inr (t, g) \<longleftrightarrow> 1 \<le> t \<and> t < 2 ^ 63 \<and> 1 \<le> g \<and> g < 2 ^ 63 \<and> s = autoDomainName t g"
proof -
  have "parseAutoDomainNameParts s = Inr (t, g) \<longleftrightarrow>
      (\<exists>a b. autoDomainMatch s = Some (a, b) \<and> Atoi a = Some t \<and> 1 \<le> t \<and> Atoi b = Some g \<and> 1 \<le> g)"
    by (auto simp: parseAutoDomainNameParts_def split: option.splits)
  also have "\<dots> \<longleftrightarrow> (\<exists>a b. (isTierDigits a \<and> Atoi a = Some t \<and> 1 \<le> t) \<and> (isTierDigits b \<and> Atoi b = Some g \<and> 1 \<le> g)
      \<and> s = ''tier'' @ a @ ''-group'' @ b)"
    unfolding autoDomainMatch_iff by blast
  also have "\<dots> \<longleftrightarrow> 1 \<le> t \<and> t < 2 ^ 63 \<and> 1 \<le> g \<and> g < 2 ^ 63 \<and> s = autoDomainName t g"
    unfolding Atoi_tierDigits autoDomainName_def by blast
  finally show ?thesis .
qed

text \<open>
  the names \<open>tierN-groupM\<close> with positive 64-bit numbers are exactly the names that the
  parser accepts, and parsing recovers the two numbers.
\<close>

theorem autoDomainName_roundtrip:
  "parseAutoDomainNameParts s = Inr (t, g) \<longleftrightarrow> 1 \<le> t \<and> t < 2 ^ 63 \<and> 1 \<le> g \<and> g < 2 ^ 63 \<and> s = autoDomainName t g"
  by (rule parseAutoDomainNameParts_iff)

text \<open>
  The number of a new group is one more than the largest in use, without a check for overflow.
  After the accepted name with the largest 64-bit number the next name is negative and is rejected by the parser.
\<close>

lemma chooseName_overflow:
  "parseAutoDomainNameParts (autoDomainName 1 (2 ^ 63 - 1)) = Inr (1, 2 ^ 63 - 1)
   \<and> fst (chooseName 1 [] (raiseMax 1 (2 ^ 63 - 1) [])) = ''tier1-group-9223372036854775808''
   \<and> parseAutoDomainNameParts (fst (chooseName 1 [] (raiseMax 1 (2 ^ 63 - 1) []))) = Inl (NotAutoName ''tier1-group-9223372036854775808'')"
proof -
  have "fst (chooseName 1 [] (raiseMax 1 (2 ^ 63 - 1) [])) = ''tier1-group-9223372036854775808''"
    by (simp add: chooseName_def raiseMax_def wrap64_def autoDomainName_def Itoa_def nat_str.simps digit_char_def) (intro conjI; code_simp)
  moreover have "parseAutoDomainNameParts ''tier1-group-9223372036854775808'' = Inl (NotAutoName ''tier1-group-9223372036854775808'')"
    by (simp add: parseAutoDomainNameParts_def autoDomainMatch_def isTierDigits_def isDigit_def less_eq_char_def)
  ultimately show ?thesis unfolding parseAutoDomainNameParts_iff by simp
qed

subsection \<open>Label maps\<close>

definition lockedConflict :: "(string \<rightharpoonup> string) \<Rightarrow> labels \<Rightarrow> bool" where
  "lockedConflict base desired \<longleftrightarrow>
     (\<exists>key v current. map_of desired key = Some v \<and> base key = Some current \<and> current \<noteq> [] \<and> current \<noteq> v)"

lemma lockedConflict_Cons:
  assumes "map_of desired key = None"
  shows "lockedConflict b ((key, v) # desired) \<longleftrightarrow> (\<exists>current. b key = Some current \<and> current \<noteq> [] \<and> current \<noteq> v) \<or> lockedConflict b desired"
proof
  assume "lockedConflict b ((key, v) # desired)"
  then obtain k w current where "map_of ((key, v) # desired) k = Some w" "b k = Some current" "current \<noteq> []" "current \<noteq> w"
    unfolding lockedConflict_def by blast
  then show "(\<exists>current. b key = Some current \<and> current \<noteq> [] \<and> current \<noteq> v) \<or> lockedConflict b desired"
    unfolding lockedConflict_def by (cases "k = key") auto
next
  assume "(\<exists>current. b key = Some current \<and> current \<noteq> [] \<and> current \<noteq> v) \<or> lockedConflict b desired"
  then obtain k w current where "map_of ((key, v) # desired) k = Some w" "b k = Some current" "current \<noteq> []" "current \<noteq> w"
  proof (elim disjE exE conjE)
    fix current assume "b key = Some current" "current \<noteq> []" "current \<noteq> v"
    then show thesis using that[of key v current] by simp
  next
    assume "lockedConflict b desired"
    then obtain k w current where "map_of desired k = Some w" "b k = Some current" "current \<noteq> []" "current \<noteq> w"
      unfolding lockedConflict_def by blast
    then show thesis using that[of k w current] assms by (cases "k = key") auto
  qed
  then show "lockedConflict b ((key, v) # desired)" unfolding lockedConflict_def by blast
qed

lemma lockedConflict_upd: "map_of desired key = None \<Longrightarrow> lockedConflict (b(key \<mapsto> v)) desired \<longleftrightarrow> lockedConflict b desired"
  unfolding lockedConflict_def by (metis fun_upd_apply option.distinct(1))

lemma setDesired_fold:
  "mwf desired \<Longrightarrow> case efold setDesired desired (base, c) of
      Inl e \<Rightarrow> lockedConflict (map_of base) desired
    | Inr (r, c') \<Rightarrow> \<not> lockedConflict (map_of base) desired \<and> (\<forall>k. map_of r k = (case map_of desired k of Some v \<Rightarrow> Some v | None \<Rightarrow> map_of base k))
        \<and> (c' \<or> (\<not> c \<and> map_of r = map_of base)) \<and> (c \<longrightarrow> c')"
proof (induction desired arbitrary: base c)
  case Nil
  then show ?case by (auto simp: lockedConflict_def)
next
  case (Cons kv desired)
  obtain key v where kv: "kv = (key, v)" by (cases kv)
  have wf: "mwf desired" and fresh: "map_of desired key = None"
    using Cons.prems kv by (auto simp: map_of_None_keyset keyset_def)
  show ?case
  proof (cases "\<exists>current. map_of base key = Some current \<and> current \<noteq> []")
    case True
    then obtain current where cur: "map_of base key = Some current" "current \<noteq> []" by blast
    show ?thesis
    proof (cases "current = v")
      case False
      then have "lockedConflict (map_of base) (kv # desired)" unfolding kv lockedConflict_Cons[OF fresh] using cur by blast
      then show ?thesis using cur False by (simp add: kv setDesired_def)
    next
      case same: True
      have conf: "lockedConflict (map_of base) (kv # desired) \<longleftrightarrow> lockedConflict (map_of base) desired"
        unfolding kv lockedConflict_Cons[OF fresh] using cur same by auto
      have ov: "(case map_of (kv # desired) k of Some w \<Rightarrow> Some w | None \<Rightarrow> map_of base k)
          = (case map_of desired k of Some w \<Rightarrow> Some w | None \<Rightarrow> map_of base k)" for k
        using cur same fresh kv by (cases "k = key") simp_all
      have "setDesired kv (base, c) = Inr (base, c)" using cur same by (simp add: kv setDesired_def)
      then have "efold setDesired (kv # desired) (base, c) = efold setDesired desired (base, c)" by simp
      then show ?thesis using Cons.IH[OF wf, of base c] unfolding conf ov by (simp only:)
    qed
  next
    case False
    have step: "setDesired kv (base, c) = Inr (mput key v base, True)"
      using False by (auto simp: kv setDesired_def split: option.splits)
    have conf: "lockedConflict (map_of base) (kv # desired) \<longleftrightarrow> lockedConflict (map_of (mput key v base)) desired"
      unfolding kv lockedConflict_Cons[OF fresh] map_of_mput lockedConflict_upd[OF fresh] using False by blast
    have ov: "(case map_of (kv # desired) k of Some w \<Rightarrow> Some w | None \<Rightarrow> map_of base k)
        = (case map_of desired k of Some w \<Rightarrow> Some w | None \<Rightarrow> map_of (mput key v base) k)" for k
      using fresh kv by (cases "k = key") (simp_all split: option.splits)
    have e: "efold setDesired (kv # desired) (base, c) = efold setDesired desired (mput key v base, True)" using step by simp
    show ?thesis using Cons.IH[OF wf, of "mput key v base" True] unfolding conf ov e
      by (cases "efold setDesired desired (mput key v base, True)") (simp_all del: map_of_mput split: prod.splits)
  qed
qed

lemma map_of_filter_key: "map_of (filter (\<lambda>(k, _). \<not> f k) m) k = (if f k then None else map_of m k)"
  by (induction m) auto

text \<open>
  label maps are updated without replacing a label. After the removable labels are taken
  away, the update fails exactly when a remaining non-empty label differs from its desired value; otherwise the
  result holds every desired value and every other remaining label, and an unchanged flag means an unchanged map.
\<close>

theorem reconcileLabelMap_locked:
  assumes "mwf desired"
  shows "let base = (\<lambda>k. if (case removeLabel of None \<Rightarrow> False | Some f \<Rightarrow> f k) then None else map_of existing k) in
    case reconcileLabelMap existing desired removeLabel of
      Inl e \<Rightarrow> lockedConflict base desired
    | Inr (r, changed) \<Rightarrow> \<not> lockedConflict base desired
        \<and> (\<forall>k. map_of r k = (case map_of desired k of Some v \<Rightarrow> Some v | None \<Rightarrow> base k))
        \<and> (changed \<or> map_of r = map_of existing)"
proof (cases removeLabel)
  case None
  then show ?thesis using setDesired_fold[OF assms, of existing False] by (auto simp: reconcileLabelMap_def split: sum.splits)
next
  case (Some f)
  let ?m = "filter (\<lambda>(key, _). \<not> f key) existing" and ?c = "list_ex (\<lambda>(key, _). f key) existing"
  have base: "map_of ?m = (\<lambda>k. if f k then None else map_of existing k)" by (rule ext) (rule map_of_filter_key)
  have same: "map_of ?m = map_of existing" if "\<not> ?c"
  proof -
    have "?m = existing" using that by (auto simp: list_ex_iff filter_id_conv)
    then show ?thesis by simp
  qed
  show ?thesis
  proof (cases "efold setDesired desired (?m, ?c)")
    case (Inl e)
    then show ?thesis using setDesired_fold[OF assms, of ?m ?c] base Some by (simp add: reconcileLabelMap_def Let_def)
  next
    case (Inr rc)
    obtain r c' where rc: "rc = (r, c')" by (cases rc)
    note f = setDesired_fold[OF assms, of ?m ?c, unfolded Inr rc sum.case prod.case]
    have "c' \<or> map_of r = map_of existing" using f same by metis
    then show ?thesis using f Inr rc Some unfolding base by (simp add: reconcileLabelMap_def Let_def)
  qed
qed

theorem reconcileLabelMap_locked_witness:
  "\<exists>e. reconcileLabelMap [(''a'', ''x'')] [(''a'', ''y'')] None = Inl e"
proof -
  have "lockedConflict (\<lambda>k. if k = ''a'' then Some ''x'' else None) [(''a'', ''y'')]"
    unfolding lockedConflict_def by (intro exI[of _ "''a''"] exI[of _ "''y''"] exI[of _ "''x''"]) simp
  then show ?thesis
    using reconcileLabelMap_locked[of "[(''a'', ''y'')]" None "[(''a'', ''x'')]"]
    by (cases "reconcileLabelMap [(''a'', ''x'')] [(''a'', ''y'')] None") (auto simp: Let_def)
qed

subsection \<open>What a plan assigns\<close>

definition desiredAt :: "(string, labels) gomap \<Rightarrow> string \<Rightarrow> string \<Rightarrow> string option" where
  "desiredAt m name key = map_of (mgetd [] m name) key"

lemma addDesired_Inr:
  assumes "addDesired name key v m = Inr m'"
  shows "desiredAt m name key = None \<or> desiredAt m name key = Some v"
    "desiredAt m' x k = Some w \<longleftrightarrow> desiredAt m x k = Some w \<or> (x = name \<and> k = key \<and> w = v)"
proof -
  show c: "desiredAt m name key = None \<or> desiredAt m name key = Some v"
    using assms by (auto simp: addDesired_def Let_def desiredAt_def split: option.splits if_splits)
  have "m' = mput name (mput key v (mgetd [] m name)) m"
    using assms by (auto simp: addDesired_def Let_def split: option.splits if_splits)
  then have "desiredAt m' x k = (if x = name \<and> k = key then Some v else desiredAt m x k)" by (simp add: desiredAt_def)
  then show "desiredAt m' x k = Some w \<longleftrightarrow> desiredAt m x k = Some w \<or> (x = name \<and> k = key \<and> w = v)" using c by auto
qed

definition nodeLabelAt :: "(string, LabeledResource) gomap \<Rightarrow> string \<Rightarrow> string \<Rightarrow> string option" where
  "nodeLabelAt nodesByName x key = (case map_of nodesByName x of None \<Rightarrow> None | Some node \<Rightarrow> map_of (Res_Labels node) key)"

definition switchLabelAt :: "(string, SwitchResource) gomap \<Rightarrow> string \<Rightarrow> string" where
  "switchLabelAt switchesByName x = (case map_of switchesByName x of None \<Rightarrow> [] | Some sw \<Rightarrow> mgetd [] (Sw_Labels sw) TopologyDomainLabel)"

lemma planNode_Inr:
  assumes "planNode nodesByName key n x p = Inr p'"
  shows "nodeLabelAt nodesByName x key = None \<or> nodeLabelAt nodesByName x key = Some n" "Plan_switches p' = Plan_switches p"
    "desiredAt (Plan_nodes p') y k = Some w \<longleftrightarrow> desiredAt (Plan_nodes p) y k = Some w
       \<or> (y = x \<and> k = key \<and> w = n \<and> nodeLabelAt nodesByName x key = None)"
proof -
  have l: "map_of (case map_of nodesByName x of None \<Rightarrow> [] | Some node \<Rightarrow> Res_Labels node) key = nodeLabelAt nodesByName x key"
    by (simp add: nodeLabelAt_def split: option.splits)
  consider "nodeLabelAt nodesByName x key = Some n" "p' = p"
    | m where "nodeLabelAt nodesByName x key = None" "addDesired x key n (Plan_nodes p) = Inr m" "p' = p\<lparr>Plan_nodes := m\<rparr>"
    using assms unfolding planNode_def planAddNode_def l by (auto split: option.splits if_splits sum.splits)
  then show "nodeLabelAt nodesByName x key = None \<or> nodeLabelAt nodesByName x key = Some n" "Plan_switches p' = Plan_switches p"
    "desiredAt (Plan_nodes p') y k = Some w \<longleftrightarrow> desiredAt (Plan_nodes p) y k = Some w
       \<or> (y = x \<and> k = key \<and> w = n \<and> nodeLabelAt nodesByName x key = None)"
    by (cases; simp add: addDesired_Inr(2))+
qed

lemma planSwitch_Inr:
  assumes "planSwitch switchesByName syn n x p = Inr p'"
  shows "(map_of switchesByName x = None \<and> mgetd False syn x)
      \<or> (map_of switchesByName x \<noteq> None \<and> (switchLabelAt switchesByName x = [] \<or> switchLabelAt switchesByName x = n))"
    "Plan_nodes p' = Plan_nodes p"
    "desiredAt (Plan_switches p') y k = Some w \<longleftrightarrow> desiredAt (Plan_switches p) y k = Some w
       \<or> (y = x \<and> k = TopologyDomainLabel \<and> w = n \<and> map_of switchesByName x \<noteq> None \<and> switchLabelAt switchesByName x = [])"
proof -
  consider "map_of switchesByName x = None" "mgetd False syn x" "p' = p"
    | "map_of switchesByName x \<noteq> None" "switchLabelAt switchesByName x = n" "n \<noteq> []" "p' = p"
    | m where "map_of switchesByName x \<noteq> None" "switchLabelAt switchesByName x = []"
        "addDesired x TopologyDomainLabel n (Plan_switches p) = Inr m" "p' = p\<lparr>Plan_switches := m\<rparr>"
    using assms by (auto simp: planSwitch_def planAddSwitch_def Let_def switchLabelAt_def split: option.splits if_splits sum.splits)
  then show "(map_of switchesByName x = None \<and> mgetd False syn x)
      \<or> (map_of switchesByName x \<noteq> None \<and> (switchLabelAt switchesByName x = [] \<or> switchLabelAt switchesByName x = n))"
    "Plan_nodes p' = Plan_nodes p"
    "desiredAt (Plan_switches p') y k = Some w \<longleftrightarrow> desiredAt (Plan_switches p) y k = Some w
       \<or> (y = x \<and> k = TopologyDomainLabel \<and> w = n \<and> map_of switchesByName x \<noteq> None \<and> switchLabelAt switchesByName x = [])"
    by (cases; simp add: addDesired_Inr(2))+
qed

lemma planNodes_Inr:
  "efold (planNode nodesByName key n) xs p = Inr p' \<Longrightarrow>
     (\<forall>x\<in>set xs. nodeLabelAt nodesByName x key = None \<or> nodeLabelAt nodesByName x key = Some n) \<and> Plan_switches p' = Plan_switches p
   \<and> (\<forall>y k w. desiredAt (Plan_nodes p') y k = Some w \<longleftrightarrow> desiredAt (Plan_nodes p) y k = Some w
        \<or> (y \<in> set xs \<and> k = key \<and> w = n \<and> nodeLabelAt nodesByName y key = None))"
proof (induction xs arbitrary: p)
  case (Cons x xs)
  then obtain p1 where p1: "planNode nodesByName key n x p = Inr p1" "efold (planNode nodesByName key n) xs p1 = Inr p'"
    by (auto split: sum.splits)
  note a = planNode_Inr[OF p1(1)] and b = Cons.IH[OF p1(2)]
  show ?case using a b by auto
qed simp

lemma planSwitches_Inr:
  "efold (planSwitch switchesByName syn n) xs p = Inr p' \<Longrightarrow>
     (\<forall>x\<in>set xs. (map_of switchesByName x = None \<and> mgetd False syn x)
        \<or> (map_of switchesByName x \<noteq> None \<and> (switchLabelAt switchesByName x = [] \<or> switchLabelAt switchesByName x = n)))
   \<and> Plan_nodes p' = Plan_nodes p
   \<and> (\<forall>y k w. desiredAt (Plan_switches p') y k = Some w \<longleftrightarrow> desiredAt (Plan_switches p) y k = Some w
        \<or> (y \<in> set xs \<and> k = TopologyDomainLabel \<and> w = n \<and> map_of switchesByName y \<noteq> None \<and> switchLabelAt switchesByName y = []))"
proof (induction xs arbitrary: p)
  case (Cons x xs)
  then obtain p1 where p1: "planSwitch switchesByName syn n x p = Inr p1" "efold (planSwitch switchesByName syn n) xs p1 = Inr p'"
    by (auto split: sum.splits)
  note a = planSwitch_Inr[OF p1(1)] and b = Cons.IH[OF p1(2)]
  show ?case using a b by auto
qed simp

definition groupOk :: "(string, LabeledResource) gomap \<Rightarrow> (string, SwitchResource) gomap \<Rightarrow> (string, bool) gomap \<Rightarrow> string
    \<Rightarrow> discoveredGroup \<Rightarrow> string \<Rightarrow> bool" where
  "groupOk nodesByName switchesByName syn key g n \<longleftrightarrow>
     list_all (\<lambda>x. map_of nodesByName x \<noteq> None \<and> (nodeLabelAt nodesByName x key = None \<or> nodeLabelAt nodesByName x key = Some n)) (Dg_nodes g)
   \<and> list_all (\<lambda>x. (map_of switchesByName x = None \<and> mgetd False syn x)
        \<or> (map_of switchesByName x \<noteq> None \<and> (switchLabelAt switchesByName x = [] \<or> switchLabelAt switchesByName x = n))) (Dg_members g)"

lemma lockNodes_exist: "efold (lockNode nodesByName key t) xs l = Inr l' \<Longrightarrow> x \<in> set xs \<Longrightarrow> map_of nodesByName x \<noteq> None"
proof (induction xs arbitrary: l)
  case (Cons y ys)
  then obtain l1 where "lockNode nodesByName key t y l = Inr l1" "efold (lockNode nodesByName key t) ys l1 = Inr l'"
    by (auto split: sum.splits)
  then show ?case using Cons by (auto simp: lockNode_def split: option.splits)
qed simp

abbreviation groupOwner :: "discoveredGroup \<Rightarrow> string" where
  "groupOwner g \<equiv> ownerName (Dg_tier g) (Dg_internalName g)"

lemma assignGroup_Inr:
  assumes "assignGroup nodesByName switchesByName syn key g (p, mx, owners) = Inr (p', mx', owners')"
  shows "\<exists>n. groupOk nodesByName switchesByName syn key g n
    \<and> (map_of owners n = None \<or> map_of owners n = Some (groupOwner g)) \<and> owners' = mput n (groupOwner g) owners
    \<and> (\<forall>y k w. desiredAt (Plan_nodes p') y k = Some w \<longleftrightarrow> desiredAt (Plan_nodes p) y k = Some w
         \<or> (y \<in> set (Dg_nodes g) \<and> k = key \<and> w = n \<and> nodeLabelAt nodesByName y key = None))
    \<and> (\<forall>y k w. desiredAt (Plan_switches p') y k = Some w \<longleftrightarrow> desiredAt (Plan_switches p) y k = Some w
         \<or> (y \<in> set (Dg_members g) \<and> k = TopologyDomainLabel \<and> w = n \<and> map_of switchesByName y \<noteq> None \<and> switchLabelAt switchesByName y = []))"
proof -
  obtain l1 n p1 where s: "efold (lockNode nodesByName key (Dg_tier g)) (Dg_nodes g) [] = Inr l1"
    "map_of owners n = None \<or> map_of owners n = Some (groupOwner g)" "owners' = mput n (groupOwner g) owners"
    "efold (planNode nodesByName key n) (Dg_nodes g) p = Inr p1" "efold (planSwitch switchesByName syn n) (Dg_members g) p1 = Inr p'"
    using assms by (auto simp: assignGroup_def Let_def split: sum.splits if_splits prod.splits option.splits)
  note a = planNodes_Inr[OF s(4)] and b = planSwitches_Inr[OF s(5)]
  have "groupOk nodesByName switchesByName syn key g n"
    using a[THEN conjunct1] b[THEN conjunct1] lockNodes_exist[OF s(1)] by (simp add: groupOk_def list_all_iff)
  then show ?thesis using s(2,3) a[THEN conjunct2] b[THEN conjunct2] by (intro exI[of _ n] conjI) simp_all
qed

type_synonym assignment = "(discoveredGroup \<times> string) set"

definition tierKey :: "Template \<Rightarrow> int \<Rightarrow> string" where
  "tierKey labelTemplate t = (case Render (Some labelTemplate) t of Inl _ \<Rightarrow> [] | Inr key \<Rightarrow> key)"

text \<open>A plan is the missing labels of an assignment \<open>A\<close> of names to groups: \<open>planFor\<close> states
  its two maps, \<open>assignmentOk\<close> that it keeps the labels that are already set.\<close>

definition planFor :: "(string, LabeledResource) gomap \<Rightarrow> (string, SwitchResource) gomap \<Rightarrow> Template \<Rightarrow> assignment
    \<Rightarrow> autoLabelPlan \<Rightarrow> bool" where
  "planFor nodesByName switchesByName labelTemplate A p \<longleftrightarrow>
     (\<forall>x k v. desiredAt (Plan_nodes p) x k = Some v \<longleftrightarrow>
        (\<exists>g. (g, v) \<in> A \<and> x \<in> set (Dg_nodes g) \<and> k = tierKey labelTemplate (Dg_tier g) \<and> nodeLabelAt nodesByName x k = None))
   \<and> (\<forall>x k v. desiredAt (Plan_switches p) x k = Some v \<longleftrightarrow>
        (\<exists>g. (g, v) \<in> A \<and> x \<in> set (Dg_members g) \<and> k = TopologyDomainLabel
           \<and> map_of switchesByName x \<noteq> None \<and> switchLabelAt switchesByName x = []))"

definition assignmentOk :: "(string, LabeledResource) gomap \<Rightarrow> (string, SwitchResource) gomap \<Rightarrow> (string, bool) gomap \<Rightarrow> Template
    \<Rightarrow> assignment \<Rightarrow> bool" where
  "assignmentOk nodesByName switchesByName syn labelTemplate A \<longleftrightarrow>
     (\<forall>g n. (g, n) \<in> A \<longrightarrow> groupOk nodesByName switchesByName syn (tierKey labelTemplate (Dg_tier g)) g n)"

definition assignInv :: "(string, LabeledResource) gomap \<Rightarrow> (string, SwitchResource) gomap \<Rightarrow> (string, bool) gomap \<Rightarrow> Template
    \<Rightarrow> assignment \<Rightarrow> assignState \<Rightarrow> bool" where
  "assignInv nodesByName switchesByName syn labelTemplate A = (\<lambda>(p, maxByTier, owners).
     planFor nodesByName switchesByName labelTemplate A p \<and> assignmentOk nodesByName switchesByName syn labelTemplate A
     \<and> (\<forall>n w. map_of owners n = Some w \<longleftrightarrow> (\<exists>g. (g, n) \<in> A \<and> w = groupOwner g)))"

lemma assignInv_owner:
  assumes "assignInv nb sb syn T A (p, mx, owners)" "(g, n) \<in> A" "(g', n) \<in> A"
  shows "groupOwner g = groupOwner g'"
proof -
  have own: "\<And>n w. map_of owners n = Some w \<longleftrightarrow> (\<exists>g. (g, n) \<in> A \<and> w = groupOwner g)"
    using assms(1) by (simp add: assignInv_def)
  show ?thesis using own[of n "groupOwner g"] own[of n "groupOwner g'"] assms(2,3) by auto
qed

lemma assignGroup_inv:
  assumes inv: "assignInv nb sb syn T A st" and step: "assignGroup nb sb syn key g st = Inr st'" and key: "key = tierKey T (Dg_tier g)"
  shows "\<exists>n. assignInv nb sb syn T (insert (g, n) A) st'"
proof -
  obtain p mx owners p' mx' owners' where st: "st = (p, mx, owners)" "st' = (p', mx', owners')"
    by (metis prod_cases3)
  obtain n where n: "groupOk nb sb syn key g n" "map_of owners n = None \<or> map_of owners n = Some (groupOwner g)"
    "owners' = mput n (groupOwner g) owners"
    and nodes: "\<And>y k w. desiredAt (Plan_nodes p') y k = Some w \<longleftrightarrow> desiredAt (Plan_nodes p) y k = Some w
         \<or> (y \<in> set (Dg_nodes g) \<and> k = key \<and> w = n \<and> nodeLabelAt nb y key = None)"
    and switches: "\<And>y k w. desiredAt (Plan_switches p') y k = Some w \<longleftrightarrow> desiredAt (Plan_switches p) y k = Some w
         \<or> (y \<in> set (Dg_members g) \<and> k = TopologyDomainLabel \<and> w = n \<and> map_of sb y \<noteq> None \<and> switchLabelAt sb y = [])"
    using assignGroup_Inr[OF step[unfolded st]] by blast
  have plan: "planFor nb sb T A p" and ok: "assignmentOk nb sb syn T A"
    and own: "\<And>n w. map_of owners n = Some w \<longleftrightarrow> (\<exists>g. (g, n) \<in> A \<and> w = groupOwner g)"
    using inv by (auto simp: assignInv_def st)
  have "planFor nb sb T (insert (g, n) A) p'"
    unfolding planFor_def
  proof (intro conjI allI)
    fix x k v
    show "desiredAt (Plan_nodes p') x k = Some v \<longleftrightarrow> (\<exists>g'. (g', v) \<in> insert (g, n) A \<and> x \<in> set (Dg_nodes g')
        \<and> k = tierKey T (Dg_tier g') \<and> nodeLabelAt nb x k = None)"
      using plan[unfolded planFor_def, THEN conjunct1, rule_format, of x k v] unfolding nodes key by auto
    show "desiredAt (Plan_switches p') x k = Some v \<longleftrightarrow> (\<exists>g'. (g', v) \<in> insert (g, n) A \<and> x \<in> set (Dg_members g')
        \<and> k = TopologyDomainLabel \<and> map_of sb x \<noteq> None \<and> switchLabelAt sb x = [])"
      using plan[unfolded planFor_def, THEN conjunct2, rule_format, of x k v] unfolding switches by auto
  qed
  moreover have "assignmentOk nb sb syn T (insert (g, n) A)"
    using ok n(1) by (auto simp: assignmentOk_def key)
  moreover have "map_of owners' m = Some w \<longleftrightarrow> (\<exists>g'. (g', m) \<in> insert (g, n) A \<and> w = groupOwner g')" for m w
  proof (cases "m = n")
    case True
    have "groupOwner g' = groupOwner g" if "(g', n) \<in> A" for g'
      using n(2) own[of n "groupOwner g'"] that by auto
    then show ?thesis using True n(3) by auto
  qed (use n(3) own in auto)
  ultimately show ?thesis unfolding assignInv_def st by blast
qed

lemma single_valued_insert: "single_valued A \<Longrightarrow> g \<notin> fst ` A \<Longrightarrow> single_valued (insert (g, n) A)"
proof -
  assume A: "single_valued A" "g \<notin> fst ` A"
  have "(g, m) \<notin> A" for m using A(2) image_eqI[of g fst "(g, m)" A] by auto
  then show ?thesis using A(1) by (auto simp: single_valued_def)
qed

lemma assignGroups_inv:
  assumes "efold (assignGroup nb sb syn key) gs st = Inr st'" "assignInv nb sb syn T A st"
    "\<forall>g\<in>set gs. key = tierKey T (Dg_tier g)"
  shows "\<exists>A'. assignInv nb sb syn T A' st' \<and> fst ` A' = fst ` A \<union> set gs
    \<and> (single_valued A \<and> distinct gs \<and> set gs \<inter> fst ` A = {} \<longrightarrow> single_valued A')"
  using assms
proof (induction gs arbitrary: st A)
  case (Cons g gs)
  then obtain st1 where st1: "assignGroup nb sb syn key g st = Inr st1" "efold (assignGroup nb sb syn key) gs st1 = Inr st'"
    by (auto split: sum.splits)
  obtain n where n: "assignInv nb sb syn T (insert (g, n) A) st1"
    using assignGroup_inv[OF Cons.prems(2) st1(1)] Cons.prems(3) by auto
  obtain A' where A': "assignInv nb sb syn T A' st'" "fst ` A' = fst ` insert (g, n) A \<union> set gs"
    "single_valued (insert (g, n) A) \<and> distinct gs \<and> set gs \<inter> fst ` insert (g, n) A = {} \<longrightarrow> single_valued A'"
    using Cons.IH[OF st1(2) n] Cons.prems(3) by auto
  have "single_valued A'" if "single_valued A" "distinct (g # gs)" "set (g # gs) \<inter> fst ` A = {}"
    using A'(3) single_valued_insert[OF that(1), of g n] that by auto
  then show ?case using A'(1,2) by (intro exI[of _ A']) auto
qed auto

lemma assignTier_inv:
  assumes "assignTier nb sb inputs T groups t st = Inr st'" "assignInv nb sb (In_syntheticSwitches inputs) T A st"
  shows "\<exists>A'. assignInv nb sb (In_syntheticSwitches inputs) T A' st' \<and> fst ` A' = fst ` A \<union> {g \<in> set groups. Dg_tier g = t}
    \<and> (single_valued A \<and> distinct groups \<and> t \<notin> Dg_tier ` fst ` A \<longrightarrow> single_valued A')"
proof -
  obtain key where key: "Render (Some T) t = Inr key"
    "efold (assignGroup nb sb (In_syntheticSwitches inputs) key) (sort_key groupSortKey (filter (\<lambda>g. Dg_tier g = t) groups)) st = Inr st'"
    using assms(1) by (auto simp: assignTier_def split: if_splits sum.splits)
  then have "\<forall>g\<in>set (sort_key groupSortKey (filter (\<lambda>g. Dg_tier g = t) groups)). key = tierKey T (Dg_tier g)"
    by (simp add: tierKey_def)
  from assignGroups_inv[OF key(2) assms(2) this] obtain A' where A': "assignInv nb sb (In_syntheticSwitches inputs) T A' st'"
    "fst ` A' = fst ` A \<union> {g \<in> set groups. Dg_tier g = t}"
    "single_valued A \<and> distinct (filter (\<lambda>g. Dg_tier g = t) groups) \<and> {g \<in> set groups. Dg_tier g = t} \<inter> fst ` A = {} \<longrightarrow> single_valued A'"
    unfolding set_sort set_filter distinct_sort by blast
  have "single_valued A'" if "single_valued A" "distinct groups" "t \<notin> Dg_tier ` fst ` A"
  proof -
    have "{g \<in> set groups. Dg_tier g = t} \<inter> fst ` A = {}" using that(3) by blast
    then show ?thesis using A'(3) that(1,2) by simp
  qed
  then show ?thesis using A'(1,2) by (intro exI[of _ A']) simp
qed

lemma assignTiers_inv:
  assumes "efold (assignTier nb sb inputs T groups) ts st = Inr st'" "assignInv nb sb (In_syntheticSwitches inputs) T A st"
  shows "\<exists>A'. assignInv nb sb (In_syntheticSwitches inputs) T A' st' \<and> fst ` A' = fst ` A \<union> {g \<in> set groups. Dg_tier g \<in> set ts}
    \<and> (single_valued A \<and> distinct groups \<and> distinct ts \<and> set ts \<inter> Dg_tier ` fst ` A = {} \<longrightarrow> single_valued A')"
  using assms
proof (induction ts arbitrary: st A)
  case (Cons t ts)
  then obtain st1 where st1: "assignTier nb sb inputs T groups t st = Inr st1" "efold (assignTier nb sb inputs T groups) ts st1 = Inr st'"
    by (auto split: sum.splits)
  obtain A1 where A1: "assignInv nb sb (In_syntheticSwitches inputs) T A1 st1" "fst ` A1 = fst ` A \<union> {g \<in> set groups. Dg_tier g = t}"
    "single_valued A \<and> distinct groups \<and> t \<notin> Dg_tier ` fst ` A \<longrightarrow> single_valued A1"
    using assignTier_inv[OF st1(1) Cons.prems(2)] by blast
  obtain A' where A': "assignInv nb sb (In_syntheticSwitches inputs) T A' st'" "fst ` A' = fst ` A1 \<union> {g \<in> set groups. Dg_tier g \<in> set ts}"
    "single_valued A1 \<and> distinct groups \<and> distinct ts \<and> set ts \<inter> Dg_tier ` fst ` A1 = {} \<longrightarrow> single_valued A'"
    using Cons.IH[OF st1(2) A1(1)] by blast
  have "set ts \<inter> Dg_tier ` fst ` A1 = {}" if "distinct (t # ts)" "set (t # ts) \<inter> Dg_tier ` fst ` A = {}" using that unfolding A1(2) by auto
  then have "single_valued A'" if "single_valued A" "distinct groups" "distinct (t # ts)" "set (t # ts) \<inter> Dg_tier ` fst ` A = {}"
    using A1(3) A'(3) that by simp
  moreover have "fst ` A1 \<union> {g \<in> set groups. Dg_tier g \<in> set ts} = fst ` A \<union> {g \<in> set groups. Dg_tier g \<in> set (t # ts)}"
    unfolding A1(2) by auto
  ultimately show ?case using A'(1,2) by (intro exI[of _ A']) simp
qed auto

lemma assignAll_inv:
  assumes "efold (assignTier nb sb inputs T groups) (groupTiers groups) st = Inr st'"
    and "assignInv nb sb (In_syntheticSwitches inputs) T {} st"
  obtains A where "fst ` A = set groups" "assignInv nb sb (In_syntheticSwitches inputs) T A st'" "distinct groups \<longrightarrow> single_valued A"
proof -
  have "fst ` {} \<union> {g \<in> set groups. Dg_tier g \<in> set (groupTiers groups)} = set groups" by (auto simp: groupTiers_def)
  moreover have "distinct (groupTiers groups)" by (simp add: groupTiers_def)
  ultimately show thesis using assignTiers_inv[OF assms] that by (auto simp: single_valued_def)
qed

lemma ownerName_inj:
  assumes "0 \<le> t" "0 \<le> u" "ownerName t a = ownerName u b"
  shows "t = u \<and> a = b"
proof -
  have d: "list_all isDigit (Itoa t)" "list_all isDigit (Itoa u)" using assms(1,2) by (simp_all add: Itoa_def isDigit_nat_str)
  have c: "\<not> isDigit (CHR '':'')" by (simp add: isDigit_def less_eq_char_def)
  have e: "Itoa t @ CHR '':'' # a = Itoa u @ CHR '':'' # b" using assms(3) by (simp add: ownerName_def)
  have "Itoa t = Itoa u" "CHR '':'' # a = CHR '':'' # b" 
    using takeWhile_digits[OF d(1) c, of a, unfolded e] takeWhile_digits[OF d(2) c, of b] by simp_all
  then show ?thesis using Itoa_inj_nonneg[OF assms(1,2)] by simp
qed

lemma discoverGroups_tiers: "discoverGroups inputs = Inr groups \<Longrightarrow> g \<in> set groups \<Longrightarrow> 1 \<le> Dg_tier g"
  by (auto simp: discoverGroups_def normalizeDiscoveredGroups_def normalizeGroup_def Let_def split: option.splits prod.splits sum.splits)

lemma named_groups:
  fixes A :: assignment
  assumes d: "fst ` A = set groups" and sv: "single_valued A" 
    and own: "\<forall>g g' n. (g, n) \<in> A \<and> (g', n) \<in> A \<longrightarrow> Dg_tier g = Dg_tier g' \<and> Dg_internalName g = Dg_internalName g'"
    and inj: "inj_on (\<lambda>g. (Dg_tier g, Dg_internalName g)) (set groups)"
  shows "\<exists>name. inj_on name (set groups) \<and> A = (\<lambda>g. (g, name g)) ` set groups"
proof -
  have "\<forall>g\<in>set groups. \<exists>n. (g, n) \<in> A" using d by force
  from bchoice[OF this] obtain name where n: "\<And>g. g \<in> set groups \<Longrightarrow> (g, name g) \<in> A" by blast
  have "A = (\<lambda>g. (g, name g)) ` set groups"
  proof (intro equalityI subsetI)
    fix x assume x: "x \<in> A"
    then have g: "fst x \<in> set groups" using d by force
    have "(fst x, snd x) \<in> A" using x by simp
    then have "snd x = name (fst x)" using single_valuedD[OF sv _ n[OF g]] by blast
    then show "x \<in> (\<lambda>g. (g, name g)) ` set groups" using g by (intro image_eqI[of _ _ "fst x"]) (simp_all add: prod_eq_iff)
  qed (use n in auto)
  moreover have "inj_on name (set groups)"
  proof (rule inj_onI)
    fix g g' assume g: "g \<in> set groups" "g' \<in> set groups" "name g = name g'"
    then have "Dg_tier g = Dg_tier g' \<and> Dg_internalName g = Dg_internalName g'"
      using own[rule_format, of g "name g" g'] n[of g] n[of g'] by simp
    then show "g = g'" using inj g by (simp add: inj_on_def)
  qed
  ultimately show ?thesis by blast
qed

definition eligible :: "FabricNode list \<Rightarrow> LabeledResource list \<Rightarrow> FabricNode list" where
  "eligible fabricNodes nodes = filter (\<lambda>fn. Fn_Name fn \<in> Res_Name ` set nodes) fabricNodes"

lemma nodeNames_iff: "map_of (fold (\<lambda>node. mput (Res_Name node) ()) nodes m) x \<noteq> None \<longleftrightarrow> x \<in> Res_Name ` set nodes \<or> map_of m x \<noteq> None"
  by (induction nodes arbitrary: m) auto

lemma eligible_filter:
  "filter (\<lambda>fn. map_of (fold (\<lambda>node. mput (Res_Name node) ()) nodes []) (Fn_Name fn) \<noteq> None) fabricNodes = eligible fabricNodes nodes"
  unfolding nodeNames_iff eligible_def by simp

lemma buildAutoLabelPlan_run:
  assumes "buildTopologyInputsForRole role (eligible fabricNodes nodes) switches = Inr inputs"
    and "In_hosts inputs \<noteq> []" "In_switches inputs \<noteq> []"
    and "discoverGroups inputs = Inr groups"
  shows "buildAutoLabelPlan role T fabricNodes switches nodes =
    (case scanAll role T switches nodes of Inl e \<Rightarrow> Inl e
     | Inr maxByTier \<Rightarrow>
         (case efold (assignTier (indexNodes nodes) (indexSwitches switches) inputs T groups) (groupTiers groups)
                 (newAutoLabelPlan, maxByTier, []) of
            Inl e \<Rightarrow> Inl e
          | Inr (p, _, _) \<Rightarrow> Inr p))"
  unfolding buildAutoLabelPlan_def Let_def eligible_filter assms(1)
  by (simp only: sum.case length_0_conv assms simp_thms if_False)

text \<open>C20 (safety). When a plan is computed for a topology with hosts and switches, the
  plan assigns names to the discovered groups such that groups with one name agree in tier and internal name, every
  node and switch that already carries a label at the group's tier keeps exactly that name, and the plan sets
  precisely the labels that are missing: it never overwrites one. Where the internal names of a tier are distinct,
  each group has exactly one name and no other group has it. (Internal names are digests of the joined member
  names, so two groups whose names join to the same text do share one.)\<close>

theorem buildAutoLabelPlan_names:
  assumes "buildAutoLabelPlan role T fabricNodes switches nodes = Inr p"
    and "buildTopologyInputsForRole role (eligible fabricNodes nodes) switches = Inr inputs"
    and "In_hosts inputs \<noteq> []" "In_switches inputs \<noteq> []"
    and "discoverGroups inputs = Inr groups"
  shows "\<exists>A. fst ` A = set groups
    \<and> (\<forall>g g' n. (g, n) \<in> A \<and> (g', n) \<in> A \<longrightarrow> Dg_tier g = Dg_tier g' \<and> Dg_internalName g = Dg_internalName g')
    \<and> assignmentOk (indexNodes nodes) (indexSwitches switches) (In_syntheticSwitches inputs) T A
    \<and> planFor (indexNodes nodes) (indexSwitches switches) T A p
    \<and> (distinct (map (\<lambda>g. (Dg_tier g, Dg_internalName g)) groups) \<longrightarrow>
         (\<exists>name. inj_on name (set groups) \<and> A = (\<lambda>g. (g, name g)) ` set groups))"
proof -
  obtain maxByTier mx owners where run: "efold (assignTier (indexNodes nodes) (indexSwitches switches) inputs T groups)
      (groupTiers groups) (newAutoLabelPlan, maxByTier, []) = Inr (p, mx, owners)"
    using assms(1) buildAutoLabelPlan_run[OF assms(2-5)] by (cases "scanAll role T switches nodes") (auto split: sum.splits)
  have "assignInv (indexNodes nodes) (indexSwitches switches) (In_syntheticSwitches inputs) T {} (newAutoLabelPlan, maxByTier, [])"
    by (simp add: assignInv_def planFor_def assignmentOk_def newAutoLabelPlan_def desiredAt_def mgetd_def)
  then obtain A where d: "fst ` A = set groups"
    and A: "assignInv (indexNodes nodes) (indexSwitches switches) (In_syntheticSwitches inputs) T A (p, mx, owners)"
    and sv: "distinct groups \<longrightarrow> single_valued A"
    by (rule assignAll_inv[OF run])
  have "0 \<le> Dg_tier g" if "(g, n) \<in> A" for g n
    using discoverGroups_tiers[OF assms(5), of g] d that by force
  then have own: "\<forall>g g' n. (g, n) \<in> A \<and> (g', n) \<in> A \<longrightarrow> Dg_tier g = Dg_tier g' \<and> Dg_internalName g = Dg_internalName g'"
    using assignInv_owner[OF A] ownerName_inj by blast
  have "\<exists>name. inj_on name (set groups) \<and> A = (\<lambda>g. (g, name g)) ` set groups"
    if "distinct (map (\<lambda>g. (Dg_tier g, Dg_internalName g)) groups)"
    using that by (intro named_groups[OF d _ own]) (auto simp: distinct_map sv)
  with own A show ?thesis using d by (intro exI[of _ A]) (simp add: assignInv_def)
qed

definition exNodes :: "LabeledResource list" where
  "exNodes = [\<lparr>Res_Name = ''n1'', Res_Labels = []\<rparr>]"

theorem buildAutoLabelPlan_names_witness:
  "buildAutoLabelPlan SwitchRoleScaleOut exTmpl exFabricNodes [] exNodes
     = Inr \<lparr>Plan_nodes = [(''n1'', [(''t1'', ''tier1-group1'')])], Plan_switches = []\<rparr>
   \<and> (\<exists>inputs groups A. buildTopologyInputsForRole SwitchRoleScaleOut (eligible exFabricNodes exNodes) [] = Inr inputs
       \<and> discoverGroups inputs = Inr groups \<and> fst ` A = set groups
       \<and> planFor (indexNodes exNodes) (indexSwitches []) exTmpl A
           \<lparr>Plan_nodes = [(''n1'', [(''t1'', ''tier1-group1'')])], Plan_switches = []\<rparr>)"
proof -
  let ?b = "buildTopologyInputsForRole SwitchRoleScaleOut (eligible exFabricNodes exNodes) []"
  have p: "buildAutoLabelPlan SwitchRoleScaleOut exTmpl exFabricNodes [] exNodes
      = Inr \<lparr>Plan_nodes = [(''n1'', [(''t1'', ''tier1-group1'')])], Plan_switches = []\<rparr>" by code_simp
  have "case ?b of Inl _ \<Rightarrow> False | Inr i \<Rightarrow> In_hosts i \<noteq> [] \<and> In_switches i \<noteq> [] \<and> \<not> isl (discoverGroups i)" by code_simp
  then obtain i groups where i: "?b = Inr i" "In_hosts i \<noteq> []" "In_switches i \<noteq> []" "discoverGroups i = Inr groups"
    by (cases ?b; cases "discoverGroups (projr ?b)") auto
  obtain A where "fst ` A = set groups" "planFor (indexNodes exNodes) (indexSwitches []) exTmpl A
      \<lparr>Plan_nodes = [(''n1'', [(''t1'', ''tier1-group1'')])], Plan_switches = []\<rparr>"
    using buildAutoLabelPlan_names[OF p i] by (elim exE conjE) (rule that)
  then show ?thesis using p i(1,4) by (intro conjI exI[of _ i] exI[of _ groups] exI[of _ A])
qed

end
