(* ===== verification/Lldp.thy ===== *)
theory Lldp
  imports Go_Net
begin

text \<open>
  LLDP data on a node, \<open>src/pkg/agent/fabricnode/lldp.go\<close>: the \<open>json0\<close> form of the output of
  \<open>lldpcli\<close>, the neighbors read from it, and how the command is chosen. Decoding of the JSON text into
  the structures is an argument \<open>unmarshal\<close>, the file system and command search are the arguments
  \<open>pathCheck\<close> (an error, or none) and \<open>commandLookup\<close>, the run of the command is \<open>execCommand\<close>. A panic
  is \<open>None\<close>. The unused reader of the older \<open>json\<close> form is not modelled.
\<close>

subsection \<open>The json0 structures\<close>

record LLDPJSON0IDValue =
  Iv_Type :: string
  Iv_Value :: string

record LLDPJSON0Value =
  Jv_Value :: string

record LLDPJSON0Capability =
  Cap_Type :: string
  Cap_Enabled :: bool

record LLDPJSON0Chassis =
  Ch_ID :: "LLDPJSON0IDValue list"
  Ch_Name :: "LLDPJSON0Value list"
  Ch_Descr :: "LLDPJSON0Value list"
  Ch_MgmtIP :: "LLDPJSON0Value list"
  Ch_Capability :: "LLDPJSON0Capability list"

record LLDPJSON0Port =
  Po_ID :: "LLDPJSON0IDValue list"
  Po_Descr :: "LLDPJSON0Value list"
  Po_TTL :: "LLDPJSON0Value list"

record LLDPJSON0Interface =
  If_Name :: string
  If_Via :: string
  If_RID :: string
  If_Age :: string
  If_Chassis :: "LLDPJSON0Chassis list"
  If_Port :: "LLDPJSON0Port list"

record LLDPJSON0Data =
  Ld_Interface :: "LLDPJSON0Interface list"

record LLDPJSON0Response =
  Lr_LLDP :: "LLDPJSON0Data list"

record LLDPNeighbor =
  Ln_Hostname :: string
  Ln_MgmtIP :: string
  Ln_Mac :: string
  Ln_Port :: string
  Ln_Description :: string

subsection \<open>Neighbors\<close>

definition first :: "'a list \<Rightarrow> 'a option" where
  "first xs = (case xs of [] \<Rightarrow> None | x # _ \<Rightarrow> Some x)"

text \<open>The first management address that is an IPv4 address, otherwise the first one.\<close>

definition chooseMgmtIP :: "string list \<Rightarrow> string" where
  "chooseMgmtIP mgmtIPs =
     (let chosen = (case filter (\<lambda>ip. To4 (ParseIP ip) \<noteq> []) mgmtIPs of [] \<Rightarrow> [] | ip # _ \<Rightarrow> ip)
      in if chosen = [] \<and> length mgmtIPs > 0 then hd mgmtIPs else chosen)"

definition newNeighbor :: "LLDPJSON0Chassis \<Rightarrow> LLDPJSON0Port \<Rightarrow> LLDPNeighbor option" where
  "newNeighbor chassis port = do {
     name \<leftarrow> first (Ch_Name chassis);
     mac \<leftarrow> first (Ch_ID chassis);
     portID \<leftarrow> first (Po_ID port);
     descr \<leftarrow> first (Ch_Descr chassis);
     Some \<lparr>Ln_Hostname = Jv_Value name,
       Ln_MgmtIP = (if length (Ch_MgmtIP chassis) > 0 then chooseMgmtIP (map Jv_Value (Ch_MgmtIP chassis)) else []),
       Ln_Mac = Iv_Value mac, Ln_Port = Iv_Value portID, Ln_Description = Jv_Value descr\<rparr> }"

definition addInterface :: "LLDPJSON0Interface \<Rightarrow> (string, LLDPNeighbor) gomap \<Rightarrow> (string, LLDPNeighbor) gomap option" where
  "addInterface iface neighbors =
     (if length (If_Chassis iface) = 0 \<or> length (If_Port iface) = 0 then Some neighbors
      else do {
        chassis \<leftarrow> first (If_Chassis iface);
        port \<leftarrow> first (If_Port iface);
        if length (Ch_ID chassis) = 0 \<or> length (Po_ID port) = 0 \<or> length (Ch_Name chassis) = 0 then Some neighbors
        else do { neighbor \<leftarrow> newNeighbor chassis port; Some (mput (If_Name iface) neighbor neighbors) }
      })"

definition parseJSON0Format :: "LLDPJSON0Response \<Rightarrow> (string, LLDPNeighbor) gomap option" where
  "parseJSON0Format resp = ofold (\<lambda>lldpData. ofold addInterface (Ld_Interface lldpData)) (Lr_LLDP resp) []"

datatype lldpError =
    Unmarshal string
  | InvalidResponse string
  | BinaryUnavailable string string
  | SocketUnavailable string
  | LldpcliNotFound
  | NsenterNotFound
  | NamespaceUnavailable string string string
  | CommandFailed string string

definition lldpErrorText :: "lldpError \<Rightarrow> string" where
  "lldpErrorText e = (case e of
     Unmarshal err \<Rightarrow> ''Unmarshal: '' @ err
   | InvalidResponse output \<Rightarrow> ''invalid lldp response: '' @ output
   | BinaryUnavailable path err \<Rightarrow> ''lldpcli binary '' @ path @ '' is unavailable: '' @ err
   | SocketUnavailable path \<Rightarrow> ''lldp socket '' @ path @ '' is unavailable''
   | LldpcliNotFound \<Rightarrow> ''lldpcli command not found in PATH''
   | NsenterNotFound \<Rightarrow> ''lldpcli command not found in PATH and nsenter is unavailable''
   | NamespaceUnavailable kind path err \<Rightarrow> ''lldpcli command not found in PATH and host '' @ kind @ '' namespace '' @ path @ '' is unavailable: '' @ err
   | CommandFailed err message \<Rightarrow> ''failed to get lldp info: '' @ err @ (if message \<noteq> [] then '': '' @ message else []))"

definition ParseLLDPNeighbors :: "(string \<Rightarrow> string + LLDPJSON0Response) \<Rightarrow> string
    \<Rightarrow> (lldpError + (string, LLDPNeighbor) gomap) option" where
  "ParseLLDPNeighbors unmarshal output =
     (case unmarshal output of
        Inl e \<Rightarrow> Some (Inl (Unmarshal e))
      | Inr json0Resp \<Rightarrow>
          if length (Lr_LLDP json0Resp) > 0 \<and> length (Ld_Interface (hd (Lr_LLDP json0Resp))) > 0
          then map_option Inr (parseJSON0Format json0Resp)
          else Some (Inl (InvalidResponse output)))"

subsection \<open>The command\<close>

definition LLDPCLI :: string where "LLDPCLI = ''lldpcli''"
definition NSENTER :: string where "NSENTER = ''nsenter''"
definition hostMountNSPath :: string where "hostMountNSPath = ''/host/proc/1/ns/mnt''"
definition hostNetNSPath :: string where "hostNetNSPath = ''/host/proc/1/ns/net''"

record LldpCliOptions =
  Op_BinaryPath :: string
  Op_SocketPath :: string
  Op_FallbackToHost :: bool
  Op_FallbackToPath :: bool
  Op_UseHostNamespace :: bool

definition lldpCliJSON0Args :: "string \<Rightarrow> string list" where
  "lldpCliJSON0Args socketPath =
     [''-f'', ''json0''] @ (if socketPath \<noteq> [] then [''-u'', socketPath] else []) @ [''show'', ''neighbors'']"

definition resolveHostNamespaceLldpCliInvocation :: "(string \<Rightarrow> string option) \<Rightarrow> (string \<Rightarrow> string option)
    \<Rightarrow> lldpError + string \<times> string list" where
  "resolveHostNamespaceLldpCliInvocation pathCheck commandLookup =
     (case commandLookup NSENTER of
        None \<Rightarrow> Inl NsenterNotFound
      | Some nsenterPath \<Rightarrow>
          (case (pathCheck hostMountNSPath, pathCheck hostNetNSPath) of
             (Some e, _) \<Rightarrow> Inl (NamespaceUnavailable ''mount'' hostMountNSPath e)
           | (None, Some e) \<Rightarrow> Inl (NamespaceUnavailable ''net'' hostNetNSPath e)
           | (None, None) \<Rightarrow> Inr (nsenterPath, [''--mount='' @ hostMountNSPath, ''--net='' @ hostNetNSPath, ''/usr/bin/env'',
                 ''PATH=/usr/sbin:/usr/bin:/sbin:/bin'', ''lldpcli'', ''-f'', ''json0'', ''show'', ''neighbors''])))"

text \<open>The part of the choice after the configured binary has been ruled out.\<close>

definition resolveFromPath :: "(string \<Rightarrow> string option) \<Rightarrow> (string \<Rightarrow> string option) \<Rightarrow> LldpCliOptions
    \<Rightarrow> lldpError + string \<times> string list" where
  "resolveFromPath pathCheck commandLookup options =
     (let found = (case commandLookup LLDPCLI of
            None \<Rightarrow> None
          | Some lldpPath \<Rightarrow>
              if Op_FallbackToPath options then Some (lldpPath, lldpCliJSON0Args [])
              else if Op_SocketPath options = [] \<or> pathCheck (Op_SocketPath options) = None
                   then Some (lldpPath, lldpCliJSON0Args (Op_SocketPath options))
              else None)
      in case found of
           Some invocation \<Rightarrow> Inr invocation
         | None \<Rightarrow>
             if \<not> Op_FallbackToHost options
             then Inl (if Op_SocketPath options \<noteq> [] then SocketUnavailable (Op_SocketPath options) else LldpcliNotFound)
             else resolveHostNamespaceLldpCliInvocation pathCheck commandLookup)"

definition resolveLldpCliInvocation :: "(string \<Rightarrow> string option) \<Rightarrow> (string \<Rightarrow> string option) \<Rightarrow> LldpCliOptions
    \<Rightarrow> lldpError + string \<times> string list" where
  "resolveLldpCliInvocation pathCheck commandLookup options =
     (if Op_UseHostNamespace options then resolveHostNamespaceLldpCliInvocation pathCheck commandLookup
      else if Op_BinaryPath options \<noteq> [] then
        (case pathCheck (Op_BinaryPath options) of
           Some e \<Rightarrow>
             if \<not> Op_FallbackToPath options \<and> \<not> Op_FallbackToHost options then Inl (BinaryUnavailable (Op_BinaryPath options) e)
             else resolveFromPath pathCheck commandLookup options
         | None \<Rightarrow>
             if Op_SocketPath options = [] \<or> pathCheck (Op_SocketPath options) = None
             then Inr (Op_BinaryPath options, lldpCliJSON0Args (Op_SocketPath options))
             else if \<not> Op_FallbackToHost options then Inl (SocketUnavailable (Op_SocketPath options))
             else resolveFromPath pathCheck commandLookup options)
      else resolveFromPath pathCheck commandLookup options)"

definition LldpCliShowNeighborsWithOptions :: "(string \<Rightarrow> string option) \<Rightarrow> (string \<Rightarrow> string option)
    \<Rightarrow> (string \<Rightarrow> string list \<Rightarrow> string \<times> string option) \<Rightarrow> LldpCliOptions \<Rightarrow> lldpError + string" where
  "LldpCliShowNeighborsWithOptions pathCheck commandLookup execCommand options =
     (case resolveLldpCliInvocation pathCheck commandLookup options of
        Inl e \<Rightarrow> Inl e
      | Inr (command, args) \<Rightarrow>
          (case execCommand command args of
             (output, None) \<Rightarrow> Inr output
           | (output, Some e) \<Rightarrow> Inl (CommandFailed e (TrimSpace output))))"

definition LldpCliShowNeighbors :: "(string \<Rightarrow> string option) \<Rightarrow> (string \<Rightarrow> string option)
    \<Rightarrow> (string \<Rightarrow> string list \<Rightarrow> string \<times> string option) \<Rightarrow> lldpError + string" where
  "LldpCliShowNeighbors pathCheck commandLookup execCommand =
     LldpCliShowNeighborsWithOptions pathCheck commandLookup execCommand
       \<lparr>Op_BinaryPath = [], Op_SocketPath = [], Op_FallbackToHost = True, Op_FallbackToPath = False, Op_UseHostNamespace = False\<rparr>"

definition GetLLDPNeighbors :: "(string \<Rightarrow> string option) \<Rightarrow> (string \<Rightarrow> string option)
    \<Rightarrow> (string \<Rightarrow> string list \<Rightarrow> string \<times> string option) \<Rightarrow> (string \<Rightarrow> string + LLDPJSON0Response)
    \<Rightarrow> (lldpError + (string, LLDPNeighbor) gomap) option" where
  "GetLLDPNeighbors pathCheck commandLookup execCommand unmarshal =
     (case LldpCliShowNeighbors pathCheck commandLookup execCommand of
        Inl e \<Rightarrow> Some (Inl e)
      | Inr output \<Rightarrow> ParseLLDPNeighbors unmarshal output)"

subsection \<open>Panics\<close>

definition usable :: "LLDPJSON0Interface \<Rightarrow> (LLDPJSON0Chassis \<times> LLDPJSON0Port) option" where
  "usable iface = (case (If_Chassis iface, If_Port iface) of
     (chassis # _, port # _) \<Rightarrow> if Ch_ID chassis = [] \<or> Po_ID port = [] \<or> Ch_Name chassis = [] then None else Some (chassis, port)
   | _ \<Rightarrow> None)"

definition lacksDescr :: "LLDPJSON0Interface \<Rightarrow> bool" where
  "lacksDescr iface = (case usable iface of None \<Rightarrow> False | Some (chassis, _) \<Rightarrow> Ch_Descr chassis = [])"

definition allInterfaces :: "LLDPJSON0Response \<Rightarrow> LLDPJSON0Interface list" where
  "allInterfaces resp = concat (map Ld_Interface (Lr_LLDP resp))"

lemma addInterface_cases:
  "addInterface iface neighbors =
     (case usable iface of
        None \<Rightarrow> Some neighbors
      | Some (chassis, port) \<Rightarrow> map_option (\<lambda>n. mput (If_Name iface) n neighbors) (newNeighbor chassis port))"
  by (auto simp: addInterface_def usable_def first_def map_option_case split: list.splits option.splits)

lemma newNeighbor_None:
  "usable iface = Some (chassis, port) \<Longrightarrow> newNeighbor chassis port = None \<longleftrightarrow> lacksDescr iface"
  by (auto simp: newNeighbor_def lacksDescr_def usable_def first_def split: list.splits if_splits option.splits)

lemma addInterface_None: "addInterface iface neighbors = None \<longleftrightarrow> lacksDescr iface"
  using newNeighbor_None[of iface] by (auto simp: addInterface_cases lacksDescr_def split: option.splits prod.splits)

lemma ofold_ofold: "ofold (\<lambda>x. ofold f (g x)) xs s = ofold f (concat (map g xs)) s"
proof (induction xs arbitrary: s)
  case (Cons x xs)
  have "ofold f (ys @ zs) s = (case ofold f ys s of None \<Rightarrow> None | Some s' \<Rightarrow> ofold f zs s')" for ys zs s
    by (induction ys arbitrary: s) (auto split: option.splits)
  then show ?case using Cons by (simp split: option.splits)
qed simp

definition neighborOf :: "LLDPJSON0Interface \<Rightarrow> LLDPNeighbor option" where
  "neighborOf iface = Option.bind (usable iface) (\<lambda>(chassis, port). newNeighbor chassis port)"

definition lastNeighbor :: "LLDPJSON0Interface list \<Rightarrow> string \<Rightarrow> LLDPNeighbor option" where
  "lastNeighbor ifaces name =
     (let named = filter (\<lambda>i. If_Name i = name \<and> usable i \<noteq> None) ifaces in if named = [] then None else neighborOf (last named))"

lemma addInterfaces:
  "case ofold addInterface ifaces [] of
     None \<Rightarrow> list_ex lacksDescr ifaces
   | Some neighbors \<Rightarrow> \<not> list_ex lacksDescr ifaces \<and> (\<forall>name. map_of neighbors name = lastNeighbor ifaces name)"
proof (induction ifaces rule: rev_induct)
  case Nil
  show ?case by (simp add: lastNeighbor_def)
next
  case (snoc i ifaces)
  show ?case
  proof (cases "ofold addInterface ifaces []")
    case None
    then show ?thesis using snoc by (simp add: ofold_snoc)
  next
    case (Some neighbors)
    note IH = snoc[unfolded Some option.case]
    show ?thesis
    proof (cases "usable i")
      case None
      then have "addInterface i neighbors = Some neighbors" "\<not> lacksDescr i" by (simp_all add: addInterface_cases lacksDescr_def)
      then show ?thesis using IH Some None by (simp add: ofold_snoc lastNeighbor_def Let_def)
    next
      case usable: (Some cp)
      obtain c p where cp: "cp = (c, p)" by (cases cp)
      show ?thesis
      proof (cases "newNeighbor c p")
        case None
        then show ?thesis using IH Some usable cp newNeighbor_None[of i c p] by (simp add: ofold_snoc addInterface_cases[of i])
      next
        case n: (Some n)
        then show ?thesis using IH Some usable cp newNeighbor_None[of i c p]
          by (simp add: ofold_snoc addInterface_cases[of i] lastNeighbor_def neighborOf_def Let_def)
      qed
    qed
  qed
qed

text \<open>
  C27: reading the neighbors panics exactly when some interface with chassis, port and name
  information has a chassis without a description. Otherwise every interface name is mapped to the neighbor of the last such
  interface with that name, and no other name is mapped.
\<close>

theorem parseJSON0Format_decides:
  "case parseJSON0Format resp of
     None \<Rightarrow> list_ex lacksDescr (allInterfaces resp)
   | Some neighbors \<Rightarrow> \<not> list_ex lacksDescr (allInterfaces resp)
       \<and> (\<forall>name. map_of neighbors name = lastNeighbor (allInterfaces resp) name)"
  unfolding parseJSON0Format_def ofold_ofold allInterfaces_def by (rule addInterfaces)

end
