(* ===== verification/Event_System.thy ===== *)
theory Event_System
  imports Go_Prelude
begin

text \<open>
  Runs of the concurrent components. A component is a step relation with labels; a run is the list of
  its labels. The locale \<open>simulation\<close> is the contract between a component and its abstract
  specification: each step of the component is matched by steps of the specification with the
  observable part of its label. Its lemma \<open>trace_inclusion\<close> carries this over to whole runs.
\<close>

inductive run :: "('s \<Rightarrow> 'l \<Rightarrow> 's \<Rightarrow> bool) \<Rightarrow> 's \<Rightarrow> 'l list \<Rightarrow> 's \<Rightarrow> bool"
  for step :: "'s \<Rightarrow> 'l \<Rightarrow> 's \<Rightarrow> bool" and s0 :: 's where
  run_start [simp, intro]: "run step s0 [] s0"
| run_step [intro]: "run step s0 ls s \<Longrightarrow> step s l s' \<Longrightarrow> run step s0 (ls @ [l]) s'"

lemma run_single: "step s l s' \<Longrightarrow> run step s [l] s'"
  using run_step[OF run_start] by fastforce

lemma run_append: "run step s' ls' s'' \<Longrightarrow> run step s ls s' \<Longrightarrow> run step s (ls @ ls') s''"
proof (induction rule: run.induct)
  case (run_step ls1 s1 l s2)
  then have "run step s ((ls @ ls1) @ [l]) s2" by blast
  then show ?case by simp
qed simp

lemma run_Cons: "step s l s' \<Longrightarrow> run step s' ls s'' \<Longrightarrow> run step s (l # ls) s''"
  using run_append[OF _ run_single] by fastforce

lemma trace_invariant:
  assumes "run step s0 ls s" and "P [] s0"
    and "\<And>ls s l s'. run step s0 ls s \<Longrightarrow> P ls s \<Longrightarrow> step s l s' \<Longrightarrow> P (ls @ [l]) s'"
  shows "P ls s"
  using assms(1) by (induction rule: run.induct) (use assms(2,3) in auto)

locale simulation =
  fixes cstep :: "'c \<Rightarrow> 'l \<Rightarrow> 'c \<Rightarrow> bool" and astep :: "'a \<Rightarrow> 'e \<Rightarrow> 'a \<Rightarrow> bool"
    and obs :: "'l \<Rightarrow> 'e list" and R :: "'c \<Rightarrow> 'a \<Rightarrow> bool"
  assumes step_matched: "R s t \<Longrightarrow> cstep s l s' \<Longrightarrow> \<exists>t'. R s' t' \<and> run astep t (obs l) t'"
begin

lemma trace_inclusion:
  assumes "run cstep s ls s'" and "R s t"
  shows "\<exists>t'. R s' t' \<and> run astep t (concat (map obs ls)) t'"
  using assms(1)
proof (induction rule: run.induct)
  case run_start
  then show ?case using assms(2) by auto
next
  case (run_step ls s1 l s2)
  then obtain t1 t2 where "run astep t (concat (map obs ls)) t1" "R s2 t2" "run astep t1 (obs l) t2"
    using step_matched by blast
  then show ?case using run_append by fastforce
qed

end

end
