(* ===== verification/Switch_Agent.thy ===== *)
theory Switch_Agent
  imports Lldp Event_System Topology_Inputs
begin

text \<open>
  The agent on a switch, \<open>src/pkg/switchagent/agent.go\<close> and \<open>lldp.go\<close>: it collects LLDP snapshots,
  numbers them, and streams them to the watchers. The refresh loop and the watchers run concurrently;
  each watcher has a channel for one snapshot. A step of \<open>agentStep\<close> is a critical section, one channel
  operation or one message sent on a stream (a watcher takes a snapshot from its channel in one step and sends it in a later one);
  what \<open>lldpcli\<close> reports, when clients come and go and
  whether a message can be sent are free. Subscriber ids are unbounded (the source counts them in an
  \<open>int\<close>). Server set-up, TLS and log messages are not modelled.
\<close>

subsection \<open>Snapshots\<close>

record LLDPNeighborMsg =
  Nb_LocalDeviceName :: string
  Nb_LocalPort :: string
  Nb_RemoteSystemName :: string
  Nb_RemotePortId :: string

record LLDPNeighborSnapshot =
  Sn_SwitchName :: string
  Sn_LldpNeighbors :: "LLDPNeighborMsg list"
  Sn_Generation :: "64 word"

fun normalizeSwitchLoop :: "string \<Rightarrow> bool \<Rightarrow> string" where
  "normalizeSwitchLoop [] previousDash = []"
| "normalizeSwitchLoop (r # rs) previousDash =
     (if (CHR ''a'' \<le> r \<and> r \<le> CHR ''z'') \<or> (CHR ''0'' \<le> r \<and> r \<le> CHR ''9'') then r # normalizeSwitchLoop rs False
      else if \<not> previousDash then CHR ''-'' # normalizeSwitchLoop rs True
      else normalizeSwitchLoop rs previousDash)"

definition normalizeSwitchName :: "string \<Rightarrow> string" where
  "normalizeSwitchName name = trimBy (\<lambda>c. c = CHR ''-'') (normalizeSwitchLoop (ToLower (TrimSpace name)) False)"

definition switchNameMatches :: "string \<Rightarrow> string \<Rightarrow> bool" where
  "switchNameMatches expected actual \<longleftrightarrow> expected = [] \<or> normalizeSwitchName expected = normalizeSwitchName actual"

definition acceptsWatch :: "string \<Rightarrow> string \<Rightarrow> bool" where
  "acceptsWatch expected switchName \<longleftrightarrow> \<not> (expected \<noteq> [] \<and> \<not> switchNameMatches expected switchName)"

definition parseInterface :: "string \<Rightarrow> LLDPJSON0Interface \<Rightarrow> LLDPNeighborMsg list" where
  "parseInterface normalizedSwitchName iface =
     (case (If_Chassis iface, If_Port iface) of
        (chassis # _, port # _) \<Rightarrow>
          (case (Ch_Name chassis, Po_ID port) of
             (name # _, portID # _) \<Rightarrow>
               [\<lparr>Nb_LocalDeviceName = normalizedSwitchName, Nb_LocalPort = If_Name iface,
                  Nb_RemoteSystemName = Jv_Value name, Nb_RemotePortId = Iv_Value portID\<rparr>]
           | _ \<Rightarrow> [])
      | _ \<Rightarrow> [])"

definition neighborOrder :: "LLDPNeighborMsg \<Rightarrow> string \<times> string \<times> string" where
  "neighborOrder n = (Nb_LocalPort n, Nb_RemoteSystemName n, Nb_RemotePortId n)"

datatype snapshotError =
    ShowNeighborsFailed lldpError
  | UnmarshalOutput string

definition snapshotErrorText :: "snapshotError \<Rightarrow> string" where
  "snapshotErrorText e = (case e of ShowNeighborsFailed e' \<Rightarrow> lldpErrorText e' | UnmarshalOutput err \<Rightarrow> ''unmarshal lldp json0 output: '' @ err)"

definition parseSnapshot :: "(string \<Rightarrow> string + LLDPJSON0Response) \<Rightarrow> string \<Rightarrow> 64 word \<Rightarrow> string
    \<Rightarrow> snapshotError + LLDPNeighborSnapshot" where
  "parseSnapshot unmarshal switchName generation output =
     (case unmarshal output of
        Inl e \<Rightarrow> Inl (UnmarshalOutput e)
      | Inr response \<Rightarrow>
          let normalizedSwitchName = normalizeSwitchName switchName;
              neighbors = concat (map (\<lambda>lldpData. concat (map (parseInterface normalizedSwitchName) (Ld_Interface lldpData))) (Lr_LLDP response))
          in Inr \<lparr>Sn_SwitchName = normalizedSwitchName, Sn_LldpNeighbors = sort_key neighborOrder neighbors, Sn_Generation = generation\<rparr>)"

definition snapshotsEqual :: "LLDPNeighborSnapshot option \<Rightarrow> LLDPNeighborSnapshot option \<Rightarrow> bool" where
  "snapshotsEqual previous next =
     (case (previous, next) of
        (Some p, Some n) \<Rightarrow> p\<lparr>Sn_Generation := 0\<rparr> = n\<lparr>Sn_Generation := 0\<rparr>
      | _ \<Rightarrow> previous = next)"

subsection \<open>Collection\<close>

record lldpConfig =
  Lc_CollectionMode :: string
  Lc_CLIVersion :: string
  Lc_SocketPath :: string

definition lldpCLI104Path :: string where "lldpCLI104Path = ''/usr/local/sbin/lldpcli-1.0.4''"
definition lldpCLI116Path :: string where "lldpCLI116Path = ''/usr/local/sbin/lldpcli-1.0.16''"

definition lldpCollectionOptions :: "lldpConfig \<Rightarrow> LldpCliOptions" where
  "lldpCollectionOptions cfg =
     (if Lc_CollectionMode cfg = ''hostProc''
      then \<lparr>Op_BinaryPath = [], Op_SocketPath = [], Op_FallbackToHost = False, Op_FallbackToPath = False, Op_UseHostNamespace = True\<rparr>
      else \<lparr>Op_BinaryPath = (if Lc_CLIVersion cfg = ''1.0.4'' then lldpCLI104Path else lldpCLI116Path),
             Op_SocketPath = Lc_SocketPath cfg, Op_FallbackToHost = False, Op_FallbackToPath = True, Op_UseHostNamespace = False\<rparr>)"

definition collectSnapshotWithOptions :: "(string \<Rightarrow> string option) \<Rightarrow> (string \<Rightarrow> string option)
    \<Rightarrow> (string \<Rightarrow> string list \<Rightarrow> string \<times> string option) \<Rightarrow> (string \<Rightarrow> string + LLDPJSON0Response)
    \<Rightarrow> string \<Rightarrow> 64 word \<Rightarrow> LldpCliOptions \<Rightarrow> snapshotError + LLDPNeighborSnapshot" where
  "collectSnapshotWithOptions pathCheck commandLookup execCommand unmarshal switchName generation options =
     (case LldpCliShowNeighborsWithOptions pathCheck commandLookup execCommand options of
        Inl e \<Rightarrow> Inl (ShowNeighborsFailed e)
      | Inr output \<Rightarrow> parseSnapshot unmarshal switchName generation output)"

definition collectSnapshot :: "(string \<Rightarrow> string option) \<Rightarrow> (string \<Rightarrow> string option)
    \<Rightarrow> (string \<Rightarrow> string list \<Rightarrow> string \<times> string option) \<Rightarrow> (string \<Rightarrow> string + LLDPJSON0Response)
    \<Rightarrow> string \<Rightarrow> lldpConfig \<Rightarrow> 64 word \<Rightarrow> snapshotError + LLDPNeighborSnapshot" where
  "collectSnapshot pathCheck commandLookup execCommand unmarshal switchName cfg generation =
     collectSnapshotWithOptions pathCheck commandLookup execCommand unmarshal switchName generation (lldpCollectionOptions cfg)"

lemma collectSnapshot_generation:
  "collectSnapshot pathCheck commandLookup execCommand unmarshal switchName cfg generation = Inr s \<Longrightarrow> Sn_Generation s = generation"
  by (auto simp: collectSnapshot_def collectSnapshotWithOptions_def parseSnapshot_def Let_def split: sum.splits)

subsection \<open>State\<close>

text \<open>The refresh loop is idle, collects a snapshot with the next generation, or holds the lock and
  broadcasts: it tries to send to the next of the remaining subscribers, has found the channel of
  subscriber \<open>i\<close> full and will empty it, or will send to it after that.\<close>

datatype refresher =
    Idle
  | Collecting "64 word"
  | Broadcasting LLDPNeighborSnapshot "nat list"
  | Draining LLDPNeighborSnapshot nat "nat list"
  | Resending LLDPNeighborSnapshot nat "nat list"

text \<open>A watcher holds the snapshot it subscribed with, waits for an update newer than the generation it
  sent last, has taken a newer snapshot from its channel and not sent it yet, or leaves.\<close>

datatype watchPhase =
    Starting "LLDPNeighborSnapshot option"
  | Following "64 word"
  | Sending "64 word" LLDPNeighborSnapshot
  | Leaving

record watcher =
  Wt_phase :: watchPhase
  Wt_sent :: "LLDPNeighborSnapshot list"

record agentState =
  Ag_currentSnapshot :: "LLDPNeighborSnapshot option"
  Ag_subscribers :: "nat \<rightharpoonup> LLDPNeighborSnapshot list"
  Ag_nextSubscriber :: nat
  Ag_refresher :: refresher
  Ag_watchers :: "nat \<rightharpoonup> watcher"

definition newAgent :: agentState where
  "newAgent = \<lparr>Ag_currentSnapshot = None, Ag_subscribers = Map.empty, Ag_nextSubscriber = 0, Ag_refresher = Idle, Ag_watchers = Map.empty\<rparr>"

datatype agentLabel = Collected LLDPNeighborSnapshot | CollectFailed | Subscribed nat | StreamSent nat LLDPNeighborSnapshot | AgentQuiet

definition locked :: "agentState \<Rightarrow> bool" where
  "locked a = (case Ag_refresher a of Idle \<Rightarrow> False | Collecting _ \<Rightarrow> False | _ \<Rightarrow> True)"

definition nextGeneration :: "agentState \<Rightarrow> 64 word" where
  "nextGeneration a = (case Ag_currentSnapshot a of None \<Rightarrow> 1 | Some current \<Rightarrow> Sn_Generation current + 1)"

definition subscribe :: "agentState \<Rightarrow> agentState" where
  "subscribe a =
     a\<lparr>Ag_nextSubscriber := Ag_nextSubscriber a + 1,
       Ag_subscribers := (Ag_subscribers a)(Ag_nextSubscriber a \<mapsto> []),
       Ag_watchers := (Ag_watchers a)(Ag_nextSubscriber a \<mapsto> \<lparr>Wt_phase = Starting (Ag_currentSnapshot a), Wt_sent = []\<rparr>)\<rparr>"

definition unsubscribe :: "nat \<Rightarrow> agentState \<Rightarrow> agentState" where
  "unsubscribe i a = a\<lparr>Ag_subscribers := (Ag_subscribers a)(i := None), Ag_watchers := (Ag_watchers a)(i := None)\<rparr>"

definition setChannel :: "nat \<Rightarrow> LLDPNeighborSnapshot list \<Rightarrow> agentState \<Rightarrow> agentState" where
  "setChannel i c a = a\<lparr>Ag_subscribers := (Ag_subscribers a)(i \<mapsto> c)\<rparr>"

definition setWatcher :: "nat \<Rightarrow> watchPhase \<Rightarrow> LLDPNeighborSnapshot list \<Rightarrow> agentState \<Rightarrow> agentState" where
  "setWatcher i phase sent a = a\<lparr>Ag_watchers := (Ag_watchers a)(i \<mapsto> \<lparr>Wt_phase = phase, Wt_sent = sent\<rparr>)\<rparr>"

text \<open>The end of a refresh, under the lock: an unchanged snapshot is dropped, a new one is stored and
  broadcast to the subscribers in some order \<open>ids\<close>.\<close>

definition storeSnapshot :: "LLDPNeighborSnapshot \<Rightarrow> nat list \<Rightarrow> agentState \<Rightarrow> agentState" where
  "storeSnapshot snapshot ids a =
     (if snapshotsEqual (Ag_currentSnapshot a) (Some snapshot) then a\<lparr>Ag_refresher := Idle\<rparr>
      else a\<lparr>Ag_currentSnapshot := Some snapshot, Ag_refresher := Broadcasting snapshot ids\<rparr>)"

subsection \<open>Steps\<close>

inductive agentStep :: "string \<Rightarrow> lldpConfig \<Rightarrow> agentState \<Rightarrow> agentLabel \<Rightarrow> agentState \<Rightarrow> bool"
  for switchName :: string and cfg :: lldpConfig where
  refresh: "Ag_refresher a = Idle \<Longrightarrow> agentStep switchName cfg a AgentQuiet (a\<lparr>Ag_refresher := Collecting (nextGeneration a)\<rparr>)"
| collectFailed: "Ag_refresher a = Collecting g \<Longrightarrow>
    collectSnapshot pathCheck commandLookup execCommand unmarshal switchName cfg g = Inl e \<Longrightarrow> agentStep switchName cfg a CollectFailed (a\<lparr>Ag_refresher := Idle\<rparr>)"
| collected: "Ag_refresher a = Collecting g \<Longrightarrow>
    collectSnapshot pathCheck commandLookup execCommand unmarshal switchName cfg g = Inr snapshot \<Longrightarrow> distinct ids \<Longrightarrow> set ids = dom (Ag_subscribers a) \<Longrightarrow>
    agentStep switchName cfg a (Collected snapshot) (storeSnapshot snapshot ids a)"
| delivered: "Ag_refresher a = Broadcasting s (i # ids) \<Longrightarrow> Ag_subscribers a i = Some [] \<Longrightarrow>
    agentStep switchName cfg a AgentQuiet (setChannel i [s] (a\<lparr>Ag_refresher := Broadcasting s ids\<rparr>))"
| full: "Ag_refresher a = Broadcasting s (i # ids) \<Longrightarrow> Ag_subscribers a i = Some (x # xs) \<Longrightarrow>
    agentStep switchName cfg a AgentQuiet (a\<lparr>Ag_refresher := Draining s i ids\<rparr>)"
| drained: "Ag_refresher a = Draining s i ids \<Longrightarrow> Ag_subscribers a i = Some c \<Longrightarrow>
    agentStep switchName cfg a AgentQuiet (setChannel i (tl c) (a\<lparr>Ag_refresher := Resending s i ids\<rparr>))"
| resent: "Ag_refresher a = Resending s i ids \<Longrightarrow> Ag_subscribers a i = Some [] \<Longrightarrow>
    agentStep switchName cfg a AgentQuiet (setChannel i [s] (a\<lparr>Ag_refresher := Broadcasting s ids\<rparr>))"
| broadcasted: "Ag_refresher a = Broadcasting s [] \<Longrightarrow> agentStep switchName cfg a AgentQuiet (a\<lparr>Ag_refresher := Idle\<rparr>)"
| subscribed: "\<not> locked a \<Longrightarrow> acceptsWatch expected switchName \<Longrightarrow> agentStep switchName cfg a (Subscribed (Ag_nextSubscriber a)) (subscribe a)"
| notReady: "Ag_watchers a i = Some w \<Longrightarrow> Wt_phase w = Starting None \<Longrightarrow> agentStep switchName cfg a AgentQuiet (setWatcher i Leaving (Wt_sent w) a)"
| sentFirst: "Ag_watchers a i = Some w \<Longrightarrow> Wt_phase w = Starting (Some s) \<Longrightarrow>
    agentStep switchName cfg a (StreamSent i s) (setWatcher i (Following (Sn_Generation s)) (Wt_sent w @ [s]) a)"
| sendFailed: "Ag_watchers a i = Some w \<Longrightarrow> Wt_phase w = Starting (Some s) \<Longrightarrow> agentStep switchName cfg a AgentQuiet (setWatcher i Leaving (Wt_sent w) a)"
| skipped: "Ag_watchers a i = Some w \<Longrightarrow> Wt_phase w = Following g \<Longrightarrow> Ag_subscribers a i = Some (s # c) \<Longrightarrow> Sn_Generation s \<le> g \<Longrightarrow>
    agentStep switchName cfg a AgentQuiet (setChannel i c a)"
| received: "Ag_watchers a i = Some w \<Longrightarrow> Wt_phase w = Following g \<Longrightarrow> Ag_subscribers a i = Some (s # c) \<Longrightarrow> \<not> Sn_Generation s \<le> g \<Longrightarrow>
    agentStep switchName cfg a AgentQuiet (setWatcher i (Sending g s) (Wt_sent w) (setChannel i c a))"
| sentNext: "Ag_watchers a i = Some w \<Longrightarrow> Wt_phase w = Sending g s \<Longrightarrow>
    agentStep switchName cfg a (StreamSent i s) (setWatcher i (Following (Sn_Generation s)) (Wt_sent w @ [s]) a)"
| sendNextFailed: "Ag_watchers a i = Some w \<Longrightarrow> Wt_phase w = Sending g s \<Longrightarrow> agentStep switchName cfg a AgentQuiet (setWatcher i Leaving (Wt_sent w) a)"
| streamDone: "Ag_watchers a i = Some w \<Longrightarrow> Wt_phase w = Following g \<Longrightarrow> agentStep switchName cfg a AgentQuiet (setWatcher i Leaving (Wt_sent w) a)"
| unsubscribed: "Ag_watchers a i = Some w \<Longrightarrow> Wt_phase w = Leaving \<Longrightarrow> \<not> locked a \<Longrightarrow> agentStep switchName cfg a AgentQuiet (unsubscribe i a)"

subsection \<open>Names\<close>

lemma normalizeSwitchLoop_eq: "normalizeSwitchLoop s d = normalizeLoop d s"
  by (induction s arbitrary: d) (auto simp: isNameChar_def)

text \<open>The agent and the controller normalize names in the same way.\<close>

lemma normalizeSwitchName_eq: "normalizeSwitchName = normalizeResourceName"
  by (rule ext) (simp add: normalizeSwitchName_def normalizeResourceName_def normalizeSwitchLoop_eq)

subsection \<open>Invariant\<close>

abbreviation gen :: "LLDPNeighborSnapshot \<Rightarrow> nat" where
  "gen s \<equiv> unat (Sn_Generation s)"

definition behind :: "LLDPNeighborSnapshot option \<Rightarrow> LLDPNeighborSnapshot option \<Rightarrow> bool" where
  "behind p q = (case q of None \<Rightarrow> False | Some s \<Rightarrow> (case p of None \<Rightarrow> True | Some r \<Rightarrow> gen r < gen s))"

text \<open>What a watcher was given last, its channel and the current snapshot: a subscriber that the
  broadcast has still to serve is behind the current snapshot; any other has it in the channel or was
  given it.\<close>

definition upToDate :: "LLDPNeighborSnapshot option \<Rightarrow> bool \<Rightarrow> LLDPNeighborSnapshot list \<Rightarrow> LLDPNeighborSnapshot option \<Rightarrow> bool" where
  "upToDate cur pend c given \<longleftrightarrow>
     (c = [] \<longrightarrow> (if pend then behind given cur else given = cur))
   \<and> (\<forall>s. c = [s] \<longrightarrow> behind given (Some s) \<and> (if pend then behind (Some s) cur else cur = Some s))"

definition watcherInv :: "LLDPNeighborSnapshot option \<Rightarrow> bool \<Rightarrow> LLDPNeighborSnapshot list \<Rightarrow> watcher \<Rightarrow> bool" where
  "watcherInv cur pend c w \<longleftrightarrow> length c \<le> 1 \<and> sorted_wrt (<) (map gen (Wt_sent w)) \<and> (\<forall>s\<in>set (Wt_sent w). 0 < gen s) \<and>
     (case Wt_phase w of
        Leaving \<Rightarrow> True
      | Starting p \<Rightarrow> Wt_sent w = [] \<and> upToDate cur pend c p \<and> (\<forall>s. p = Some s \<longrightarrow> 0 < gen s)
      | Following g \<Rightarrow> Wt_sent w \<noteq> [] \<and> g = Sn_Generation (last (Wt_sent w)) \<and> upToDate cur pend c (Some (last (Wt_sent w)))
      | Sending g s \<Rightarrow> Wt_sent w \<noteq> [] \<and> g = Sn_Generation (last (Wt_sent w)) \<and> gen (last (Wt_sent w)) < gen s \<and> upToDate cur pend c (Some s))"

definition pending :: "agentState \<Rightarrow> nat set" where
  "pending a = (case Ag_refresher a of Broadcasting s ids \<Rightarrow> set ids | Draining s i ids \<Rightarrow> insert i (set ids)
     | Resending s i ids \<Rightarrow> insert i (set ids) | _ \<Rightarrow> {})"

definition refresherInv :: "agentState \<Rightarrow> bool" where
  "refresherInv a = (case Ag_refresher a of
     Idle \<Rightarrow> True
   | Collecting g \<Rightarrow> g = nextGeneration a
   | Broadcasting s ids \<Rightarrow> Ag_currentSnapshot a = Some s \<and> distinct ids \<and> set ids \<subseteq> dom (Ag_subscribers a)
   | Draining s i ids \<Rightarrow> Ag_currentSnapshot a = Some s \<and> distinct (i # ids) \<and> set (i # ids) \<subseteq> dom (Ag_subscribers a)
   | Resending s i ids \<Rightarrow> Ag_currentSnapshot a = Some s \<and> distinct (i # ids) \<and> set (i # ids) \<subseteq> dom (Ag_subscribers a)
       \<and> Ag_subscribers a i = Some [])"

definition agentInv :: "nat \<Rightarrow> agentState \<Rightarrow> bool" where
  "agentInv n a \<longleftrightarrow> refresherInv a \<and> (\<forall>s. Ag_currentSnapshot a = Some s \<longrightarrow> 0 < gen s \<and> gen s \<le> n)
   \<and> dom (Ag_watchers a) = dom (Ag_subscribers a) \<and> dom (Ag_subscribers a) \<subseteq> {..<Ag_nextSubscriber a}
   \<and> (\<forall>i c w. Ag_subscribers a i = Some c \<and> Ag_watchers a i = Some w \<longrightarrow> watcherInv (Ag_currentSnapshot a) (i \<in> pending a) c w)"

lemma agentInv_newAgent: "agentInv 0 newAgent"
  by (simp add: agentInv_def refresherInv_def newAgent_def)

lemma agentInv_mono: "agentInv n a \<Longrightarrow> n \<le> m \<Longrightarrow> agentInv m a"
  by (fastforce simp: agentInv_def)

lemma behind_trans: "behind p q \<Longrightarrow> behind q r \<Longrightarrow> behind p r"
  by (auto simp: behind_def split: option.splits)

text \<open>A step of one watcher: its channel may lose the snapshot that is read.\<close>

lemma agentInv_watcher:
  assumes "agentInv n a" "Ag_subscribers a i = Some c" "Ag_watchers a i = Some w" "length c' \<le> length c"
    "watcherInv (Ag_currentSnapshot a) (i \<in> pending a) c' \<lparr>Wt_phase = phase, Wt_sent = sent\<rparr>"
  shows "agentInv n (setWatcher i phase sent (setChannel i c' a))"
  using assms
  by (auto simp: agentInv_def refresherInv_def setWatcher_def setChannel_def pending_def nextGeneration_def split: refresher.splits)

lemma setChannel_same: "Ag_subscribers a i = Some c \<Longrightarrow> setChannel i c a = a"
  by (simp add: setChannel_def map_upd_triv)

lemma agentInv_phase:
  assumes "agentInv n a" "Ag_watchers a i = Some w"
    "\<And>c. Ag_subscribers a i = Some c \<Longrightarrow> watcherInv (Ag_currentSnapshot a) (i \<in> pending a) c \<lparr>Wt_phase = phase, Wt_sent = sent\<rparr>"
  shows "agentInv n (setWatcher i phase sent a)"
proof -
  obtain c where c: "Ag_subscribers a i = Some c" using assms(1,2) unfolding agentInv_def by blast
  show ?thesis using agentInv_watcher[OF assms(1) c assms(2) order_refl assms(3)[OF c]] by (simp add: setChannel_same[OF c])
qed

lemma agentInv_watch:
  "agentInv n a \<Longrightarrow> Ag_watchers a i = Some w \<Longrightarrow> Ag_subscribers a i = Some c \<Longrightarrow> watcherInv (Ag_currentSnapshot a) (i \<in> pending a) c w"
  by (simp add: agentInv_def)

text \<open>Steps of the refresh loop on the channel of the subscriber it serves.\<close>

lemma agentInv_channel:
  assumes inv: "agentInv n a" and ref: "refresherInv (setChannel i c' (a\<lparr>Ag_refresher := r\<rparr>))"
    and i: "i \<in> dom (Ag_subscribers a)"
    and pend: "\<And>j. j \<noteq> i \<Longrightarrow> j \<in> pending (a\<lparr>Ag_refresher := r\<rparr>) \<longleftrightarrow> j \<in> pending a"
    and own: "\<And>w c. Ag_watchers a i = Some w \<Longrightarrow> Ag_subscribers a i = Some c \<Longrightarrow> watcherInv (Ag_currentSnapshot a) (i \<in> pending a) c w \<Longrightarrow>
       watcherInv (Ag_currentSnapshot a) (i \<in> pending (a\<lparr>Ag_refresher := r\<rparr>)) c' w"
  shows "agentInv n (setChannel i c' (a\<lparr>Ag_refresher := r\<rparr>))"
proof -
  let ?a = "setChannel i c' (a\<lparr>Ag_refresher := r\<rparr>)"
  have p: "pending ?a = pending (a\<lparr>Ag_refresher := r\<rparr>)" by (simp add: pending_def setChannel_def)
  have "watcherInv (Ag_currentSnapshot ?a) (j \<in> pending ?a) c w" if "Ag_subscribers ?a j = Some c" "Ag_watchers ?a j = Some w" for j c w
  proof (cases "j = i")
    case True
    then show ?thesis using own i that agentInv_watch[OF inv] unfolding p by (auto simp: setChannel_def)
  next
    case False
    then show ?thesis using that agentInv_watch[OF inv] pend unfolding p by (simp add: setChannel_def)
  qed
  then show ?thesis using inv ref i by (auto simp: agentInv_def setChannel_def)
qed

lemma agentInv_refresher:
  assumes "agentInv n a" "refresherInv (a\<lparr>Ag_refresher := r\<rparr>)" "pending (a\<lparr>Ag_refresher := r\<rparr>) = pending a"
  shows "agentInv n (a\<lparr>Ag_refresher := r\<rparr>)"
  using assms by (simp add: agentInv_def)

lemma store_newer:
  assumes inv: "agentInv n a" and col: "Ag_refresher a = Collecting g" "Sn_Generation s = g" and n: "Suc n < 2 ^ 64"
  shows "behind (Ag_currentSnapshot a) (Some s) \<and> 0 < gen s \<and> gen s \<le> Suc n"
proof (cases "Ag_currentSnapshot a")
  case None
  then show ?thesis using inv col by (simp add: behind_def nextGeneration_def agentInv_def refresherInv_def)
next
  case (Some q)
  have g: "g = Sn_Generation q + 1" using inv col(1) Some by (simp add: agentInv_def refresherInv_def nextGeneration_def)
  have "gen q \<le> n" using inv Some by (simp add: agentInv_def)
  then have "unat (Sn_Generation q + 1) = gen q + 1" using n unat_word_ariths(1)[of "Sn_Generation q" 1] by simp
  then show ?thesis using Some g col(2) \<open>gen q \<le> n\<close> by (simp add: behind_def)
qed

lemma agentInv_store:
  assumes inv: "agentInv n a" and col: "Ag_refresher a = Collecting g" "Sn_Generation s = g"
    and ids: "distinct ids" "set ids = dom (Ag_subscribers a)" and n: "Suc n < 2 ^ 64"
  shows "agentInv (Suc n) (storeSnapshot s ids a)"
proof (cases "snapshotsEqual (Ag_currentSnapshot a) (Some s)")
  case True
  have "agentInv n (a\<lparr>Ag_refresher := Idle\<rparr>)"
    by (rule agentInv_refresher[OF inv]) (simp_all add: refresherInv_def pending_def col)
  then show ?thesis using True by (simp add: storeSnapshot_def agentInv_mono)
next
  case False
  let ?a = "a\<lparr>Ag_currentSnapshot := Some s, Ag_refresher := Broadcasting s ids\<rparr>"
  note newer = store_newer[OF inv col n]
  have notpend: "pending a = {}" by (simp add: pending_def col)
  have "watcherInv (Some s) (i \<in> dom (Ag_subscribers a)) c w" if "Ag_subscribers a i = Some c" "Ag_watchers a i = Some w" for i c w
  proof -
    have old: "upToDate (Ag_currentSnapshot a) False c given \<Longrightarrow> upToDate (Some s) True c given" for given
      using newer behind_trans by (auto simp: upToDate_def)
    show ?thesis using agentInv_watch[OF inv that(2,1)] old notpend domI[of "Ag_subscribers a", OF that(1)]
      by (auto simp: watcherInv_def split: watchPhase.splits)
  qed
  moreover have "pending ?a = dom (Ag_subscribers a)" using ids(2) by (simp add: pending_def)
  ultimately show ?thesis using False inv newer ids by (auto simp: storeSnapshot_def agentInv_def refresherInv_def)
qed

lemma agentInv_subscribe:
  assumes "agentInv n a" "\<not> locked a"
  shows "agentInv n (subscribe a)"
proof -
  have p: "pending a = {}" "pending (subscribe a) = {}" using assms(2) by (auto simp: locked_def pending_def subscribe_def split: refresher.splits)
  have "refresherInv (subscribe a)" using assms by (auto simp: agentInv_def refresherInv_def subscribe_def locked_def nextGeneration_def split: refresher.splits)
  moreover have "watcherInv (Ag_currentSnapshot a) False [] \<lparr>Wt_phase = Starting (Ag_currentSnapshot a), Wt_sent = []\<rparr>"
    using assms(1) by (simp add: watcherInv_def upToDate_def agentInv_def)
  ultimately show ?thesis using assms(1) p by (auto simp: agentInv_def subscribe_def less_Suc_eq)
qed

lemma agentInv_unsubscribe:
  assumes "agentInv n a" "\<not> locked a"
  shows "agentInv n (unsubscribe i a)"
  using assms by (auto simp: agentInv_def refresherInv_def unsubscribe_def locked_def pending_def nextGeneration_def split: refresher.splits)

text \<open>Serving a subscriber: the channel is empty, the watcher is behind, and afterwards it is up to date.\<close>

lemma watcherInv_served: "watcherInv (Some s) True [] w \<Longrightarrow> watcherInv (Some s) False [s] w"
  by (auto simp: watcherInv_def upToDate_def split: watchPhase.splits)

lemma watcherInv_drained: "watcherInv cur True c w \<Longrightarrow> watcherInv cur True (tl c) w"
  using behind_trans by (cases c) (auto simp: watcherInv_def upToDate_def split: watchPhase.splits)

lemma agentInv_serve:
  assumes inv: "agentInv n a" and chan: "Ag_subscribers a i = Some []"
    and ref: "Ag_refresher a = Broadcasting s (i # ids) \<or> Ag_refresher a = Resending s i ids"
  shows "agentInv n (setChannel i [s] (a\<lparr>Ag_refresher := Broadcasting s ids\<rparr>))"
proof (rule agentInv_channel[OF inv])
  have r: "Ag_currentSnapshot a = Some s" "distinct (i # ids)" "set (i # ids) \<subseteq> dom (Ag_subscribers a)"
    using inv ref by (auto simp: agentInv_def refresherInv_def)
  show "refresherInv (setChannel i [s] (a\<lparr>Ag_refresher := Broadcasting s ids\<rparr>))" using r by (auto simp: refresherInv_def setChannel_def)
  show "i \<in> dom (Ag_subscribers a)" using chan by auto
  have p: "pending a = insert i (set ids)" using ref by (auto simp: pending_def)
  show "j \<in> pending (a\<lparr>Ag_refresher := Broadcasting s ids\<rparr>) \<longleftrightarrow> j \<in> pending a" if "j \<noteq> i" for j
    using that p by (simp add: pending_def)
  show "watcherInv (Ag_currentSnapshot a) (i \<in> pending (a\<lparr>Ag_refresher := Broadcasting s ids\<rparr>)) [s] w"
    if "Ag_subscribers a i = Some c" "watcherInv (Ag_currentSnapshot a) (i \<in> pending a) c w" for w c
    using that r p chan watcherInv_served[of s w] by (simp add: pending_def)
qed

lemma agentInv_drain:
  assumes inv: "agentInv n a" and chan: "Ag_subscribers a i = Some c" and ref: "Ag_refresher a = Draining s i ids"
  shows "agentInv n (setChannel i (tl c) (a\<lparr>Ag_refresher := Resending s i ids\<rparr>))"
proof (rule agentInv_channel[OF inv])
  have r: "Ag_currentSnapshot a = Some s" "distinct (i # ids)" "set (i # ids) \<subseteq> dom (Ag_subscribers a)"
    using inv ref by (auto simp: agentInv_def refresherInv_def)
  obtain w where "Ag_watchers a i = Some w" using inv chan unfolding agentInv_def by blast
  from agentInv_watch[OF inv this chan] have "tl c = []" by (cases c) (auto simp: watcherInv_def)
  then show "refresherInv (setChannel i (tl c) (a\<lparr>Ag_refresher := Resending s i ids\<rparr>))"
    using r by (auto simp: refresherInv_def setChannel_def)
  show "i \<in> dom (Ag_subscribers a)" using chan by auto
  show "j \<in> pending (a\<lparr>Ag_refresher := Resending s i ids\<rparr>) \<longleftrightarrow> j \<in> pending a" for j using ref by (simp add: pending_def)
  show "watcherInv (Ag_currentSnapshot a) (i \<in> pending (a\<lparr>Ag_refresher := Resending s i ids\<rparr>)) (tl c) w"
    if "Ag_subscribers a i = Some c'" "watcherInv (Ag_currentSnapshot a) (i \<in> pending a) c' w" for w c'
    using that chan ref watcherInv_drained[of _ c w] by (simp add: pending_def)
qed

lemma watcherInv_first:
  "watcherInv cur pend c \<lparr>Wt_phase = Starting (Some s), Wt_sent = sent\<rparr> \<Longrightarrow>
     watcherInv cur pend c \<lparr>Wt_phase = Following (Sn_Generation s), Wt_sent = sent @ [s]\<rparr>"
  by (simp add: watcherInv_def)

lemma watcherInv_receive:
  assumes "watcherInv cur pend (s # c) \<lparr>Wt_phase = Following g, Wt_sent = sent\<rparr>"
  shows "watcherInv cur pend c \<lparr>Wt_phase = Sending g s, Wt_sent = sent\<rparr>" "\<not> Sn_Generation s \<le> g"
  using assms by (auto simp: watcherInv_def upToDate_def behind_def word_le_nat_alt)

lemma watcherInv_next:
  assumes "watcherInv cur pend c \<lparr>Wt_phase = Sending g s, Wt_sent = sent\<rparr>"
  shows "watcherInv cur pend c \<lparr>Wt_phase = Following (Sn_Generation s), Wt_sent = sent @ [s]\<rparr>"
proof -
  have sent: "sent \<noteq> []" "sorted_wrt (<) (map gen sent)" "gen (last sent) < gen s"
    and rest: "length c \<le> 1" "\<forall>s\<in>set sent. 0 < gen s" "upToDate cur pend c (Some s)"
    using assms by (simp_all add: watcherInv_def)
  have "gen x \<le> gen (last sent)" if "x \<in> set sent" for x
    using sent(1,2) that by (induction sent rule: rev_induct) (auto simp: sorted_wrt_append)
  then have "sorted_wrt (<) (map gen (sent @ [s]))" using sent(2,3) by (fastforce simp: sorted_wrt_append)
  then show ?thesis using rest sent(3) by (auto simp: watcherInv_def)
qed

lemma watcherInv_leave: "watcherInv cur pend c w \<Longrightarrow> length c' \<le> length c \<Longrightarrow> watcherInv cur pend c' \<lparr>Wt_phase = Leaving, Wt_sent = Wt_sent w\<rparr>"
  by (auto simp: watcherInv_def)

lemma agentInv_leave:
  assumes "agentInv n a" "Ag_watchers a i = Some w"
  shows "agentInv n (setWatcher i Leaving (Wt_sent w) a)"
  by (rule agentInv_phase[OF assms], erule watcherInv_leave[OF agentInv_watch[OF assms]], rule order_refl)

text \<open>The number of snapshots collected bounds the generation.\<close>

definition collection :: "agentLabel \<Rightarrow> nat" where
  "collection l = (case l of Collected _ \<Rightarrow> 1 | _ \<Rightarrow> 0)"

definition collections :: "agentLabel list \<Rightarrow> nat" where
  "collections ls = sum_list (map collection ls)"

lemma agentInv_step:
  assumes inv: "agentInv n a" and step: "agentStep switchName cfg a l a'" and n: "n + collection l < 2 ^ 64"
  shows "agentInv (n + collection l) a'"
  using step
proof cases
  case refresh
  have "agentInv n a'" unfolding refresh(2)
    by (rule agentInv_refresher[OF inv]) (simp_all add: refresherInv_def pending_def refresh nextGeneration_def)
  then show ?thesis by (rule agentInv_mono) simp
next
  case (collectFailed g pathCheck commandLookup execCommand unmarshal e)
  have "agentInv n a'" unfolding collectFailed(2)
    by (rule agentInv_refresher[OF inv]) (simp_all add: refresherInv_def pending_def collectFailed)
  then show ?thesis by (rule agentInv_mono) simp
next
  case (collected g pathCheck commandLookup execCommand unmarshal snapshot ids)
  show ?thesis using agentInv_store[OF inv collected(3) collectSnapshot_generation[OF collected(4)] collected(5,6)] n
    unfolding collected(1,2) by (simp add: collection_def)
next
  case (delivered s i ids)
  then have "agentInv n a'" using agentInv_serve[OF inv, of i s ids] by simp
  then show ?thesis by (rule agentInv_mono) simp
next
  case (full s i ids x xs)
  have "agentInv n a'" unfolding full(2)
    by (rule agentInv_refresher[OF inv]) (use inv full in \<open>auto simp: agentInv_def refresherInv_def pending_def\<close>)
  then show ?thesis by (rule agentInv_mono) simp
next
  case (drained s i ids c)
  then have "agentInv n a'" using agentInv_drain[OF inv, of i c s ids] by simp
  then show ?thesis by (rule agentInv_mono) simp
next
  case (resent s i ids)
  then have "agentInv n a'" using agentInv_serve[OF inv, of i s ids] by simp
  then show ?thesis by (rule agentInv_mono) simp
next
  case (broadcasted s)
  have "agentInv n a'" unfolding broadcasted(2)
    by (rule agentInv_refresher[OF inv]) (simp_all add: refresherInv_def pending_def broadcasted)
  then show ?thesis by (rule agentInv_mono) simp
next
  case (subscribed expected)
  then show ?thesis using agentInv_mono[OF agentInv_subscribe[OF inv]] by simp
next
  case (notReady i w)
  have "agentInv n a'" unfolding notReady(2) by (rule agentInv_leave[OF inv notReady(3)])
  then show ?thesis by (rule agentInv_mono) simp
next
  case (sentFirst i w s)
  have "agentInv n a'" unfolding sentFirst(2)
  proof (rule agentInv_phase[OF inv sentFirst(3)], rule watcherInv_first)
    fix c assume "Ag_subscribers a i = Some c"
    then show "watcherInv (Ag_currentSnapshot a) (i \<in> pending a) c \<lparr>Wt_phase = Starting (Some s), Wt_sent = Wt_sent w\<rparr>"
      using agentInv_watch[OF inv sentFirst(3)] sentFirst(4) by (simp add: watcherInv_def)
  qed
  then show ?thesis by (rule agentInv_mono) simp
next
  case (sendFailed i w s)
  have "agentInv n a'" unfolding sendFailed(2) by (rule agentInv_leave[OF inv sendFailed(3)])
  then show ?thesis by (rule agentInv_mono) simp
next
  case (skipped i w g s c)
  have "watcherInv (Ag_currentSnapshot a) (i \<in> pending a) (s # c) \<lparr>Wt_phase = Following g, Wt_sent = Wt_sent w\<rparr>"
    using agentInv_watch[OF inv skipped(3,5)] skipped(4) by (auto simp: watcherInv_def)
  then show ?thesis using watcherInv_receive(2) skipped(6) by blast
next
  case (received i w g s c)
  have w: "watcherInv (Ag_currentSnapshot a) (i \<in> pending a) (s # c) \<lparr>Wt_phase = Following g, Wt_sent = Wt_sent w\<rparr>"
    using agentInv_watch[OF inv received(3,5)] received(4) by (auto simp: watcherInv_def)
  have "agentInv n a'" unfolding received(2)
    by (rule agentInv_watcher[OF inv received(5,3) _ watcherInv_receive(1)[OF w]]) simp
  then show ?thesis by (rule agentInv_mono) simp
next
  case (sentNext i w g s)
  have "agentInv n a'" unfolding sentNext(2)
  proof (rule agentInv_phase[OF inv sentNext(3)], rule watcherInv_next)
    fix c assume "Ag_subscribers a i = Some c"
    then show "watcherInv (Ag_currentSnapshot a) (i \<in> pending a) c \<lparr>Wt_phase = Sending g s, Wt_sent = Wt_sent w\<rparr>"
      using agentInv_watch[OF inv sentNext(3)] sentNext(4) by (simp add: watcherInv_def)
  qed
  then show ?thesis by (rule agentInv_mono) simp
next
  case (sendNextFailed i w g s)
  have "agentInv n a'" unfolding sendNextFailed(2) by (rule agentInv_leave[OF inv sendNextFailed(3)])
  then show ?thesis by (rule agentInv_mono) simp
next
  case (streamDone i w g)
  have "agentInv n a'" unfolding streamDone(2) by (rule agentInv_leave[OF inv streamDone(3)])
  then show ?thesis by (rule agentInv_mono) simp
next
  case (unsubscribed i w)
  then show ?thesis using agentInv_mono[OF agentInv_unsubscribe[OF inv]] by simp
qed

lemma agentInv_run:
  assumes "run (agentStep switchName cfg) newAgent ls a" "collections ls < 2 ^ 64"
  shows "agentInv (collections ls) a"
proof -
  have "collections ls < 2 ^ 64 \<longrightarrow> agentInv (collections ls) a"
    by (rule trace_invariant[OF assms(1)]) (use agentInv_newAgent agentInv_step in \<open>auto simp: collections_def\<close>)
  then show ?thesis using assms(2) by blast
qed

subsection \<open>The streams\<close>

text \<open>What a run sends to subscriber \<open>i\<close>.\<close>

definition sentTo :: "nat \<Rightarrow> agentLabel \<Rightarrow> LLDPNeighborSnapshot list" where
  "sentTo i l = (case l of StreamSent j s \<Rightarrow> (if j = i then [s] else []) | _ \<Rightarrow> [])"

definition streamOf :: "nat \<Rightarrow> agentLabel list \<Rightarrow> LLDPNeighborSnapshot list" where
  "streamOf i ls = concat (map (sentTo i) ls)"

definition curGen :: "agentState \<Rightarrow> nat" where
  "curGen a = (case Ag_currentSnapshot a of None \<Rightarrow> 0 | Some s \<Rightarrow> gen s)"

definition streamInv :: "agentLabel list \<Rightarrow> agentState \<Rightarrow> bool" where
  "streamInv ls a \<longleftrightarrow> (\<forall>i w. Ag_watchers a i = Some w \<longrightarrow> streamOf i ls = Wt_sent w)
     \<and> (\<forall>i. Ag_nextSubscriber a \<le> i \<longrightarrow> streamOf i ls = [])
     \<and> (\<forall>i. sorted_wrt (<) (map gen (streamOf i ls)) \<and> (\<forall>s\<in>set (streamOf i ls). 0 < gen s \<and> gen s \<le> curGen a))"

lemma streamOf_snoc [simp]: "streamOf i (ls @ [l]) = streamOf i ls @ sentTo i l"
  by (simp add: streamOf_def)

lemma streamOf_Nil [simp]: "streamOf i [] = []"
  by (simp add: streamOf_def)

text \<open>A message is sent only by a watcher that is registered, and it is the last of its record.\<close>

definition quietStep :: "agentState \<Rightarrow> agentLabel \<Rightarrow> agentState \<Rightarrow> bool" where
  "quietStep a l a' \<longleftrightarrow> (\<forall>i. sentTo i l = []) \<and> Ag_nextSubscriber a \<le> Ag_nextSubscriber a'
     \<and> (\<forall>i w. Ag_watchers a' i = Some w \<longrightarrow>
          (\<exists>w'. Ag_watchers a i = Some w' \<and> Wt_sent w' = Wt_sent w) \<or> Ag_nextSubscriber a \<le> i \<and> Wt_sent w = [])"

definition sendStep :: "agentState \<Rightarrow> agentLabel \<Rightarrow> agentState \<Rightarrow> bool" where
  "sendStep a l a' \<longleftrightarrow> (\<exists>i s w. l = StreamSent i s \<and> Ag_watchers a i = Some w \<and> Ag_nextSubscriber a' = Ag_nextSubscriber a
     \<and> Ag_watchers a' = (Ag_watchers a)(i \<mapsto> \<lparr>Wt_phase = Following (Sn_Generation s), Wt_sent = Wt_sent w @ [s]\<rparr>))"

lemma step_quiet_or_send: "agentStep switchName cfg a l a' \<Longrightarrow> quietStep a l a' \<or> sendStep a l a'"
  by (erule agentStep.cases)
    (auto simp: quietStep_def sendStep_def sentTo_def setWatcher_def setChannel_def storeSnapshot_def subscribe_def unsubscribe_def)

lemma watcherInv_sent:
  assumes "agentInv n a" "Ag_watchers a i = Some w"
  shows "sorted_wrt (<) (map gen (Wt_sent w))" "\<forall>s\<in>set (Wt_sent w). 0 < gen s"
    "Wt_phase w = Following g \<Longrightarrow> gen (last (Wt_sent w)) \<le> curGen a"
proof -
  obtain c where c: "Ag_subscribers a i = Some c" using assms unfolding agentInv_def by blast
  note w = agentInv_watch[OF assms c]
  then show "sorted_wrt (<) (map gen (Wt_sent w))" "\<forall>s\<in>set (Wt_sent w). 0 < gen s" by (simp_all add: watcherInv_def)
  show "gen (last (Wt_sent w)) \<le> curGen a" if "Wt_phase w = Following g"
  proof -
    have "upToDate (Ag_currentSnapshot a) (i \<in> pending a) c (Some (last (Wt_sent w)))" "length c \<le> 1"
      using w that by (simp_all add: watcherInv_def)
    then have "Ag_currentSnapshot a = Some (last (Wt_sent w)) \<or> behind (Some (last (Wt_sent w))) (Ag_currentSnapshot a)"
      using behind_trans by (cases c) (auto simp: upToDate_def split: if_splits)
    then show ?thesis by (auto simp: curGen_def behind_def split: option.splits)
  qed
qed

lemma curGen_mono:
  assumes "agentInv n a" "agentStep switchName cfg a l a'" "n + collection l < 2 ^ 64"
  shows "curGen a \<le> curGen a'"
  using assms(2)
proof cases
  case (collected g pathCheck commandLookup execCommand unmarshal snapshot ids)
  then have "behind (Ag_currentSnapshot a) (Some snapshot)"
    using store_newer[OF assms(1) collected(3) collectSnapshot_generation[OF collected(4)]] assms(3) by (simp add: collection_def)
  then show ?thesis using collected(2) by (auto simp: curGen_def storeSnapshot_def behind_def split: option.splits)
qed (simp_all add: curGen_def setChannel_def setWatcher_def subscribe_def unsubscribe_def)

lemma collections_snoc [simp]: "collections (ls @ [l]) = collections ls + collection l"
  by (simp add: collections_def)

lemma streamInv_step:
  assumes "streamInv ls a" "agentStep switchName cfg a l a'" "agentInv n a" "agentInv n' a'" "n + collection l < 2 ^ 64"
  shows "streamInv (ls @ [l]) a'"
proof -
  note mono = curGen_mono[OF assms(3,2,5)]
  have low: "i < Ag_nextSubscriber a" if "Ag_watchers a i = Some w" for i w
    using assms(3) that unfolding agentInv_def by blast
  have "streamInv (ls @ [l]) a'" if q: "quietStep a l a'"
  proof -
    have same: "streamOf i (ls @ [l]) = streamOf i ls" for i using q by (simp add: quietStep_def)
    have "streamOf i ls = Wt_sent w" if "Ag_watchers a' i = Some w" for i w
      using assms(1) q that unfolding streamInv_def quietStep_def by metis
    then show ?thesis using assms(1) q mono unfolding streamInv_def same quietStep_def by (meson order_trans)
  qed
  moreover have "streamInv (ls @ [l]) a'" if st: "sendStep a l a'"
  proof -
    obtain i s w where w: "l = StreamSent i s" "Ag_watchers a i = Some w" "Ag_nextSubscriber a' = Ag_nextSubscriber a"
      "Ag_watchers a' = (Ag_watchers a)(i \<mapsto> \<lparr>Wt_phase = Following (Sn_Generation s), Wt_sent = Wt_sent w @ [s]\<rparr>)" using st unfolding sendStep_def by blast
    let ?w = "\<lparr>Wt_phase = Following (Sn_Generation s), Wt_sent = Wt_sent w @ [s]\<rparr>"
    have w': "Ag_watchers a' i = Some ?w" using w(4) by simp
    have new: "gen s \<le> curGen a'" using watcherInv_sent(3)[OF assms(4) w', of "Sn_Generation s"] by simp
    have old: "x \<in> set (streamOf j ls) \<Longrightarrow> 0 < gen x \<and> gen x \<le> curGen a'" for x j
      using assms(1) mono unfolding streamInv_def by (meson order_trans)
    have "streamOf i ls = Wt_sent w" using assms(1) w(2) by (simp add: streamInv_def)
    then show ?thesis using assms(1) w low[OF w(2)] watcherInv_sent(1,2)[OF assms(4) w'] new old by (auto simp: streamInv_def sentTo_def)
  qed
  ultimately show ?thesis using step_quiet_or_send[OF assms(2)] by blast
qed

lemma streamInv_run:
  assumes "run (agentStep switchName cfg) newAgent ls a" "collections ls < 2 ^ 64"
  shows "streamInv ls a"
proof -
  have "collections ls < 2 ^ 64 \<longrightarrow> streamInv ls a"
  proof (rule trace_invariant[OF assms(1)])
    show "collections [] < 2 ^ 64 \<longrightarrow> streamInv [] newAgent" by (simp add: streamInv_def newAgent_def)
  next
    fix ls a l a'
    assume r: "run (agentStep switchName cfg) newAgent ls a" and ih: "collections ls < 2 ^ 64 \<longrightarrow> streamInv ls a"
      and st: "agentStep switchName cfg a l a'"
    show "collections (ls @ [l]) < 2 ^ 64 \<longrightarrow> streamInv (ls @ [l]) a'"
    proof
      assume len: "collections (ls @ [l]) < 2 ^ 64"
      then have "agentInv (collections ls) a" "streamInv ls a" using agentInv_run[OF r] ih by auto
      then show "streamInv (ls @ [l]) a'" using streamInv_step[OF _ st _ agentInv_run[OF run_step[OF r st] len]] len by simp
    qed
  qed
  then show ?thesis using assms(2) by blast
qed

subsection \<open>An example run\<close>

definition exConfig :: lldpConfig where
  "exConfig = \<lparr>Lc_CollectionMode = ''hostProc'', Lc_CLIVersion = [], Lc_SocketPath = []\<rparr>"

definition exInterface :: LLDPJSON0Interface where
  "exInterface = \<lparr>If_Name = ''Eth1'', If_Via = [], If_RID = [], If_Age = [], If_Chassis = [\<lparr>Ch_ID = [], Ch_Name = [\<lparr>Jv_Value = ''n1''\<rparr>], Ch_Descr = [], Ch_MgmtIP = [], Ch_Capability = []\<rparr>],
     If_Port = [\<lparr>Po_ID = [\<lparr>Iv_Type = [], Iv_Value = ''p''\<rparr>], Po_Descr = [], Po_TTL = []\<rparr>]\<rparr>"

definition exSnapshot1 :: LLDPNeighborSnapshot where
  "exSnapshot1 = \<lparr>Sn_SwitchName = ''sw'', Sn_LldpNeighbors = [], Sn_Generation = 1\<rparr>"

definition exSnapshot2 :: LLDPNeighborSnapshot where
  "exSnapshot2 = \<lparr>Sn_SwitchName = ''sw'', Sn_LldpNeighbors =
     [\<lparr>Nb_LocalDeviceName = ''sw'', Nb_LocalPort = ''Eth1'', Nb_RemoteSystemName = ''n1'', Nb_RemotePortId = ''p''\<rparr>], Sn_Generation = 2\<rparr>"

lemma exCollect:
  "collectSnapshot (\<lambda>_. None) Some (\<lambda>_ _. ([], None)) (\<lambda>_. Inr \<lparr>Lr_LLDP = []\<rparr>) ''SW'' exConfig 1 = Inr exSnapshot1"
  "collectSnapshot (\<lambda>_. None) Some (\<lambda>_ _. ([], None)) (\<lambda>_. Inr \<lparr>Lr_LLDP = [\<lparr>Ld_Interface = [exInterface]\<rparr>]\<rparr>) ''SW'' exConfig 2 = Inr exSnapshot2"
  by code_simp+

definition exWatcher :: "LLDPNeighborSnapshot list \<Rightarrow> watchPhase \<Rightarrow> nat \<rightharpoonup> watcher" where
  "exWatcher sent phase = [0 \<mapsto> \<lparr>Wt_phase = phase, Wt_sent = sent\<rparr>]"

definition exBroadcast :: agentState where
  "exBroadcast = \<lparr>Ag_currentSnapshot = Some exSnapshot2, Ag_subscribers = [0 \<mapsto> []], Ag_nextSubscriber = 1,
     Ag_refresher = Broadcasting exSnapshot2 [0], Ag_watchers = exWatcher [exSnapshot1] (Following 1)\<rparr>"

definition exServed :: agentState where
  "exServed = \<lparr>Ag_currentSnapshot = Some exSnapshot2, Ag_subscribers = [0 \<mapsto> []], Ag_nextSubscriber = 1,
     Ag_refresher = Idle, Ag_watchers = exWatcher [exSnapshot1, exSnapshot2] (Following 2)\<rparr>"

abbreviation exStep :: "agentState \<Rightarrow> agentLabel \<Rightarrow> agentState \<Rightarrow> bool" where
  "exStep \<equiv> agentStep ''SW'' exConfig"

definition exStart :: "refresher \<Rightarrow> agentState" where
  "exStart r = \<lparr>Ag_currentSnapshot = Some exSnapshot1, Ag_subscribers = Map.empty, Ag_nextSubscriber = 0, Ag_refresher = r, Ag_watchers = Map.empty\<rparr>"

definition exFollow :: "refresher \<Rightarrow> LLDPNeighborSnapshot list \<Rightarrow> watchPhase \<Rightarrow> agentState" where
  "exFollow r sent phase = \<lparr>Ag_currentSnapshot = Some exSnapshot1, Ag_subscribers = [0 \<mapsto> []], Ag_nextSubscriber = 1,
     Ag_refresher = r, Ag_watchers = exWatcher sent phase\<rparr>"

lemmas exSimps = exStart_def exFollow_def exBroadcast_def exServed_def exWatcher_def newAgent_def nextGeneration_def locked_def
  storeSnapshot_def snapshotsEqual_def exSnapshot1_def exSnapshot2_def subscribe_def setWatcher_def setChannel_def

lemma exStep_store1: "exStep (newAgent\<lparr>Ag_refresher := Collecting 1\<rparr>) (Collected exSnapshot1) (exStart (Broadcasting exSnapshot1 []))"
  using agentStep.collected[OF _ exCollect(1), of "newAgent\<lparr>Ag_refresher := Collecting 1\<rparr>" "[]"] by (simp add: exSimps)

lemma exStep_subscribe: "exStep (exStart Idle) (Subscribed 0) (exFollow Idle [] (Starting (Some exSnapshot1)))"
  using agentStep.subscribed[of "exStart Idle" "[]" "''SW''" exConfig] by (simp add: exSimps acceptsWatch_def)

lemma exStep_first: "exStep (exFollow Idle [] (Starting (Some exSnapshot1))) (StreamSent 0 exSnapshot1) (exFollow Idle [exSnapshot1] (Following 1))"
  using agentStep.sentFirst[of "exFollow Idle [] (Starting (Some exSnapshot1))" 0 _ exSnapshot1 "''SW''" exConfig] by (simp add: exSimps)

lemma exStep_store2: "exStep (exFollow (Collecting 2) [exSnapshot1] (Following 1)) (Collected exSnapshot2) exBroadcast"
  using agentStep.collected[OF _ exCollect(2), of "exFollow (Collecting 2) [exSnapshot1] (Following 1)" "[0]"] by (simp add: exSimps)

lemma two_not_le_one: "\<not> (2 :: 64 word) \<le> 1"
  by (simp add: word_le_nat_alt)

definition exHolding :: "LLDPNeighborSnapshot list \<Rightarrow> watchPhase \<Rightarrow> agentState" where
  "exHolding c phase = exServed\<lparr>Ag_subscribers := [0 \<mapsto> c], Ag_watchers := exWatcher [exSnapshot1] phase\<rparr>"

lemma exStep_receive: "exStep (exHolding [exSnapshot2] (Following 1)) AgentQuiet (exHolding [] (Sending 1 exSnapshot2))"
  using agentStep.received[of "exHolding [exSnapshot2] (Following 1)" 0 _ 1 exSnapshot2 "[]" "''SW''" exConfig] two_not_le_one
  by (simp add: exSimps exHolding_def)

lemma exStep_next: "exStep (exHolding [] (Sending 1 exSnapshot2)) (StreamSent 0 exSnapshot2) exServed"
  using agentStep.sentNext[of "exHolding [] (Sending 1 exSnapshot2)" 0 _ 1 exSnapshot2 "''SW''" exConfig] by (simp add: exSimps exHolding_def)

lemmas exCons = run_Cons[where step = exStep]

lemma exRun_broadcast:
  "run exStep newAgent [AgentQuiet, Collected exSnapshot1, AgentQuiet, Subscribed 0, StreamSent 0 exSnapshot1, AgentQuiet, Collected exSnapshot2] exBroadcast"
proof -
  have "exStep newAgent AgentQuiet (newAgent\<lparr>Ag_refresher := Collecting 1\<rparr>)"
    using agentStep.refresh[of newAgent "''SW''" exConfig] by (simp add: exSimps)
  moreover have "exStep (exStart (Broadcasting exSnapshot1 [])) AgentQuiet (exStart Idle)"
    using agentStep.broadcasted[of "exStart (Broadcasting exSnapshot1 [])" exSnapshot1 "''SW''" exConfig] by (simp add: exStart_def)
  moreover have "exStep (exFollow Idle [exSnapshot1] (Following 1)) AgentQuiet (exFollow (Collecting 2) [exSnapshot1] (Following 1))"
    using agentStep.refresh[of "exFollow Idle [exSnapshot1] (Following 1)" "''SW''" exConfig] by (simp add: exSimps)
  ultimately show ?thesis
    using exCons exStep_store1 exStep_subscribe exStep_first run_single[where step = exStep, OF exStep_store2] by presburger
qed

lemma exRun_served:
  "run exStep newAgent [AgentQuiet, Collected exSnapshot1, AgentQuiet, Subscribed 0, StreamSent 0 exSnapshot1, AgentQuiet, Collected exSnapshot2,
     AgentQuiet, AgentQuiet, AgentQuiet, StreamSent 0 exSnapshot2] exServed"
proof -
  let ?d = "exBroadcast\<lparr>Ag_subscribers := [0 \<mapsto> [exSnapshot2]], Ag_refresher := Broadcasting exSnapshot2 []\<rparr>"
  have "exStep exBroadcast AgentQuiet ?d"
    using agentStep.delivered[of exBroadcast exSnapshot2 0 "[]" "''SW''" exConfig] by (simp add: exBroadcast_def setChannel_def)
  moreover have "exStep ?d AgentQuiet (exHolding [exSnapshot2] (Following 1))"
    using agentStep.broadcasted[of ?d exSnapshot2 "''SW''" exConfig] by (simp add: exBroadcast_def exServed_def exHolding_def)
  ultimately have "run exStep exBroadcast [AgentQuiet, AgentQuiet, AgentQuiet, StreamSent 0 exSnapshot2] exServed"
    using exCons exStep_receive run_single[where step = exStep, OF exStep_next] by presburger
  from run_append[OF this exRun_broadcast] show ?thesis by simp
qed

subsection \<open>The broadcast\<close>

text \<open>Steps of the refresh loop between two states.\<close>

definition quietTo :: "string \<Rightarrow> lldpConfig \<Rightarrow> nat \<Rightarrow> agentState \<Rightarrow> agentState \<Rightarrow> bool" where
  "quietTo switchName cfg n a a' \<longleftrightarrow> (\<exists>ls. run (agentStep switchName cfg) a ls a' \<and> set ls \<subseteq> {AgentQuiet}) \<and> agentInv n a'
     \<and> Ag_currentSnapshot a' = Ag_currentSnapshot a \<and> Ag_watchers a' = Ag_watchers a"

lemma quietTo_step:
  assumes "agentStep switchName cfg a AgentQuiet b" "agentInv n b" "Ag_currentSnapshot b = Ag_currentSnapshot a" "Ag_watchers b = Ag_watchers a"
  shows "quietTo switchName cfg n a b"
  using assms run_single[where step = "agentStep switchName cfg", OF assms(1)]
  by (auto simp: quietTo_def intro: exI[of _ "[AgentQuiet]"])

lemma quietTo_trans:
  assumes "quietTo switchName cfg n a b" "quietTo switchName cfg n b c"
  shows "quietTo switchName cfg n a c"
proof -
  obtain ls ls' where "run (agentStep switchName cfg) a ls b" "run (agentStep switchName cfg) b ls' c" "set (ls @ ls') \<subseteq> {AgentQuiet}"
    using assms unfolding quietTo_def by auto
  then show ?thesis using assms run_append unfolding quietTo_def by metis
qed

lemma resend_one:
  assumes inv: "agentInv n a" and ref: "Ag_refresher a = Resending s i ids"
  shows "\<exists>b. quietTo switchName cfg n a b \<and> Ag_refresher b = Broadcasting s ids"
proof -
  have c: "Ag_subscribers a i = Some []" using inv ref by (simp add: agentInv_def refresherInv_def)
  show ?thesis
    using quietTo_step[OF agentStep.resent[OF ref c] agentInv_serve[OF inv c, of s ids]] ref by (fastforce simp: setChannel_def)
qed

lemma drain_one:
  assumes inv: "agentInv n a" and ref: "Ag_refresher a = Draining s i ids"
  shows "\<exists>b. quietTo switchName cfg n a b \<and> Ag_refresher b = Resending s i ids"
proof -
  obtain c where c: "Ag_subscribers a i = Some c" using inv ref by (auto simp: agentInv_def refresherInv_def)
  show ?thesis
    using quietTo_step[OF agentStep.drained[OF ref c] agentInv_drain[OF inv c ref]] by (fastforce simp: setChannel_def)
qed

lemma broadcast_one:
  assumes inv: "agentInv n a" and ref: "Ag_refresher a = Broadcasting s (i # ids)"
  shows "\<exists>b. quietTo switchName cfg n a b \<and> Ag_refresher b = Broadcasting s ids"
proof -
  obtain c where c: "Ag_subscribers a i = Some c" using inv ref by (auto simp: agentInv_def refresherInv_def)
  show ?thesis
  proof (cases c)
    case Nil
    then show ?thesis
      using quietTo_step[OF agentStep.delivered[OF ref] agentInv_serve[OF inv, of i s ids]] c ref by (fastforce simp: setChannel_def)
  next
    case (Cons x xs)
    let ?d = "a\<lparr>Ag_refresher := Draining s i ids\<rparr>"
    have dinv: "agentInv n ?d"
      by (rule agentInv_refresher[OF inv]) (use inv ref in \<open>auto simp: agentInv_def refresherInv_def pending_def\<close>)
    have d: "quietTo switchName cfg n a ?d"
      by (rule quietTo_step[OF agentStep.full[OF ref] dinv]) (use c Cons in auto)
    obtain r where r: "quietTo switchName cfg n ?d r" "Ag_refresher r = Resending s i ids" using drain_one[OF dinv] by fastforce
    then obtain b where "quietTo switchName cfg n r b" "Ag_refresher b = Broadcasting s ids"
      using resend_one unfolding quietTo_def by metis
    then show ?thesis using quietTo_trans[OF quietTo_trans[OF d r(1)]] by blast
  qed
qed

lemma broadcast_all:
  assumes "agentInv n a" "Ag_refresher a = Broadcasting s ids"
  shows "\<exists>b. quietTo switchName cfg n a b \<and> Ag_refresher b = Idle"
  using assms
proof (induction ids arbitrary: a)
  case Nil
  let ?b = "a\<lparr>Ag_refresher := Idle\<rparr>"
  have "agentInv n ?b" by (rule agentInv_refresher[OF Nil(1)]) (simp_all add: refresherInv_def pending_def Nil(2))
  then have "quietTo switchName cfg n a ?b" by (intro quietTo_step agentStep.broadcasted[OF Nil(2)]) simp_all
  then show ?case by fastforce
next
  case (Cons i ids)
  then obtain b where b: "quietTo switchName cfg n a b" "Ag_refresher b = Broadcasting s ids" using broadcast_one by blast
  then obtain b' where "quietTo switchName cfg n b b'" "Ag_refresher b' = Idle" using Cons.IH[of b] unfolding quietTo_def by blast
  then show ?case using quietTo_trans[OF b(1)] by blast
qed

text \<open>The refresh loop never blocks while it holds the lock. From every state that the agent reaches in the
  middle of a broadcast, steps of the refresh loop alone finish the broadcast and release the lock,
  whatever the watchers do or leave undone: the snapshot and the watchers are unchanged by these steps.
  In particular the unconditional send after a full channel was emptied always finds room. (Runs
  with fewer than \<open>2 ^ 64\<close> collected snapshots, so that the generation does not wrap.)\<close>

theorem agent_broadcast_completes:
  assumes "run (agentStep switchName cfg) newAgent ls a" "collections ls < 2 ^ 64"
    and "Ag_refresher a = Broadcasting s ids \<or> Ag_refresher a = Draining s i ids \<or> Ag_refresher a = Resending s i ids"
  shows "\<exists>ls' a'. run (agentStep switchName cfg) a ls' a' \<and> set ls' \<subseteq> {AgentQuiet} \<and> Ag_refresher a' = Idle
     \<and> Ag_currentSnapshot a' = Ag_currentSnapshot a \<and> Ag_watchers a' = Ag_watchers a"
proof -
  note inv = agentInv_run[OF assms(1,2)]
  have "\<exists>b. quietTo switchName cfg (collections ls) a b \<and> Ag_refresher b = Idle"
  proof -
    have res: "\<exists>b. quietTo switchName cfg (collections ls) a' b \<and> Ag_refresher b = Idle" if "agentInv (collections ls) a'" "Ag_refresher a' = Resending s i ids" for a'
      using resend_one[OF that] broadcast_all quietTo_trans unfolding quietTo_def[of _ _ _ a'] by (meson quietTo_def)
    show ?thesis using assms(3) broadcast_all[OF inv] res[OF inv] drain_one[OF inv] res quietTo_trans by (meson quietTo_def)
  qed
  then show ?thesis unfolding quietTo_def by blast
qed

theorem agent_broadcast_completes_witness:
  "\<exists>ls' a'. run (agentStep ''SW'' exConfig) exBroadcast ls' a' \<and> set ls' \<subseteq> {AgentQuiet} \<and> Ag_refresher a' = Idle
     \<and> Ag_currentSnapshot a' = Some exSnapshot2 \<and> Ag_watchers a' = exWatcher [exSnapshot1] (Following 1)"
  using agent_broadcast_completes[OF exRun_broadcast, of exSnapshot2 "[0]"] by (simp add: exBroadcast_def collections_def collection_def)

text \<open>The snapshot a watcher was given last: it is about to send it, or it sent it last.\<close>

definition heldBy :: "watcher \<Rightarrow> LLDPNeighborSnapshot option" where
  "heldBy w = (case Wt_phase w of Starting p \<Rightarrow> p | Sending g s \<Rightarrow> Some s | _ \<Rightarrow> (if Wt_sent w = [] then None else Some (last (Wt_sent w))))"

text \<open>C28. No watcher is left with an old snapshot. In every state that the agent reaches, while
  no broadcast holds the lock, and for every registered watcher that is not leaving: either its channel is empty and the snapshot
  it holds (the one it subscribed with, the one it has taken from the channel and is about to send, or, when it waits, the one it
  sent last) is the current snapshot, or its channel holds exactly the current snapshot, newer than
  the one it holds. A watcher that waits or sends has sent a snapshot before, and its last generation is that snapshot's.
  (Runs with fewer than \<open>2 ^ 64\<close> collected snapshots.)\<close>

theorem agent_latest:
  assumes "run (agentStep switchName cfg) newAgent ls a" "collections ls < 2 ^ 64"
    and "\<not> locked a" "Ag_watchers a i = Some w" "Wt_phase w \<noteq> Leaving"
  shows "(Ag_subscribers a i = Some [] \<and> Ag_currentSnapshot a = heldBy w
      \<or> (\<exists>s. Ag_subscribers a i = Some [s] \<and> Ag_currentSnapshot a = Some s \<and> (\<forall>p. heldBy w = Some p \<longrightarrow> Sn_Generation p < Sn_Generation s)))
     \<and> (\<forall>g. Wt_phase w = Following g \<or> (\<exists>s. Wt_phase w = Sending g s) \<longrightarrow> Wt_sent w \<noteq> [] \<and> g = Sn_Generation (last (Wt_sent w)))"
proof -
  note inv = agentInv_run[OF assms(1,2)]
  obtain c where c: "Ag_subscribers a i = Some c" using inv assms(4) unfolding agentInv_def by blast
  have "i \<notin> pending a" using assms(3) by (auto simp: locked_def pending_def split: refresher.splits)
  then have w: "watcherInv (Ag_currentSnapshot a) False c w" using agentInv_watch[OF inv assms(4) c] by simp
  then have "upToDate (Ag_currentSnapshot a) False c (heldBy w)" "length c \<le> 1"
    using assms(5) by (auto simp: watcherInv_def heldBy_def split: watchPhase.splits)
  then have "Ag_subscribers a i = Some [] \<and> Ag_currentSnapshot a = heldBy w
      \<or> (\<exists>s. Ag_subscribers a i = Some [s] \<and> Ag_currentSnapshot a = Some s \<and> (\<forall>p. heldBy w = Some p \<longrightarrow> Sn_Generation p < Sn_Generation s))"
    using c by (cases c) (auto simp: upToDate_def behind_def word_less_nat_alt)
  moreover have "\<forall>g. Wt_phase w = Following g \<or> (\<exists>s. Wt_phase w = Sending g s) \<longrightarrow> Wt_sent w \<noteq> [] \<and> g = Sn_Generation (last (Wt_sent w))"
    using w by (auto simp: watcherInv_def)
  ultimately show ?thesis by blast
qed

theorem agent_latest_witness:
  "Ag_watchers exServed 0 = Some \<lparr>Wt_phase = Following 2, Wt_sent = [exSnapshot1, exSnapshot2]\<rparr>
   \<and> Ag_currentSnapshot exServed = Some exSnapshot2"
  using agent_latest[OF exRun_served, of 0] by (simp add: exServed_def exWatcher_def locked_def collections_def collection_def heldBy_def)

text \<open>C29. What a run sends to one subscriber has strictly increasing generations,
  whatever the collection returns and however the refresh loop and the watchers interleave: no
  snapshot is sent twice, and none after a newer one. (Runs with fewer than \<open>2 ^ 64\<close>
  collected snapshots.)\<close>

theorem agent_stream_increasing:
  assumes "run (agentStep switchName cfg) newAgent ls a" "collections ls < 2 ^ 64"
  shows "sorted_wrt (<) (map Sn_Generation (streamOf i ls))"
  using streamInv_run[OF assms] by (auto simp: streamInv_def sorted_wrt_map word_less_nat_alt)

theorem agent_stream_increasing_witness:
  "sorted_wrt (<) (map Sn_Generation (streamOf 0 [AgentQuiet, Collected exSnapshot1, AgentQuiet, Subscribed 0, StreamSent 0 exSnapshot1,
     AgentQuiet, Collected exSnapshot2, AgentQuiet, AgentQuiet, AgentQuiet, StreamSent 0 exSnapshot2]))
   \<and> streamOf 0 [StreamSent 0 exSnapshot1, StreamSent 0 exSnapshot2] = [exSnapshot1, exSnapshot2]"
  using agent_stream_increasing[OF exRun_served, of 0] by (simp add: streamOf_def sentTo_def collections_def collection_def)

end
