(* ===== verification/Go_Glob.thy ===== *)
theory Go_Glob
  imports Go_Strings
begin

text \<open>
  \<open>filepath.Match\<close> of the Go standard library on Unix, for ASCII names and patterns (a character is one
  byte). A malformed pattern is \<open>None\<close>.
\<close>

definition Separator :: char where "Separator = CHR ''/''"
definition backslash :: char where "backslash = CHR 0x5C"

fun getEsc :: "string \<Rightarrow> (char \<times> string) option" where
  "getEsc [] = None"
| "getEsc (c # cs) =
     (if c = CHR ''-'' \<or> c = CHR '']'' then None
      else if c = backslash then (case cs of r # nchunk \<Rightarrow> if nchunk = [] then None else Some (r, nchunk) | [] \<Rightarrow> None)
      else if cs = [] then None else Some (c, cs))"

lemma getEsc_shorter: "getEsc chunk = Some (r, nchunk) \<Longrightarrow> length nchunk < length chunk"
  by (cases chunk) (auto split: if_splits list.splits)

text \<open>The ranges of a character class up to the closing bracket; \<open>r\<close> is \<open>None\<close> once the match has failed.\<close>

function classLoop :: "char option \<Rightarrow> nat \<Rightarrow> bool \<Rightarrow> string \<Rightarrow> (bool \<times> string) option" where
  "classLoop r nrange matched chunk =
     (if chunk \<noteq> [] \<and> hd chunk = CHR '']'' \<and> 0 < nrange then Some (matched, tl chunk)
      else case getEsc chunk of
        None \<Rightarrow> None
      | Some (lo, chunk1) \<Rightarrow>
          (case (if hd chunk1 = CHR ''-'' then getEsc (tl chunk1) else Some (lo, chunk1)) of
             None \<Rightarrow> None
           | Some (hi, chunk2) \<Rightarrow>
               classLoop r (nrange + 1) (matched \<or> (case r of None \<Rightarrow> False | Some c \<Rightarrow> lo \<le> c \<and> c \<le> hi)) chunk2))"
  by pat_completeness auto
termination
  by (relation "measure (\<lambda>(r, n, m, chunk). length chunk)") (auto dest!: getEsc_shorter split: if_splits)

declare classLoop.simps [simp del]

lemma classLoop_shorter: "classLoop r nrange matched chunk = Some (b, rest) \<Longrightarrow> length rest < length chunk"
proof (induction r nrange matched chunk rule: classLoop.induct)
  case (1 r nrange matched chunk)
  show ?case
  proof (cases "chunk \<noteq> [] \<and> hd chunk = CHR '']'' \<and> 0 < nrange")
    case True
    then show ?thesis using "1.prems" by (subst (asm) classLoop.simps) auto
  next
    case False
    obtain lo chunk1 where lo: "getEsc chunk = Some (lo, chunk1)" using False "1.prems" by (auto simp: classLoop.simps[of r nrange] split: option.splits)
    let ?e = "if hd chunk1 = CHR ''-'' then getEsc (tl chunk1) else Some (lo, chunk1)"
    obtain hi chunk2 where hi: "?e = Some (hi, chunk2)"
      using False "1.prems" lo by (auto simp: classLoop.simps[of r nrange] split: option.splits)
    have "length chunk2 \<le> length chunk1" using hi getEsc_shorter[of "tl chunk1" hi chunk2] by (auto split: if_splits)
    moreover have "length rest < length chunk2"
      using "1.prems" "1.IH"[OF False lo refl hi refl] False unfolding classLoop.simps[of r nrange matched chunk] by (simp add: lo hi)
    ultimately show ?thesis using getEsc_shorter[OF lo] by simp
  qed
qed

text \<open>A chunk of a pattern, without stars, against the start of a name: \<open>None\<close> for a malformed chunk,
  otherwise the rest of the name if it matches.\<close>

function matchLoop :: "string \<Rightarrow> string \<Rightarrow> bool \<Rightarrow> string option option" where
  "matchLoop [] s failed = Some (if failed then None else Some s)"
| "matchLoop (c # chunk) s failed0 =
     (let failed = (failed0 \<or> s = []) in
      if c = CHR ''['' then
        (let negated = (chunk \<noteq> [] \<and> hd chunk = CHR ''^'');
             r = (if failed then None else Some (hd s))
         in case classLoop r 0 False (if negated then tl chunk else chunk) of
              None \<Rightarrow> None
            | Some (matched, rest) \<Rightarrow> matchLoop rest (if failed then s else tl s) (failed \<or> matched = negated))
      else if c = CHR ''?'' then matchLoop chunk (if failed then s else tl s) (failed \<or> hd s = Separator)
      else if c = backslash then
        (case chunk of
           [] \<Rightarrow> None
         | d # rest \<Rightarrow> matchLoop rest (if failed then s else tl s) (failed \<or> d \<noteq> hd s))
      else matchLoop chunk (if failed then s else tl s) (failed \<or> c \<noteq> hd s))"
  by pat_completeness auto
termination
  by (relation "measure (\<lambda>(chunk, s, failed). length chunk)") (auto dest!: classLoop_shorter split: if_splits)

definition matchChunk :: "string \<Rightarrow> string \<Rightarrow> string option option" where
  "matchChunk chunk s = matchLoop chunk s False"

text \<open>The next chunk of a pattern ends before a star that is outside of brackets.\<close>

fun scanLoop :: "bool \<Rightarrow> string \<Rightarrow> string \<times> string" where
  "scanLoop inrange [] = ([], [])"
| "scanLoop inrange (c # cs) =
     (if c = CHR ''*'' \<and> \<not> inrange then ([], c # cs)
      else if c = backslash then
        (case cs of [] \<Rightarrow> ([c], []) | d # ds \<Rightarrow> (case scanLoop inrange ds of (chunk, rest) \<Rightarrow> (c # d # chunk, rest)))
      else (case scanLoop (if c = CHR ''['' then True else if c = CHR '']'' then False else inrange) cs of (chunk, rest) \<Rightarrow> (c # chunk, rest)))"

definition scanChunk :: "string \<Rightarrow> bool \<times> string \<times> string" where
  "scanChunk pattern = (pattern \<noteq> [] \<and> hd pattern = CHR ''*'', scanLoop False (dropWhile (\<lambda>c. c = CHR ''*'') pattern))"

lemma scanLoop_lengths: "length (fst (scanLoop inrange cs)) + length (snd (scanLoop inrange cs)) = length cs"
  by (induction inrange cs rule: scanLoop.induct) (simp_all add: case_prod_beta split: list.splits)

lemma scanLoop_length: "scanLoop inrange cs = (chunk, rest) \<Longrightarrow> length chunk + length rest = length cs"
  using scanLoop_lengths[of inrange cs] by simp

lemma scanLoop_progress: "scanLoop False cs = (chunk, rest) \<Longrightarrow> cs \<noteq> [] \<Longrightarrow> hd cs \<noteq> CHR ''*'' \<Longrightarrow> length rest < length cs"
  using scanLoop_length[of False cs chunk rest] by (cases cs) (auto split: if_splits list.splits prod.splits)

lemma scanChunk_shorter:
  assumes "scanChunk pattern = (star, chunk, rest)" "pattern \<noteq> []"
  shows "length rest < length pattern"
proof -
  let ?p = "dropWhile (\<lambda>c. c = CHR ''*'') pattern"
  have s: "scanLoop False ?p = (chunk, rest)" using assms(1) by (simp add: scanChunk_def)
  show ?thesis
  proof (cases "?p = [] \<or> length ?p < length pattern")
    case True
    then show ?thesis using scanLoop_length[OF s] assms(2) by (cases pattern) auto
  next
    case False
    then have "hd ?p \<noteq> CHR ''*''" "?p \<noteq> []" using hd_dropWhile[of "\<lambda>c. c = CHR ''*''" pattern] by auto
    then show ?thesis using scanLoop_progress[OF s] length_dropWhile_le[of "\<lambda>c. c = CHR ''*''" pattern] by simp
  qed
qed

text \<open>The rest of a pattern is still checked after the match has failed.\<close>

function checkRest :: "string \<Rightarrow> bool option" where
  "checkRest pattern =
     (if pattern = [] then Some False
      else case scanChunk pattern of (_, chunk, rest) \<Rightarrow> (case matchChunk chunk [] of None \<Rightarrow> None | Some _ \<Rightarrow> checkRest rest))"
  by pat_completeness auto
termination
  by (relation "measure length") (auto dest!: scanChunk_shorter[OF sym])

declare checkRest.simps [simp del]

text \<open>After a star: the chunk is tried after each character skipped, which must not be a separator.
  \<open>final\<close> says that the pattern ends with this chunk.\<close>

fun skipLoop :: "string \<Rightarrow> bool \<Rightarrow> string \<Rightarrow> string option option" where
  "skipLoop chunk final [] = Some None"
| "skipLoop chunk final (c # name) =
     (if c = Separator then Some None
      else case matchChunk chunk name of
        None \<Rightarrow> None
      | Some (Some t) \<Rightarrow> if final \<and> t \<noteq> [] then skipLoop chunk final name else Some (Some t)
      | Some None \<Rightarrow> skipLoop chunk final name)"

function Match :: "string \<Rightarrow> string \<Rightarrow> bool option" where
  "Match pattern name =
     (if pattern = [] then Some (name = [])
      else case scanChunk pattern of (star, chunk, rest) \<Rightarrow>
        if star \<and> chunk = [] then Some (Separator \<notin> set name)
        else case matchChunk chunk name of
          None \<Rightarrow> None
        | Some here \<Rightarrow>
            (case here of
               Some t \<Rightarrow>
                 if t = [] \<or> rest \<noteq> [] then Match rest t
                 else if star then (case skipLoop chunk (rest = []) name of None \<Rightarrow> None | Some (Some t') \<Rightarrow> Match rest t' | Some None \<Rightarrow> checkRest rest)
                 else checkRest rest
             | None \<Rightarrow>
                 if star then (case skipLoop chunk (rest = []) name of None \<Rightarrow> None | Some (Some t') \<Rightarrow> Match rest t' | Some None \<Rightarrow> checkRest rest)
                 else checkRest rest))"
  by pat_completeness auto
termination
  by (relation "measure (\<lambda>(pattern, name). length pattern)") (auto dest!: scanChunk_shorter[OF sym])

declare Match.simps [simp del]

text \<open>A pattern without special characters matches only itself.\<close>

definition plainChar :: "char \<Rightarrow> bool" where
  "plainChar c \<longleftrightarrow> c \<notin> {CHR ''*'', CHR ''?'', CHR ''['', CHR '']'', backslash}"

lemma scanLoop_plain: "list_all plainChar cs \<Longrightarrow> scanLoop False cs = (cs, [])"
  by (induction cs) (auto simp: plainChar_def)

lemma matchLoop_plain:
  "list_all plainChar cs \<Longrightarrow> matchLoop cs s failed = Some (if \<not> failed \<and> take (length cs) s = cs then Some (drop (length cs) s) else None)"
proof (induction cs arbitrary: s failed)
  case (Cons c cs)
  then show ?case by (cases s) (auto simp: plainChar_def Let_def)
qed simp

lemma Match_plain:
  assumes "list_all plainChar pattern"
  shows "Match pattern name = Some (pattern = name)"
proof (cases pattern)
  case Nil
  then show ?thesis by (auto simp: Match.simps[of "[]" name])
next
  case (Cons c cs)
  then have "scanChunk pattern = (False, pattern, [])" using assms by (simp add: scanChunk_def scanLoop_plain plainChar_def)
  then show ?thesis using Cons matchLoop_plain[OF assms, of name False] by (subst Match.simps) (auto simp: matchChunk_def checkRest.simps[of "[]"] Match.simps[of "[]"])
qed

end
