(* ===== verification/Subscription_Manager.thy ===== *)
theory Subscription_Manager
  imports Switch_Agent Go_Glob
begin

text \<open>
  The controller's side of the LLDP streams, \<open>src/pkg/controller/switchtopology/subscription_manager.go\<close>:
  one subscription per switch with a management address, which turns the snapshots of the switch agent
  into the status of the \<open>Switch\<close> object. API answers are arguments: \<open>attempt\<close> says what one attempt to
  read and update an object meets. gRPC, TLS and X.509 parsing are arguments too, as is
  \<open>meta.SetStatusCondition\<close>. A subscription is the list of its sessions; the pause between two of them
  is not modelled.
\<close>

subsection \<open>Status\<close>

definition SwitchConditionConnected :: string where "SwitchConditionConnected = ''Connected''"
definition SwitchConditionReady :: string where "SwitchConditionReady = ''Ready''"
definition SwitchReasonStreamReady :: string where "SwitchReasonStreamReady = ''StreamReady''"
definition SwitchReasonDialFailed :: string where "SwitchReasonDialFailed = ''DialFailed''"
definition SwitchReasonAuthenticationFailed :: string where "SwitchReasonAuthenticationFailed = ''AuthenticationFailed''"
definition SwitchReasonSnapshotAccepted :: string where "SwitchReasonSnapshotAccepted = ''SnapshotAccepted''"
definition SwitchReasonSnapshotRejected :: string where "SwitchReasonSnapshotRejected = ''SnapshotRejected''"
definition SwitchReasonDataStale :: string where "SwitchReasonDataStale = ''DataStale''"

record Condition =
  Cd_Type :: string
  Cd_Status :: bool
  Cd_ObservedGeneration :: int
  Cd_LastTransitionTime :: int
  Cd_Reason :: string
  Cd_Message :: string

record neighborKey =
  Nk_remoteSystemType :: string
  Nk_remoteSystemName :: string

record StatusNeighbor =
  Stn_RemoteSystemType :: string
  Stn_RemoteSystemName :: string
  Stn_LinkCount :: "32 word"

record SwitchStatus =
  St_Hostname :: string
  St_Healthy :: bool
  St_Conditions :: "Condition list"
  St_LLDPNeighborCount :: "32 word"
  St_LLDPNeighbors :: "StatusNeighbor list"

record SwitchCR =
  Cr_Name :: string
  Cr_Generation :: int
  Cr_MgmtIP :: string
  Cr_GrpcPort :: "int option"
  Cr_Status :: SwitchStatus

definition emptyStatus :: SwitchStatus where
  "emptyStatus = \<lparr>St_Hostname = [], St_Healthy = False, St_Conditions = [], St_LLDPNeighborCount = 0, St_LLDPNeighbors = []\<rparr>"

text \<open>The manager: the parts of its configuration that matter here, and the libraries it calls.\<close>

datatype grpcCode = InvalidArgument | FailedPrecondition | Unauthenticated | PermissionDenied | OtherCode

record manager =
  Mg_IgnoreSwitchPorts :: "string list"
  Mg_DefaultGrpcPort :: int
  Mg_MTLSEnabled :: "bool option"
  Mg_recorder :: bool
  Mg_setStatusCondition :: "Condition \<Rightarrow> Condition list \<Rightarrow> Condition list"
  Mg_statusText :: "grpcCode \<Rightarrow> string \<Rightarrow> string"

text \<open>An error as the code sees it: its gRPC code, its text, and whether it is a cancellation.\<close>

record subError =
  Er_Code :: grpcCode
  Er_Text :: string
  Er_Canceled :: bool

definition otherError :: "string \<Rightarrow> subError" where
  "otherError text = \<lparr>Er_Code = OtherCode, Er_Text = text, Er_Canceled = False\<rparr>"

definition grpcError :: "manager \<Rightarrow> grpcCode \<Rightarrow> string \<Rightarrow> subError" where
  "grpcError m code text = \<lparr>Er_Code = code, Er_Text = Mg_statusText m code text, Er_Canceled = False\<rparr>"

definition classifySubscriptionError :: "subError \<Rightarrow> string" where
  "classifySubscriptionError err =
     (if Er_Code err = InvalidArgument then SwitchReasonSnapshotRejected
      else if Er_Code err = FailedPrecondition \<or> Er_Code err = Unauthenticated \<or> Er_Code err = PermissionDenied then SwitchReasonAuthenticationFailed
      else let message = ToLower (Er_Text err) in
        if Contains message ''certificate'' \<or> Contains message ''tls'' then SwitchReasonAuthenticationFailed
        else SwitchReasonDialFailed)"

definition setSwitchCondition :: "manager \<Rightarrow> int \<Rightarrow> int \<Rightarrow> string \<Rightarrow> bool \<Rightarrow> string \<Rightarrow> string \<Rightarrow> SwitchStatus \<Rightarrow> SwitchStatus" where
  "setSwitchCondition m now generation conditionType conditionStatus reason message status =
     status\<lparr>St_Conditions := Mg_setStatusCondition m
       \<lparr>Cd_Type = conditionType, Cd_Status = conditionStatus, Cd_ObservedGeneration = generation,
        Cd_LastTransitionTime = now, Cd_Reason = reason, Cd_Message = message\<rparr> (St_Conditions status)\<rparr>"

text \<open>An attempt to update a status: the read fails, the update fails, the update meets a conflict because the
  object has been changed to another value, or all goes well. A missing object is not an error.
  \<open>RetryOnConflict\<close> makes a first attempt and, after a conflict, further ones; the list holds what these meet.\<close>

datatype attempt = ReadFails subError | UpdateFails subError | Conflict subError "SwitchCR option" | Works

type_synonym attempts = "attempt \<times> attempt list"

record mutateResult =
  Mu_error :: "subError option"
  Mu_store :: "SwitchCR option"
  Mu_seen :: "SwitchCR option"

fun mutateLoop :: "(SwitchCR \<Rightarrow> SwitchStatus) \<Rightarrow> attempt \<Rightarrow> attempt list \<Rightarrow> SwitchCR option \<Rightarrow> SwitchCR option \<Rightarrow> mutateResult" where
  "mutateLoop mutate a retries store seen =
     (case (a, store) of
        (ReadFails e, _) \<Rightarrow> \<lparr>Mu_error = Some e, Mu_store = store, Mu_seen = seen\<rparr>
      | (_, None) \<Rightarrow> \<lparr>Mu_error = None, Mu_store = None, Mu_seen = seen\<rparr>
      | (_, Some sw) \<Rightarrow>
          if mutate sw = Cr_Status sw then \<lparr>Mu_error = None, Mu_store = store, Mu_seen = Some sw\<rparr>
          else (case a of
             UpdateFails e \<Rightarrow> \<lparr>Mu_error = Some e, Mu_store = store, Mu_seen = Some sw\<rparr>
           | Conflict e store' \<Rightarrow>
               (case retries of
                  [] \<Rightarrow> \<lparr>Mu_error = Some e, Mu_store = store', Mu_seen = Some sw\<rparr>
                | b # bs \<Rightarrow> mutateLoop mutate b bs store' (Some sw))
           | _ \<Rightarrow> \<lparr>Mu_error = None, Mu_store = Some (sw\<lparr>Cr_Status := mutate sw\<rparr>), Mu_seen = Some sw\<rparr>))"

declare mutateLoop.simps [simp del]

definition mutateSwitchStatus :: "(SwitchCR \<Rightarrow> SwitchStatus) \<Rightarrow> attempts \<Rightarrow> SwitchCR option \<Rightarrow> mutateResult" where
  "mutateSwitchStatus mutate attempts store = mutateLoop mutate (fst attempts) (snd attempts) store None"

definition markSwitchDisconnected :: "manager \<Rightarrow> int \<Rightarrow> string \<Rightarrow> string \<Rightarrow> attempts \<Rightarrow> SwitchCR option \<Rightarrow> mutateResult" where
  "markSwitchDisconnected m now reason message attempts store =
     mutateSwitchStatus (\<lambda>sw.
       setSwitchCondition m now (Cr_Generation sw) SwitchConditionReady False SwitchReasonDataStale message
         (setSwitchCondition m now (Cr_Generation sw) SwitchConditionConnected False reason message
           ((Cr_Status sw)\<lparr>St_Healthy := False\<rparr>))) attempts store"

definition clearSwitchSubscriptionStatus :: "attempts \<Rightarrow> SwitchCR option \<Rightarrow> mutateResult" where
  "clearSwitchSubscriptionStatus attempts store = mutateSwitchStatus (\<lambda>_. emptyStatus) attempts store"

subsection \<open>Neighbors\<close>

definition shouldIgnoreSwitchPort :: "string \<Rightarrow> string list \<Rightarrow> bool" where
  "shouldIgnoreSwitchPort port patterns = list_ex (\<lambda>pattern. Match pattern port = Some True) patterns"

definition RemoteSystemTypeSwitch :: string where "RemoteSystemTypeSwitch = ''Switch''"

definition classifyRemoteSystemType :: "string \<Rightarrow> (string, bool) gomap \<Rightarrow> (string, bool) gomap \<Rightarrow> string" where
  "classifyRemoteSystemType remoteSystemName nodeNames normalizedNodeNames =
     (if mgetd False nodeNames remoteSystemName \<or> mgetd False normalizedNodeNames (normalizeResourceName remoteSystemName)
      then RemoteSystemTypeKubernetesNode else RemoteSystemTypeSwitch)"

definition kubernetesNodeNames :: "string list \<Rightarrow> (string, bool) gomap \<times> (string, bool) gomap" where
  "kubernetesNodeNames nodes =
     fold (\<lambda>node (nodeNames, normalizedNodeNames). (mput node True nodeNames, mput (normalizeResourceName node) True normalizedNodeNames)) nodes ([], [])"

definition keyOf :: "(string, bool) gomap \<Rightarrow> (string, bool) gomap \<Rightarrow> LLDPNeighborMsg \<Rightarrow> neighborKey" where
  "keyOf nodeNames normalizedNodeNames neighbor =
     \<lparr>Nk_remoteSystemType = classifyRemoteSystemType (Nb_RemoteSystemName neighbor) nodeNames normalizedNodeNames,
      Nk_remoteSystemName = Nb_RemoteSystemName neighbor\<rparr>"

definition countNeighbor :: "manager \<Rightarrow> string list \<Rightarrow> (string, bool) gomap \<Rightarrow> (string, bool) gomap \<Rightarrow> LLDPNeighborMsg
    \<Rightarrow> neighborKey list \<times> (neighborKey, 32 word) gomap \<Rightarrow> subError + neighborKey list \<times> (neighborKey, 32 word) gomap" where
  "countNeighbor m ignoreSwitchPorts nodeNames normalizedNodeNames neighbor st =
     (case st of (order, linkCounts) \<Rightarrow>
        if shouldIgnoreSwitchPort (Nb_LocalPort neighbor) ignoreSwitchPorts then Inr (order, linkCounts)
        else if Nb_RemoteSystemName neighbor = [] then Inl (grpcError m InvalidArgument ''snapshot contains malformed lldp neighbor entry'')
        else let key = keyOf nodeNames normalizedNodeNames neighbor in
          Inr (if mgetd 0 linkCounts key = 0 then order @ [key] else order, mput key (mgetd 0 linkCounts key + 1) linkCounts))"

definition neighborSortKey :: "StatusNeighbor \<Rightarrow> string \<times> string" where
  "neighborSortKey n = (Stn_RemoteSystemType n, Stn_RemoteSystemName n)"

definition normalizeSnapshotNeighbors :: "manager \<Rightarrow> LLDPNeighborSnapshot \<Rightarrow> string list \<Rightarrow> (string, bool) gomap \<Rightarrow> (string, bool) gomap
    \<Rightarrow> subError + StatusNeighbor list" where
  "normalizeSnapshotNeighbors m snapshot ignoreSwitchPorts nodeNames normalizedNodeNames =
     (case efold (countNeighbor m ignoreSwitchPorts nodeNames normalizedNodeNames) (Sn_LldpNeighbors snapshot) ([], []) of
        Inl e \<Rightarrow> Inl e
      | Inr (order, linkCounts) \<Rightarrow>
          Inr (sort_key neighborSortKey
            (map (\<lambda>key. \<lparr>Stn_RemoteSystemType = Nk_remoteSystemType key, Stn_RemoteSystemName = Nk_remoteSystemName key,
                          Stn_LinkCount = mgetd 0 linkCounts key\<rparr>) order)))"

definition neighborKeys :: "StatusNeighbor list \<Rightarrow> (neighborKey, bool) gomap" where
  "neighborKeys neighbors =
     fold (\<lambda>n. mput \<lparr>Nk_remoteSystemType = Stn_RemoteSystemType n, Nk_remoteSystemName = Stn_RemoteSystemName n\<rparr> True) neighbors []"

definition diffNeighborKeys :: "StatusNeighbor list \<Rightarrow> StatusNeighbor list \<Rightarrow> nat \<times> nat" where
  "diffNeighborKeys previous current =
     (let previousKeys = neighborKeys previous; currentKeys = neighborKeys current
      in (length (filter (\<lambda>key. \<not> mgetd False previousKeys key) (mkeys currentKeys)),
          length (filter (\<lambda>key. \<not> mgetd False currentKeys key) (mkeys previousKeys))))"

subsection \<open>Snapshots\<close>

datatype managerEffect = NeighborsChanged nat nat | ParseSuccess | ParseFailure

definition recordNeighborChanges :: "manager \<Rightarrow> SwitchCR option \<Rightarrow> StatusNeighbor list \<Rightarrow> StatusNeighbor list \<Rightarrow> managerEffect list" where
  "recordNeighborChanges m sw previous current =
     (if \<not> Mg_recorder m \<or> sw = None then []
      else case diffNeighborKeys previous current of (added, removed) \<Rightarrow>
        if added = 0 \<and> removed = 0 then [] else [NeighborsChanged added removed])"

record subState =
  Sub_lastGeneration :: "64 word"
  Sub_store :: "SwitchCR option"
  Sub_effects :: "managerEffect list"

text \<open>A received snapshot, with the answer to the list of nodes and the attempts to update the status.\<close>

record message =
  Ms_snapshot :: LLDPNeighborSnapshot
  Ms_nodes :: "subError + string list"
  Ms_attempts :: attempts
  Ms_now :: int

definition snapshotStatus :: "manager \<Rightarrow> int \<Rightarrow> string \<Rightarrow> StatusNeighbor list \<Rightarrow> 64 word \<Rightarrow> SwitchCR \<Rightarrow> SwitchStatus" where
  "snapshotStatus m now hostname neighbors generation sw =
     setSwitchCondition m now (Cr_Generation sw) SwitchConditionReady True SwitchReasonSnapshotAccepted
         (''accepted LLDP snapshot generation '' @ nat_str (unat generation))
       (setSwitchCondition m now (Cr_Generation sw) SwitchConditionConnected True SwitchReasonStreamReady
           ''controller is receiving LLDP snapshots from switch agent''
         ((Cr_Status sw)\<lparr>St_Hostname := hostname, St_Healthy := True,
            St_LLDPNeighborCount := of_nat (length neighbors), St_LLDPNeighbors := neighbors\<rparr>))"

definition messageNeighbors :: "manager \<Rightarrow> message \<Rightarrow> subError + StatusNeighbor list" where
  "messageNeighbors m msg =
     (case (case Ms_nodes msg of Inl e \<Rightarrow> ([], []) | Inr nodes \<Rightarrow> kubernetesNodeNames nodes) of (nodeNames, normalizedNodeNames) \<Rightarrow>
        normalizeSnapshotNeighbors m (Ms_snapshot msg) (Mg_IgnoreSwitchPorts m) nodeNames normalizedNodeNames)"

definition handleSnapshot :: "manager \<Rightarrow> string \<Rightarrow> message \<Rightarrow> subState \<Rightarrow> (subError + bool) \<times> subState" where
  "handleSnapshot m switchName msg s =
     (if Sn_Generation (Ms_snapshot msg) \<le> Sub_lastGeneration s then (Inr False, s)
      else case messageNeighbors m msg of
        Inl e \<Rightarrow> (Inl e, s\<lparr>Sub_effects := Sub_effects s @ [ParseFailure]\<rparr>)
      | Inr neighbors \<Rightarrow>
          let hostname = (if Sn_SwitchName (Ms_snapshot msg) = [] then switchName else Sn_SwitchName (Ms_snapshot msg));
              r = mutateSwitchStatus (snapshotStatus m (Ms_now msg) hostname neighbors (Sn_Generation (Ms_snapshot msg)))
                    (Ms_attempts msg) (Sub_store s)
          in case Mu_error r of
               Some e \<Rightarrow> (Inl e, s\<lparr>Sub_store := Mu_store r\<rparr>)
             | None \<Rightarrow>
                 let previousNeighbors = (case Mu_seen r of None \<Rightarrow> [] | Some sw \<Rightarrow> St_LLDPNeighbors (Cr_Status sw))
                 in (Inr True, \<lparr>Sub_lastGeneration = Sn_Generation (Ms_snapshot msg), Sub_store = Mu_store r,
                      Sub_effects = Sub_effects s @ recordNeighborChanges m (Mu_seen r) previousNeighbors neighbors @ [ParseSuccess]\<rparr>))"

subsection \<open>Sessions\<close>

fun receiveLoop :: "manager \<Rightarrow> string \<Rightarrow> message list \<Rightarrow> subError \<Rightarrow> subState \<Rightarrow> subError \<times> subState" where
  "receiveLoop m switchName [] recvError s = (recvError, s)"
| "receiveLoop m switchName (msg # msgs) recvError s =
     (case handleSnapshot m switchName msg s of
        (Inl e, s') \<Rightarrow> (e, s')
      | (Inr _, s') \<Rightarrow> receiveLoop m switchName msgs recvError s')"

text \<open>One connection: what the set-up meets, the messages received and the error that ends the stream, and
  the attempts to mark the switch as disconnected.\<close>

record session =
  Se_credentials :: "subError option"
  Se_dial :: "subError option"
  Se_watch :: "subError option"
  Se_messages :: "message list"
  Se_recvError :: subError
  Se_attempts :: attempts
  Se_now :: int

definition subscribeUntilDisconnect :: "manager \<Rightarrow> string \<Rightarrow> session \<Rightarrow> subState \<Rightarrow> subError \<times> subState" where
  "subscribeUntilDisconnect m switchName se s =
     (case Se_credentials se of Some e \<Rightarrow> (e, s)
      | None \<Rightarrow> (case Se_dial se of Some e \<Rightarrow> (e, s)
        | None \<Rightarrow> (case Se_watch se of Some e \<Rightarrow> (e, s)
          | None \<Rightarrow> receiveLoop m switchName (Se_messages se) (Se_recvError se) s)))"

definition runSession :: "manager \<Rightarrow> string \<Rightarrow> session \<Rightarrow> subState \<Rightarrow> subState" where
  "runSession m switchName se s =
     (case subscribeUntilDisconnect m switchName se s of (err, s') \<Rightarrow>
        if Er_Canceled err then s'
        else s'\<lparr>Sub_store := Mu_store (markSwitchDisconnected m (Se_now se) (classifySubscriptionError err) (Er_Text err) (Se_attempts se) (Sub_store s'))\<rparr>)"

definition runSubscription :: "manager \<Rightarrow> string \<Rightarrow> session list \<Rightarrow> SwitchCR option \<Rightarrow> subState" where
  "runSubscription m switchName sessions store =
     fold (runSession m switchName) sessions \<lparr>Sub_lastGeneration = 0, Sub_store = store, Sub_effects = []\<rparr>"

subsection \<open>Credentials\<close>

text \<open>Reading files, PEM and X.509 decoding are arguments; a certificate is its raw bytes.\<close>

definition controllerMTLSCertFile :: string where "controllerMTLSCertFile = ''/etc/unifabric/switch-mtls/tls.crt''"
definition controllerMTLSKeyFile :: string where "controllerMTLSKeyFile = ''/etc/unifabric/switch-mtls/tls.key''"
definition controllerMTLSPeerFile :: string where "controllerMTLSPeerFile = ''/etc/unifabric/switch-mtls/peer.crt''"

record certFiles =
  Cf_LoadX509KeyPair :: "string \<Rightarrow> string \<Rightarrow> string + string"
  Cf_ReadFile :: "string \<Rightarrow> string + string"
  Cf_Decode :: "string \<Rightarrow> string option"
  Cf_ParseCertificate :: "string \<Rightarrow> string + string"

text \<open>The configuration of a connection: its certificate and the certificate that the other side must present.\<close>

record tlsConfig =
  Tc_Certificate :: string
  Tc_expectedPeer :: string

definition loadPinnedMTLSClientConfig :: "certFiles \<Rightarrow> string + tlsConfig" where
  "loadPinnedMTLSClientConfig files =
     (case Cf_LoadX509KeyPair files controllerMTLSCertFile controllerMTLSKeyFile of
        Inl e \<Rightarrow> Inl (''load controller client keypair: '' @ e)
      | Inr clientCert \<Rightarrow>
          (case Cf_ReadFile files controllerMTLSPeerFile of
             Inl e \<Rightarrow> Inl (''load pinned switch certificate: '' @ e)
           | Inr peerPEM \<Rightarrow>
               (case Cf_Decode files peerPEM of
                  None \<Rightarrow> Inl ''parse pinned switch certificate: no PEM data found''
                | Some block \<Rightarrow>
                    (case Cf_ParseCertificate files block of
                       Inl e \<Rightarrow> Inl (''parse pinned switch certificate: '' @ e)
                     | Inr expectedPeer \<Rightarrow> Inr \<lparr>Tc_Certificate = clientCert, Tc_expectedPeer = expectedPeer\<rparr>))))"

definition VerifyPeerCertificate :: "certFiles \<Rightarrow> tlsConfig \<Rightarrow> string list \<Rightarrow> string option" where
  "VerifyPeerCertificate files config rawCerts =
     (case rawCerts of
        [] \<Rightarrow> Some ''missing server certificate''
      | raw # _ \<Rightarrow>
          (case Cf_ParseCertificate files raw of
             Inl e \<Rightarrow> Some (''parse presented server certificate: '' @ e)
           | Inr presentedPeer \<Rightarrow>
               if presentedPeer \<noteq> Tc_expectedPeer config then Some ''pinned switch certificate mismatch'' else None))"

text \<open>\<open>None\<close> stands for an insecure transport.\<close>

definition transportCredentials :: "manager \<Rightarrow> certFiles \<Rightarrow> string + tlsConfig option" where
  "transportCredentials m files =
     (if Mg_MTLSEnabled m = None \<or> Mg_MTLSEnabled m = Some True
      then (case loadPinnedMTLSClientConfig files of Inl e \<Rightarrow> Inl e | Inr config \<Rightarrow> Inr (Some config))
      else Inr None)"

subsection \<open>The set of subscriptions\<close>

text \<open>A subscription holds the target and, for its \<open>cancel\<close> function, the number of the goroutine that this
  function stops. \<open>Sb_running\<close> lists the goroutines that were started and not cancelled.\<close>

record switchSubscription =
  Su_target :: string
  Su_cancel :: nat

record subscriptionSet =
  Sb_subscriptions :: "(string, switchSubscription) gomap"
  Sb_next :: nat
  Sb_running :: "(nat \<times> string \<times> string) list"

definition noSubscriptions :: subscriptionSet where
  "noSubscriptions = \<lparr>Sb_subscriptions = [], Sb_next = 0, Sb_running = []\<rparr>"

definition hasSubscription :: "string \<Rightarrow> string \<Rightarrow> subscriptionSet \<Rightarrow> bool" where
  "hasSubscription switchName target s =
     (case map_of (Sb_subscriptions s) switchName of None \<Rightarrow> False | Some subscription \<Rightarrow> Su_target subscription = target)"

definition stopSubscription :: "string \<Rightarrow> subscriptionSet \<Rightarrow> subscriptionSet" where
  "stopSubscription switchName s =
     (case map_of (Sb_subscriptions s) switchName of
        None \<Rightarrow> s
      | Some subscription \<Rightarrow>
          s\<lparr>Sb_running := filter (\<lambda>(i, _). i \<noteq> Su_cancel subscription) (Sb_running s),
            Sb_subscriptions := mdel switchName (Sb_subscriptions s)\<rparr>)"

definition stopAllSubscriptions :: "subscriptionSet \<Rightarrow> subscriptionSet" where
  "stopAllSubscriptions s = fold stopSubscription (mkeys (Sb_subscriptions s)) s"

definition startSubscription :: "string \<times> string \<Rightarrow> subscriptionSet \<Rightarrow> subscriptionSet" where
  "startSubscription desired s =
     (case desired of (switchName, target) \<Rightarrow>
        if hasSubscription switchName target s then s
        else \<lparr>Sb_subscriptions = mput switchName \<lparr>Su_target = target, Su_cancel = Sb_next s\<rparr> (Sb_subscriptions s),
              Sb_next = Sb_next s + 1, Sb_running = Sb_running s @ [(Sb_next s, switchName, target)]\<rparr>)"

definition stopUndesired :: "(string, string) gomap \<Rightarrow> string \<Rightarrow> subscriptionSet \<Rightarrow> subscriptionSet" where
  "stopUndesired desiredTargets switchName s =
     (case map_of desiredTargets switchName of
        Some target \<Rightarrow> if hasSubscription switchName target s then s else stopSubscription switchName s
      | None \<Rightarrow> stopSubscription switchName s)"

definition targetOf :: "manager \<Rightarrow> SwitchCR \<Rightarrow> string" where
  "targetOf m sw = Cr_MgmtIP sw @ '':'' @ Itoa (case Cr_GrpcPort sw of None \<Rightarrow> Mg_DefaultGrpcPort m | Some p \<Rightarrow> p)"

type_synonym syncState = "(string, string) gomap \<times> subscriptionSet \<times> (string \<rightharpoonup> SwitchCR)"

definition syncSwitch :: "manager \<Rightarrow> (string \<Rightarrow> attempts) \<Rightarrow> SwitchCR \<Rightarrow> syncState \<Rightarrow> (subError \<times> subscriptionSet \<times> (string \<rightharpoonup> SwitchCR)) + syncState" where
  "syncSwitch m clear sw st =
     (case st of (desiredTargets, s, store) \<Rightarrow>
        if Cr_MgmtIP sw = [] then
          (let r = clearSwitchSubscriptionStatus (clear (Cr_Name sw)) (store (Cr_Name sw));
               s' = stopSubscription (Cr_Name sw) s;
               store' = store(Cr_Name sw := Mu_store r)
           in case Mu_error r of Some e \<Rightarrow> Inl (e, s', store') | None \<Rightarrow> Inr (desiredTargets, s', store'))
        else Inr (mput (Cr_Name sw) (targetOf m sw) desiredTargets, s, store))"

definition syncSubscriptions :: "manager \<Rightarrow> subError + SwitchCR list \<Rightarrow> (string \<Rightarrow> attempts) \<Rightarrow> subscriptionSet \<Rightarrow> (string \<rightharpoonup> SwitchCR)
    \<Rightarrow> subError option \<times> subscriptionSet \<times> (string \<rightharpoonup> SwitchCR)" where
  "syncSubscriptions m listed clear s store =
     (case listed of
        Inl e \<Rightarrow> (Some e, s, store)
      | Inr items \<Rightarrow>
          (case efold (syncSwitch m clear) items ([], s, store) of
             Inl (e, s', store') \<Rightarrow> (Some e, s', store')
           | Inr (desiredTargets, s', store') \<Rightarrow>
               (None, fold startSubscription desiredTargets (fold (stopUndesired desiredTargets) (mkeys (Sb_subscriptions s')) s'), store')))"

subsection \<open>Neighbors of a snapshot\<close>

definition relevant :: "string list \<Rightarrow> LLDPNeighborMsg list \<Rightarrow> LLDPNeighborMsg list" where
  "relevant ignoreSwitchPorts ns = filter (\<lambda>n. \<not> shouldIgnoreSwitchPort (Nb_LocalPort n) ignoreSwitchPorts) ns"

definition linksTo :: "string list \<Rightarrow> (string, bool) gomap \<Rightarrow> (string, bool) gomap \<Rightarrow> LLDPNeighborMsg list \<Rightarrow> neighborKey \<Rightarrow> nat" where
  "linksTo ignoreSwitchPorts nodeNames normalizedNodeNames ns key =
     length (filter (\<lambda>n. keyOf nodeNames normalizedNodeNames n = key) (relevant ignoreSwitchPorts ns))"

lemma linksTo_snoc:
  "linksTo ig nn zn (ns @ [n]) key =
     linksTo ig nn zn ns key + (if \<not> shouldIgnoreSwitchPort (Nb_LocalPort n) ig \<and> keyOf nn zn n = key then 1 else 0)"
  by (simp add: linksTo_def relevant_def)

lemma linksTo_le: "linksTo ig nn zn ns key \<le> length ns"
  unfolding linksTo_def relevant_def by (meson length_filter_le order_trans)

abbreviation malformed :: "manager \<Rightarrow> subError" where
  "malformed m \<equiv> grpcError m InvalidArgument ''snapshot contains malformed lldp neighbor entry''"

lemma countNeighbors:
  assumes "length ns < 2 ^ 31"
  shows "case efold (countNeighbor m ig nn zn) ns ([], []) of
     Inl e \<Rightarrow> (\<exists>n\<in>set (relevant ig ns). Nb_RemoteSystemName n = []) \<and> e = malformed m
   | Inr (order, linkCounts) \<Rightarrow> (\<forall>n\<in>set (relevant ig ns). Nb_RemoteSystemName n \<noteq> []) \<and> distinct order
       \<and> (\<forall>key. key \<in> set order \<longleftrightarrow> 0 < linksTo ig nn zn ns key) \<and> (\<forall>key. mgetd 0 linkCounts key = of_nat (linksTo ig nn zn ns key))"
  using assms
proof (induction ns rule: rev_induct)
  case Nil
  then show ?case by (simp add: relevant_def linksTo_def)
next
  case (snoc n ns)
  have zero: "(of_nat (linksTo ig nn zn ns key) :: 32 word) = 0 \<longleftrightarrow> linksTo ig nn zn ns key = 0" for key
    using linksTo_le[of ig nn zn ns key] snoc.prems
    by (auto simp: word_of_nat_eq_0_iff dest!: dvd_imp_le)
  show ?case
  proof (cases "efold (countNeighbor m ig nn zn) ns ([], [])")
    case (Inl e)
    then show ?thesis using snoc by (auto simp: efold_snoc relevant_def)
  next
    case (Inr st)
    obtain order linkCounts where st: "st = (order, linkCounts)" by fastforce
    have ih: "\<forall>n\<in>set (relevant ig ns). Nb_RemoteSystemName n \<noteq> []" "distinct order" "\<forall>key. key \<in> set order \<longleftrightarrow> 0 < linksTo ig nn zn ns key"
      "\<forall>key. mgetd 0 linkCounts key = of_nat (linksTo ig nn zn ns key)" using snoc Inr st by auto
    have eq: "efold (countNeighbor m ig nn zn) (ns @ [n]) ([], []) = countNeighbor m ig nn zn n (order, linkCounts)"
      by (simp add: efold_snoc Inr st)
    show ?thesis using ih zero unfolding eq countNeighbor_def[of _ _ _ _ n]
      by (auto simp: linksTo_snoc relevant_def Let_def)
  qed
qed

definition statusNeighbor :: "(neighborKey \<Rightarrow> 32 word) \<Rightarrow> neighborKey \<Rightarrow> StatusNeighbor" where
  "statusNeighbor counts key =
     \<lparr>Stn_RemoteSystemType = Nk_remoteSystemType key, Stn_RemoteSystemName = Nk_remoteSystemName key, Stn_LinkCount = counts key\<rparr>"

definition statusKey :: "StatusNeighbor \<Rightarrow> neighborKey" where
  "statusKey n = \<lparr>Nk_remoteSystemType = Stn_RemoteSystemType n, Nk_remoteSystemName = Stn_RemoteSystemName n\<rparr>"

lemma statusNeighbor_simps [simp]: "statusKey (statusNeighbor counts key) = key" "Stn_LinkCount (statusNeighbor counts key) = counts key"
  by (simp_all add: statusKey_def statusNeighbor_def)

lemma statusNeighbor_statusKey: "counts (statusKey r) = Stn_LinkCount r \<Longrightarrow> statusNeighbor counts (statusKey r) = r"
  by (simp add: statusKey_def statusNeighbor_def)

lemma neighborSortKey_inj: "inj_on (\<lambda>key. neighborSortKey (statusNeighbor counts key)) A"
  by (rule inj_onI) (simp add: neighborSortKey_def statusNeighbor_def)

lemma sint_of_nat_32: "n < 2 ^ 31 \<Longrightarrow> sint (of_nat n :: 32 word) = int n"
  by (simp add: signed_of_nat signed_take_bit_int_eq_self)

text \<open>The neighbors stored for a snapshot. If an entry on a port that is not ignored has no
  remote system name, the snapshot is refused as an invalid argument. Otherwise the result holds one
  entry for each remote system, identified by type and name, in strictly increasing order of type and
  name, and its link count is the number of ports that see it. (Snapshots with fewer than \<open>2 ^ 31\<close>
  entries, so that the 32-bit count does not overflow.)\<close>

theorem normalizeSnapshotNeighbors_counts:
  assumes "length (Sn_LldpNeighbors snapshot) < 2 ^ 31"
  shows "case normalizeSnapshotNeighbors m snapshot ig nodeNames normalizedNodeNames of
     Inl e \<Rightarrow> (\<exists>n\<in>set (relevant ig (Sn_LldpNeighbors snapshot)). Nb_RemoteSystemName n = []) \<and> Er_Code e = InvalidArgument
   | Inr neighbors \<Rightarrow> (\<forall>n\<in>set (relevant ig (Sn_LldpNeighbors snapshot)). Nb_RemoteSystemName n \<noteq> [])
       \<and> sorted_wrt (<) (map neighborSortKey neighbors)
       \<and> (\<forall>r. r \<in> set neighbors \<longleftrightarrow> 0 < sint (Stn_LinkCount r)
            \<and> sint (Stn_LinkCount r) = int (linksTo ig nodeNames normalizedNodeNames (Sn_LldpNeighbors snapshot) (statusKey r)))"
proof (cases "efold (countNeighbor m ig nodeNames normalizedNodeNames) (Sn_LldpNeighbors snapshot) ([], [])")
  case (Inl e)
  then show ?thesis using countNeighbors[OF assms, where m = m and ig = ig and nn = nodeNames and zn = normalizedNodeNames] by (auto simp: normalizeSnapshotNeighbors_def grpcError_def)
next
  case (Inr st)
  obtain order linkCounts where st: "st = (order, linkCounts)" by fastforce
  let ?links = "linksTo ig nodeNames normalizedNodeNames (Sn_LldpNeighbors snapshot)"
  let ?ns = "map (statusNeighbor (mgetd 0 linkCounts)) order"
  have f: "\<forall>n\<in>set (relevant ig (Sn_LldpNeighbors snapshot)). Nb_RemoteSystemName n \<noteq> []" "distinct order"
    "\<And>key. key \<in> set order \<longleftrightarrow> 0 < ?links key" "\<And>key. mgetd 0 linkCounts key = of_nat (?links key)"
    using countNeighbors[OF assms, where m = m and ig = ig and nn = nodeNames and zn = normalizedNodeNames] Inr st by auto
  have res: "normalizeSnapshotNeighbors m snapshot ig nodeNames normalizedNodeNames = Inr (sort_key neighborSortKey ?ns)"
    by (simp add: normalizeSnapshotNeighbors_def Inr st statusNeighbor_def[abs_def])
  have "distinct (map neighborSortKey ?ns)" using f(2) neighborSortKey_inj by (simp add: distinct_map comp_def)
  then have sorted: "sorted_wrt (<) (map neighborSortKey (sort_key neighborSortKey ?ns))"
    by (metis distinct_map distinct_sort set_sort sorted_sort_key strict_sorted_iff)
  have sint: "sint (of_nat (?links key) :: 32 word) = int (?links key)" for key
    using linksTo_le[of ig nodeNames normalizedNodeNames _ key] assms by (intro sint_of_nat_32) (meson le_less_trans)
  have "r \<in> set ?ns \<longleftrightarrow> 0 < sint (Stn_LinkCount r) \<and> sint (Stn_LinkCount r) = int (?links (statusKey r))" for r
  proof
    assume "r \<in> set ?ns"
    then obtain key where "key \<in> set order" "r = statusNeighbor (mgetd 0 linkCounts) key" by auto
    then show "0 < sint (Stn_LinkCount r) \<and> sint (Stn_LinkCount r) = int (?links (statusKey r))"
      using f(3,4) sint by simp
  next
    assume "0 < sint (Stn_LinkCount r) \<and> sint (Stn_LinkCount r) = int (?links (statusKey r))"
    note r = this
    then have "statusKey r \<in> set order" using f(3) by simp
    moreover have "Stn_LinkCount r = of_nat (?links (statusKey r))" using r sint[of "statusKey r"] by (metis signed_word_eqI)
    ultimately show "r \<in> set ?ns" using statusNeighbor_statusKey[of "mgetd 0 linkCounts" r] f(4) by force
  qed
  then show ?thesis using res sorted f(1) by simp
qed

definition exManager :: manager where
  "exManager = \<lparr>Mg_IgnoreSwitchPorts = [''eth0''], Mg_DefaultGrpcPort = 50051, Mg_MTLSEnabled = Some False, Mg_recorder = True,
     Mg_setStatusCondition = (\<lambda>c cs. c # filter (\<lambda>d. Cd_Type d \<noteq> Cd_Type c) cs), Mg_statusText = (\<lambda>_ text. text)\<rparr>"

definition exLink :: "string \<Rightarrow> string \<Rightarrow> LLDPNeighborMsg" where
  "exLink port name = \<lparr>Nb_LocalDeviceName = ''sw'', Nb_LocalPort = port, Nb_RemoteSystemName = name, Nb_RemotePortId = ''p''\<rparr>"

definition exLinks :: LLDPNeighborSnapshot where
  "exLinks = \<lparr>Sn_SwitchName = ''sw'', Sn_LldpNeighbors = [exLink ''Eth1'' ''n1'', exLink ''eth0'' [], exLink ''Eth2'' ''n1''], Sn_Generation = 1\<rparr>"

lemma exLinks_relevant: "relevant [''eth0''] (Sn_LldpNeighbors exLinks) = [exLink ''Eth1'' ''n1'', exLink ''Eth2'' ''n1'']"
  by (simp add: relevant_def exLinks_def exLink_def shouldIgnoreSwitchPort_def Match_plain plainChar_def backslash_def)

theorem normalizeSnapshotNeighbors_counts_witness:
  "case normalizeSnapshotNeighbors exManager exLinks [''eth0''] [] [] of
     Inl e \<Rightarrow> False
   | Inr neighbors \<Rightarrow> sorted_wrt (<) (map neighborSortKey neighbors)
       \<and> (\<exists>r\<in>set neighbors. Stn_RemoteSystemName r = ''n1'' \<and> sint (Stn_LinkCount r) = 2)"
proof -
  let ?r = "\<lparr>Stn_RemoteSystemType = RemoteSystemTypeSwitch, Stn_RemoteSystemName = ''n1'', Stn_LinkCount = 2\<rparr>"
  have l: "linksTo [''eth0''] [] [] (Sn_LldpNeighbors exLinks) (statusKey ?r) = 2"
    by (simp add: linksTo_def exLinks_relevant exLink_def keyOf_def classifyRemoteSystemType_def statusKey_def)
  have "length (Sn_LldpNeighbors exLinks) < 2 ^ 31" by (simp add: exLinks_def)
  note c = normalizeSnapshotNeighbors_counts[OF this, where m = exManager and ig = "[''eth0'']" and nodeNames = "[]" and normalizedNodeNames = "[]"]
  show ?thesis
  proof (cases "normalizeSnapshotNeighbors exManager exLinks [''eth0''] [] []")
    case (Inl e)
    then show ?thesis using c by (simp add: exLinks_relevant exLink_def)
  next
    case (Inr neighbors)
    then have "sorted_wrt (<) (map neighborSortKey neighbors)" "?r \<in> set neighbors" using c l by simp_all
    then show ?thesis using Inr by (auto intro!: bexI[of _ ?r])
  qed
qed

subsection \<open>The set of subscriptions\<close>

text \<open>The goroutines that run are exactly those that an entry of the map can cancel.\<close>

definition subInv :: "subscriptionSet \<Rightarrow> bool" where
  "subInv s \<longleftrightarrow> mwf (Sb_subscriptions s) \<and> distinct (map fst (Sb_running s)) \<and> (\<forall>r\<in>set (Sb_running s). fst r < Sb_next s)
     \<and> (\<forall>i n t. (i, n, t) \<in> set (Sb_running s) \<longleftrightarrow> map_of (Sb_subscriptions s) n = Some \<lparr>Su_target = t, Su_cancel = i\<rparr>)"

lemma subInv_noSubscriptions: "subInv noSubscriptions"
  by (simp add: subInv_def noSubscriptions_def)

lemma subInv_cancel:
  assumes "subInv s" "map_of (Sb_subscriptions s) n = Some v"
  shows "(Su_cancel v, n, Su_target v) \<in> set (Sb_running s)"
  using assms by (simp add: subInv_def)

lemma subInv_stop:
  assumes inv: "subInv s"
  shows "subInv (stopSubscription n s)"
proof (cases "map_of (Sb_subscriptions s) n")
  case None
  then show ?thesis using inv by (simp add: stopSubscription_def)
next
  case (Some v)
  have d: "distinct (map fst (Sb_running s))" using inv by (simp add: subInv_def)
  have own: "(Su_cancel v, n, Su_target v) \<in> set (Sb_running s)" by (rule subInv_cancel[OF inv Some])
  have same: "(i, k, t) \<in> set (Sb_running s) \<and> i \<noteq> Su_cancel v \<longleftrightarrow> (i, k, t) \<in> set (Sb_running s) \<and> k \<noteq> n" for i k t
  proof
    assume a: "(i, k, t) \<in> set (Sb_running s) \<and> i \<noteq> Su_cancel v"
    then have "map_of (Sb_subscriptions s) k = Some \<lparr>Su_target = t, Su_cancel = i\<rparr>" using inv by (simp add: subInv_def)
    then show "(i, k, t) \<in> set (Sb_running s) \<and> k \<noteq> n" using a Some by auto
  next
    assume a: "(i, k, t) \<in> set (Sb_running s) \<and> k \<noteq> n"
    have "i \<noteq> Su_cancel v"
    proof
      assume "i = Su_cancel v"
      then have "(k, t) = (n, Su_target v)" using a own eq_key_imp_eq_value[OF d] by blast
      then show False using a by simp
    qed
    then show "(i, k, t) \<in> set (Sb_running s) \<and> i \<noteq> Su_cancel v" using a by simp
  qed
  have "distinct (map fst (filter (\<lambda>(i, _). i \<noteq> Su_cancel v) (Sb_running s)))" using d by (simp add: distinct_map_filter)
  moreover have "(i, k, t) \<in> set (filter (\<lambda>(i, _). i \<noteq> Su_cancel v) (Sb_running s)) \<longleftrightarrow>
      map_of (mdel n (Sb_subscriptions s)) k = Some \<lparr>Su_target = t, Su_cancel = i\<rparr>" for i k t
    using same[of i k t] inv by (auto simp: subInv_def)
  ultimately show ?thesis using inv Some by (auto simp: stopSubscription_def subInv_def)
qed

lemma stopSubscription_map: "map_of (Sb_subscriptions (stopSubscription n s)) = (map_of (Sb_subscriptions s))(n := None)"
  by (auto simp: stopSubscription_def split: option.splits)

lemma subInv_start:
  assumes inv: "subInv s" and t: "map_of (Sb_subscriptions s) n = None \<or> (\<exists>i. map_of (Sb_subscriptions s) n = Some \<lparr>Su_target = t, Su_cancel = i\<rparr>)"
  shows "subInv (startSubscription (n, t) s)"
proof (cases "map_of (Sb_subscriptions s) n")
  case None
  have "i \<noteq> Sb_next s" if "map_of (Sb_subscriptions s) k = Some \<lparr>Su_target = u, Su_cancel = i\<rparr>" for i k u
  proof -
    have "(i, k, u) \<in> set (Sb_running s)" using subInv_cancel[OF inv that] by simp
    then show ?thesis using inv unfolding subInv_def by fastforce
  qed
  then show ?thesis using inv None
    by (auto simp: startSubscription_def hasSubscription_def subInv_def less_Suc_eq)
next
  case (Some v)
  then show ?thesis using t inv by (auto simp: startSubscription_def hasSubscription_def)
qed

lemma startSubscription_map:
  "map_of (Sb_subscriptions (startSubscription (n, t) s)) k =
     (if k = n \<and> \<not> hasSubscription n t s then Some \<lparr>Su_target = t, Su_cancel = Sb_next s\<rparr> else map_of (Sb_subscriptions s) k)"
  by (simp add: startSubscription_def)

subsection \<open>Synchronization\<close>

definition desiredTarget :: "manager \<Rightarrow> SwitchCR list \<Rightarrow> string \<Rightarrow> string option" where
  "desiredTarget m items n = map_option (targetOf m) (List.find (\<lambda>sw. Cr_Name sw = n \<and> Cr_MgmtIP sw \<noteq> []) items)"

text \<open>The loop over the listed switches: what it stops, and the targets it collects.\<close>

definition labelOnly :: "SwitchCR list \<Rightarrow> string \<Rightarrow> bool" where
  "labelOnly items n = list_ex (\<lambda>sw. Cr_Name sw = n \<and> Cr_MgmtIP sw = []) items"

lemma syncSwitches_stop:
  assumes "efold (syncSwitch m clear) items (d, s, store) = Inr (d', s', store')" "subInv s"
  shows "subInv s' \<and> (\<forall>n. map_of (Sb_subscriptions s') n = (if labelOnly items n then None else map_of (Sb_subscriptions s) n))"
  using assms
proof (induction items arbitrary: d s store)
  case (Cons sw items)
  obtain d1 s1 store1 where one: "syncSwitch m clear sw (d, s, store) = Inr (d1, s1, store1)"
    and rest: "efold (syncSwitch m clear) items (d1, s1, store1) = Inr (d', s', store')"
    using Cons.prems(1) by (auto split: sum.splits)
  have s1: "s1 = (if Cr_MgmtIP sw = [] then stopSubscription (Cr_Name sw) s else s)"
    using one by (auto simp: syncSwitch_def Let_def split: option.splits if_splits)
  then have "subInv s1" using Cons.prems(2) subInv_stop by simp
  from Cons.IH[OF rest this] show ?case by (auto simp: s1 labelOnly_def stopSubscription_map)
qed (simp add: labelOnly_def)

lemma syncSwitches_targets:
  assumes "efold (syncSwitch m clear) items (d, s, store) = Inr (d', s', store')" "distinct (map Cr_Name items)" "mwf d"
  shows "mwf d' \<and> (\<forall>n. map_of d' n = (case desiredTarget m items n of Some t \<Rightarrow> Some t | None \<Rightarrow> map_of d n))"
  using assms
proof (induction items arbitrary: d s store)
  case (Cons sw items)
  obtain d1 s1 store1 where one: "syncSwitch m clear sw (d, s, store) = Inr (d1, s1, store1)"
    and rest: "efold (syncSwitch m clear) items (d1, s1, store1) = Inr (d', s', store')"
    using Cons.prems(1) by (auto split: sum.splits)
  have d1: "d1 = (if Cr_MgmtIP sw = [] then d else mput (Cr_Name sw) (targetOf m sw) d)"
    using one by (auto simp: syncSwitch_def Let_def split: option.splits if_splits)
  have "Cr_Name sw \<notin> set (map Cr_Name items)" using Cons.prems(2) by simp
  then have notin: "desiredTarget m items (Cr_Name sw) = None" by (auto simp: desiredTarget_def find_None_iff image_iff dest!: bspec)
  have "mwf d1" using Cons.prems(3) d1 by simp
  from Cons.IH[OF rest _ this] Cons.prems(2) notin show ?case
    by (auto simp: d1 desiredTarget_def split: option.splits)
qed (simp add: desiredTarget_def)

text \<open>The loop over the map: it keeps exactly the subscriptions with the desired target.\<close>

lemma stopUndesired_map:
  "map_of (Sb_subscriptions (stopUndesired d n s)) k =
     (if k = n \<and> (\<forall>v. map_of (Sb_subscriptions s) n = Some v \<longrightarrow> map_of d n \<noteq> Some (Su_target v)) then None else map_of (Sb_subscriptions s) k)"
  by (auto simp: stopUndesired_def hasSubscription_def stopSubscription_map split: option.splits)

lemma stopUndesired_all:
  assumes "subInv s"
  shows "subInv (fold (stopUndesired d) ns s) \<and> (\<forall>k. map_of (Sb_subscriptions (fold (stopUndesired d) ns s)) k =
     (if k \<in> set ns \<and> (\<forall>v. map_of (Sb_subscriptions s) k = Some v \<longrightarrow> map_of d k \<noteq> Some (Su_target v)) then None else map_of (Sb_subscriptions s) k))"
  using assms
proof (induction ns arbitrary: s)
  case (Cons n ns)
  have "subInv (stopUndesired d n s)" using Cons.prems subInv_stop by (auto simp: stopUndesired_def split: option.splits)
  from Cons.IH[OF this] show ?case by (auto simp: stopUndesired_map)
qed simp

lemma startSubscriptions_all:
  assumes "subInv s" "mwf d" "\<forall>k v. map_of (Sb_subscriptions s) k = Some v \<and> k \<in> keyset d \<longrightarrow> map_of d k = Some (Su_target v)"
  shows "subInv (fold startSubscription d s) \<and>
     (\<forall>k. map_option Su_target (map_of (Sb_subscriptions (fold startSubscription d s)) k) = (case map_of d k of Some t \<Rightarrow> Some t | None \<Rightarrow> map_option Su_target (map_of (Sb_subscriptions s) k)))
     \<and> (\<forall>k v. map_of (Sb_subscriptions s) k = Some v \<longrightarrow> map_of (Sb_subscriptions (fold startSubscription d s)) k = Some v)"
  using assms
proof (induction d arbitrary: s)
  case (Cons e d)
  obtain n t where e: "e = (n, t)" by fastforce
  have old: "map_of (Sb_subscriptions s) n = None \<or> (\<exists>i. map_of (Sb_subscriptions s) n = Some \<lparr>Su_target = t, Su_cancel = i\<rparr>)"
  proof (cases "map_of (Sb_subscriptions s) n")
    case (Some v)
    then have "Su_target v = t" using Cons.prems(3)[rule_format, of n v] e by simp
    then show ?thesis using Some by (metis switchSubscription.surjective old.unit.exhaust)
  qed simp
  let ?s = "startSubscription (n, t) s"
  have inv: "subInv ?s" by (rule subInv_start[OF Cons.prems(1) old])
  have m: "map_of (Sb_subscriptions ?s) k = (if k = n \<and> map_of (Sb_subscriptions s) n = None then Some \<lparr>Su_target = t, Su_cancel = Sb_next s\<rparr> else map_of (Sb_subscriptions s) k)" for k
    using old by (auto simp: startSubscription_map hasSubscription_def)
  have n: "n \<notin> keyset d" using Cons.prems(2) e by (simp add: keyset_def)
  then have p: "\<forall>k v. map_of (Sb_subscriptions ?s) k = Some v \<and> k \<in> keyset d \<longrightarrow> map_of d k = Some (Su_target v)"
    using Cons.prems(3) by (auto simp: m e split: if_splits)
  have "mwf d" using Cons.prems(2) by simp
  note ih = Cons.IH[OF inv this p]
  have keep: "map_of (Sb_subscriptions ?s) k = Some v" if "map_of (Sb_subscriptions s) k = Some v" for k v using that by (auto simp: m)
  have tgt: "map_option Su_target (map_of (Sb_subscriptions ?s) k) = (if k = n then Some t else map_option Su_target (map_of (Sb_subscriptions s) k))" for k
    using old by (auto simp: m)
  have eq: "fold startSubscription (e # d) s = fold startSubscription d ?s" by (simp add: e)
  have none: "map_of d n = None" using n by (simp add: map_of_None_keyset)
  show ?case unfolding eq
  proof (intro conjI allI impI)
    fix k show "map_option Su_target (map_of (Sb_subscriptions (fold startSubscription d ?s)) k) =
        (case map_of (e # d) k of Some t \<Rightarrow> Some t | None \<Rightarrow> map_option Su_target (map_of (Sb_subscriptions s) k))"
      using ih none by (auto simp: tgt e split: option.splits)
  qed (use ih keep in blast)+
qed simp

text \<open>C30. A successful synchronization of the subscriptions with the listed \<open>Switch\<close> objects. Afterwards
  exactly the switches with a management address have a subscription, with the target that the object
  asks for; a subscription that already had this target is the same as before, with its goroutine; and
  the goroutines that run are exactly those of the subscriptions, one each, so none is leaked and none
  is cancelled by mistake.\<close>

theorem syncSubscriptions_exact:
  assumes inv: "subInv s" and names: "distinct (map Cr_Name items)"
    and sync: "syncSubscriptions m (Inr items) clear s store = (None, s', store')"
  shows "subInv s' \<and> (\<forall>n. map_option Su_target (map_of (Sb_subscriptions s') n) = desiredTarget m items n)
     \<and> (\<forall>n v. map_of (Sb_subscriptions s) n = Some v \<and> desiredTarget m items n = Some (Su_target v) \<longrightarrow> map_of (Sb_subscriptions s') n = Some v)"
proof -
  obtain d s1 where one: "efold (syncSwitch m clear) items ([], s, store) = Inr (d, s1, store')"
    and s': "s' = fold startSubscription d (fold (stopUndesired d) (mkeys (Sb_subscriptions s1)) s1)"
    using sync by (auto simp: syncSubscriptions_def split: sum.splits)
  let ?s2 = "fold (stopUndesired d) (mkeys (Sb_subscriptions s1)) s1"
  have s1: "subInv s1" "\<And>n. map_of (Sb_subscriptions s1) n = (if labelOnly items n then None else map_of (Sb_subscriptions s) n)"
    using syncSwitches_stop[OF one inv] by auto
  have d: "mwf d" "\<And>n. map_of d n = desiredTarget m items n" using syncSwitches_targets[OF one names] by (auto split: option.splits)
  have s2: "subInv ?s2" "\<And>k. map_of (Sb_subscriptions ?s2) k =
     (case map_of (Sb_subscriptions s1) k of None \<Rightarrow> None | Some v \<Rightarrow> if map_of d k = Some (Su_target v) then Some v else None)"
    using stopUndesired_all[OF s1(1), of d "mkeys (Sb_subscriptions s1)"] by (auto split: option.splits)
  have s3: "subInv s'" "\<And>k. map_option Su_target (map_of (Sb_subscriptions s') k) = (case map_of d k of Some t \<Rightarrow> Some t | None \<Rightarrow> map_option Su_target (map_of (Sb_subscriptions ?s2) k))"
     "\<And>k v. map_of (Sb_subscriptions ?s2) k = Some v \<Longrightarrow> map_of (Sb_subscriptions s') k = Some v"
    using startSubscriptions_all[OF s2(1) d(1)] s2(2) unfolding s' by (auto split: option.splits if_splits)
  have "\<not> labelOnly items n" if "desiredTarget m items n \<noteq> None" for n
    using that names by (auto simp: desiredTarget_def labelOnly_def list_ex_iff find_None_iff distinct_map dest!: inj_onD)
  then show ?thesis using s3 s2(2) s1(2) d(2) by (auto split: option.splits if_splits)
qed

definition exSwitch :: SwitchCR where
  "exSwitch = \<lparr>Cr_Name = ''sw'', Cr_Generation = 1, Cr_MgmtIP = ''10.0.0.1'', Cr_GrpcPort = None, Cr_Status = emptyStatus\<rparr>"

theorem syncSubscriptions_exact_witness:
  "\<exists>s' store'. syncSubscriptions exManager (Inr [exSwitch]) (\<lambda>_. (Works, [])) noSubscriptions (\<lambda>_. None) = (None, s', store')
     \<and> map_option Su_target (map_of (Sb_subscriptions s') ''sw'') = Some (''10.0.0.1:'' @ Itoa 50051)"
proof -
  obtain s' store' where r: "syncSubscriptions exManager (Inr [exSwitch]) (\<lambda>_. (Works, [])) noSubscriptions (\<lambda>_. None) = (None, s', store')"
    by (simp add: syncSubscriptions_def syncSwitch_def exSwitch_def)
  have t: "desiredTarget exManager [exSwitch] ''sw'' = Some (''10.0.0.1:'' @ Itoa 50051)"
    by (simp add: desiredTarget_def targetOf_def exSwitch_def exManager_def)
  have "distinct (map Cr_Name [exSwitch])" by simp
  from syncSubscriptions_exact[OF subInv_noSubscriptions this r]
  have "map_option Su_target (map_of (Sb_subscriptions s') ''sw'') = desiredTarget exManager [exSwitch] ''sw''" by blast
  then show ?thesis using r t by metis
qed

subsection \<open>Sessions\<close>

lemma mutateLoop_keeps:
  assumes "Q store" "\<And>sw. Q (Some (sw\<lparr>Cr_Status := mutate sw\<rparr>))" "\<forall>e st. Conflict e st \<in> set (a # as) \<longrightarrow> Q st"
  shows "Q (Mu_store (mutateLoop mutate a as store seen))"
  using assms(1,3)
proof (induction as arbitrary: a store seen)
  case Nil
  then show ?case using assms(2) by (auto simp: mutateLoop.simps[of mutate a] split: attempt.splits option.splits)
next
  case (Cons b bs)
  have "Q (Mu_store (mutateLoop mutate b bs st (Some sw)))" if "a = Conflict e st" for e st sw
    by (rule Cons.IH) (use Cons.prems that in auto)
  then show ?case using assms(2) Cons.prems(1) by (auto simp: mutateLoop.simps[of mutate a] split: attempt.splits option.splits)
qed

text \<open>After a disconnect: the object says that the switch is not healthy.\<close>

definition unhealthy :: "SwitchCR option \<Rightarrow> bool" where
  "unhealthy store = (case store of None \<Rightarrow> True | Some sw \<Rightarrow> \<not> St_Healthy (Cr_Status sw))"

definition undisturbed :: "attempts \<Rightarrow> bool" where
  "undisturbed attempts \<longleftrightarrow> (\<forall>e st. Conflict e st \<in> set (fst attempts # snd attempts) \<longrightarrow> unhealthy st)"

lemma markSwitchDisconnected_unhealthy:
  assumes "undisturbed attempts" "unhealthy store"
  shows "unhealthy (Mu_store (markSwitchDisconnected m now reason message attempts store))"
  unfolding markSwitchDisconnected_def mutateSwitchStatus_def
  by (rule mutateLoop_keeps) (use assms in \<open>auto simp: unhealthy_def undisturbed_def setSwitchCondition_def\<close>)

definition staleSession :: "64 word \<Rightarrow> session \<Rightarrow> bool" where
  "staleSession g se \<longleftrightarrow> (\<forall>msg\<in>set (Se_messages se). Sn_Generation (Ms_snapshot msg) \<le> g) \<and> undisturbed (Se_attempts se)"

lemma receiveLoop_stale:
  "\<forall>msg\<in>set msgs. Sn_Generation (Ms_snapshot msg) \<le> Sub_lastGeneration s \<Longrightarrow> receiveLoop m switchName msgs err s = (err, s)"
  by (induction msgs) (auto simp: handleSnapshot_def)

lemma runSession_stale:
  assumes "staleSession (Sub_lastGeneration s) se" "unhealthy (Sub_store s)"
  shows "unhealthy (Sub_store (runSession m switchName se s)) \<and> Sub_lastGeneration (runSession m switchName se s) = Sub_lastGeneration s"
proof -
  have "receiveLoop m switchName (Se_messages se) (Se_recvError se) s = (Se_recvError se, s)"
    using assms(1) by (intro receiveLoop_stale) (simp add: staleSession_def)
  then have "\<exists>err. subscribeUntilDisconnect m switchName se s = (err, s)" by (simp add: subscribeUntilDisconnect_def split: option.splits)
  then obtain err where "subscribeUntilDisconnect m switchName se s = (err, s)" by blast
  then show ?thesis using assms markSwitchDisconnected_unhealthy by (simp add: runSession_def staleSession_def)
qed

lemma runSessions_stale:
  assumes "\<forall>se\<in>set ses. staleSession (Sub_lastGeneration s) se" "unhealthy (Sub_store s)"
  shows "unhealthy (Sub_store (fold (runSession m switchName) ses s)) \<and> Sub_lastGeneration (fold (runSession m switchName) ses s) = Sub_lastGeneration s"
  using assms
proof (induction ses arbitrary: s)
  case (Cons se ses)
  then have "unhealthy (Sub_store (runSession m switchName se s))" "Sub_lastGeneration (runSession m switchName se s) = Sub_lastGeneration s"
    using runSession_stale[of s se] by simp_all
  then show ?case using Cons.IH[of "runSession m switchName se s"] Cons.prems(1) by simp
qed simp

text \<open>A fresh stream: snapshots with increasing generations that are well formed and stored are all accepted.\<close>

definition accepted :: "manager \<Rightarrow> message \<Rightarrow> bool" where
  "accepted m msg \<longleftrightarrow> (\<exists>neighbors. messageNeighbors m msg = Inr neighbors) \<and> fst (Ms_attempts msg) = Works"

definition reflects :: "manager \<Rightarrow> string \<Rightarrow> message \<Rightarrow> SwitchStatus \<Rightarrow> bool" where
  "reflects m switchName msg status \<longleftrightarrow> messageNeighbors m msg = Inr (St_LLDPNeighbors status) \<and> St_Healthy status
     \<and> St_LLDPNeighborCount status = of_nat (length (St_LLDPNeighbors status))
     \<and> St_Hostname status = (if Sn_SwitchName (Ms_snapshot msg) = [] then switchName else Sn_SwitchName (Ms_snapshot msg))"

lemma handleSnapshot_accepted:
  assumes "accepted m msg" "Sub_lastGeneration s < Sn_Generation (Ms_snapshot msg)" "Sub_store s = Some sw"
  shows "\<exists>s' sw'. handleSnapshot m switchName msg s = (Inr True, s') \<and> Sub_lastGeneration s' = Sn_Generation (Ms_snapshot msg)
     \<and> Sub_store s' = Some sw' \<and> reflects m switchName msg (Cr_Status sw')"
proof -
  obtain neighbors where n: "messageNeighbors m msg = Inr neighbors" "fst (Ms_attempts msg) = Works" using assms(1) by (auto simp: accepted_def)
  let ?host = "if Sn_SwitchName (Ms_snapshot msg) = [] then switchName else Sn_SwitchName (Ms_snapshot msg)"
  let ?f = "snapshotStatus m (Ms_now msg) ?host neighbors (Sn_Generation (Ms_snapshot msg))"
  have r: "mutateSwitchStatus ?f (Ms_attempts msg) (Sub_store s) = \<lparr>Mu_error = None, Mu_store = Some (sw\<lparr>Cr_Status := ?f sw\<rparr>), Mu_seen = Some sw\<rparr>"
    by (simp add: mutateSwitchStatus_def mutateLoop.simps[of ?f] n(2) assms(3))
  have "reflects m switchName msg (?f sw)" using n(1) by (simp add: reflects_def snapshotStatus_def setSwitchCondition_def)
  then show ?thesis using assms(2) n(1) r by (simp add: handleSnapshot_def Let_def)
qed

lemma receiveLoop_accepted:
  assumes "\<forall>msg\<in>set msgs. accepted m msg" "sorted_wrt (<) (Sub_lastGeneration s # map (Sn_Generation \<circ> Ms_snapshot) msgs)"
    "Sub_store s = Some sw" "msgs \<noteq> []"
  shows "\<exists>s' sw'. receiveLoop m switchName msgs err s = (err, s') \<and> Sub_lastGeneration s' = Sn_Generation (Ms_snapshot (last msgs))
     \<and> Sub_store s' = Some sw' \<and> reflects m switchName (last msgs) (Cr_Status sw')"
  using assms
proof (induction msgs arbitrary: s sw)
  case (Cons msg msgs)
  obtain s1 sw1 where s1: "handleSnapshot m switchName msg s = (Inr True, s1)" "Sub_lastGeneration s1 = Sn_Generation (Ms_snapshot msg)"
    "Sub_store s1 = Some sw1" "reflects m switchName msg (Cr_Status sw1)"
    using handleSnapshot_accepted[of m msg s sw switchName] Cons.prems by auto
  show ?case
  proof (cases "msgs = []")
    case True
    then show ?thesis using s1 by simp
  next
    case False
    then show ?thesis using Cons.IH[OF _ _ s1(3) False] Cons.prems(1,2) s1 by (simp add: s1(2))
  qed
qed simp

end
