(* ===== verification/Sflow_Decoder.thy ===== *)
theory Sflow_Decoder
  imports Go_Prelude
begin

text \<open>
  The sFlow decoder, \<open>src/pkg/sflow/decoder.go\<close> and the types of \<open>src/pkg/sflow/types.go\<close>. Byte
  slices are lists of 8-bit words and counters keep their width. Indexing and slicing are partial:
  \<open>None\<close> is the run-time panic of the source, \<open>Some None\<close> the result \<open>(parsedFlow{}, false)\<close>. The
  decoder of sFlow messages is a package outside the repository and is an argument of
  \<open>DecodeDatagram\<close>; pointers to its samples are not nil and are identified with the samples.
\<close>

unbundle bit_operations_syntax

type_synonym bytes = "8 word list"
type_synonym IP = bytes

subsection \<open>Types\<close>

definition FlowTypeSFlow5 :: "32 word" where "FlowTypeSFlow5 = 1"
definition etherTypeIPv4 :: "32 word" where "etherTypeIPv4 = 0x0800"
definition etherTypeIPv6 :: "32 word" where "etherTypeIPv6 = 0x86DD"
definition protoTCP :: "8 word" where "protoTCP = 6"
definition protoUDP :: "8 word" where "protoUDP = 17"
definition protoSCTP :: "8 word" where "protoSCTP = 132"

record EndpointAttribution =
  Ea_PodName :: string
  Ea_PodNamespace :: string
  Ea_NodeName :: string
  Ea_TopOwnerKind :: string
  Ea_TopOwnerName :: string
  Ea_TopOwnerNamespace :: string

definition noAttribution :: EndpointAttribution where
  "noAttribution = \<lparr>Ea_PodName = [], Ea_PodNamespace = [], Ea_NodeName = [],
     Ea_TopOwnerKind = [], Ea_TopOwnerName = [], Ea_TopOwnerNamespace = []\<rparr>"

record FlowRecord =
  Fr_Type :: "32 word"
  Fr_TimeReceived :: int
  Fr_SequenceNum :: "32 word"
  Fr_SamplingRate :: "64 word"
  Fr_SamplerAddress :: IP
  Fr_TimeFlowStart :: int
  Fr_TimeFlowEnd :: int
  Fr_Bytes :: "64 word"
  Fr_Packets :: "64 word"
  Fr_SrcAddr :: IP
  Fr_DstAddr :: IP
  Fr_SrcAS :: "32 word"
  Fr_DstAS :: "32 word"
  Fr_Etype :: "32 word"
  Fr_Proto :: "32 word"
  Fr_SrcPort :: "32 word"
  Fr_DstPort :: "32 word"
  Fr_SrcAttribution :: EndpointAttribution
  Fr_DstAttribution :: EndpointAttribution

record parsedFlow =
  Pf_Bytes :: "64 word"
  Pf_SrcAddr :: IP
  Pf_DstAddr :: IP
  Pf_Etype :: "32 word"
  Pf_Proto :: "32 word"
  Pf_SrcPort :: "32 word"
  Pf_DstPort :: "32 word"

text \<open>The parts of a decoded sFlow message that the source reads.\<close>

record SampledIPBase =
  Ib_Length :: "32 word"
  Ib_Protocol :: "32 word"
  Ib_SrcIP :: IP
  Ib_DstIP :: IP
  Ib_SrcPort :: "32 word"
  Ib_DstPort :: "32 word"

datatype recordData =
    SampledIPv4 SampledIPBase
  | SampledIPv6 SampledIPBase
  | SampledHeader bytes "32 word"
  | ExtendedGateway "32 word" "32 word"
  | OtherData

datatype sample =
    FlowSample "32 word" "recordData list"
  | ExpandedFlowSample "32 word" "recordData list"
  | OtherSample

record Packet =
  Pk_AgentIP :: IP
  Pk_SequenceNumber :: "32 word"
  Pk_Samples :: "sample list"

subsection \<open>Slices\<close>

definition byteAt :: "bytes \<Rightarrow> nat \<Rightarrow> 8 word option" where
  "byteAt xs i = (if i < length xs then Some (xs ! i) else None)"

definition slice :: "bytes \<Rightarrow> nat \<Rightarrow> nat \<Rightarrow> bytes option" where
  "slice xs lo hi = (if lo \<le> hi \<and> hi \<le> length xs then Some (take (hi - lo) (drop lo xs)) else None)"

definition be16 :: "8 word \<Rightarrow> 8 word \<Rightarrow> 16 word" where
  "be16 x y = push_bit 8 (ucast x) OR ucast y"

definition Uint16 :: "bytes \<Rightarrow> 16 word option" where
  "Uint16 b = (case b of x # y # _ \<Rightarrow> Some (be16 x y) | _ \<Rightarrow> None)"

definition uint16At :: "bytes \<Rightarrow> nat \<Rightarrow> 16 word option" where
  "uint16At xs i = Option.bind (slice xs i (i + 2)) Uint16"

definition cloneIP :: "IP \<Rightarrow> IP" where
  "cloneIP ip = ip"

subsection \<open>Packet headers\<close>

definition carriesPorts :: "8 word \<Rightarrow> bool" where
  "carriesPorts proto \<longleftrightarrow> proto = protoTCP \<or> proto = protoUDP \<or> proto = protoSCTP"

definition portsAt :: "8 word \<Rightarrow> bytes \<Rightarrow> nat \<Rightarrow> (32 word \<times> 32 word) option" where
  "portsAt proto ip offset =
     (if carriesPorts proto \<and> length ip \<ge> offset + 4
      then do { s \<leftarrow> uint16At ip offset; d \<leftarrow> uint16At ip (offset + 2); Some (ucast s, ucast d) }
      else Some (0, 0))"

definition parseIPv4 :: "bytes \<Rightarrow> 32 word \<Rightarrow> parsedFlow option option" where
  "parseIPv4 ip frameLength =
     (if length ip < 20 then Some None
      else do {
        first \<leftarrow> byteAt ip 0;
        if drop_bit 4 first \<noteq> 4 then Some None
        else let ihl = unat (first AND 0x0F) * 4 in
          if ihl < 20 \<or> length ip < ihl then Some None
          else do {
            proto \<leftarrow> byteAt ip 9;
            (srcPort, dstPort) \<leftarrow> portsAt proto ip ihl;
            let bytesCount = (ucast frameLength :: 64 word);
            bytesCount' \<leftarrow> (if bytesCount = 0 \<and> length ip \<ge> 4 then map_option ucast (uint16At ip 2) else Some bytesCount);
            src \<leftarrow> slice ip 12 16;
            dst \<leftarrow> slice ip 16 20;
            Some (Some \<lparr>Pf_Bytes = bytesCount', Pf_SrcAddr = cloneIP src, Pf_DstAddr = cloneIP dst,
              Pf_Etype = etherTypeIPv4, Pf_Proto = ucast proto, Pf_SrcPort = srcPort, Pf_DstPort = dstPort\<rparr>)
          }
      })"

text \<open>The loop over extension headers: the remaining iterations, the next header and the offset.\<close>

fun extensionLoop :: "nat \<Rightarrow> bytes \<Rightarrow> 8 word \<Rightarrow> nat \<Rightarrow> (8 word \<times> nat) option option" where
  "extensionLoop 0 ip nextHeader offset = Some (Some (nextHeader, offset))"
| "extensionLoop (Suc n) ip nextHeader offset =
     (if nextHeader = 0 \<or> nextHeader = 43 \<or> nextHeader = 60 then
        if length ip < offset + 2 then Some None
        else do {
          lenByte \<leftarrow> byteAt ip (offset + 1);
          let hdrLen = unat (lenByte + 1) * 8;
          if length ip < offset + hdrLen then Some None
          else do { next \<leftarrow> byteAt ip offset; extensionLoop n ip next (offset + hdrLen) }
        }
      else if nextHeader = 44 then
        if length ip < offset + 8 then Some None
        else do { next \<leftarrow> byteAt ip offset; extensionLoop n ip next (offset + 8) }
      else if nextHeader = 51 then
        if length ip < offset + 2 then Some None
        else do {
          lenByte \<leftarrow> byteAt ip (offset + 1);
          let hdrLen = unat (lenByte + 2) * 4;
          if length ip < offset + hdrLen then Some None
          else do { next \<leftarrow> byteAt ip offset; extensionLoop n ip next (offset + hdrLen) }
        }
      else Some (Some (nextHeader, offset)))"

definition parseIPv6 :: "bytes \<Rightarrow> 32 word \<Rightarrow> parsedFlow option option" where
  "parseIPv6 ip frameLength =
     (if length ip < 40 then Some None
      else do {
        first \<leftarrow> byteAt ip 0;
        if drop_bit 4 first \<noteq> 6 then Some None
        else do {
          nextHeader \<leftarrow> byteAt ip 6;
          walked \<leftarrow> extensionLoop 8 ip nextHeader 40;
          case walked of
            None \<Rightarrow> Some None
          | Some (proto, offset) \<Rightarrow> do {
              (srcPort, dstPort) \<leftarrow> portsAt proto ip offset;
              let bytesCount = (ucast frameLength :: 64 word);
              bytesCount' \<leftarrow> (if bytesCount = 0 \<and> length ip \<ge> 6 then map_option (\<lambda>n. 40 + ucast n) (uint16At ip 4)
                             else Some bytesCount);
              src \<leftarrow> slice ip 8 24;
              dst \<leftarrow> slice ip 24 40;
              Some (Some \<lparr>Pf_Bytes = bytesCount', Pf_SrcAddr = cloneIP src, Pf_DstAddr = cloneIP dst,
                Pf_Etype = etherTypeIPv6, Pf_Proto = ucast proto, Pf_SrcPort = srcPort, Pf_DstPort = dstPort\<rparr>)
            }
        }
      })"

definition isVlan :: "32 word \<Rightarrow> bool" where
  "isVlan etype \<longleftrightarrow> \<not> (etype \<noteq> 0x8100 \<and> etype \<noteq> 0x88A8 \<and> etype \<noteq> 0x9100)"

fun vlanLoop :: "nat \<Rightarrow> bytes \<Rightarrow> 32 word \<Rightarrow> nat \<Rightarrow> (32 word \<times> nat) option option" where
  "vlanLoop 0 header etype offset = Some (Some (etype, offset))"
| "vlanLoop (Suc n) header etype offset =
     (if \<not> isVlan etype then Some (Some (etype, offset))
      else if length header < offset + 4 then Some None
      else do { e \<leftarrow> uint16At header (offset + 2); vlanLoop n header (ucast e) (offset + 4) })"

definition parseSampledHeader :: "bytes \<Rightarrow> 32 word \<Rightarrow> parsedFlow option option" where
  "parseSampledHeader header frameLength =
     (if length header < 14 then Some None
      else do {
        e \<leftarrow> uint16At header 12;
        walked \<leftarrow> vlanLoop 2 header (ucast e) 14;
        case walked of
          None \<Rightarrow> Some None
        | Some (etype, offset) \<Rightarrow>
            if etype = etherTypeIPv4 then do { ip \<leftarrow> slice header offset (length header); parseIPv4 ip frameLength }
            else if etype = etherTypeIPv6 then do { ip \<leftarrow> slice header offset (length header); parseIPv6 ip frameLength }
            else Some None
      })"

subsection \<open>Records of a datagram\<close>

definition parsedFromSampledIP :: "SampledIPBase \<Rightarrow> 32 word \<Rightarrow> parsedFlow" where
  "parsedFromSampledIP data etype =
     \<lparr>Pf_Bytes = ucast (Ib_Length data), Pf_SrcAddr = Ib_SrcIP data, Pf_DstAddr = Ib_DstIP data, Pf_Etype = etype,
       Pf_Proto = Ib_Protocol data, Pf_SrcPort = Ib_SrcPort data, Pf_DstPort = Ib_DstPort data\<rparr>"

text \<open>One flow record of a sample: the parsed flows so far and the AS numbers of the gateway.\<close>

fun collectRecord :: "recordData \<Rightarrow> parsedFlow list \<times> 32 word \<times> 32 word \<Rightarrow> (parsedFlow list \<times> 32 word \<times> 32 word) option" where
  "collectRecord (SampledIPv4 data) (parsed, srcAS, dstAS) = Some (parsed @ [parsedFromSampledIP data etherTypeIPv4], srcAS, dstAS)"
| "collectRecord (SampledIPv6 data) (parsed, srcAS, dstAS) = Some (parsed @ [parsedFromSampledIP data etherTypeIPv6], srcAS, dstAS)"
| "collectRecord (SampledHeader header frameLength) (parsed, srcAS, dstAS) =
     (case parseSampledHeader header frameLength of
        None \<Rightarrow> None
      | Some None \<Rightarrow> Some (parsed, srcAS, dstAS)
      | Some (Some pf) \<Rightarrow> Some (parsed @ [pf], srcAS, dstAS))"
| "collectRecord (ExtendedGateway gwSrcAS gwAS) (parsed, srcAS, dstAS) = Some (parsed, gwSrcAS, gwAS)"
| "collectRecord OtherData (parsed, srcAS, dstAS) = Some (parsed, srcAS, dstAS)"

definition flowRow :: "int \<Rightarrow> 32 word \<Rightarrow> 64 word \<Rightarrow> IP \<Rightarrow> 32 word \<Rightarrow> 32 word \<Rightarrow> parsedFlow \<Rightarrow> FlowRecord" where
  "flowRow now sequenceNum samplingRate samplerIP srcAS dstAS pf =
     (let bytesCount = (if Pf_Bytes pf = 0 then 1 else Pf_Bytes pf) in
      \<lparr>Fr_Type = FlowTypeSFlow5, Fr_TimeReceived = now, Fr_SequenceNum = sequenceNum, Fr_SamplingRate = samplingRate,
        Fr_SamplerAddress = cloneIP samplerIP, Fr_TimeFlowStart = now, Fr_TimeFlowEnd = now, Fr_Bytes = bytesCount, Fr_Packets = 1,
        Fr_SrcAddr = cloneIP (Pf_SrcAddr pf), Fr_DstAddr = cloneIP (Pf_DstAddr pf), Fr_SrcAS = srcAS, Fr_DstAS = dstAS,
        Fr_Etype = Pf_Etype pf, Fr_Proto = Pf_Proto pf, Fr_SrcPort = Pf_SrcPort pf, Fr_DstPort = Pf_DstPort pf,
        Fr_SrcAttribution = noAttribution, Fr_DstAttribution = noAttribution\<rparr>)"

definition recordsFromFlowRecords :: "int \<Rightarrow> 32 word \<Rightarrow> 64 word \<Rightarrow> IP \<Rightarrow> recordData list \<Rightarrow> FlowRecord list option" where
  "recordsFromFlowRecords now sequenceNum samplingRate samplerIP flowRecords =
     (case ofold collectRecord flowRecords ([], 0, 0) of
        None \<Rightarrow> None
      | Some (parsed, srcAS, dstAS) \<Rightarrow>
          Some (map (flowRow now sequenceNum samplingRate samplerIP srcAS dstAS)
            (filter (\<lambda>pf. \<not> (length (Pf_SrcAddr pf) = 0 \<or> length (Pf_DstAddr pf) = 0)) parsed)))"

fun sampleRecords :: "int \<Rightarrow> 32 word \<Rightarrow> IP \<Rightarrow> sample \<Rightarrow> FlowRecord list \<Rightarrow> FlowRecord list option" where
  "sampleRecords now sequenceNum samplerIP (FlowSample rate rs) records =
     map_option ((@) records) (recordsFromFlowRecords now sequenceNum (ucast rate) samplerIP rs)"
| "sampleRecords now sequenceNum samplerIP (ExpandedFlowSample rate rs) records =
     map_option ((@) records) (recordsFromFlowRecords now sequenceNum (ucast rate) samplerIP rs)"
| "sampleRecords now sequenceNum samplerIP OtherSample records = Some records"

definition DecodeDatagram :: "(bytes \<Rightarrow> string + Packet) \<Rightarrow> int \<Rightarrow> bytes \<Rightarrow> IP option \<Rightarrow> (string + FlowRecord list) option" where
  "DecodeDatagram DecodeMessageVersion now payload remote =
     (case DecodeMessageVersion payload of
        Inl e \<Rightarrow> Some (Inl e)
      | Inr packet \<Rightarrow>
          let samplerIP = (case remote of
                Some ip \<Rightarrow> if length (Pk_AgentIP packet) = 0 then ip else Pk_AgentIP packet
              | None \<Rightarrow> Pk_AgentIP packet)
          in map_option Inr (ofold (sampleRecords now (Pk_SequenceNumber packet) samplerIP) (Pk_Samples packet) []))"

subsection \<open>No panic\<close>

lemma byteAt_Some [simp]: "i < length xs \<Longrightarrow> byteAt xs i = Some (xs ! i)"
  by (simp add: byteAt_def)

lemma slice_Some [simp]: "lo \<le> hi \<Longrightarrow> hi \<le> length xs \<Longrightarrow> slice xs lo hi = Some (take (hi - lo) (drop lo xs))"
  by (simp add: slice_def)

lemma uint16At_Some [simp]: "i + 2 \<le> length xs \<Longrightarrow> uint16At xs i = Some (be16 (xs ! i) (xs ! Suc i))"
proof -
  assume i: "i + 2 \<le> length xs"
  then have "drop i xs = xs ! i # xs ! Suc i # drop (Suc (Suc i)) xs" by (simp add: Cons_nth_drop_Suc)
  then show ?thesis using i by (simp add: uint16At_def Uint16_def)
qed

lemma portsAt_Some: "\<exists>s d. portsAt proto ip offset = Some (s, d)"
  by (auto simp: portsAt_def)

definition flowOk :: "parsedFlow \<Rightarrow> bool" where
  "flowOk pf \<longleftrightarrow> (Pf_Etype pf = etherTypeIPv4 \<and> length (Pf_SrcAddr pf) = 4 \<and> length (Pf_DstAddr pf) = 4)
     \<or> (Pf_Etype pf = etherTypeIPv6 \<and> length (Pf_SrcAddr pf) = 16 \<and> length (Pf_DstAddr pf) = 16)"

lemma ucast_0_iff32: "(ucast (x :: 32 word) :: 64 word) = 0 \<longleftrightarrow> x = 0"
  by transfer (simp add: take_bit_eq_mod)

definition ihl :: "bytes \<Rightarrow> nat" where
  "ihl ip = unat (ip ! 0 AND 0x0F) * 4"

definition ipv4Ok :: "bytes \<Rightarrow> bool" where
  "ipv4Ok ip \<longleftrightarrow> 20 \<le> length ip \<and> drop_bit 4 (ip ! 0) = 4 \<and> 20 \<le> ihl ip \<and> ihl ip \<le> length ip"

lemma parseIPv4_cases:
  assumes "portsAt (ip ! 9) ip (ihl ip) = Some (s, d)"
  shows "parseIPv4 ip frameLength = Some (if ipv4Ok ip then
    Some \<lparr>Pf_Bytes = (if frameLength = 0 then ucast (be16 (ip ! 2) (ip ! 3)) else ucast frameLength),
      Pf_SrcAddr = take 4 (drop 12 ip), Pf_DstAddr = take 4 (drop 16 ip), Pf_Etype = etherTypeIPv4, Pf_Proto = ucast (ip ! 9),
      Pf_SrcPort = s, Pf_DstPort = d\<rparr> else None)"
proof (cases "length ip < 20")
  case False
  then have b: "byteAt ip 0 = Some (ip ! 0)" by (intro byteAt_Some) linarith
  have z: "(ucast frameLength :: 64 word) = 0 \<longleftrightarrow> frameLength = 0" by (simp add: ucast_0_iff32)
  show ?thesis using assms False unfolding parseIPv4_def b ihl_def
    by (simp add: Let_def z ipv4Ok_def ihl_def cloneIP_def not_less eval_nat_numeral(3)[symmetric])
qed (simp add: parseIPv4_def ipv4Ok_def)

lemma parseIPv4_safe: "\<exists>r. parseIPv4 ip frameLength = Some r \<and> pred_option flowOk r"
proof -
  obtain s d where "portsAt (ip ! 9) ip (ihl ip) = Some (s, d)" using portsAt_Some by blast
  from parseIPv4_cases[OF this] show ?thesis by (auto simp: flowOk_def ipv4Ok_def min_def)
qed

lemma extensionLoop_safe: "\<exists>r. extensionLoop n ip nextHeader offset = Some r"
  by (induction n ip nextHeader offset rule: extensionLoop.induct) (auto simp: Let_def)

definition ipv6Ok :: "bytes \<Rightarrow> bool" where
  "ipv6Ok ip \<longleftrightarrow> 40 \<le> length ip \<and> drop_bit 4 (ip ! 0) = 6"

lemma parseIPv6_bad: "\<not> ipv6Ok ip \<or> extensionLoop 8 ip (ip ! 6) 40 = Some None \<Longrightarrow> parseIPv6 ip frameLength = Some None"
proof (cases "length ip < 40")
  case False
  then have b: "byteAt ip 0 = Some (ip ! 0)" by (intro byteAt_Some) linarith
  assume "\<not> ipv6Ok ip \<or> extensionLoop 8 ip (ip ! 6) 40 = Some None"
  then show ?thesis using False unfolding parseIPv6_def b by (auto simp: ipv6Ok_def)
qed (simp add: parseIPv6_def)

lemma parseIPv6_good:
  assumes "ipv6Ok ip" "extensionLoop 8 ip (ip ! 6) 40 = Some (Some (proto, offset))" "portsAt proto ip offset = Some (s, d)"
  shows "parseIPv6 ip frameLength =
    Some (Some \<lparr>Pf_Bytes = (if frameLength = 0 then 40 + ucast (be16 (ip ! 4) (ip ! 5)) else ucast frameLength),
      Pf_SrcAddr = take 16 (drop 8 ip), Pf_DstAddr = take 16 (drop 24 ip), Pf_Etype = etherTypeIPv6, Pf_Proto = ucast proto,
      Pf_SrcPort = s, Pf_DstPort = d\<rparr>)"
proof -
  have b: "byteAt ip 0 = Some (ip ! 0)" using assms(1) unfolding ipv6Ok_def by (intro byteAt_Some) linarith
  have z: "(ucast frameLength :: 64 word) = 0 \<longleftrightarrow> frameLength = 0" by (simp add: ucast_0_iff32)
  show ?thesis using assms unfolding parseIPv6_def b
    by (simp add: Let_def z ipv6Ok_def cloneIP_def not_less eval_nat_numeral(3)[symmetric])
qed

lemma parseIPv6_safe: "\<exists>r. parseIPv6 ip frameLength = Some r \<and> pred_option flowOk r"
proof -
  obtain w where w: "extensionLoop 8 ip (ip ! 6) 40 = Some w" using extensionLoop_safe by blast
  show ?thesis
  proof (cases "ipv6Ok ip \<and> w \<noteq> None")
    case True
    then obtain proto offset where po: "w = Some (proto, offset)" by auto
    obtain s d where "portsAt proto ip offset = Some (s, d)" using portsAt_Some by blast
    with parseIPv6_good[of ip proto offset s d] True w po show ?thesis by (auto simp: flowOk_def ipv6Ok_def min_def)
  next
    case False
    then have "parseIPv6 ip frameLength = Some None" using w by (intro parseIPv6_bad) (cases w; auto)
    then show ?thesis by simp
  qed
qed

lemma vlanLoop_safe:
  "offset \<le> length header \<Longrightarrow>
     \<exists>r. vlanLoop n header etype offset = Some r \<and> pred_option (\<lambda>(_, offset'). offset' \<le> length header) r"
  by (induction n header etype offset rule: vlanLoop.induct) auto

lemma parseSampledHeader_safe: "\<exists>r. parseSampledHeader header frameLength = Some r \<and> pred_option flowOk r"
proof (cases "length header < 14")
  case False
  then obtain w where w: "vlanLoop 2 header (ucast (be16 (header ! 12) (header ! 13))) 14 = Some w"
      "pred_option (\<lambda>(_, offset). offset \<le> length header) w"
    using vlanLoop_safe[of 14 header 2] by auto
  then show ?thesis using False parseIPv4_safe parseIPv6_safe
    by (cases w) (auto simp: parseSampledHeader_def split: prod.splits)
qed (simp add: parseSampledHeader_def)

lemma collectRecord_safe: "\<exists>st'. collectRecord data st = Some st'"
  using parseSampledHeader_safe by (cases "(data, st)" rule: collectRecord.cases) (fastforce split: option.splits)+

definition rowOk :: "int \<Rightarrow> 32 word \<Rightarrow> IP \<Rightarrow> FlowRecord \<Rightarrow> bool" where
  "rowOk now sequenceNum samplerIP r \<longleftrightarrow>
     Fr_Type r = FlowTypeSFlow5 \<and> Fr_TimeReceived r = now \<and> Fr_TimeFlowStart r = now \<and> Fr_TimeFlowEnd r = now
     \<and> Fr_SequenceNum r = sequenceNum \<and> Fr_SamplerAddress r = samplerIP \<and> Fr_Packets r = 1 \<and> Fr_Bytes r > 0
     \<and> Fr_SrcAddr r \<noteq> [] \<and> Fr_DstAddr r \<noteq> []"

lemma recordsFromFlowRecords_safe:
  "\<exists>rows. recordsFromFlowRecords now sequenceNum samplingRate samplerIP rs = Some rows \<and> list_all (rowOk now sequenceNum samplerIP) rows"
proof -
  obtain st where "ofold collectRecord rs ([], 0, 0) = Some st"
    using ofold_total[of "\<lambda>_. True" "([], 0, 0)" rs collectRecord] collectRecord_safe by auto
  then show ?thesis
    by (cases st) (auto simp: recordsFromFlowRecords_def list_all_iff rowOk_def flowRow_def Let_def cloneIP_def word_gt_0)
qed

lemma sampleRecords_safe:
  "list_all (rowOk now sequenceNum samplerIP) rows \<Longrightarrow>
     \<exists>rows'. sampleRecords now sequenceNum samplerIP x rows = Some rows' \<and> list_all (rowOk now sequenceNum samplerIP) rows'"
  using recordsFromFlowRecords_safe[of now sequenceNum _ samplerIP] by (cases x) fastforce+

text \<open>
  C21: whatever the message decoder returns, decoding a datagram does not panic. It fails exactly
  when the message decoder fails, and every record it returns counts one packet and at least one byte, has both
  addresses, and carries the time, the sequence number and the sampler of the message.
\<close>

theorem DecodeDatagram_safe:
  "\<exists>r. DecodeDatagram DecodeMessageVersion now payload remote = Some r
    \<and> (case DecodeMessageVersion payload of
         Inl e \<Rightarrow> r = Inl e
       | Inr packet \<Rightarrow> \<exists>rows. r = Inr rows
           \<and> list_all (rowOk now (Pk_SequenceNumber packet)
                (if Pk_AgentIP packet = [] then (case remote of None \<Rightarrow> [] | Some ip \<Rightarrow> ip) else Pk_AgentIP packet)) rows)"
proof (cases "DecodeMessageVersion payload")
  case (Inr packet)
  let ?ip = "if Pk_AgentIP packet = [] then (case remote of None \<Rightarrow> [] | Some ip \<Rightarrow> ip) else Pk_AgentIP packet"
  have ip: "(case remote of Some ip \<Rightarrow> if length (Pk_AgentIP packet) = 0 then ip else Pk_AgentIP packet | None \<Rightarrow> Pk_AgentIP packet) = ?ip"
    by (simp split: option.splits)
  obtain rows where "ofold (sampleRecords now (Pk_SequenceNumber packet) ?ip) (Pk_Samples packet) [] = Some rows"
      "list_all (rowOk now (Pk_SequenceNumber packet) ?ip) rows"
    using ofold_total[where P = "list_all (rowOk now (Pk_SequenceNumber packet) ?ip)" and s = "[]" and xs = "Pk_Samples packet"
        and f = "sampleRecords now (Pk_SequenceNumber packet) ?ip"] sampleRecords_safe by auto
  then show ?thesis unfolding DecodeDatagram_def Let_def Inr sum.case ip by (intro exI[of _ "Inr rows"]) simp
qed (simp add: DecodeDatagram_def)

subsection \<open>Well-formed frames\<close>

text \<open>Reference encoding of the frames a switch samples. An extension header is its type and the
  bytes after its first byte, which holds the type of the next header; its length byte counts units of
  8 bytes after the first 8, for the authentication header units of 4 bytes after the first 8.\<close>

fun chainType :: "(8 word \<times> bytes) list \<Rightarrow> 8 word \<Rightarrow> 8 word" where
  "chainType [] final = final"
| "chainType ((t, _) # _) final = t"

fun chain :: "(8 word \<times> bytes) list \<Rightarrow> 8 word \<Rightarrow> bytes" where
  "chain [] final = []"
| "chain ((t, body) # exts) final = chainType exts final # body @ chain exts final"

fun extOk :: "8 word \<times> bytes \<Rightarrow> bool" where
  "extOk (t, body) \<longleftrightarrow>
     (t = 0 \<or> t = 43 \<or> t = 60) \<and> body \<noteq> [] \<and> unat (hd body) < 255 \<and> Suc (length body) = (unat (hd body) + 1) * 8
   \<or> t = 44 \<and> length body = 7
   \<or> t = 51 \<and> body \<noteq> [] \<and> unat (hd body) < 254 \<and> Suc (length body) = (unat (hd body) + 2) * 4"

definition upperProto :: "8 word \<Rightarrow> bool" where
  "upperProto p \<longleftrightarrow> p \<noteq> 0 \<and> p \<noteq> 43 \<and> p \<noteq> 60 \<and> p \<noteq> 44 \<and> p \<noteq> 51"

lemma extensionLoop_walk:
  "list_all extOk exts \<Longrightarrow> offset = length pre \<Longrightarrow>
     extensionLoop (length exts + n) (pre @ chain exts final @ payload) (chainType exts final) offset
     = extensionLoop n (pre @ chain exts final @ payload) final (offset + length (chain exts final))"
proof (induction exts arbitrary: pre offset)
  case Nil
  then show ?case by simp
next
  case (Cons e exts)
  obtain t body where e: "e = (t, body)" by (cases e)
  let ?ip = "pre @ chain (e # exts) final @ payload"
  have next_byte: "byteAt ?ip offset = Some (chainType exts final)"
    using Cons.prems(2) by (simp add: e byteAt_def)
  have len_byte: "byteAt ?ip (offset + 1) = Some (hd body)" if "body \<noteq> []"
    using that Cons.prems(2) by (cases body) (simp_all add: e byteAt_def nth_append)
  have "extensionLoop (length exts + n) ((pre @ chainType exts final # body) @ chain exts final @ payload) (chainType exts final) (offset + Suc (length body))
      = extensionLoop n ((pre @ chainType exts final # body) @ chain exts final @ payload) final (offset + Suc (length body) + length (chain exts final))"
    using Cons.prems by (intro Cons.IH) (auto simp: e)
  then have ih: "extensionLoop (length exts + n) ?ip (chainType exts final) (offset + Suc (length body)) = extensionLoop n ?ip final (offset + length (chain (e # exts) final))"
    by (simp add: e algebra_simps)
  have n: "length (e # exts) + n = Suc (length exts + n)" by simp
  have inc: "unat (hd body + 1) = unat (hd body) + 1" if "unat (hd body) < 255"
    using that unat_word_ariths(1)[of "hd body" 1] by simp
  have inc2: "unat (hd body + 2) = unat (hd body) + 2" if "unat (hd body) < 254"
    using that unat_word_ariths(1)[of "hd body" 2] by simp
  have room: "\<not> length ?ip < offset + Suc (length body)" using Cons.prems(2) by (simp add: e)
  have room2: "\<not> length ?ip < offset + 2" if "body \<noteq> []" using that room by (cases body) auto
  have "extOk (t, body)" using Cons.prems(1) by (simp add: e)
  then consider (opt) "t = 0 \<or> t = 43 \<or> t = 60" "body \<noteq> []" "unat (hd body) < 255" "Suc (length body) = (unat (hd body) + 1) * 8"
    | (frag) "t = 44" "length body = 7"
    | (auth) "t = 51" "body \<noteq> []" "unat (hd body) < 254" "Suc (length body) = (unat (hd body) + 2) * 4"
    by auto
  then show ?case
  proof cases
    case opt
    have "unat (hd body + 1) * 8 = Suc (length body)" using inc[OF opt(3)] opt(4) by simp
    then show ?thesis using opt(1) ih room room2[OF opt(2)] next_byte len_byte[OF opt(2)] unfolding n e chainType.simps extensionLoop.simps Let_def
      by simp
  next
    case frag
    then have "(8::nat) = Suc (length body)" by simp
    then show ?thesis using frag(1) ih room next_byte unfolding n e chainType.simps extensionLoop.simps Let_def by simp
  next
    case auth
    have "unat (hd body + 2) * 4 = Suc (length body)" using inc2[OF auth(3)] auth(4) by simp
    then show ?thesis using auth(1) ih room room2[OF auth(2)] next_byte len_byte[OF auth(2)] unfolding n e chainType.simps extensionLoop.simps Let_def
      by simp
  qed
qed

datatype ipPacket =
    V4 "8 word" "8 word" "8 word" bytes "8 word" bytes IP IP bytes bytes
  | V6 "8 word" bytes "8 word" "8 word" "8 word" IP IP "(8 word \<times> bytes) list" "8 word" bytes

text \<open>For IPv4: service byte, the two bytes of the total length, the bytes up to the protocol, protocol,
  checksum, addresses, options and payload. For IPv6: low bits of the first byte, the bytes up to the
  length, the two bytes of the payload length, hop limit, addresses, extension headers, protocol and
  payload.\<close>

fun encodePacket :: "ipPacket \<Rightarrow> bytes" where
  "encodePacket (V4 tos hi lo rest proto cksum src dst options payload) =
     (0x40 OR of_nat (5 + length options div 4)) # tos # hi # lo # rest @ proto # cksum @ src @ dst @ options @ payload"
| "encodePacket (V6 low rest hi lo hop src dst exts proto payload) =
     (0x60 OR low) # rest @ hi # lo # chainType exts proto # hop # src @ dst @ chain exts proto @ payload"

fun packetOk :: "ipPacket \<Rightarrow> bool" where
  "packetOk (V4 tos hi lo rest proto cksum src dst options payload) \<longleftrightarrow>
     length rest = 5 \<and> length cksum = 2 \<and> length src = 4 \<and> length dst = 4 \<and> 4 dvd length options \<and> length options \<le> 40"
| "packetOk (V6 low rest hi lo hop src dst exts proto payload) \<longleftrightarrow>
     unat low < 16 \<and> length rest = 3 \<and> length src = 16 \<and> length dst = 16 \<and> list_all extOk exts \<and> length exts \<le> 8 \<and> upperProto proto"

definition payloadPorts :: "8 word \<Rightarrow> bytes \<Rightarrow> 32 word \<times> 32 word" where
  "payloadPorts proto payload =
     (if carriesPorts proto \<and> 4 \<le> length payload
      then (ucast (be16 (payload ! 0) (payload ! 1)), ucast (be16 (payload ! 2) (payload ! 3))) else (0, 0))"

fun flowOf :: "32 word \<Rightarrow> ipPacket \<Rightarrow> parsedFlow" where
  "flowOf frameLength (V4 tos hi lo rest proto cksum src dst options payload) =
     \<lparr>Pf_Bytes = (if frameLength = 0 then ucast (be16 hi lo) else ucast frameLength), Pf_SrcAddr = src, Pf_DstAddr = dst,
       Pf_Etype = etherTypeIPv4, Pf_Proto = ucast proto, Pf_SrcPort = fst (payloadPorts proto payload), Pf_DstPort = snd (payloadPorts proto payload)\<rparr>"
| "flowOf frameLength (V6 low rest hi lo hop src dst exts proto payload) =
     \<lparr>Pf_Bytes = (if frameLength = 0 then 40 + ucast (be16 hi lo) else ucast frameLength), Pf_SrcAddr = src, Pf_DstAddr = dst,
       Pf_Etype = etherTypeIPv6, Pf_Proto = ucast proto, Pf_SrcPort = fst (payloadPorts proto payload), Pf_DstPort = snd (payloadPorts proto payload)\<rparr>"

lemma portsAt_payload: "portsAt proto (pre @ payload) (length pre) = Some (payloadPorts proto payload)"
  by (simp add: portsAt_def payloadPorts_def nth_append)

lemma list5: "length xs = 5 \<Longrightarrow> \<exists>a b c d e. xs = [a, b, c, d, e]" by (auto simp: numeral_eq_Suc length_Suc_conv)
lemma list4: "length xs = 4 \<Longrightarrow> \<exists>a b c d. xs = [a, b, c, d]" by (auto simp: numeral_eq_Suc length_Suc_conv)
lemma list3: "length xs = 3 \<Longrightarrow> \<exists>a b c. xs = [a, b, c]" by (auto simp: numeral_eq_Suc length_Suc_conv)
lemma list2: "length xs = 2 \<Longrightarrow> \<exists>a b. xs = [a, b]" by (auto simp: numeral_eq_Suc length_Suc_conv)

lemma version4: "k < 16 \<Longrightarrow> drop_bit 4 ((0x40 :: 8 word) OR of_nat k) = 4 \<and> unat (((0x40 :: 8 word) OR of_nat k) AND 0x0F) = k"
proof -
  have "\<forall>k\<in>{0..<16::nat}. drop_bit 4 ((0x40 :: 8 word) OR of_nat k) = 4 \<and> unat (((0x40 :: 8 word) OR of_nat k) AND 0x0F) = k"
    by code_simp
  then show "k < 16 \<Longrightarrow> ?thesis" by simp
qed

lemma version6: "unat low < 16 \<Longrightarrow> drop_bit 4 ((0x60 :: 8 word) OR low) = 6"
proof -
  have "\<forall>k\<in>{0..<16::nat}. drop_bit 4 ((0x60 :: 8 word) OR of_nat k) = 6" by code_simp
  then have "unat low < 16 \<Longrightarrow> drop_bit 4 ((0x60 :: 8 word) OR of_nat (unat low)) = 6" by (meson atLeastLessThan_iff zero_le)
  then show "unat low < 16 \<Longrightarrow> ?thesis" by simp
qed

lemma parseIPv4_encode:
  assumes "packetOk (V4 tos hi lo rest proto cksum src dst options payload)"
  shows "parseIPv4 (encodePacket (V4 tos hi lo rest proto cksum src dst options payload)) frameLength
    = Some (Some (flowOf frameLength (V4 tos hi lo rest proto cksum src dst options payload)))"
proof -
  let ?k = "5 + length options div 4"
  let ?h = "(0x40 OR of_nat ?k) # tos # hi # lo # rest @ proto # cksum @ src @ dst @ options"
  have k: "?k < 16" and k4: "?k * 4 = length ?h" using assms by auto
  obtain r1 r2 r3 r4 r5 where rest: "rest = [r1, r2, r3, r4, r5]" using assms list5[of rest] by auto
  obtain s1 s2 where cksum: "cksum = [s1, s2]" using assms list2[of cksum] by auto
  obtain a1 a2 a3 a4 where src: "src = [a1, a2, a3, a4]" using assms list4[of src] by auto
  obtain d1 d2 d3 d4 where dst: "dst = [d1, d2, d3, d4]" using assms list4[of dst] by auto
  let ?ip = "encodePacket (V4 tos hi lo rest proto cksum src dst options payload)"
  have ip: "?ip = ?h @ payload" by simp
  have ihl: "ihl ?ip = length ?h" using version4[OF k] k4 by (simp add: ihl_def)
  have p9: "?ip ! 9 = proto" by (simp add: rest)
  have ports: "portsAt (?ip ! 9) ?ip (ihl ?ip) = Some (payloadPorts proto payload)"
    unfolding p9 ihl unfolding ip by (rule portsAt_payload)
  have ok: "ipv4Ok ?ip" using version4[OF k] unfolding ipv4Ok_def ihl by (simp add: rest cksum src dst)
  show ?thesis
    using parseIPv4_cases[of ?ip "fst (payloadPorts proto payload)" "snd (payloadPorts proto payload)"] ports ok
    by (simp add: rest cksum src dst)
qed

lemma parseIPv6_walked:
  fixes low hop src dst exts t payload rest hi lo
  defines "ip \<equiv> encodePacket (V6 low rest hi lo hop src dst exts t payload)"
  assumes ok: "unat low < 16" "length rest = 3" "length src = 16" "length dst = 16"
    and loop: "extensionLoop 8 ip (chainType exts t) 40 = Some (Some (proto, 40 + length (chain exts t)))"
  shows "parseIPv6 ip frameLength = Some (Some (flowOf frameLength (V6 low rest hi lo hop src dst exts proto payload)))"
proof -
  let ?h = "(0x60 OR low) # rest @ hi # lo # chainType exts t # hop # src @ dst"
  obtain r1 r2 r3 where rest: "rest = [r1, r2, r3]" using ok list3[of rest] by auto
  have ip: "ip = (?h @ chain exts t) @ payload" by (simp add: ip_def)
  have h: "length ?h = 40" using ok by simp
  have "ip ! 6 = chainType exts t" by (simp add: rest ip_def)
  then have l: "extensionLoop 8 ip (ip ! 6) 40 = Some (Some (proto, length (?h @ chain exts t)))" using loop h by simp
  have "portsAt proto ip (length (?h @ chain exts t)) = Some (payloadPorts proto payload)"
    unfolding ip by (rule portsAt_payload)
  moreover have "ipv6Ok ip" using ok version6[of low] by (simp add: ipv6Ok_def ip_def)
  ultimately show ?thesis
    using parseIPv6_good[OF _ l, of "fst (payloadPorts proto payload)" "snd (payloadPorts proto payload)"] ok
    by (simp add: rest drop_Cons' ip_def)
qed

lemma chain_in_packet:
  assumes "length rest = 3" "length src = 16" "length dst = 16" "list_all extOk exts"
  shows "extensionLoop (length exts + n) (encodePacket (V6 low rest hi lo hop src dst exts t payload)) (chainType exts t) 40
    = extensionLoop n (encodePacket (V6 low rest hi lo hop src dst exts t payload)) t (40 + length (chain exts t))"
proof -
  let ?h = "(0x60 OR low) # rest @ hi # lo # chainType exts t # hop # src @ dst"
  have "encodePacket (V6 low rest hi lo hop src dst exts t payload) = ?h @ chain exts t @ payload" "40 = length ?h" using assms by simp_all
  then show ?thesis using extensionLoop_walk[OF assms(4), of 40 ?h n t payload] by simp
qed

lemma parseIPv6_encode:
  assumes "packetOk (V6 low rest hi lo hop src dst exts proto payload)"
  shows "parseIPv6 (encodePacket (V6 low rest hi lo hop src dst exts proto payload)) frameLength
    = Some (Some (flowOf frameLength (V6 low rest hi lo hop src dst exts proto payload)))"
proof -
  have ok: "unat low < 16" "length rest = 3" "length src = 16" "length dst = 16" "list_all extOk exts" "length exts \<le> 8" "upperProto proto"
    using assms by simp_all
  have "extensionLoop m ip proto k = Some (Some (proto, k))" for m ip k using ok(7) by (cases m) (simp_all add: upperProto_def)
  then show ?thesis
    using chain_in_packet[OF ok(2-5), of "8 - length exts" low hi lo hop proto payload] ok(6) by (intro parseIPv6_walked[OF ok(1-4)]) simp
qed

text \<open>A frame: the addresses, VLAN tags (type and two bytes of tag information), the type and the packet.\<close>

type_synonym tag = "(8 word \<times> 8 word) \<times> bytes"

definition etype16 :: "8 word \<times> 8 word \<Rightarrow> 32 word" where
  "etype16 e = ucast (be16 (fst e) (snd e))"

fun firstType :: "tag list \<Rightarrow> 8 word \<times> 8 word \<Rightarrow> 8 word \<times> 8 word" where
  "firstType [] e = e"
| "firstType ((tpid, _) # _) e = tpid"

fun afterType :: "tag list \<Rightarrow> 8 word \<times> 8 word \<Rightarrow> bytes \<Rightarrow> bytes" where
  "afterType [] e packet = packet"
| "afterType ((_, tci) # tags) e packet = tci @ [fst (firstType tags e), snd (firstType tags e)] @ afterType tags e packet"

fun tagOk :: "tag \<Rightarrow> bool" where
  "tagOk (tpid, tci) \<longleftrightarrow> isVlan (etype16 tpid) \<and> length tci = 2"

fun typeOf :: "ipPacket \<Rightarrow> 8 word \<times> 8 word" where
  "typeOf (V4 tos hi lo rest proto cksum src dst options payload) = (0x08, 0x00)"
| "typeOf (V6 low rest hi lo hop src dst exts proto payload) = (0x86, 0xDD)"

definition encodeFrame :: "bytes \<Rightarrow> tag list \<Rightarrow> ipPacket \<Rightarrow> bytes" where
  "encodeFrame macs tags p =
     macs @ [fst (firstType tags (typeOf p)), snd (firstType tags (typeOf p))] @ afterType tags (typeOf p) (encodePacket p)"

lemma vlanLoop_tags:
  "list_all tagOk tags \<Longrightarrow> length tags \<le> n \<Longrightarrow> \<not> isVlan (etype16 e) \<Longrightarrow> offset = length pre \<Longrightarrow>
     \<exists>offset'. vlanLoop n (pre @ afterType tags e packet) (etype16 (firstType tags e)) offset = Some (Some (etype16 e, offset'))
       \<and> offset' \<le> length (pre @ afterType tags e packet) \<and> drop offset' (pre @ afterType tags e packet) = packet"
proof (induction tags arbitrary: n pre offset)
  case Nil
  then show ?case by (cases n) simp_all
next
  case (Cons tag tags)
  obtain tpid tci where tag: "tag = (tpid, tci)" by (cases tag)
  obtain m where n: "n = Suc m" using Cons.prems(2) by (cases n) auto
  obtain a b where tci: "tci = [a, b]" using Cons.prems(1) list2[of tci] by (auto simp: tag)
  let ?t = "firstType tags e"
  have split: "pre @ afterType (tag # tags) e packet = (pre @ [a, b, fst ?t, snd ?t]) @ afterType tags e packet" by (simp add: tag tci)
  have "uint16At (pre @ afterType (tag # tags) e packet) (offset + 2) = Some (be16 (fst ?t) (snd ?t))"
    using Cons.prems(4) by (simp add: tag tci nth_append)
  then have "vlanLoop n (pre @ afterType (tag # tags) e packet) (etype16 (firstType (tag # tags) e)) offset
      = vlanLoop m (pre @ afterType (tag # tags) e packet) (etype16 ?t) (offset + 4)"
    using Cons.prems(1,4) by (simp add: n tag etype16_def tci)
  then show ?case using Cons.IH[of m "offset + 4" "pre @ [a, b, fst ?t, snd ?t]"] Cons.prems unfolding split by (simp add: n)
qed

lemma etype16_typeOf:
  "etype16 (typeOf p) = (case p of V4 _ _ _ _ _ _ _ _ _ _ \<Rightarrow> etherTypeIPv4 | V6 _ _ _ _ _ _ _ _ _ _ \<Rightarrow> etherTypeIPv6)"
  "\<not> isVlan (etype16 (typeOf p))"
proof -
  have "etype16 (0x08, 0x00) = etherTypeIPv4" "etype16 (0x86, 0xDD) = etherTypeIPv6"
    "\<not> isVlan etherTypeIPv4" "\<not> isVlan etherTypeIPv6" by code_simp+
  then show "etype16 (typeOf p) = (case p of V4 _ _ _ _ _ _ _ _ _ _ \<Rightarrow> etherTypeIPv4 | V6 _ _ _ _ _ _ _ _ _ _ \<Rightarrow> etherTypeIPv6)"
    "\<not> isVlan (etype16 (typeOf p))" by (cases p; simp)+
qed

text \<open>
  C22: parsing recovers the flow of every well-formed frame. The frame may have up to two
  VLAN tags, an IPv4 packet up to 40 bytes of options, an IPv6 packet up to eight extension headers whose length byte
  plus its constant fits in a byte; addresses, protocol, ports and byte count are those of the packet.
\<close>

theorem parseSampledHeader_roundtrip:
  assumes "length macs = 12" "list_all tagOk tags" "length tags \<le> 2" "packetOk p"
  shows "parseSampledHeader (encodeFrame macs tags p) frameLength = Some (Some (flowOf frameLength p))"
proof -
  let ?t = "firstType tags (typeOf p)" and ?a = "afterType tags (typeOf p) (encodePacket p)"
  let ?f = "encodeFrame macs tags p" and ?pre = "macs @ [fst (firstType tags (typeOf p)), snd (firstType tags (typeOf p))]"
  have f: "?f = ?pre @ ?a" by (simp add: encodeFrame_def)
  have "14 \<le> length ?f" using assms(1) by (simp add: f)
  moreover have "uint16At ?f 12 = Some (be16 (fst ?t) (snd ?t))" using assms(1) by (simp add: f nth_append)
  moreover obtain offset where "vlanLoop 2 ?f (etype16 ?t) 14 = Some (Some (etype16 (typeOf p), offset))"
      "offset \<le> length ?f" and drop: "drop offset ?f = encodePacket p"
    using vlanLoop_tags[OF assms(2,3) etype16_typeOf(2)[of p], of 14 ?pre "encodePacket p"] assms(1) unfolding f by auto
  moreover have "slice ?f offset (length ?f) = Some (encodePacket p)"
    using \<open>offset \<le> length ?f\<close> by (simp flip: drop)
  ultimately have *: "parseSampledHeader ?f frameLength =
      (if etype16 (typeOf p) = etherTypeIPv4 then parseIPv4 (encodePacket p) frameLength
       else if etype16 (typeOf p) = etherTypeIPv6 then parseIPv6 (encodePacket p) frameLength else Some None)"
    by (simp add: parseSampledHeader_def etype16_def not_less del: uint16At_Some slice_Some)
  have "etherTypeIPv6 \<noteq> etherTypeIPv4" by code_simp
  then show ?thesis unfolding * etype16_typeOf(1) using assms(4) by (cases p) (simp_all only: parseIPv4_encode parseIPv6_encode if_True if_False ipPacket.case refl simp_thms)
qed

definition exPacket :: ipPacket where
  "exPacket = V6 0 [0, 0, 0] 0 12 64 (replicate 16 1) (replicate 16 2) [(0, 0 # replicate 6 0)] protoTCP [0x1F, 0x90, 0, 80]"

theorem parseSampledHeader_roundtrip_witness:
  "parseSampledHeader (encodeFrame (replicate 12 0) [((0x81, 0x00), [0, 7])] exPacket) 0
    = Some (Some \<lparr>Pf_Bytes = 52, Pf_SrcAddr = replicate 16 1, Pf_DstAddr = replicate 16 2, Pf_Etype = etherTypeIPv6,
        Pf_Proto = 6, Pf_SrcPort = 8080, Pf_DstPort = 80\<rparr>)"
proof -
  have "list_all tagOk [((0x81, 0x00), [0, 7])]" "packetOk exPacket" by code_simp+
  moreover have "flowOf 0 exPacket = \<lparr>Pf_Bytes = 52, Pf_SrcAddr = replicate 16 1, Pf_DstAddr = replicate 16 2,
      Pf_Etype = etherTypeIPv6, Pf_Proto = 6, Pf_SrcPort = 8080, Pf_DstPort = 80\<rparr>" by code_simp
  ultimately show ?thesis
    using parseSampledHeader_roundtrip[of "replicate 12 0" "[((0x81, 0x00), [0, 7])]" exPacket 0] by simp
qed




end
