(* ===== verification/Sflow_Collector.thy ===== *)
theory Sflow_Collector
  imports Sflow_Decoder Event_System
begin

text \<open>
  The sFlow collector, \<open>src/pkg/sflow/collector.go\<close> with the counters of \<open>metrics.go\<close>: the receive
  loop and the write loop run concurrently and share a bounded channel. Each loop is a process with a
  program counter; a step of the relation \<open>collectorStep\<close> is one channel operation, one update of the
  shared queue gauge, or one call of the network or of the writer with the code up to the next such
  point. Which ready case a \<open>select\<close> takes, when the context is cancelled, what the network delivers and
  whether a write succeeds are free. The label of a step is what an observer sees of it. Log messages
  are not modelled.
\<close>

subsection \<open>Counters\<close>

record CollectorMetrics =
  Cm_DatagramsAccepted :: "64 word"
  Cm_DecodeErrors :: "64 word"
  Cm_RecordsDecoded :: "64 word"
  Cm_RecordsDropped :: "64 word"
  Cm_RecordsWritten :: "64 word"
  Cm_WriteErrors :: "64 word"
  Cm_QueueDepth :: "64 word"

record StatsSnapshot =
  Ss_DatagramsAccepted :: "64 word"
  Ss_DecodeErrors :: "64 word"
  Ss_RecordsDecoded :: "64 word"
  Ss_RecordsDropped :: "64 word"
  Ss_RecordsWritten :: "64 word"
  Ss_WriteErrors :: "64 word"

definition newMetrics :: CollectorMetrics where
  "newMetrics = \<lparr>Cm_DatagramsAccepted = 0, Cm_DecodeErrors = 0, Cm_RecordsDecoded = 0, Cm_RecordsDropped = 0,
     Cm_RecordsWritten = 0, Cm_WriteErrors = 0, Cm_QueueDepth = 0\<rparr>"

definition Snapshot :: "CollectorMetrics option \<Rightarrow> StatsSnapshot" where
  "Snapshot m = (case m of
     None \<Rightarrow> \<lparr>Ss_DatagramsAccepted = 0, Ss_DecodeErrors = 0, Ss_RecordsDecoded = 0, Ss_RecordsDropped = 0,
       Ss_RecordsWritten = 0, Ss_WriteErrors = 0\<rparr>
   | Some m \<Rightarrow> \<lparr>Ss_DatagramsAccepted = Cm_DatagramsAccepted m, Ss_DecodeErrors = Cm_DecodeErrors m,
       Ss_RecordsDecoded = Cm_RecordsDecoded m, Ss_RecordsDropped = Cm_RecordsDropped m,
       Ss_RecordsWritten = Cm_RecordsWritten m, Ss_WriteErrors = Cm_WriteErrors m\<rparr>)"

definition addWritten :: "nat \<Rightarrow> CollectorMetrics option \<Rightarrow> CollectorMetrics option" where
  "addWritten n = map_option (\<lambda>m. if n > 0 then m\<lparr>Cm_RecordsWritten := Cm_RecordsWritten m + of_nat n\<rparr> else m)"

subsection \<open>Attribution of a record\<close>

type_synonym PodLookup = "IP \<Rightarrow> EndpointAttribution option"

definition EnrichRecord :: "FlowRecord \<Rightarrow> PodLookup option \<Rightarrow> FlowRecord" where
  "EnrichRecord record lookup =
     (case lookup of
        None \<Rightarrow> record
      | Some lookup \<Rightarrow>
          let r1 = (case lookup (Fr_SrcAddr record) of Some attr \<Rightarrow> record\<lparr>Fr_SrcAttribution := attr\<rparr> | None \<Rightarrow> record)
          in case lookup (Fr_DstAddr r1) of Some attr \<Rightarrow> r1\<lparr>Fr_DstAttribution := attr\<rparr> | None \<Rightarrow> r1)"

subsection \<open>State\<close>

record Collector =
  Co_QueueSize :: int
  Co_BatchSize :: int

definition queueSize :: "Collector \<Rightarrow> nat" where
  "queueSize c = (if Co_QueueSize c \<le> 0 then 1 else nat (Co_QueueSize c))"

definition batchSize :: "Collector \<Rightarrow> nat" where
  "batchSize c = (if Co_BatchSize c \<le> 0 then 1 else nat (Co_BatchSize c))"

text \<open>The receive loop waits for a datagram, sends the records that remain of one, has sent a
  record and not yet counted it, has closed the channel (with the records it did not send), or has
  returned.\<close>

datatype receiver =
    Receiving
  | Sending "FlowRecord list"
  | Counting "FlowRecord list"
  | Closing "FlowRecord list"
  | Returned "FlowRecord list"

text \<open>The write loop waits in its \<open>select\<close>, has received a row and not yet counted it, or has
  returned.\<close>

datatype writer = Selecting | Took FlowRecord | WriterDone

record collectorState =
  Cs_receiver :: receiver
  Cs_writer :: writer
  Cs_rowsCh :: "FlowRecord list"
  Cs_closed :: bool
  Cs_done :: bool
  Cs_batch :: "FlowRecord list"
  Cs_metrics :: "CollectorMetrics option"

datatype label =
    Datagram "string + FlowRecord list"
  | ReadFailed
  | Sent FlowRecord
  | Dropped FlowRecord
  | Wrote "FlowRecord list" bool
  | Quiet

definition countDatagram :: "string + FlowRecord list \<Rightarrow> CollectorMetrics \<Rightarrow> CollectorMetrics" where
  "countDatagram result m =
     (let m1 = m\<lparr>Cm_DatagramsAccepted := Cm_DatagramsAccepted m + 1\<rparr>
      in case result of
           Inl _ \<Rightarrow> m1\<lparr>Cm_DecodeErrors := Cm_DecodeErrors m1 + 1\<rparr>
         | Inr records \<Rightarrow> m1\<lparr>Cm_RecordsDecoded := Cm_RecordsDecoded m1 + of_nat (length records)\<rparr>)"

definition datagramState :: "string + FlowRecord list \<Rightarrow> collectorState \<Rightarrow> collectorState" where
  "datagramState result s =
     s\<lparr>Cs_receiver := (case result of Inl _ \<Rightarrow> Receiving | Inr records \<Rightarrow> Sending records),
       Cs_metrics := map_option (countDatagram result) (Cs_metrics s)\<rparr>"

definition closeChannel :: "FlowRecord list \<Rightarrow> collectorState \<Rightarrow> collectorState" where
  "closeChannel rest s = s\<lparr>Cs_receiver := Closing rest, Cs_closed := True\<rparr>"

definition countDropped :: "CollectorMetrics \<Rightarrow> CollectorMetrics" where
  "countDropped m = m\<lparr>Cm_RecordsDropped := Cm_RecordsDropped m + 1\<rparr>"

definition addQueueDepth :: "64 word \<Rightarrow> CollectorMetrics \<Rightarrow> CollectorMetrics" where
  "addQueueDepth d m = m\<lparr>Cm_QueueDepth := Cm_QueueDepth m + d\<rparr>"

text \<open>A flush calls the writer with a non-empty batch; \<open>ok\<close> is the outcome of the call.\<close>

definition flush :: "bool \<Rightarrow> collectorState \<Rightarrow> collectorState \<times> label" where
  "flush ok s =
     (if length (Cs_batch s) = 0 then (s, Quiet)
      else (s\<lparr>Cs_metrics := (if ok then addWritten (length (Cs_batch s)) (Cs_metrics s)
                else map_option (\<lambda>m. m\<lparr>Cm_WriteErrors := Cm_WriteErrors m + 1\<rparr>) (Cs_metrics s)),
              Cs_batch := []\<rparr>, Wrote (Cs_batch s) ok))"

definition appendRow :: "Collector \<Rightarrow> bool \<Rightarrow> FlowRecord \<Rightarrow> collectorState \<Rightarrow> collectorState \<times> label" where
  "appendRow c ok row s =
     (let s1 = s\<lparr>Cs_writer := Selecting, Cs_metrics := map_option (addQueueDepth (- 1)) (Cs_metrics s), Cs_batch := Cs_batch s @ [row]\<rparr>
      in if length (Cs_batch s1) \<ge> batchSize c then flush ok s1 else (s1, Quiet))"

subsection \<open>Steps\<close>

inductive collectorStep :: "Collector \<Rightarrow> PodLookup option \<Rightarrow> collectorState \<Rightarrow> label \<Rightarrow> collectorState \<Rightarrow> bool"
  for c :: Collector and lookup :: "PodLookup option" where
  datagram: "Cs_receiver s = Receiving \<Longrightarrow> collectorStep c lookup s (Datagram result) (datagramState result s)"
| readStop: "Cs_receiver s = Receiving \<Longrightarrow> Cs_done s \<Longrightarrow> collectorStep c lookup s ReadFailed (closeChannel [] s)"
| readRetry: "Cs_receiver s = Receiving \<Longrightarrow> \<not> Cs_done s \<Longrightarrow> collectorStep c lookup s ReadFailed s"
| sent: "Cs_receiver s = Sending (r # rs) \<Longrightarrow> length (Cs_rowsCh s) < queueSize c \<Longrightarrow>
    collectorStep c lookup s (Sent (EnrichRecord r lookup))
      (s\<lparr>Cs_receiver := Counting rs, Cs_rowsCh := Cs_rowsCh s @ [EnrichRecord r lookup]\<rparr>)"
| sendStop: "Cs_receiver s = Sending (r # rs) \<Longrightarrow> Cs_done s \<Longrightarrow> collectorStep c lookup s Quiet (closeChannel (r # rs) s)"
| dropped: "Cs_receiver s = Sending (r # rs) \<Longrightarrow> \<not> length (Cs_rowsCh s) < queueSize c \<Longrightarrow> \<not> Cs_done s \<Longrightarrow>
    collectorStep c lookup s (Dropped (EnrichRecord r lookup))
      (s\<lparr>Cs_receiver := Sending rs, Cs_metrics := map_option countDropped (Cs_metrics s)\<rparr>)"
| counted: "Cs_receiver s = Counting rs \<Longrightarrow>
    collectorStep c lookup s Quiet (s\<lparr>Cs_receiver := Sending rs, Cs_metrics := map_option (addQueueDepth 1) (Cs_metrics s)\<rparr>)"
| sentAll: "Cs_receiver s = Sending [] \<Longrightarrow> collectorStep c lookup s Quiet (s\<lparr>Cs_receiver := Receiving\<rparr>)"
| returned: "Cs_receiver s = Closing rest \<Longrightarrow> Cs_writer s = WriterDone \<Longrightarrow>
    collectorStep c lookup s Quiet (s\<lparr>Cs_receiver := Returned rest\<rparr>)"
| writerStop: "Cs_writer s = Selecting \<Longrightarrow> Cs_done s \<Longrightarrow> flush ok s = (s', l) \<Longrightarrow>
    collectorStep c lookup s l (s'\<lparr>Cs_writer := WriterDone\<rparr>)"
| writerClosed: "Cs_writer s = Selecting \<Longrightarrow> Cs_rowsCh s = [] \<Longrightarrow> Cs_closed s \<Longrightarrow> flush ok s = (s', l) \<Longrightarrow>
    collectorStep c lookup s l (s'\<lparr>Cs_writer := WriterDone\<rparr>)"
| took: "Cs_writer s = Selecting \<Longrightarrow> Cs_rowsCh s = row # rows \<Longrightarrow>
    collectorStep c lookup s Quiet (s\<lparr>Cs_writer := Took row, Cs_rowsCh := rows\<rparr>)"
| appended: "Cs_writer s = Took row \<Longrightarrow> appendRow c ok row s = (s', l) \<Longrightarrow> collectorStep c lookup s l s'"
| ticked: "Cs_writer s = Selecting \<Longrightarrow> flush ok s = (s', l) \<Longrightarrow> collectorStep c lookup s l s'"
| cancelled: "collectorStep c lookup s Quiet (s\<lparr>Cs_done := True\<rparr>)"

definition startState :: "CollectorMetrics option \<Rightarrow> collectorState" where
  "startState metrics = \<lparr>Cs_receiver = Receiving, Cs_writer = Selecting, Cs_rowsCh = [], Cs_closed = False, Cs_done = False,
     Cs_batch = [], Cs_metrics = metrics\<rparr>"

subsection \<open>The collector as a bounded buffer\<close>

text \<open>What the collector promises: a first-in first-out buffer of the accepted rows. It exports
  non-empty batches of the oldest rows, holds at most \<open>Q + B\<close> rows and refuses a row only when it holds
  \<open>Q\<close> or more.\<close>

datatype bufferEvent = Accept FlowRecord | Refuse FlowRecord | Deliver "FlowRecord list" bool

inductive bufferStep :: "nat \<Rightarrow> nat \<Rightarrow> FlowRecord list \<Rightarrow> bufferEvent \<Rightarrow> FlowRecord list \<Rightarrow> bool" for Q B :: nat where
  accept: "length q < Q + B \<Longrightarrow> bufferStep Q B q (Accept r) (q @ [r])"
| refuse: "Q \<le> length q \<Longrightarrow> bufferStep Q B q (Refuse r) q"
| deliver: "rows \<noteq> [] \<Longrightarrow> length rows \<le> B \<Longrightarrow> bufferStep Q B (rows @ q) (Deliver rows ok) q"

fun obs :: "label \<Rightarrow> bufferEvent list" where
  "obs (Sent r) = [Accept r]"
| "obs (Dropped r) = [Refuse r]"
| "obs (Wrote rows ok) = [Deliver rows ok]"
| "obs _ = []"

definition heldRows :: "writer \<Rightarrow> FlowRecord list" where
  "heldRows w = (case w of Took r \<Rightarrow> [r] | _ \<Rightarrow> [])"

lemma heldRows_simps [simp]: "heldRows Selecting = []" "heldRows (Took r) = [r]" "heldRows WriterDone = []"
  by (simp_all add: heldRows_def)

definition contents :: "collectorState \<Rightarrow> FlowRecord list" where
  "contents s = Cs_batch s @ heldRows (Cs_writer s) @ Cs_rowsCh s"

definition bufferRel :: "Collector \<Rightarrow> collectorState \<Rightarrow> FlowRecord list \<Rightarrow> bool" where
  "bufferRel c s q \<longleftrightarrow> q = contents s \<and> length (Cs_batch s) < batchSize c \<and> length (Cs_rowsCh s) \<le> queueSize c"

lemma sizes_pos [simp]: "0 < batchSize c" "0 < queueSize c"
  by (simp_all add: batchSize_def queueSize_def)

lemma flush_matched:
  assumes "flush ok s = (s', l)" "length (Cs_batch s) \<le> batchSize c"
  shows "Cs_batch s' = []" "Cs_writer s' = Cs_writer s" "Cs_rowsCh s' = Cs_rowsCh s"
    "run (bufferStep (queueSize c) (batchSize c)) (Cs_batch s @ q) (obs l) q"
proof -
  consider "Cs_batch s = []" "s' = s" "l = Quiet" | "Cs_batch s \<noteq> []" "l = Wrote (Cs_batch s) ok" "Cs_batch s' = []"
      "Cs_writer s' = Cs_writer s" "Cs_rowsCh s' = Cs_rowsCh s"
    using assms(1) by (auto simp: flush_def split: if_splits)
  then show "Cs_batch s' = []" "Cs_writer s' = Cs_writer s" "Cs_rowsCh s' = Cs_rowsCh s"
    "run (bufferStep (queueSize c) (batchSize c)) (Cs_batch s @ q) (obs l) q"
    using assms(2) by (cases; auto intro!: run_single deliver)+
qed

lemma collectorStep_matched:
  assumes "bufferRel c s q" "collectorStep c lookup s l s'"
  shows "\<exists>q'. bufferRel c s' q' \<and> run (bufferStep (queueSize c) (batchSize c)) q (obs l) q'"
  using assms(2)
proof cases
  case (sent r rs)
  have "length (heldRows (Cs_writer s)) \<le> 1" by (simp add: heldRows_def split: writer.splits)
  then have "length q < queueSize c + batchSize c" using assms(1) sent by (simp add: bufferRel_def contents_def)
  then have "bufferStep (queueSize c) (batchSize c) q (Accept (EnrichRecord r lookup)) (q @ [EnrichRecord r lookup])" by (rule accept)
  moreover have "bufferRel c s' (q @ [EnrichRecord r lookup])" using assms(1) sent by (simp add: bufferRel_def contents_def)
  ultimately show ?thesis using sent(1) by (auto intro: run_single)
next
  case (dropped r rs)
  then show ?thesis using assms(1)
    by (intro exI[of _ q]) (auto simp: bufferRel_def contents_def intro!: run_single refuse)
next
  case (datagram result)
  then show ?thesis using assms(1) by (auto simp: bufferRel_def contents_def datagramState_def)
next
  case (writerStop ok s1)
  note f = flush_matched(1-3)[OF writerStop(4), of c] flush_matched(4)[OF writerStop(4), of c "Cs_rowsCh s"]
  show ?thesis using assms(1) writerStop f by (intro exI[of _ "Cs_rowsCh s"]) (auto simp: bufferRel_def contents_def)
next
  case (writerClosed ok s1)
  note f = flush_matched(1-3)[OF writerClosed(5), of c] flush_matched(4)[OF writerClosed(5), of c "Cs_rowsCh s"]
  show ?thesis using assms(1) writerClosed f by (intro exI[of _ "Cs_rowsCh s"]) (auto simp: bufferRel_def contents_def)
next
  case (ticked ok)
  note f = flush_matched(1-3)[OF ticked(2), of c] flush_matched(4)[OF ticked(2), of c "Cs_rowsCh s"]
  show ?thesis using assms(1) ticked f by (intro exI[of _ "Cs_rowsCh s"]) (auto simp: bufferRel_def contents_def)
next
  case (appended row ok)
  let ?s1 = "s\<lparr>Cs_writer := Selecting, Cs_metrics := map_option (addQueueDepth (- 1)) (Cs_metrics s), Cs_batch := Cs_batch s @ [row]\<rparr>"
  show ?thesis
  proof (cases "length (Cs_batch ?s1) \<ge> batchSize c")
    case True
    then have fl: "flush ok ?s1 = (s', l)" using appended(2) unfolding appendRow_def Let_def by simp
    note f = flush_matched(1-3)[OF fl, of c] flush_matched(4)[OF fl, of c "Cs_rowsCh s"]
    show ?thesis using assms(1) appended(1) f by (intro exI[of _ "Cs_rowsCh s"]) (auto simp: bufferRel_def contents_def)
  next
    case False
    then show ?thesis using assms(1) appended by (auto simp: bufferRel_def contents_def appendRow_def Let_def)
  qed
qed (use assms(1) in \<open>auto simp: bufferRel_def contents_def closeChannel_def\<close>)

interpretation buf: simulation "collectorStep c lookup" "bufferStep (queueSize c) (batchSize c)" obs "bufferRel c" for c lookup
  by unfold_locales (rule collectorStep_matched)

text \<open>
  C24: the two loops with their channel implement a bounded first-in first-out buffer. In every run the
  records sent to the channel are written in order, without loss or repetition, in non-empty batches no larger than the
  batch size, a record is dropped only while at least as many rows as the queue size are waiting, and what is not yet
  written is the batch, the row in hand and the channel.
\<close>

theorem collector_refines:
  assumes "run (collectorStep c lookup) (startState metrics) ls s"
  shows "run (bufferStep (queueSize c) (batchSize c)) [] (concat (map obs ls)) (Cs_batch s @ heldRows (Cs_writer s) @ Cs_rowsCh s)
    \<and> length (Cs_batch s) < batchSize c \<and> length (Cs_rowsCh s) \<le> queueSize c"
proof -
  have "bufferRel c (startState metrics) []" by (simp add: bufferRel_def startState_def contents_def)
  from buf.trace_inclusion[OF assms this] show ?thesis unfolding bufferRel_def contents_def by blast
qed

definition exRow :: FlowRecord where
  "exRow = flowRow 0 1 1 [] 0 0 \<lparr>Pf_Bytes = 0, Pf_SrcAddr = [1], Pf_DstAddr = [2], Pf_Etype = 0, Pf_Proto = 0, Pf_SrcPort = 0, Pf_DstPort = 0\<rparr>"

definition exCollector :: Collector where
  "exCollector = \<lparr>Co_QueueSize = 1, Co_BatchSize = 1\<rparr>"

text \<open>A run of a collector with room for one row: a datagram of two records, of which the second is dropped, and the
  export of the first.\<close>

definition exLabels :: "label list" where
  "exLabels = [Datagram (Inr [exRow, exRow]), Sent exRow, Quiet, Dropped exRow, Quiet, Wrote [exRow] True]"

definition exEnd :: "CollectorMetrics option \<Rightarrow> collectorState" where
  "exEnd metrics = (startState metrics)\<lparr>Cs_receiver := Sending [], Cs_metrics := addWritten 1 (map_option (addQueueDepth (- 1))
     (map_option countDropped (map_option (addQueueDepth 1) (map_option (countDatagram (Inr [exRow, exRow])) metrics))))\<rparr>"

lemma exRun: "run (collectorStep exCollector None) (startState metrics) exLabels (exEnd metrics)"
proof -
  have Q: "queueSize exCollector = 1" "batchSize exCollector = 1" by (simp_all add: queueSize_def batchSize_def exCollector_def)
  have E: "EnrichRecord exRow None = exRow" by (simp add: EnrichRecord_def)
  let ?s0 = "startState metrics"
  let ?s1 = "datagramState (Inr [exRow, exRow]) ?s0"
  let ?s2 = "?s1\<lparr>Cs_receiver := Counting [exRow], Cs_rowsCh := Cs_rowsCh ?s1 @ [EnrichRecord exRow None]\<rparr>"
  let ?s3 = "?s2\<lparr>Cs_receiver := Sending [exRow], Cs_metrics := map_option (addQueueDepth 1) (Cs_metrics ?s2)\<rparr>"
  let ?s4 = "?s3\<lparr>Cs_receiver := Sending [], Cs_metrics := map_option countDropped (Cs_metrics ?s3)\<rparr>"
  let ?s5 = "?s4\<lparr>Cs_writer := Took exRow, Cs_rowsCh := []\<rparr>"
  let ?step = "collectorStep exCollector None"
  note d = datagramState_def startState_def Q
  have 1: "?step ?s0 (Datagram (Inr [exRow, exRow])) ?s1" by (rule collectorStep.datagram) (simp add: d)
  have 2: "?step ?s1 (Sent (EnrichRecord exRow None)) ?s2" by (rule collectorStep.sent) (simp_all add: d)
  have 3: "?step ?s2 Quiet ?s3" by (rule collectorStep.counted) simp
  have 4: "?step ?s3 (Dropped (EnrichRecord exRow None)) ?s4" by (rule collectorStep.dropped) (simp_all add: d)
  have 5: "?step ?s4 Quiet ?s5" by (rule collectorStep.took) (simp_all add: d E)
  have 6: "?step ?s5 (Wrote [exRow] True) (exEnd metrics)"
    by (rule collectorStep.appended[where row = exRow and ok = True])
       (simp_all add: d appendRow_def flush_def Let_def exEnd_def)
  note C = run_Cons[where step = ?step]
  show ?thesis unfolding exLabels_def
    by (rule C[OF 1 C[OF 2[unfolded E] C[OF 3[unfolded E] C[OF 4[unfolded E] C[OF 5[unfolded E] C[OF 6[unfolded E] run_start]]]]]])
qed

theorem collector_refines_witness:
  "\<exists>s. run (collectorStep exCollector None) (startState None) exLabels s
     \<and> run (bufferStep 1 1) [] [Accept exRow, Refuse exRow, Deliver [exRow] True] []"
proof -
  have "queueSize exCollector = 1" "batchSize exCollector = 1" by (simp_all add: queueSize_def batchSize_def exCollector_def)
  with collector_refines[OF exRun[of None]] show ?thesis
    using exRun[of None] by (auto simp: exLabels_def exEnd_def startState_def)
qed

subsection \<open>Counters\<close>

fun decodedRows :: "label \<Rightarrow> nat" where
  "decodedRows (Datagram (Inr records)) = length records"
| "decodedRows _ = 0"

fun writtenRows :: "label \<Rightarrow> nat" where
  "writtenRows (Wrote rows True) = length rows"
| "writtenRows _ = 0"

definition isDatagram :: "label \<Rightarrow> bool" where "isDatagram l = (case l of Datagram _ \<Rightarrow> True | _ \<Rightarrow> False)"
definition isBad :: "label \<Rightarrow> bool" where "isBad l = (case l of Datagram (Inl _) \<Rightarrow> True | _ \<Rightarrow> False)"
definition isDropped :: "label \<Rightarrow> bool" where "isDropped l = (case l of Dropped _ \<Rightarrow> True | _ \<Rightarrow> False)"
definition isSent :: "label \<Rightarrow> bool" where "isSent l = (case l of Sent _ \<Rightarrow> True | _ \<Rightarrow> False)"
definition isFailedWrite :: "label \<Rightarrow> bool" where "isFailedWrite l = (case l of Wrote _ ok \<Rightarrow> \<not> ok | _ \<Rightarrow> False)"

lemmas label_tests = isDatagram_def isBad_def isDropped_def isSent_def isFailedWrite_def

definition occurs :: "(label \<Rightarrow> bool) \<Rightarrow> label list \<Rightarrow> nat" where
  "occurs P ls = length (filter P ls)"

definition total :: "(label \<Rightarrow> nat) \<Rightarrow> label list \<Rightarrow> nat" where
  "total f ls = sum_list (map f ls)"

lemma occurs_snoc [simp]: "occurs P [] = 0" "occurs P (ls @ [l]) = occurs P ls + (if P l then 1 else 0)"
  by (simp_all add: occurs_def)

lemma total_snoc [simp]: "total f [] = 0" "total f (ls @ [l]) = total f ls + f l"
  by (simp_all add: total_def)

fun unsent :: "receiver \<Rightarrow> nat" where
  "unsent Receiving = 0"
| "unsent (Sending rs) = length rs"
| "unsent (Counting rs) = length rs"
| "unsent (Closing rs) = length rs"
| "unsent (Returned rs) = length rs"

definition uncounted :: "receiver \<Rightarrow> 64 word" where
  "uncounted r = (case r of Counting _ \<Rightarrow> 1 | _ \<Rightarrow> 0)"

definition countersOk :: "label list \<Rightarrow> collectorState \<Rightarrow> CollectorMetrics \<Rightarrow> bool" where
  "countersOk ls s m \<longleftrightarrow>
     Cm_DatagramsAccepted m = of_nat (occurs isDatagram ls) \<and> Cm_DecodeErrors m = of_nat (occurs isBad ls)
   \<and> Cm_RecordsDecoded m = of_nat (total decodedRows ls) \<and> Cm_RecordsDropped m = of_nat (occurs isDropped ls)
   \<and> Cm_RecordsWritten m = of_nat (total writtenRows ls) \<and> Cm_WriteErrors m = of_nat (occurs isFailedWrite ls)
   \<and> Cm_QueueDepth m + uncounted (Cs_receiver s) = of_nat (length (Cs_rowsCh s)) + of_nat (length (heldRows (Cs_writer s)))"

definition countInv :: "label list \<Rightarrow> collectorState \<Rightarrow> bool" where
  "countInv ls s \<longleftrightarrow> pred_option (countersOk ls s) (Cs_metrics s)
     \<and> total decodedRows ls = occurs isSent ls + occurs isDropped ls + unsent (Cs_receiver s)"

lemma flush_counters:
  assumes "flush ok s = (s', l)" "countInv ls s"
  shows "countInv (ls @ [l]) s'" "Cs_writer s' = Cs_writer s" "Cs_rowsCh s' = Cs_rowsCh s" "Cs_receiver s' = Cs_receiver s"
proof -
  consider "Cs_batch s = []" "s' = s" "l = Quiet"
    | "ok" "l = Wrote (Cs_batch s) ok" "s' = s\<lparr>Cs_metrics := addWritten (length (Cs_batch s)) (Cs_metrics s), Cs_batch := []\<rparr>" "Cs_batch s \<noteq> []"
    | "\<not> ok" "l = Wrote (Cs_batch s) ok" "Cs_batch s \<noteq> []"
      "s' = s\<lparr>Cs_metrics := map_option (\<lambda>m. m\<lparr>Cm_WriteErrors := Cm_WriteErrors m + 1\<rparr>) (Cs_metrics s), Cs_batch := []\<rparr>"
    using assms(1) by (auto simp: flush_def split: if_splits)
  then show "countInv (ls @ [l]) s'"
  proof cases
    case 1
    then show ?thesis using assms(2) by (cases "Cs_metrics s") (simp_all add: countInv_def countersOk_def label_tests)
  next
    case 2
    then show ?thesis using assms(2)
      by (cases "Cs_metrics s") (simp_all add: countInv_def countersOk_def label_tests addWritten_def)
  next
    case 3
    then show ?thesis using assms(2) by (cases "Cs_metrics s") (simp_all add: countInv_def countersOk_def label_tests)
  qed
  show "Cs_writer s' = Cs_writer s" "Cs_rowsCh s' = Cs_rowsCh s" "Cs_receiver s' = Cs_receiver s"
    using assms(1) by (auto simp: flush_def split: if_splits)
qed

lemma countInv_writerDone: "countInv ls s \<Longrightarrow> Cs_writer s = Selecting \<Longrightarrow> countInv ls (s\<lparr>Cs_writer := WriterDone\<rparr>)"
  by (cases "Cs_metrics s") (simp_all add: countInv_def countersOk_def)

lemma collectorStep_metrics: "collectorStep c lookup s l s' \<Longrightarrow> Cs_metrics s' = None \<longleftrightarrow> Cs_metrics s = None"
  by (erule collectorStep.cases)
     (auto simp: datagramState_def closeChannel_def flush_def appendRow_def addWritten_def Let_def split: if_splits)

lemma countInv_step:
  assumes "countInv ls s" "collectorStep c lookup s l s'"
  shows "countInv (ls @ [l]) s'"
  using assms(2)
proof cases
  case (datagram result)
  then show ?thesis using assms(1)
    by (cases "Cs_metrics s"; cases result)
       (simp_all add: countInv_def countersOk_def label_tests datagramState_def countDatagram_def uncounted_def Let_def)
next
  case (writerStop ok s1)
  show ?thesis unfolding writerStop(1)
    by (rule countInv_writerDone) (use flush_counters[OF writerStop(4) assms(1)] writerStop(2) in simp_all)
next
  case (writerClosed ok s1)
  show ?thesis unfolding writerClosed(1)
    by (rule countInv_writerDone) (use flush_counters[OF writerClosed(5) assms(1)] writerClosed(2) in simp_all)
next
  case (ticked ok)
  show ?thesis by (rule flush_counters(1)[OF ticked(2) assms(1)])
next
  case (appended row ok)
  let ?s1 = "s\<lparr>Cs_writer := Selecting, Cs_metrics := map_option (addQueueDepth (- 1)) (Cs_metrics s), Cs_batch := Cs_batch s @ [row]\<rparr>"
  have inv: "countInv ls ?s1" using assms(1) appended(1)
    by (cases "Cs_metrics s") (simp_all add: countInv_def countersOk_def addQueueDepth_def algebra_simps)
  show ?thesis
  proof (cases "length (Cs_batch ?s1) \<ge> batchSize c")
    case True
    then have fl: "flush ok ?s1 = (s', l)" using appended(2) unfolding appendRow_def Let_def by simp
    show ?thesis by (rule flush_counters(1)[OF fl inv])
  next
    case False
    then have "s' = ?s1" "l = Quiet" using appended(2) by (auto simp: appendRow_def Let_def)
    then show ?thesis using inv by (cases "Cs_metrics s") (simp_all add: countInv_def countersOk_def label_tests)
  qed
qed (use assms(1) in \<open>cases "Cs_metrics s"; simp add: countInv_def countersOk_def label_tests closeChannel_def countDropped_def
       addQueueDepth_def uncounted_def algebra_simps; fail\<close>)+

text \<open>
  C25: in every run the counters agree with what happened: accepted and undecodable datagrams, decoded,
  dropped and written records and failed writes, each modulo the width of the counter. Every decoded record is sent, dropped
  or still to be sent, and the queue gauge is the number of rows in the channel but for the row that one of the two loops
  has moved and not yet counted.
\<close>

theorem collector_counts:
  assumes "run (collectorStep c lookup) (startState (Some newMetrics)) ls s"
  shows "(\<exists>m. Cs_metrics s = Some m \<and> countersOk ls s m)
    \<and> total decodedRows ls = occurs isSent ls + occurs isDropped ls + unsent (Cs_receiver s)"
proof -
  have "countInv ls s \<and> Cs_metrics s \<noteq> None"
  proof (rule trace_invariant[OF assms])
    show "countInv [] (startState (Some newMetrics)) \<and> Cs_metrics (startState (Some newMetrics)) \<noteq> None"
      by (simp add: countInv_def countersOk_def startState_def newMetrics_def uncounted_def)
  next
    fix ls s l s'
    assume "countInv ls s \<and> Cs_metrics s \<noteq> None" and step: "collectorStep c lookup s l s'"
    then show "countInv (ls @ [l]) s' \<and> Cs_metrics s' \<noteq> None"
      using countInv_step[OF _ step] collectorStep_metrics[OF step] by simp
  qed
  then show ?thesis by (auto simp: countInv_def)
qed

theorem collector_counts_witness:
  "\<exists>s m. run (collectorStep exCollector None) (startState (Some newMetrics)) exLabels s \<and> Cs_metrics s = Some m
     \<and> Cm_RecordsDecoded m = 2 \<and> Cm_RecordsDropped m = 1 \<and> Cm_RecordsWritten m = 1 \<and> Cm_QueueDepth m = 0"
  using collector_counts[OF exRun[of "Some newMetrics"]] exRun[of "Some newMetrics"]
  by (auto simp: countersOk_def exLabels_def label_tests occurs_def total_def exEnd_def startState_def uncounted_def)

subsection \<open>Shutdown\<close>

definition stopInv :: "collectorState \<Rightarrow> bool" where
  "stopInv s \<longleftrightarrow> (Cs_writer s = WriterDone \<longrightarrow> Cs_batch s = []) \<and> (\<forall>rs. Cs_receiver s = Returned rs \<longrightarrow> Cs_writer s = WriterDone)"

lemma stopInv_step: "stopInv s \<Longrightarrow> collectorStep c lookup s l s' \<Longrightarrow> stopInv s'"
  by (erule collectorStep.cases)
     (auto simp: stopInv_def datagramState_def closeChannel_def flush_def appendRow_def Let_def split: if_splits sum.splits)

definition stopped :: "collectorState \<Rightarrow> bool" where
  "stopped s \<longleftrightarrow> (\<exists>rs. Cs_receiver s = Returned rs) \<and> Cs_writer s = WriterDone \<and> Cs_batch s = []"

lemma receiver_closes:
  assumes "Cs_done s"
  shows "\<exists>ls s' rs. run (collectorStep c lookup) s ls s' \<and> (Cs_receiver s' = Closing rs \<or> Cs_receiver s' = Returned rs)
    \<and> Cs_done s' \<and> Cs_writer s' = Cs_writer s \<and> Cs_batch s' = Cs_batch s"
proof -
  let ?ok = "\<lambda>s s'. Cs_done s' \<and> Cs_writer s' = Cs_writer s \<and> Cs_batch s' = Cs_batch s"
  have receiving: "\<exists>ls s' rs. run (collectorStep c lookup) s ls s' \<and> Cs_receiver s' = Closing rs \<and> ?ok s s'"
    if "Cs_receiver s = Receiving" "Cs_done s" for s
    using run_single[where step = "collectorStep c lookup", OF collectorStep.readStop[OF that]] that(2) by (fastforce simp: closeChannel_def)
  have sending: "\<exists>ls s' rs. run (collectorStep c lookup) s ls s' \<and> Cs_receiver s' = Closing rs \<and> ?ok s s'"
    if "Cs_receiver s = Sending rs" "Cs_done s" for s rs
  proof (cases rs)
    case Nil
    have "collectorStep c lookup s Quiet (s\<lparr>Cs_receiver := Receiving\<rparr>)" using that(1) Nil by (intro collectorStep.sentAll) simp
    then show ?thesis using receiving[of "s\<lparr>Cs_receiver := Receiving\<rparr>"] that(2) run_Cons[where step = "collectorStep c lookup"] by fastforce
  next
    case (Cons r rs')
    then show ?thesis using run_single[where step = "collectorStep c lookup", OF collectorStep.sendStop[OF that(1)[unfolded Cons] that(2)]] that(2) by (fastforce simp: closeChannel_def)
  qed
  show ?thesis
  proof (cases "Cs_receiver s")
    case (Counting rs)
    let ?s1 = "s\<lparr>Cs_receiver := Sending rs, Cs_metrics := map_option (addQueueDepth 1) (Cs_metrics s)\<rparr>"
    have "collectorStep c lookup s Quiet ?s1" using Counting by (rule collectorStep.counted)
    then show ?thesis using sending[of ?s1 rs] assms run_Cons[where step = "collectorStep c lookup"] by fastforce
  qed (use assms receiving[OF _ assms] sending[OF _ assms] in \<open>blast+\<close>)
qed

lemma writer_stops:
  assumes "Cs_done s" "Cs_writer s = WriterDone \<Longrightarrow> Cs_batch s = []"
  shows "\<exists>ls s'. run (collectorStep c lookup) s ls s' \<and> Cs_writer s' = WriterDone \<and> Cs_batch s' = [] \<and> Cs_receiver s' = Cs_receiver s"
proof -
  have selecting: "\<exists>ls s'. run (collectorStep c lookup) s ls s' \<and> Cs_writer s' = WriterDone \<and> Cs_batch s' = [] \<and> Cs_receiver s' = Cs_receiver s"
    if "Cs_writer s = Selecting" "Cs_done s" for s
  proof -
    obtain s' l where f: "flush True s = (s', l)" by fastforce
    then have "Cs_batch s' = [] \<and> Cs_receiver s' = Cs_receiver s" by (auto simp: flush_def split: if_splits)
    then show ?thesis using run_single[where step = "collectorStep c lookup", OF collectorStep.writerStop[OF that f]] by fastforce
  qed
  show ?thesis
  proof (cases "Cs_writer s")
    case (Took row)
    obtain s1 l where a: "appendRow c True row s = (s1, l)" by fastforce
    then have "Cs_writer s1 = Selecting \<and> Cs_done s1 \<and> Cs_receiver s1 = Cs_receiver s"
      using assms(1) by (auto simp: appendRow_def flush_def Let_def split: if_splits)
    then show ?thesis
      using selecting[of s1] run_Cons[where step = "collectorStep c lookup", OF collectorStep.appended[OF Took a]] by fastforce
  qed (use assms selecting[OF _ assms(1)] in \<open>blast+\<close>)
qed

text \<open>
  from every state of a run, once the context is cancelled, the collector can return: the receive loop
  closes the channel, the write loop flushes its batch and ends, and no row of the batch is left unwritten.
\<close>

theorem collector_shutdown:
  assumes "run (collectorStep c lookup) (startState metrics) ls s"
  shows "\<exists>ls' s'. run (collectorStep c lookup) (s\<lparr>Cs_done := True\<rparr>) ls' s' \<and> stopped s'"
proof -
  let ?run = "run (collectorStep c lookup)"
  have "stopInv s" by (rule trace_invariant[OF assms], simp add: stopInv_def startState_def, erule (1) stopInv_step)
  then have inv: "stopInv (s\<lparr>Cs_done := True\<rparr>)" by (simp add: stopInv_def)
  obtain ls1 s1 rs where 1: "?run (s\<lparr>Cs_done := True\<rparr>) ls1 s1" "Cs_receiver s1 = Closing rs \<or> Cs_receiver s1 = Returned rs"
      "Cs_done s1" "Cs_writer s1 = Cs_writer s" "Cs_batch s1 = Cs_batch s"
    using receiver_closes[of "s\<lparr>Cs_done := True\<rparr>" c lookup] by auto
  obtain ls2 s2 where 2: "?run s1 ls2 s2" "Cs_writer s2 = WriterDone" "Cs_batch s2 = []" "Cs_receiver s2 = Cs_receiver s1"
    using writer_stops[OF 1(3), of c lookup] 1(4,5) inv by (auto simp: stopInv_def)
  have 12: "?run (s\<lparr>Cs_done := True\<rparr>) (ls1 @ ls2) s2" by (rule run_append[OF 2(1) 1(1)])
  show ?thesis
  proof (cases "Cs_receiver s2 = Closing rs")
    case True
    then show ?thesis using run_step[where step = "collectorStep c lookup", OF 12 collectorStep.returned[OF True 2(2)]] 2 by (fastforce simp: stopped_def)
  next
    case False
    then have "stopped s2" using 1(2) 2 by (auto simp: stopped_def)
    then show ?thesis using 12 by blast
  qed
qed

theorem collector_shutdown_witness:
  "\<exists>ls s. run (collectorStep exCollector None) ((exEnd None)\<lparr>Cs_done := True\<rparr>) ls s \<and> stopped s"
  using collector_shutdown[OF exRun] .

end
