(* ===== verification/Sflow_Attribution.thy ===== *)
theory Sflow_Attribution
  imports Sflow_Collector Go_Net Go_Json
begin

text \<open>
  Attribution of addresses to pods, \<open>src/pkg/sflow/attribution.go\<close>, and the resolution of the top owner
  of a pod, \<open>src/pkg/sflow/owner.go\<close>. Objects of the API server are records of the fields the source
  reads; the answers of the API server are the argument \<open>get\<close>. The answer of the \<open>i\<close>-th test of the
  context is \<open>ctxDone i\<close>. Decoding of the network-status annotation is an argument; the annotation with
  a list of addresses is decoded by \<open>UnmarshalStrings\<close>. The locks of the cache make each operation one
  step.
\<close>

subsection \<open>Owners\<close>

record OwnerRef =
  Or_APIVersion :: string
  Or_Kind :: string
  Or_Namespace :: string
  Or_Name :: string

record ownerReference =
  Rf_APIVersion :: string
  Rf_Kind :: string
  Rf_Name :: string

record metaObject =
  Mo_Namespace :: string
  Mo_OwnerReferences :: "ownerReference list"

type_synonym getOwner = "string \<Rightarrow> string \<Rightarrow> string \<Rightarrow> string \<Rightarrow> metaObject option"

definition maxOwnerResolutionDepth :: nat where
  "maxOwnerResolutionDepth = 32"

definition ownerRefKey :: "string \<Rightarrow> ownerReference \<Rightarrow> string" where
  "ownerRefKey namespace r = namespace @ ''/'' @ Rf_APIVersion r @ ''/'' @ Rf_Kind r @ ''/'' @ Rf_Name r"

fun topOwnerLoop :: "getOwner \<Rightarrow> (nat \<Rightarrow> bool) \<Rightarrow> nat \<Rightarrow> metaObject \<Rightarrow> (string, unit) gomap \<Rightarrow> OwnerRef option \<Rightarrow> OwnerRef option" where
  "topOwnerLoop get ctxDone 0 obj seen lastOwnerRef = lastOwnerRef"
| "topOwnerLoop get ctxDone (Suc n) obj seen lastOwnerRef =
     (if ctxDone (maxOwnerResolutionDepth - Suc n) then lastOwnerRef
      else case Mo_OwnerReferences obj of
        [] \<Rightarrow> lastOwnerRef
      | r # _ \<Rightarrow>
          let key = ownerRefKey (Mo_Namespace obj) r in
          if map_of seen key \<noteq> None then lastOwnerRef
          else case get (Rf_APIVersion r) (Rf_Kind r) (Mo_Namespace obj) (Rf_Name r) of
            None \<Rightarrow> lastOwnerRef
          | Some ownerObj \<Rightarrow>
              topOwnerLoop get ctxDone n ownerObj (mput key () seen)
                (Some \<lparr>Or_APIVersion = Rf_APIVersion r, Or_Kind = Rf_Kind r, Or_Namespace = Mo_Namespace obj, Or_Name = Rf_Name r\<rparr>))"

definition getTopOwner :: "getOwner \<Rightarrow> (nat \<Rightarrow> bool) \<Rightarrow> metaObject \<Rightarrow> OwnerRef option" where
  "getTopOwner get ctxDone obj = topOwnerLoop get ctxDone maxOwnerResolutionDepth obj [] None"

subsection \<open>Pods\<close>

definition PodRunning :: string where "PodRunning = ''Running''"

record Pod =
  Pd_Name :: string
  Pd_Namespace :: string
  Pd_NodeName :: string
  Pd_Phase :: string
  Pd_PodIPs :: "string list"
  Pd_PodIP :: string
  Pd_Annotations :: "(string, string) gomap"
  Pd_OwnerReferences :: "ownerReference list"

definition OwnerForPod :: "getOwner option \<Rightarrow> (nat \<Rightarrow> bool) \<Rightarrow> Pod \<Rightarrow> OwnerRef option" where
  "OwnerForPod client ctxDone pod =
     (case client of
        None \<Rightarrow> None
      | Some get \<Rightarrow> getTopOwner get ctxDone \<lparr>Mo_Namespace = Pd_Namespace pod, Mo_OwnerReferences = Pd_OwnerReferences pod\<rparr>)"

record PodInfo =
  Pi_Name :: string
  Pi_Namespace :: string
  Pi_NodeName :: string
  Pi_IPs :: "IP list"
  Pi_TopOwner :: "OwnerRef option"

definition multusNetworkStatusAnnotation :: string where "multusNetworkStatusAnnotation = ''k8s.v1.cni.cncf.io/network-status''"
definition podIPsAnnotation :: string where "podIPsAnnotation = ''k8s.v1.cni.cncf.io/podIPs''"
definition podIPAnnotation :: string where "podIPAnnotation = ''k8s.v1.cni.cncf.io/podIP''"

definition normalizeIPKey :: "IP \<Rightarrow> string" where
  "normalizeIPKey ip =
     (if ip = [] then []
      else if To4 ip \<noteq> [] then String (To4 ip)
      else if To16 ip \<noteq> [] then String (To16 ip)
      else [])"

text \<open>The addresses collected so far and the keys seen.\<close>

definition addIP :: "string \<Rightarrow> (string, unit) gomap \<times> IP list \<Rightarrow> (string, unit) gomap \<times> IP list" where
  "addIP value = (\<lambda>(seen, ips).
     let ip = ParseIP value; key = normalizeIPKey ip in
     if key = [] then (seen, ips)
     else if map_of seen key \<noteq> None then (seen, ips)
     else (mput key () seen, ips @ [ip]))"

definition addAnnotatedPodIPs :: "(string \<Rightarrow> (string \<times> string list) list option) \<Rightarrow> (string, string) gomap
    \<Rightarrow> (string, unit) gomap \<times> IP list \<Rightarrow> (string, unit) gomap \<times> IP list" where
  "addAnnotatedPodIPs unmarshalStatuses annotations s0 =
     (let status = mgetd [] annotations multusNetworkStatusAnnotation;
          podIP = mgetd [] annotations podIPAnnotation;
          podIPs = mgetd [] annotations podIPsAnnotation;
          s1 = (if status \<noteq> [] then
                  (case unmarshalStatuses status of
                     None \<Rightarrow> s0
                   | Some statuses \<Rightarrow> fold (\<lambda>(ip, ips) s. fold addIP ips (addIP ip s)) statuses s0)
                else s0);
          s2 = (if podIP \<noteq> [] then addIP podIP s1 else s1)
      in if podIPs \<noteq> [] then
           (case UnmarshalStrings podIPs of
              Some values \<Rightarrow> fold addIP values s2
            | None \<Rightarrow> addIP podIPs s2)
         else s2)"

definition podIPs :: "(string \<Rightarrow> (string \<times> string list) list option) \<Rightarrow> Pod \<Rightarrow> IP list" where
  "podIPs unmarshalStatuses pod =
     snd (addAnnotatedPodIPs unmarshalStatuses (Pd_Annotations pod) (addIP (Pd_PodIP pod) (fold addIP (Pd_PodIPs pod) ([], []))))"

subsection \<open>The cache\<close>

type_synonym PodIPCache = "(string, EndpointAttribution) gomap"

definition NewPodIPCache :: PodIPCache where
  "NewPodIPCache = []"

definition attribution :: "PodInfo \<Rightarrow> EndpointAttribution" where
  "attribution pod =
     (let attr = noAttribution\<lparr>Ea_PodName := Pi_Name pod, Ea_PodNamespace := Pi_Namespace pod, Ea_NodeName := Pi_NodeName pod\<rparr>
      in case Pi_TopOwner pod of
           None \<Rightarrow> attr
         | Some owner \<Rightarrow> attr\<lparr>Ea_TopOwnerKind := Or_Kind owner, Ea_TopOwnerName := Or_Name owner, Ea_TopOwnerNamespace := Or_Namespace owner\<rparr>)"

definition recordIP :: "EndpointAttribution \<Rightarrow> IP \<Rightarrow> PodIPCache \<Rightarrow> PodIPCache" where
  "recordIP attr ip m = (let key = normalizeIPKey ip in if key \<noteq> [] then mput key attr m else m)"

definition Replace :: "PodInfo list \<Rightarrow> PodIPCache" where
  "Replace pods = fold (\<lambda>pod. fold (recordIP (attribution pod)) (Pi_IPs pod)) pods []"

text \<open>One pod of the list: tests \<open>2 i\<close> and \<open>2 i + 1\<close> of the context belong to pod \<open>i\<close>.\<close>

fun podInfos :: "(string \<Rightarrow> (string \<times> string list) list option) \<Rightarrow> (Pod \<Rightarrow> OwnerRef option) option \<Rightarrow> (nat \<Rightarrow> bool) \<Rightarrow> nat
    \<Rightarrow> Pod list \<Rightarrow> PodInfo list option" where
  "podInfos unmarshalStatuses resolver ctxDone i [] = Some []"
| "podInfos unmarshalStatuses resolver ctxDone i (pod # pods) =
     (if ctxDone (2 * i) then None
      else if Pd_Phase pod \<noteq> PodRunning then podInfos unmarshalStatuses resolver ctxDone (Suc i) pods
      else let info = \<lparr>Pi_Name = Pd_Name pod, Pi_Namespace = Pd_Namespace pod, Pi_NodeName = Pd_NodeName pod,
                 Pi_IPs = podIPs unmarshalStatuses pod,
                 Pi_TopOwner = (case resolver of None \<Rightarrow> None | Some ownerForPod \<Rightarrow> ownerForPod pod)\<rparr>
           in if resolver \<noteq> None \<and> ctxDone (2 * i + 1) then None
              else map_option ((#) info) (podInfos unmarshalStatuses resolver ctxDone (Suc i) pods))"

text \<open>\<open>None\<close> is the error of the context; the cache is then unchanged.\<close>

definition ReplacePods :: "(string \<Rightarrow> (string \<times> string list) list option) \<Rightarrow> (Pod \<Rightarrow> OwnerRef option) option \<Rightarrow> (nat \<Rightarrow> bool)
    \<Rightarrow> Pod list \<Rightarrow> PodIPCache option" where
  "ReplacePods unmarshalStatuses resolver ctxDone pods = map_option Replace (podInfos unmarshalStatuses resolver ctxDone 0 pods)"

definition Lookup :: "PodIPCache \<Rightarrow> IP \<Rightarrow> EndpointAttribution option" where
  "Lookup c ip = (let key = normalizeIPKey ip in if key = [] then None else map_of c key)"

subsection \<open>Keys\<close>

lemma mapped4_length [simp]: "length mapped4 = 12"
  by (simp add: mapped4_def)

lemma normalizeIPKey_Nil: "normalizeIPKey ip = [] \<longleftrightarrow> To16 ip = []"
proof -
  have "String x \<noteq> []" if "length x = 4 \<or> length x = 16" for x :: IP
    using string4_chars(3)[of "To4 x"] string6_chars(3)[of x] that by (auto simp: String_def To4_def split: if_splits)
  then show ?thesis by (auto simp: normalizeIPKey_def To4_def To16_def split: if_splits)
qed

lemma normalizeIPKey_To16: "To16 ip \<noteq> [] \<Longrightarrow> ParseIP (normalizeIPKey ip) = To16 ip"
proof -
  assume "To16 ip \<noteq> []"
  then have len: "length ip = 4 \<or> length ip = 16" by (auto simp: To16_def split: if_splits)
  have "mapped4 @ drop 12 ip = ip" if "take 12 ip = mapped4" using append_take_drop_id[of 12 ip] that by simp
  then have "To16 (To4 ip) = To16 ip" if "To4 ip \<noteq> []"
    using that by (auto simp: To4_def To16_def split: if_splits)
  moreover have "length (To4 ip) = 4" if "To4 ip \<noteq> []" using that To4_cases by blast
  moreover have "To16 (To16 ip) = To16 ip" "length (To16 ip) = 16" using len by (auto simp: To16_def)
  moreover have "ip \<noteq> []" using len by auto
  ultimately show "ParseIP (normalizeIPKey ip) = To16 ip"
    using \<open>To16 ip \<noteq> []\<close> ParseIP_String[of "To4 ip"] ParseIP_String[of "To16 ip"]
    by (auto simp: normalizeIPKey_def)
qed

definition sameIP :: "IP \<Rightarrow> IP \<Rightarrow> bool" where
  "sameIP a b \<longleftrightarrow> To16 a \<noteq> [] \<and> To16 a = To16 b"

lemma normalizeIPKey_eq: "normalizeIPKey a \<noteq> [] \<and> normalizeIPKey a = normalizeIPKey b \<longleftrightarrow> sameIP a b"
proof -
  have "normalizeIPKey x = normalizeIPKey (To16 x)" if "To16 x \<noteq> []" for x
    using that by (auto simp: normalizeIPKey_def To4_def To16_def String_def mapped4_def split: if_splits)
  then show ?thesis unfolding sameIP_def
    by (metis normalizeIPKey_Nil normalizeIPKey_To16)
qed

subsection \<open>Lookup\<close>

lemma recordIPs_lookup:
  "key \<noteq> [] \<Longrightarrow> map_of (fold (recordIP attr) ips m) key = (if list_ex (\<lambda>ip. normalizeIPKey ip = key) ips then Some attr else map_of m key)"
  by (induction ips arbitrary: m) (auto simp: recordIP_def Let_def)

lemma Replace_lookup:
  "key \<noteq> [] \<Longrightarrow> map_of (fold (\<lambda>pod. fold (recordIP (attribution pod)) (Pi_IPs pod)) pods m) key =
     (let ps = filter (\<lambda>pod. list_ex (\<lambda>ip. normalizeIPKey ip = key) (Pi_IPs pod)) pods in
      if ps = [] then map_of m key else Some (attribution (last ps)))"
proof (induction pods rule: rev_induct)
  case (snoc pod pods)
  then show ?case by (simp add: recordIPs_lookup Let_def)
qed simp

lemma Lookup_Replace:
  "Lookup (Replace pods) ip =
     (let ps = filter (\<lambda>pod. list_ex (sameIP ip) (Pi_IPs pod)) pods in if ps = [] then None else Some (attribution (last ps)))"
proof (cases "normalizeIPKey ip = []")
  case True
  then have "\<not> sameIP ip x" for x using normalizeIPKey_eq[of ip x] by auto
  then show ?thesis using True by (simp add: Lookup_def list_ex_iff)
next
  case False
  then have "sameIP ip x \<longleftrightarrow> normalizeIPKey x = normalizeIPKey ip" for x using normalizeIPKey_eq[of ip x] by auto
  then have eq: "sameIP ip = (\<lambda>x. normalizeIPKey x = normalizeIPKey ip)" by (rule ext)
  show ?thesis using False Replace_lookup[OF False, of pods "[]"] unfolding eq by (simp add: Lookup_def Replace_def Let_def)
qed

subsection \<open>From the listed pods to the answer\<close>

text \<open>The texts that say the addresses of a pod, in the order of the source.\<close>

definition podAddresses :: "(string \<Rightarrow> (string \<times> string list) list option) \<Rightarrow> Pod \<Rightarrow> string list" where
  "podAddresses unmarshalStatuses pod =
     (let annotation = mgetd [] (Pd_Annotations pod);
          status = annotation multusNetworkStatusAnnotation;
          listed = annotation podIPsAnnotation
      in Pd_PodIPs pod @ [Pd_PodIP pod]
         @ (if status = [] then [] else case unmarshalStatuses status of None \<Rightarrow> [] | Some statuses \<Rightarrow> concat (map (\<lambda>(ip, ips). ip # ips) statuses))
         @ (if annotation podIPAnnotation = [] then [] else [annotation podIPAnnotation])
         @ (if listed = [] then [] else case UnmarshalStrings listed of None \<Rightarrow> [listed] | Some ips \<Rightarrow> ips))"

lemma statuses_fold: "fold (\<lambda>(ip, ips) s. fold addIP ips (addIP ip s)) statuses s = fold addIP (concat (map (\<lambda>(ip, ips). ip # ips) statuses)) s"
  by (induction statuses arbitrary: s) (auto split: prod.splits)

lemma podIPs_fold: "podIPs unmarshalStatuses pod = snd (fold addIP (podAddresses unmarshalStatuses pod) ([], []))"
  by (simp add: podIPs_def podAddresses_def addAnnotatedPodIPs_def Let_def statuses_fold split: option.splits)

definition seenOk :: "(string, unit) gomap \<times> IP list \<Rightarrow> bool" where
  "seenOk = (\<lambda>(seen, ips). keyset seen = normalizeIPKey ` set ips)"

lemma addIP_same:
  assumes "seenOk s"
  shows "seenOk (addIP t s) \<and> (list_ex (sameIP ip) (snd (addIP t s)) \<longleftrightarrow> list_ex (sameIP ip) (snd s) \<or> sameIP ip (ParseIP t))"
proof -
  obtain seen ips where s: "s = (seen, ips)" by (cases s)
  let ?x = "ParseIP t"
  consider (bad) "normalizeIPKey ?x = []" | (old) "normalizeIPKey ?x \<noteq> []" "normalizeIPKey ?x \<in> keyset seen"
    | (new) "normalizeIPKey ?x \<noteq> []" "normalizeIPKey ?x \<notin> keyset seen" by blast
  then show ?thesis
  proof cases
    case bad
    then have "\<not> sameIP ip ?x" by (auto simp: normalizeIPKey_Nil sameIP_def)
    then show ?thesis using bad assms s by (simp add: addIP_def)
  next
    case old
    then obtain y where y: "y \<in> set ips" "sameIP ?x y" using assms s normalizeIPKey_eq[of ?x] by (auto simp: seenOk_def)
    then have "sameIP ip ?x \<longleftrightarrow> sameIP ip y" by (auto simp: sameIP_def)
    then show ?thesis using old y(1) assms s by (auto simp: addIP_def Let_def list_ex_iff keyset_iff)
  next
    case new
    then have "map_of seen (normalizeIPKey ?x) = None" by (cases "map_of seen (normalizeIPKey ?x)") auto
    then show ?thesis using new assms s by (auto simp: addIP_def Let_def seenOk_def)
  qed
qed

lemma podIPs_same: "list_ex (sameIP ip) (podIPs unmarshalStatuses pod) \<longleftrightarrow> list_ex (\<lambda>t. sameIP ip (ParseIP t)) (podAddresses unmarshalStatuses pod)"
proof -
  have "list_ex (sameIP ip) (snd (fold addIP ts s)) \<longleftrightarrow> list_ex (sameIP ip) (snd s) \<or> list_ex (\<lambda>t. sameIP ip (ParseIP t)) ts" if "seenOk s" for ts s
    using that
  proof (induction ts arbitrary: s)
    case (Cons t ts)
    then show ?case using addIP_same[OF Cons.prems, of t ip] Cons.IH[of "addIP t s"] by auto
  qed simp
  from this[of "([], [])" "podAddresses unmarshalStatuses pod"] show ?thesis by (simp add: podIPs_fold seenOk_def)
qed

definition podInfo :: "(string \<Rightarrow> (string \<times> string list) list option) \<Rightarrow> (Pod \<Rightarrow> OwnerRef option) option \<Rightarrow> Pod \<Rightarrow> PodInfo" where
  "podInfo unmarshalStatuses resolver pod = \<lparr>Pi_Name = Pd_Name pod, Pi_Namespace = Pd_Namespace pod, Pi_NodeName = Pd_NodeName pod,
     Pi_IPs = podIPs unmarshalStatuses pod, Pi_TopOwner = Option.bind resolver (\<lambda>ownerForPod. ownerForPod pod)\<rparr>"

lemma podInfos_cases:
  "case podInfos unmarshalStatuses resolver ctxDone i pods of
     None \<Rightarrow> \<exists>j. ctxDone j
   | Some infos \<Rightarrow> infos = map (podInfo unmarshalStatuses resolver) (filter (\<lambda>pod. Pd_Phase pod = PodRunning) pods)"
proof (induction pods arbitrary: i)
  case (Cons pod pods)
  show ?case using Cons[of "Suc i"] by (cases "podInfos unmarshalStatuses resolver ctxDone (Suc i) pods"; cases resolver)
    (auto simp: podInfo_def)
qed simp

definition podAttribution :: "(Pod \<Rightarrow> OwnerRef option) option \<Rightarrow> Pod \<Rightarrow> EndpointAttribution" where
  "podAttribution resolver pod =
     (case Option.bind resolver (\<lambda>ownerForPod. ownerForPod pod) of
        None \<Rightarrow> noAttribution\<lparr>Ea_PodName := Pd_Name pod, Ea_PodNamespace := Pd_Namespace pod, Ea_NodeName := Pd_NodeName pod\<rparr>
      | Some owner \<Rightarrow> noAttribution\<lparr>Ea_PodName := Pd_Name pod, Ea_PodNamespace := Pd_Namespace pod, Ea_NodeName := Pd_NodeName pod,
          Ea_TopOwnerKind := Or_Kind owner, Ea_TopOwnerName := Or_Name owner, Ea_TopOwnerNamespace := Or_Namespace owner\<rparr>)"

lemma attribution_podInfo: "attribution (podInfo unmarshalStatuses resolver pod) = podAttribution resolver pod"
  by (simp add: attribution_def podInfo_def podAttribution_def Let_def split: option.splits)

text \<open>
  C26: from the pods the API server lists to the answer for an address. Replacing the cache by the pods fails
  only when the context is done. Otherwise looking up an address gives name, namespace, node and top owner of the last
  running pod one of whose addresses (in its status, in the network status and in the two address annotations) is that
  address, in whatever form it is written, and nothing when no running pod has it.
\<close>

theorem Lookup_ReplacePods:
  "case ReplacePods unmarshalStatuses resolver ctxDone pods of
     None \<Rightarrow> \<exists>i. ctxDone i
   | Some cache \<Rightarrow> Lookup cache ip =
       (let owners = filter (\<lambda>pod. Pd_Phase pod = PodRunning \<and> list_ex (\<lambda>t. sameIP ip (ParseIP t)) (podAddresses unmarshalStatuses pod)) pods
        in if owners = [] then None else Some (podAttribution resolver (last owners)))"
proof (cases "podInfos unmarshalStatuses resolver ctxDone 0 pods")
  case None
  then show ?thesis using podInfos_cases[where ctxDone = ctxDone and unmarshalStatuses = unmarshalStatuses and resolver = resolver and i = 0 and pods = pods] by (simp add: ReplacePods_def)
next
  case (Some infos)
  let ?running = "filter (\<lambda>pod. Pd_Phase pod = PodRunning) pods"
  have infos: "infos = map (podInfo unmarshalStatuses resolver) ?running"
    using podInfos_cases[where ctxDone = ctxDone and unmarshalStatuses = unmarshalStatuses and resolver = resolver and i = 0 and pods = pods] Some by simp
  have "filter (\<lambda>info. list_ex (sameIP ip) (Pi_IPs info)) infos = map (podInfo unmarshalStatuses resolver)
      (filter (\<lambda>pod. Pd_Phase pod = PodRunning \<and> list_ex (\<lambda>t. sameIP ip (ParseIP t)) (podAddresses unmarshalStatuses pod)) pods)"
    unfolding infos filter_map filter_filter by (simp add: comp_def podInfo_def podIPs_same)
  then show ?thesis using Some by (simp add: ReplacePods_def Lookup_Replace Let_def last_map attribution_podInfo)
qed

end
