(* ===== verification/Node_Agent.thy ===== *)
theory Node_Agent
  imports Lldp Go_Cidr Go_Glob Go_Strings Sflow_Attribution Topology_Controller Topology_Inputs
begin

text \<open>
  The agent on a node, \<open>src/pkg/agent/fabricnode\<close>: \<open>pattern.go\<close>, \<open>pod.go\<close> and \<open>fabricnode.go\<close>. It reports the
  RDMA interfaces of the node with their LLDP neighbors and the pods that use RDMA in the status of
  its \<open>FabricNode\<close> object. The answers of the API server, of netlink and of the file system are the
  record \<open>nodeView\<close>; \<open>regexp.MatchString\<close> and the condition helpers of apimachinery are arguments. A
  reconcile that panics or never returns is \<open>None\<close>.
\<close>

subsection \<open>Interface patterns\<close>

function matchWildcardPattern :: "(string \<Rightarrow> string \<Rightarrow> bool option) \<Rightarrow> string \<Rightarrow> string \<Rightarrow> bool" where
  "matchWildcardPattern MatchString s pattern =
     (if HasPrefix pattern ''!'' then \<not> matchWildcardPattern MatchString s (TrimPrefix pattern ''!'')
      else let regexPattern = ''^'' @ ReplaceAll (ReplaceAll pattern (CHR ''*'') ''.*'') (CHR ''?'') ''.'' @ ''$''
           in MatchString regexPattern s = Some True)"
  by pat_completeness auto
termination
  by (relation "measure (\<lambda>(m, s, pattern). length pattern)") (auto intro: TrimPrefix_shorter)

declare matchWildcardPattern.simps [simp del]

definition splitPatterns :: "string \<Rightarrow> string list \<times> string list" where
  "splitPatterns patternList =
     fold (\<lambda>p0 (inclusions, exclusions).
         let p = TrimSpace p0 in
         if p = [] then (inclusions, exclusions)
         else if HasPrefix p ''!'' then (inclusions, exclusions @ [p])
         else (inclusions @ [p], exclusions))
       (SplitChar (CHR '','') patternList) ([], [])"

definition matchMultiplePatterns :: "(string \<Rightarrow> string \<Rightarrow> bool option) \<Rightarrow> string \<Rightarrow> string \<Rightarrow> bool" where
  "matchMultiplePatterns MatchString s patternList =
     (if patternList = [] then False
      else case splitPatterns patternList of (inclusions, exclusions) \<Rightarrow>
        if inclusions = [] \<and> length exclusions = 1 then \<not> matchWildcardPattern MatchString s (TrimPrefix (hd exclusions) ''!'')
        else if length inclusions = 1 \<and> exclusions = [] then matchWildcardPattern MatchString s (hd inclusions)
        else if list_ex (\<lambda>p. matchWildcardPattern MatchString s (TrimPrefix p ''!'')) exclusions then False
        else if inclusions = [] \<and> exclusions = [] then False
        else if inclusions = [] then True
        else list_ex (matchWildcardPattern MatchString s) inclusions)"

record RdmaInterfaceMethod =
  Im_Method :: string
  Im_Value :: string

definition noMethod :: RdmaInterfaceMethod where
  "noMethod = \<lparr>Im_Method = [], Im_Value = []\<rparr>"

text \<open>A selector is a method and a value, separated by the first equals sign.\<close>

definition CheckOrParsePattern :: "string \<Rightarrow> RdmaInterfaceMethod \<Rightarrow> string + RdmaInterfaceMethod" where
  "CheckOrParsePattern pattern m =
     (if pattern = [] then Inr m
      else let rest = dropWhile (\<lambda>c. c \<noteq> CHR ''='') pattern in
        if rest = [] then Inl (''invalid interface pattern: '' @ pattern @ '', expect format like interface=ens1f0* or cidr=192.168.1.0/24'')
        else Inr \<lparr>Im_Method = takeWhile (\<lambda>c. c \<noteq> CHR ''='') pattern, Im_Value = tl rest\<rparr>)"

definition IsInterfaceMethod :: "RdmaInterfaceMethod \<Rightarrow> bool" where
  "IsInterfaceMethod m \<longleftrightarrow> Im_Method m = ''interface''"

definition IsValidCidr :: "RdmaInterfaceMethod \<Rightarrow> bool" where
  "IsValidCidr m \<longleftrightarrow> ParseCIDR (Im_Value m) \<noteq> None"

definition IsCidrMethod :: "RdmaInterfaceMethod \<Rightarrow> bool" where
  "IsCidrMethod m \<longleftrightarrow> Im_Method m = ''cidr''"

subsection \<open>RDMA pods\<close>

definition NetworkStatusAnnotation :: string where "NetworkStatusAnnotation = ''k8s.v1.cni.cncf.io/network-status''"

record podContainer =
  Pc_Privileged :: "bool option"
  Pc_MountPaths :: "string list"

record NodePod =
  Np_Namespace :: string
  Np_Name :: string
  Np_Annotations :: "(string, string) gomap"
  Np_ContainerIDs :: "string list"
  Np_HostNetwork :: bool
  Np_Containers :: "podContainer list"
  Np_Phase :: string
  Np_OwnerReferences :: "ownerReference list"

record RdmaPod =
  Rp_Namespace :: string
  Rp_Name :: string
  Rp_ContainerList :: "string list"
  Rp_HostRDMA :: bool
  Rp_TopOwner :: "OwnerRef option"

definition isSriovRDMA :: "NodePod \<Rightarrow> bool" where
  "isSriovRDMA pod = Contains (mgetd [] (Np_Annotations pod) NetworkStatusAnnotation) ''rdma-device''"

definition getContainerList :: "NodePod \<Rightarrow> string list" where
  "getContainerList pod = filter (\<lambda>id. id \<noteq> []) (Np_ContainerIDs pod)"

definition isHostRDMA :: "NodePod \<Rightarrow> bool" where
  "isHostRDMA pod \<longleftrightarrow> Np_HostNetwork pod \<and>
     list_ex (\<lambda>c. Pc_Privileged c = Some True \<and> list_ex (\<lambda>path. path = ''/dev/infiniband'') (Pc_MountPaths c)) (Np_Containers pod)"

definition isContainerListEqual :: "string list \<Rightarrow> string list \<Rightarrow> bool" where
  "isContainerListEqual old new \<longleftrightarrow> length old = length new \<and>
     (let oldContainers = fold (\<lambda>id. mput id ()) old [] in list_all (\<lambda>id. map_of oldContainers id \<noteq> None) new)"

definition isOwnerRefEqual :: "OwnerRef option \<Rightarrow> OwnerRef option \<Rightarrow> bool" where
  "isOwnerRefEqual a b =
     (case (a, b) of
        (None, None) \<Rightarrow> True
      | (Some x, Some y) \<Rightarrow> Or_APIVersion x = Or_APIVersion y \<and> Or_Kind x = Or_Kind y \<and> Or_Namespace x = Or_Namespace y \<and> Or_Name x = Or_Name y
      | _ \<Rightarrow> False)"

definition podKey :: "RdmaPod \<Rightarrow> string" where
  "podKey pod = Rp_Namespace pod @ ''/'' @ Rp_Name pod"

definition isRdmaPodsEqual :: "RdmaPod list \<Rightarrow> RdmaPod list \<Rightarrow> bool" where
  "isRdmaPodsEqual old new \<longleftrightarrow> length old = length new \<and>
     (let oldPods = fold (\<lambda>pod. mput (podKey pod) pod) old []
      in list_all (\<lambda>pod. case map_of oldPods (podKey pod) of
           None \<Rightarrow> False
         | Some oldPod \<Rightarrow> Rp_HostRDMA oldPod = Rp_HostRDMA pod \<and> isContainerListEqual (Rp_ContainerList oldPod) (Rp_ContainerList pod)
             \<and> isOwnerRefEqual (Rp_TopOwner oldPod) (Rp_TopOwner pod)) new)"

text \<open>The loop up the owners has no bound: \<open>None\<close> says that it does not return. Objects may change between two reads: \<open>gets i\<close>
  is what the API server answers in the round \<open>i\<close> of the loop.\<close>

partial_function (option) podTopOwner :: "(nat \<Rightarrow> getOwner) \<Rightarrow> nat \<Rightarrow> metaObject \<Rightarrow> OwnerRef option \<Rightarrow> OwnerRef option option" where
  "podTopOwner gets i obj lastOwnerRef =
     (case Mo_OwnerReferences obj of
        [] \<Rightarrow> Some lastOwnerRef
      | r # _ \<Rightarrow>
          (case gets i (Rf_APIVersion r) (Rf_Kind r) (Mo_Namespace obj) (Rf_Name r) of
             None \<Rightarrow> Some None
           | Some ownerObj \<Rightarrow>
               podTopOwner gets (Suc i) ownerObj
                 (Some \<lparr>Or_APIVersion = Rf_APIVersion r, Or_Kind = Rf_Kind r, Or_Namespace = Mo_Namespace obj, Or_Name = Rf_Name r\<rparr>)))"

definition isPodRunning :: "NodePod \<Rightarrow> bool" where
  "isPodRunning pod \<longleftrightarrow> Np_Phase pod = PodRunning"

definition rdmaPod :: "(NodePod \<Rightarrow> nat \<Rightarrow> getOwner) \<Rightarrow> NodePod \<Rightarrow> RdmaPod list \<Rightarrow> RdmaPod list option" where
  "rdmaPod getOwner pod rdmaPods =
     (if isPodRunning pod \<and> (isSriovRDMA pod \<or> isHostRDMA pod)
      then (case podTopOwner (getOwner pod) 0 \<lparr>Mo_Namespace = Np_Namespace pod, Mo_OwnerReferences = Np_OwnerReferences pod\<rparr> None of
              None \<Rightarrow> None
            | Some topOwner \<Rightarrow>
                Some (rdmaPods @ [\<lparr>Rp_Namespace = Np_Namespace pod, Rp_Name = Np_Name pod, Rp_ContainerList = getContainerList pod,
                                    Rp_HostRDMA = isHostRDMA pod, Rp_TopOwner = topOwner\<rparr>]))
      else Some rdmaPods)"

subsection \<open>Status\<close>

definition NodeRoleGPU :: string where "NodeRoleGPU = ''GPU''"
definition FabricNodeConditionReady :: string where "FabricNodeConditionReady = ''Ready''"
definition FabricNodeConditionLLDPNeighborsReady :: string where "FabricNodeConditionLLDPNeighborsReady = ''LLDPNeighborsReady''"
definition FabricNodeReasonReady :: string where "FabricNodeReasonReady = ''Ready''"
definition FabricNodeReasonConditionNotReady :: string where "FabricNodeReasonConditionNotReady = ''ConditionNotReady''"
definition FabricNodeReasonConditionUnknown :: string where "FabricNodeReasonConditionUnknown = ''ConditionUnknown''"
definition FabricNodeReasonLLDPNeighborsReady :: string where "FabricNodeReasonLLDPNeighborsReady = ''LLDPNeighborsReady''"
definition FabricNodeReasonLLDPNeighborMissing :: string where "FabricNodeReasonLLDPNeighborMissing = ''LLDPNeighborMissing''"
definition FabricNodeReasonDiscoveryFailed :: string where "FabricNodeReasonDiscoveryFailed = ''DiscoveryFailed''"

datatype ConditionStatus = ConditionTrue | ConditionFalse | ConditionUnknown

record NodeCondition =
  Nc_Type :: string
  Nc_Status :: ConditionStatus
  Nc_LastTransitionTime :: int
  Nc_Reason :: string
  Nc_Message :: string

text \<open>The condition helpers of apimachinery: the new list, and whether it differs from the old one.\<close>

record conditionOps =
  Co_SetStatusCondition :: "NodeCondition \<Rightarrow> NodeCondition list \<Rightarrow> NodeCondition list \<times> bool"
  Co_RemoveStatusCondition :: "string \<Rightarrow> NodeCondition list \<Rightarrow> NodeCondition list \<times> bool"
  Co_FindStatusCondition :: "NodeCondition list \<Rightarrow> string \<Rightarrow> NodeCondition option"

record NodeNic =
  Nn_Name :: string
  Nn_RdmaDeviceName :: string
  Nn_RDMA :: bool
  Nn_IPv4 :: string
  Nn_IPv6 :: string
  Nn_State :: string
  Nn_LLDPNeighbor :: LLDPNeighbor

record FabricNodeStatus =
  Ns_Conditions :: "NodeCondition list"
  Ns_TotalNics :: nat
  Ns_RdmaPods :: "RdmaPod list"
  Ns_ScaleOutNics :: "NodeNic list"
  Ns_StorageNics :: "NodeNic list"
  Ns_NodeRole :: string
  Ns_NodeIP :: string
  Ns_Topologies :: "string list"

record ownerRefUID = ownerReference +
  Rf_UID :: string

record FabricNodeObject =
  Fo_Name :: string
  Fo_Annotations :: "(string, string) gomap"
  Fo_OwnerReferences :: "ownerRefUID list"
  Fo_Status :: FabricNodeStatus

record nodeReconciler =
  Nr_nodeName :: string
  Nr_scaleOutRdmaPattern :: RdmaInterfaceMethod
  Nr_storageRdmaPattern :: RdmaInterfaceMethod
  Nr_scaleUpRdmaPattern :: RdmaInterfaceMethod
  Nr_storageNode :: bool
  Nr_nodeIPProbeAddress :: string
  Nr_MatchString :: "string \<Rightarrow> string \<Rightarrow> bool option"
  Nr_ops :: conditionOps

subsection \<open>Interfaces\<close>

definition IsSupportedRdmaNetdeviceType :: "string \<Rightarrow> bool" where
  "IsSupportedRdmaNetdeviceType linkType \<longleftrightarrow> linkType = ''device'' \<or> linkType = ''ipoib''"

definition IsInfiniBandNetdeviceType :: "string \<Rightarrow> string \<Rightarrow> bool" where
  "IsInfiniBandNetdeviceType linkType encapType \<longleftrightarrow> linkType = ''ipoib'' \<or> encapType = ''infiniband''"

text \<open>A link as netlink and sysfs report it: \<open>Lk_Rdma\<close> is the RDMA device if it has one, \<open>Lk_Addrs\<close> its addresses
  with their masks if they can be listed.\<close>

record link =
  Lk_Name :: string
  Lk_Type :: string
  Lk_EncapType :: string
  Lk_OperState :: string
  Lk_IsVf :: bool
  Lk_Rdma :: "string option"
  Lk_Addrs :: "(IP \<times> IP) list option"

datatype topologyNICClass = ClassNone | ClassScaleOut | ClassStorage

definition matchInterface :: "nodeReconciler \<Rightarrow> NodeNic \<Rightarrow> RdmaInterfaceMethod \<Rightarrow> (IP \<times> IP) list \<Rightarrow> bool" where
  "matchInterface r nic pattern addrs =
     (if Im_Method pattern = ''interface'' then matchMultiplePatterns (Nr_MatchString r) (Nn_Name nic) (Im_Value pattern)
      else if Im_Method pattern = ''cidr'' then
        (case ParseCIDR (Im_Value pattern) of
           None \<Rightarrow> False
         | Some cidrNet \<Rightarrow> list_ex (\<lambda>(ip, _). ip \<noteq> [] \<and> netContains cidrNet ip) addrs)
      else False)"

definition classifyTopologyNIC :: "nodeReconciler \<Rightarrow> NodeNic \<Rightarrow> (IP \<times> IP) list \<Rightarrow> topologyNICClass" where
  "classifyTopologyNIC r nic addrs =
     (if Im_Method (Nr_storageRdmaPattern r) \<noteq> [] \<and> matchInterface r nic (Nr_storageRdmaPattern r) addrs then ClassStorage
      else if Im_Method (Nr_scaleUpRdmaPattern r) \<noteq> [] \<and> matchInterface r nic (Nr_scaleUpRdmaPattern r) addrs then ClassNone
      else if Im_Method (Nr_scaleOutRdmaPattern r) = [] \<or> matchInterface r nic (Nr_scaleOutRdmaPattern r) addrs then ClassScaleOut
      else ClassNone)"

definition noNeighbor :: LLDPNeighbor where
  "noNeighbor = \<lparr>Ln_Hostname = [], Ln_MgmtIP = [], Ln_Mac = [], Ln_Port = [], Ln_Description = []\<rparr>"

definition addAddress :: "IP \<times> IP \<Rightarrow> NodeNic \<Rightarrow> NodeNic" where
  "addAddress addr nic =
     (case addr of (ip, netmask) \<Rightarrow>
        if IsLinkLocalUnicast ip \<or> IsLinkLocalMulticast ip then nic
        else if To4 ip \<noteq> [] then nic\<lparr>Nn_IPv4 := netString \<lparr>Net_IP = ip, Net_Mask = netmask\<rparr>\<rparr>
        else if To16 ip \<noteq> [] then nic\<lparr>Nn_IPv6 := netString \<lparr>Net_IP = ip, Net_Mask = netmask\<rparr>\<rparr>
        else nic)"

text \<open>The interface that a link gives, or \<open>None\<close> if the loop skips the link.\<close>

definition nicOf :: "(string, LLDPNeighbor) gomap \<Rightarrow> link \<Rightarrow> (NodeNic \<times> (IP \<times> IP) list) option" where
  "nicOf neighborsMap l =
     (if \<not> IsSupportedRdmaNetdeviceType (Lk_Type l) \<or> Lk_IsVf l then None
      else case (Lk_Rdma l, Lk_Addrs l) of
        (Some rdmaDevice, Some addrs) \<Rightarrow>
          let nic = \<lparr>Nn_Name = Lk_Name l, Nn_RdmaDeviceName = rdmaDevice, Nn_RDMA = True, Nn_IPv4 = [], Nn_IPv6 = [], Nn_State = Lk_OperState l,
                     Nn_LLDPNeighbor = mgetd noNeighbor neighborsMap (Lk_Name l)\<rparr>
          in Some (fold addAddress addrs nic, addrs)
      | _ \<Rightarrow> None)"

text \<open>The interfaces that need no LLDP neighbor are collected before the addresses are read.\<close>

definition optionalInterface :: "link \<Rightarrow> string list" where
  "optionalInterface l =
     (if IsSupportedRdmaNetdeviceType (Lk_Type l) \<and> \<not> Lk_IsVf l \<and> Lk_Rdma l \<noteq> None \<and> IsInfiniBandNetdeviceType (Lk_Type l) (Lk_EncapType l)
      then [Lk_Name l] else [])"

definition addLink :: "nodeReconciler \<Rightarrow> (string, LLDPNeighbor) gomap \<Rightarrow> link \<Rightarrow> NodeNic list \<times> NodeNic list \<Rightarrow> NodeNic list \<times> NodeNic list" where
  "addLink r neighborsMap l nics =
     (case nics of (scaleOutLinks, storageLinks) \<Rightarrow>
        (case nicOf neighborsMap l of
           None \<Rightarrow> nics
         | Some (nic, addrs) \<Rightarrow>
             (case classifyTopologyNIC r nic addrs of
                ClassStorage \<Rightarrow> (scaleOutLinks, storageLinks @ [nic])
              | ClassScaleOut \<Rightarrow> (scaleOutLinks @ [nic], storageLinks)
              | ClassNone \<Rightarrow> nics)))"

definition setCondition :: "conditionOps \<Rightarrow> NodeCondition \<Rightarrow> FabricNodeStatus \<Rightarrow> FabricNodeStatus \<times> bool" where
  "setCondition ops c status =
     (case Co_SetStatusCondition ops c (Ns_Conditions status) of (conditions, changed) \<Rightarrow> (status\<lparr>Ns_Conditions := conditions\<rparr>, changed))"

definition neighborsCondition :: "ConditionStatus \<Rightarrow> string \<Rightarrow> string \<Rightarrow> NodeCondition" where
  "neighborsCondition status reason message =
     \<lparr>Nc_Type = FabricNodeConditionLLDPNeighborsReady, Nc_Status = status, Nc_LastTransitionTime = 0, Nc_Reason = reason, Nc_Message = message\<rparr>"

definition missingNeighbors :: "NodeNic list \<Rightarrow> string list" where
  "missingNeighbors nics = map Nn_Name (filter (\<lambda>nic. Nn_State nic = ''up'' \<and> Ln_Hostname (Nn_LLDPNeighbor nic) = []) nics)"

definition setLLDPNeighborsReadyCondition :: "conditionOps \<Rightarrow> nat \<Rightarrow> NodeNic list \<Rightarrow> string list \<Rightarrow> lldpError option
    \<Rightarrow> FabricNodeStatus \<Rightarrow> FabricNodeStatus \<times> bool" where
  "setLLDPNeighborsReadyCondition ops totalNics nics lldpOptionalInterfaces discoveryErr status =
     (if totalNics = 0 then
        (case Co_RemoveStatusCondition ops FabricNodeConditionLLDPNeighborsReady (Ns_Conditions status) of (conditions, changed) \<Rightarrow>
           (status\<lparr>Ns_Conditions := conditions\<rparr>, changed))
      else let lldpRequiredNics = filter (\<lambda>nic. Nn_Name nic \<notin> set lldpOptionalInterfaces) nics in
        if lldpRequiredNics = [] then
          setCondition ops (neighborsCondition ConditionTrue FabricNodeReasonLLDPNeighborsReady ''Selected RDMA interfaces do not require LLDP neighbors'') status
        else (case discoveryErr of
          Some e \<Rightarrow> setCondition ops (neighborsCondition ConditionUnknown FabricNodeReasonDiscoveryFailed
                      (''Failed to discover LLDP neighbors: '' @ lldpErrorText e)) status
        | None \<Rightarrow>
            let missing = missingNeighbors lldpRequiredNics in
            if missing \<noteq> [] then
              setCondition ops (neighborsCondition ConditionFalse FabricNodeReasonLLDPNeighborMissing
                (''Selected RDMA interfaces are missing LLDP neighbors: '' @ Join missing '', '')) status
            else setCondition ops (neighborsCondition ConditionTrue FabricNodeReasonLLDPNeighborsReady
                ''All selected RDMA interfaces have LLDP neighbors'') status))"

definition updateTopologyStatus :: "nodeReconciler \<Rightarrow> lldpError + (string, LLDPNeighbor) gomap \<Rightarrow> string + link list
    \<Rightarrow> FabricNodeStatus \<Rightarrow> FabricNodeStatus \<times> bool" where
  "updateTopologyStatus r lldp linkList status =
     (case linkList of
        Inl e \<Rightarrow> setCondition (Nr_ops r) (neighborsCondition ConditionUnknown FabricNodeReasonDiscoveryFailed
                   (''Failed to list network interfaces: '' @ e)) status
      | Inr links \<Rightarrow>
          let neighborsMap = (case lldp of Inl e \<Rightarrow> [] | Inr neighbors \<Rightarrow> neighbors);
              lldpErr = (case lldp of Inl e \<Rightarrow> Some e | Inr _ \<Rightarrow> None)
          in case fold (addLink r neighborsMap) links ([], []) of (scaleOutNics, storageNics) \<Rightarrow>
            let totalNics = length scaleOutNics + length storageNics
            in case setLLDPNeighborsReadyCondition (Nr_ops r) totalNics (scaleOutNics @ storageNics)
                      (concat (map optionalInterface links)) lldpErr status of (status1, changed) \<Rightarrow>
              (status1\<lparr>Ns_TotalNics := totalNics, Ns_ScaleOutNics := scaleOutNics, Ns_StorageNics := storageNics\<rparr>,
               changed \<or> Ns_TotalNics status1 \<noteq> totalNics \<or> Ns_ScaleOutNics status1 \<noteq> scaleOutNics \<or> Ns_StorageNics status1 \<noteq> storageNics))"

definition readyCondition :: "ConditionStatus \<Rightarrow> string \<Rightarrow> string \<Rightarrow> NodeCondition" where
  "readyCondition status reason message =
     \<lparr>Nc_Type = FabricNodeConditionReady, Nc_Status = status, Nc_LastTransitionTime = 0, Nc_Reason = reason, Nc_Message = message\<rparr>"

fun readyLoop :: "NodeCondition list \<Rightarrow> NodeCondition \<Rightarrow> NodeCondition" where
  "readyLoop [] ready = ready"
| "readyLoop (c # cs) ready =
     (if Nc_Type c = FabricNodeConditionReady then readyLoop cs ready
      else if Nc_Status c = ConditionFalse
        then readyCondition ConditionFalse FabricNodeReasonConditionNotReady (Nc_Type c @ '' is not ready: '' @ Nc_Message c)
      else if Nc_Status c = ConditionUnknown \<and> Nc_Status ready \<noteq> ConditionFalse
        then readyLoop cs (readyCondition ConditionUnknown FabricNodeReasonConditionUnknown (Nc_Type c @ '' readiness is unknown: '' @ Nc_Message c))
      else readyLoop cs ready)"

definition updateReadyCondition :: "conditionOps \<Rightarrow> FabricNodeStatus \<Rightarrow> FabricNodeStatus \<times> bool" where
  "updateReadyCondition ops status =
     setCondition ops (readyLoop (Ns_Conditions status)
       (readyCondition ConditionTrue FabricNodeReasonReady ''All FabricNode conditions are ready'')) status"

subsection \<open>Reconcile\<close>

text \<open>What a reconcile meets. The four functions of the LLDP command are those of \<open>GetLLDPNeighbors\<close>;
  \<open>Nv_dial\<close> is the local address of the probe connection if there is one.\<close>

record nodeView =
  Nv_fabricNode :: "FabricNodeObject getResult"
  Nv_node :: "string getResult"
  Nv_create :: "FabricNodeObject \<Rightarrow> string + FabricNodeObject"
  Nv_update :: "FabricNodeObject \<Rightarrow> string + FabricNodeObject"
  Nv_started :: bool
  Nv_pathCheck :: "string \<Rightarrow> string option"
  Nv_commandLookup :: "string \<Rightarrow> string option"
  Nv_execCommand :: "string \<Rightarrow> string list \<Rightarrow> string \<times> string option"
  Nv_unmarshal :: "string \<Rightarrow> string + LLDPJSON0Response"
  Nv_links :: "string + link list"
  Nv_pods :: "string + NodePod list"
  Nv_getOwner :: "NodePod \<Rightarrow> nat \<Rightarrow> getOwner"
  Nv_dial :: "IP option"
  Nv_updateStatus :: "string option"

datatype nodeEffect =
    CreateFabricNode FabricNodeObject
  | UpdateFabricNode FabricNodeObject
  | UpdateFabricNodeStatus FabricNodeObject
  | NodeEvent string string string

definition checkLldpcliExists :: "(string \<Rightarrow> string option) \<Rightarrow> (string \<Rightarrow> string option) \<Rightarrow> lldpError option" where
  "checkLldpcliExists pathCheck commandLookup =
     (case resolveLldpCliInvocation pathCheck commandLookup
         \<lparr>Op_BinaryPath = [], Op_SocketPath = [], Op_FallbackToHost = True, Op_FallbackToPath = False, Op_UseHostNamespace = False\<rparr> of
        Inl e \<Rightarrow> Some e | Inr _ \<Rightarrow> None)"

definition getLLDPInfo :: "nodeView \<Rightarrow> (lldpError + (string, LLDPNeighbor) gomap) option" where
  "getLLDPInfo v = GetLLDPNeighbors (Nv_pathCheck v) (Nv_commandLookup v) (Nv_execCommand v) (Nv_unmarshal v)"

definition updateRdmaPodsStatus :: "nodeView \<Rightarrow> FabricNodeStatus \<Rightarrow> (FabricNodeStatus \<times> bool) option" where
  "updateRdmaPodsStatus v status =
     (case Nv_pods v of
        Inl e \<Rightarrow> Some (status, False)
      | Inr pods \<Rightarrow>
          (case ofold (rdmaPod (Nv_getOwner v)) pods [] of
             None \<Rightarrow> None
           | Some rdmaPods \<Rightarrow>
               if isRdmaPodsEqual (Ns_RdmaPods status) rdmaPods then Some (status, False)
               else Some (status\<lparr>Ns_RdmaPods := rdmaPods\<rparr>, True)))"

definition updateNodeRole :: "nodeReconciler \<Rightarrow> FabricNodeStatus \<Rightarrow> FabricNodeStatus \<times> bool" where
  "updateNodeRole r status =
     (let role = (if Nr_storageNode r then NodeRoleStorage else NodeRoleGPU)
      in if Ns_NodeRole status \<noteq> role then (status\<lparr>Ns_NodeRole := role\<rparr>, True) else (status, False))"

definition updateNodeIP :: "nodeReconciler \<Rightarrow> IP option \<Rightarrow> FabricNodeStatus \<Rightarrow> FabricNodeStatus \<times> bool" where
  "updateNodeIP r dial status =
     (if Nr_nodeIPProbeAddress r = [] then (status, False)
      else case dial of
        None \<Rightarrow> (status, False)
      | Some addr \<Rightarrow>
          let ip = (if addr = [] then ''<nil>'' else String addr)
          in if ip = [] \<or> ip = Ns_NodeIP status then (status, False) else (status\<lparr>Ns_NodeIP := ip\<rparr>, True))"

definition emitLLDPNeighborsReadyEvent :: "conditionOps \<Rightarrow> FabricNodeObject option \<Rightarrow> FabricNodeObject \<Rightarrow> nodeEffect list" where
  "emitLLDPNeighborsReadyEvent ops cached fabricNode =
     (case Co_FindStatusCondition ops (Ns_Conditions (Fo_Status fabricNode)) FabricNodeConditionLLDPNeighborsReady of
        None \<Rightarrow> []
      | Some current \<Rightarrow>
          let previous = (case cached of None \<Rightarrow> None
                | Some old \<Rightarrow> Co_FindStatusCondition ops (Ns_Conditions (Fo_Status old)) FabricNodeConditionLLDPNeighborsReady)
          in if (case previous of None \<Rightarrow> False | Some p \<Rightarrow> Nc_Status p = Nc_Status current \<and> Nc_Reason p = Nc_Reason current) then []
             else if Nc_Status current = ConditionTrue then
               (if (case previous of None \<Rightarrow> True | Some p \<Rightarrow> Nc_Status p \<noteq> ConditionTrue)
                then [NodeEvent ''Normal'' FabricNodeReasonLLDPNeighborsReady ''LLDP neighbors are ready''] else [])
             else if (case previous of None \<Rightarrow> True | Some p \<Rightarrow> Nc_Status p = ConditionTrue)
               then [NodeEvent ''Warning'' (if Nc_Reason current = FabricNodeReasonDiscoveryFailed then ''LLDPDiscoveryFailed'' else Nc_Reason current)
                      (''LLDP neighbors are not ready: '' @ Nc_Message current)]
             else [])"

definition ensureNodeOwnerReference :: "nodeReconciler \<Rightarrow> string getResult \<Rightarrow> FabricNodeObject \<Rightarrow> FabricNodeObject \<times> bool" where
  "ensureNodeOwnerReference r node fabricNode =
     (if Nr_storageNode r \<or> Fo_OwnerReferences fabricNode \<noteq> [] then (fabricNode, False)
      else case node of
        GetOk uid \<Rightarrow> (fabricNode\<lparr>Fo_OwnerReferences := [\<lparr>Rf_APIVersion = ''v1'', Rf_Kind = ''Node'', Rf_Name = Nr_nodeName r, Rf_UID = uid\<rparr>]\<rparr>, True)
      | _ \<Rightarrow> (fabricNode, False))"

definition emptyNodeStatus :: FabricNodeStatus where
  "emptyNodeStatus = \<lparr>Ns_Conditions = [], Ns_TotalNics = 0, Ns_RdmaPods = [], Ns_ScaleOutNics = [], Ns_StorageNics = [],
     Ns_NodeRole = [], Ns_NodeIP = [], Ns_Topologies = []\<rparr>"

definition newFabricNode :: "nodeReconciler \<Rightarrow> FabricNodeObject" where
  "newFabricNode r = \<lparr>Fo_Name = Nr_nodeName r, Fo_Annotations = [], Fo_OwnerReferences = [], Fo_Status = emptyNodeStatus\<rparr>"

text \<open>The part of a reconcile that computes the new status, and whether it says that it has changed.\<close>

definition topologyStep :: "nodeReconciler \<Rightarrow> nodeView \<Rightarrow> FabricNodeStatus \<Rightarrow> (FabricNodeStatus \<times> bool) option" where
  "topologyStep r v status =
     (if Nv_started v then
        (case getLLDPInfo v of None \<Rightarrow> None | Some lldp \<Rightarrow> Some (updateTopologyStatus r lldp (Nv_links v) status))
      else Some (status, False))"

definition podsStep :: "nodeReconciler \<Rightarrow> nodeView \<Rightarrow> FabricNodeStatus \<Rightarrow> (FabricNodeStatus \<times> bool) option" where
  "podsStep r v status = (if \<not> Nr_storageNode r then updateRdmaPodsStatus v status else Some (status, False))"

definition computeStatus :: "nodeReconciler \<Rightarrow> nodeView \<Rightarrow> FabricNodeStatus \<Rightarrow> (FabricNodeStatus \<times> bool) option" where
  "computeStatus r v status0 =
     (case topologyStep r v status0 of
        None \<Rightarrow> None
      | Some (status1, topologyNeedUpdate) \<Rightarrow>
          (case podsStep r v status1 of
             None \<Rightarrow> None
           | Some (status2, rdmaPodNeedUpdate) \<Rightarrow>
               (case updateNodeRole r status2 of (status3, roleNeedUpdate) \<Rightarrow>
                 case updateNodeIP r (Nv_dial v) status3 of (status4, ipNeedUpdate) \<Rightarrow>
                   case updateReadyCondition (Nr_ops r) status4 of (status5, readyNeedUpdate) \<Rightarrow>
                     Some (status5, rdmaPodNeedUpdate \<or> topologyNeedUpdate \<or> roleNeedUpdate \<or> ipNeedUpdate \<or> readyNeedUpdate))))"

text \<open>The result: an error or \<open>None\<close>, the cached object, and the calls made. Creating and updating the object put the answer of the
  API server in its place; a status update that succeeds is taken to answer with the object that was sent.\<close>

definition publishNode :: "nodeReconciler \<Rightarrow> nodeView \<Rightarrow> FabricNodeObject option \<Rightarrow> FabricNodeObject
    \<Rightarrow> (string option \<times> FabricNodeObject option \<times> nodeEffect list) option" where
  "publishNode r v cached fabricNode =
     (case computeStatus r v (Fo_Status fabricNode) of
        None \<Rightarrow> None
      | Some (status, needUpdate) \<Rightarrow>
          let new = fabricNode\<lparr>Fo_Status := status\<rparr>;
              event = emitLLDPNeighborsReadyEvent (Nr_ops r) cached new
          in if needUpdate then
               (case Nv_updateStatus v of
                  Some e \<Rightarrow> Some (Some e, cached, event @ [UpdateFabricNodeStatus new])
                | None \<Rightarrow> Some (None, Some new, event @ [UpdateFabricNodeStatus new]))
             else Some (None, Some new, event))"

definition doReconcile :: "nodeReconciler \<Rightarrow> nodeView \<Rightarrow> FabricNodeObject option
    \<Rightarrow> (string option \<times> FabricNodeObject option \<times> nodeEffect list) option" where
  "doReconcile r v cached =
     (case Nv_fabricNode v of
        GetError e \<Rightarrow> Some (Some e, cached, [])
      | GetNotFound \<Rightarrow>
          let fabricNode = fst (ensureNodeOwnerReference r (Nv_node v) (newFabricNode r)) in
          (case Nv_create v fabricNode of
             Inl e \<Rightarrow> Some (Some e, cached, [CreateFabricNode fabricNode])
           | Inr created \<Rightarrow> map_option (\<lambda>(e, c, effects). (e, c, CreateFabricNode fabricNode # effects)) (publishNode r v cached created))
      | GetOk found \<Rightarrow>
          (case ensureNodeOwnerReference r (Nv_node v) found of (fabricNode, ownerRefAdded) \<Rightarrow>
             if ownerRefAdded then
               (case Nv_update v fabricNode of
                  Inl e \<Rightarrow> Some (Some e, cached, [UpdateFabricNode fabricNode])
                | Inr updated \<Rightarrow> map_option (\<lambda>(e, c, effects). (e, c, UpdateFabricNode fabricNode # effects)) (publishNode r v cached updated))
             else publishNode r v cached fabricNode))"

definition GetFabricNode :: "FabricNodeObject option \<Rightarrow> FabricNodeObject option" where
  "GetFabricNode cached = cached"

definition StorageNodeLeaderAnnotationKey :: string where "StorageNodeLeaderAnnotationKey = ''unifabric.io/storage-node-leader''"

definition IsStorageLeader :: "FabricNodeObject option \<Rightarrow> bool" where
  "IsStorageLeader cached =
     (case cached of None \<Rightarrow> False | Some fabricNode \<Rightarrow> mgetd [] (Fo_Annotations fabricNode) StorageNodeLeaderAnnotationKey = ''true'')"

definition checkAndSetStorageLeader :: "nodeReconciler \<Rightarrow> string + FabricNodeObject list \<Rightarrow> string + bool" where
  "checkAndSetStorageLeader r listed =
     (case listed of
        Inl e \<Rightarrow> Inl (''failed to list FabricNodes: '' @ e)
      | Inr items \<Rightarrow> Inr (\<not> list_ex (\<lambda>fn. Fo_Name fn \<noteq> Nr_nodeName r \<and> Ns_NodeRole (Fo_Status fn) = NodeRoleStorage) items))"

text \<open>Removal of the object: the first argument is what the read finds, the second what the deletion returns. The result
  is the error and whether the object was deleted.\<close>

definition handleNodeDeletion :: "FabricNodeObject getResult \<Rightarrow> string option \<Rightarrow> string option \<times> bool" where
  "handleNodeDeletion found deleted =
     (case found of
        GetError e \<Rightarrow> (Some e, False)
      | GetNotFound \<Rightarrow> (None, False)
      | GetOk _ \<Rightarrow> (deleted, deleted = None))"

definition cleanupStorageNodeFabricNode :: "FabricNodeObject getResult \<Rightarrow> string option \<Rightarrow> bool" where
  "cleanupStorageNodeFabricNode found deleted =
     (case found of GetError e \<Rightarrow> False | GetNotFound \<Rightarrow> False | GetOk _ \<Rightarrow> deleted = None)"

text \<open>A watch event asks the loop for a reconcile; the channel holds one request.\<close>

definition requestReconcile :: "nat \<Rightarrow> nat" where
  "requestReconcile queued = (if queued < 1 then queued + 1 else queued)"

subsection \<open>Patterns\<close>

text \<open>The rule that the two special cases of \<open>matchMultiplePatterns\<close> are meant to follow.\<close>

lemma matchMultiplePatterns_rule:
  assumes "splitPatterns patternList = (inclusions, exclusions)"
  shows "matchMultiplePatterns MatchString s patternList \<longleftrightarrow>
     (inclusions \<noteq> [] \<or> exclusions \<noteq> [])
     \<and> \<not> (\<exists>p\<in>set exclusions. matchWildcardPattern MatchString s (TrimPrefix p ''!''))
     \<and> (inclusions = [] \<or> (\<exists>p\<in>set inclusions. matchWildcardPattern MatchString s p))"
proof -
  have "splitPatterns [] = ([], [])" by (simp add: splitPatterns_def TrimSpace_def)
  then have "patternList = [] \<Longrightarrow> inclusions = [] \<and> exclusions = []" using assms by simp
  then show ?thesis
    unfolding matchMultiplePatterns_def assms
    by (cases inclusions; cases exclusions) (auto simp: list_ex_iff)
qed

subsection \<open>Owners of a pod\<close>

text \<open>One step up the owners.\<close>

definition ownerOf :: "getOwner \<Rightarrow> metaObject \<Rightarrow> metaObject option" where
  "ownerOf get obj =
     (case Mo_OwnerReferences obj of
        [] \<Rightarrow> None
      | r # _ \<Rightarrow> get (Rf_APIVersion r) (Rf_Kind r) (Mo_Namespace obj) (Rf_Name r))"

fun ancestor :: "(nat \<Rightarrow> getOwner) \<Rightarrow> nat \<Rightarrow> nat \<Rightarrow> metaObject \<Rightarrow> metaObject option" where
  "ancestor gets i 0 obj = Some obj"
| "ancestor gets i (Suc n) obj = (case ownerOf (gets i) obj of None \<Rightarrow> None | Some owner \<Rightarrow> ancestor gets (Suc i) n owner)"

lemma podTopOwner_ancestor_None: "ancestor gets i n obj = None \<Longrightarrow> \<exists>result. podTopOwner gets i obj l = Some result"
proof (induction n arbitrary: i obj l)
  case (Suc n)
  then show ?case
    by (subst podTopOwner.simps) (auto simp: ownerOf_def split: list.splits option.splits)
qed simp

lemma podTopOwner_ancestor_Some:
  assumes "podTopOwner gets i obj l = Some result"
  shows "\<exists>n. ancestor gets i n obj = None"
proof (rule podTopOwner.raw_induct[of "\<lambda>gets i obj l result. \<exists>n. ancestor gets i n obj = None", OF _ assms])
  fix f and gets :: "nat \<Rightarrow> getOwner" and i and obj :: metaObject and l result
  assume ih: "\<And>gets i obj l result. f gets i obj l = Some result \<Longrightarrow> \<exists>n. ancestor gets i n obj = None"
    and eq: "(case Mo_OwnerReferences obj of [] \<Rightarrow> Some l
        | r # _ \<Rightarrow> (case gets i (Rf_APIVersion r) (Rf_Kind r) (Mo_Namespace obj) (Rf_Name r) of None \<Rightarrow> Some None
           | Some ownerObj \<Rightarrow> f gets (Suc i) ownerObj
               (Some \<lparr>Or_APIVersion = Rf_APIVersion r, Or_Kind = Rf_Kind r, Or_Namespace = Mo_Namespace obj, Or_Name = Rf_Name r\<rparr>))) = Some result"
  show "\<exists>n. ancestor gets i n obj = None"
  proof (cases "ownerOf (gets i) obj")
    case None
    then show ?thesis by (intro exI[of _ 1]) simp
  next
    case (Some owner)
    then have "\<exists>l'. f gets (Suc i) owner l' = Some result" using eq by (auto simp: ownerOf_def split: list.splits option.splits)
    then obtain n where "ancestor gets (Suc i) n owner = None" using ih by blast
    then show ?thesis using Some by (intro exI[of _ "Suc n"]) simp
  qed
qed

text \<open>C34. The loop that follows the first owner of each object up returns exactly when the chain of owners
  ends, as the loop reads it: after some number of steps there is an object without owner or an owner that cannot be read.
  On a cycle of owners the loop, and with it the reconcile, never returns; the loop for flow records
  in \<open>src/pkg/sflow/owner.go\<close> is bounded.\<close>

theorem podTopOwner_returns:
  "(\<exists>result. podTopOwner gets 0 obj None = Some result) \<longleftrightarrow> (\<exists>n. ancestor gets 0 n obj = None)"
  using podTopOwner_ancestor_None podTopOwner_ancestor_Some by metis

lemma podTopOwner_cycle:
  assumes "\<forall>i obj'. ownerOf (gets i) obj' \<noteq> None"
  shows "podTopOwner gets 0 obj None = None"
proof -
  have "ancestor gets i n obj' \<noteq> None" for i n obj' using assms by (induction n arbitrary: i obj') (auto split: option.splits)
  then show ?thesis using podTopOwner_ancestor_Some by (metis option.exhaust)
qed

subsection \<open>Readiness\<close>

definition others :: "NodeCondition list \<Rightarrow> ConditionStatus set" where
  "others cs = {Nc_Status c |c. c \<in> set cs \<and> Nc_Type c \<noteq> FabricNodeConditionReady}"

definition summary :: "ConditionStatus set \<Rightarrow> ConditionStatus" where
  "summary statuses = (if ConditionFalse \<in> statuses then ConditionFalse else if ConditionUnknown \<in> statuses then ConditionUnknown else ConditionTrue)"

lemma readyLoop_type: "Nc_Type ready = FabricNodeConditionReady \<Longrightarrow> Nc_Type (readyLoop cs ready) = FabricNodeConditionReady"
  by (induction cs arbitrary: ready) (simp_all add: readyCondition_def)

lemma readyLoop_summary:
  "Nc_Status ready \<noteq> ConditionFalse \<Longrightarrow> Nc_Status (readyLoop cs ready) =
     (if ConditionFalse \<in> others cs then ConditionFalse else if ConditionUnknown \<in> others cs then ConditionUnknown else Nc_Status ready)"
proof (induction cs arbitrary: ready)
  case (Cons c cs)
  have o: "others (c # cs) = (if Nc_Type c = FabricNodeConditionReady then others cs else insert (Nc_Status c) (others cs))"
    by (auto simp: others_def)
  show ?case using Cons by (cases "Nc_Status c") (auto simp: o readyCondition_def)
qed (simp add: others_def)

text \<open>What the condition helpers promise: the flag is not missed when the list changes, setting a condition
  leaves one with its type, status, reason and message, and conditions of other types are kept.\<close>

definition opsOk :: "conditionOps \<Rightarrow> bool" where
  "opsOk ops \<longleftrightarrow>
     (\<forall>c cs. \<not> snd (Co_SetStatusCondition ops c cs) \<longrightarrow> fst (Co_SetStatusCondition ops c cs) = cs)
   \<and> (\<forall>t cs. \<not> snd (Co_RemoveStatusCondition ops t cs) \<longrightarrow> fst (Co_RemoveStatusCondition ops t cs) = cs)
   \<and> (\<forall>c cs. \<exists>d\<in>set (fst (Co_SetStatusCondition ops c cs)). Nc_Type d = Nc_Type c \<and> Nc_Status d = Nc_Status c
        \<and> Nc_Reason d = Nc_Reason c \<and> Nc_Message d = Nc_Message c)
   \<and> (\<forall>c cs d. Nc_Type d \<noteq> Nc_Type c \<longrightarrow> d \<in> set (fst (Co_SetStatusCondition ops c cs)) \<longleftrightarrow> d \<in> set cs)"

text \<open>A flag that is not set means that the status is the same.\<close>

definition honest :: "FabricNodeStatus \<Rightarrow> FabricNodeStatus \<times> bool \<Rightarrow> bool" where
  "honest status result \<longleftrightarrow> (\<not> snd result \<longrightarrow> fst result = status)"

lemma setCondition_honest: "opsOk ops \<Longrightarrow> honest status (setCondition ops c status)"
  by (auto simp: opsOk_def honest_def setCondition_def case_prod_beta)

lemma setLLDP_honest:
  assumes "opsOk ops"
  shows "honest status (setLLDPNeighborsReadyCondition ops k nics optional err status)"
proof (cases "k = 0")
  case True
  then show ?thesis using assms by (auto simp: setLLDPNeighborsReadyCondition_def honest_def opsOk_def case_prod_beta)
next
  case False
  then show ?thesis using setCondition_honest[OF assms] by (simp add: setLLDPNeighborsReadyCondition_def Let_def split: option.splits)
qed

lemma updateTopologyStatus_honest:
  assumes "opsOk (Nr_ops r)"
  shows "honest status (updateTopologyStatus r lldp linkList status)"
proof (cases linkList)
  case (Inl e)
  then show ?thesis using setCondition_honest[OF assms] by (simp add: updateTopologyStatus_def)
next
  case (Inr links)
  then show ?thesis using setLLDP_honest[OF assms]
    by (auto simp: updateTopologyStatus_def Let_def honest_def case_prod_beta)
qed

lemma updateRdmaPodsStatus_honest: "updateRdmaPodsStatus v status = Some result \<Longrightarrow> honest status result"
  by (auto simp: updateRdmaPodsStatus_def honest_def split: sum.splits option.splits if_splits)

lemma updateNodeRole_honest: "honest status (updateNodeRole r status)"
  by (simp add: updateNodeRole_def honest_def Let_def)

lemma updateNodeIP_honest: "honest status (updateNodeIP r dial status)"
  by (simp add: updateNodeIP_def honest_def Let_def split: option.splits)

lemma honest_trans: "honest s0 (s1, f) \<Longrightarrow> honest s1 (s2, g) \<Longrightarrow> honest s0 (s2, f \<or> g)"
  by (simp add: honest_def)

text \<open>The steps of \<open>computeStatus\<close>, as one chain.\<close>

lemma computeStatus_steps:
  assumes "computeStatus r v s0 = Some (s5, changed)"
  obtains s1 f1 s2 f2 s3 f3 s4 f4 f5 where "topologyStep r v s0 = Some (s1, f1)" "podsStep r v s1 = Some (s2, f2)"
    "updateNodeRole r s2 = (s3, f3)" "updateNodeIP r (Nv_dial v) s3 = (s4, f4)" "updateReadyCondition (Nr_ops r) s4 = (s5, f5)"
    "changed \<longleftrightarrow> f2 \<or> f1 \<or> f3 \<or> f4 \<or> f5"
proof -
  obtain s1 f1 where 1: "topologyStep r v s0 = Some (s1, f1)" using assms by (auto simp: computeStatus_def split: option.splits)
  obtain s2 f2 where 2: "podsStep r v s1 = Some (s2, f2)" using assms 1 by (auto simp: computeStatus_def split: option.splits)
  obtain s3 f3 where 3: "updateNodeRole r s2 = (s3, f3)" by fastforce
  obtain s4 f4 where 4: "updateNodeIP r (Nv_dial v) s3 = (s4, f4)" by fastforce
  obtain s5' f5 where 5: "updateReadyCondition (Nr_ops r) s4 = (s5', f5)" by fastforce
  show thesis using that[OF 1 2 3 4] assms by (simp add: computeStatus_def 1 2 3 4 5)
qed

lemma topologyStep_honest: "opsOk (Nr_ops r) \<Longrightarrow> topologyStep r v s = Some result \<Longrightarrow> honest s result"
  using updateTopologyStatus_honest by (auto simp: topologyStep_def honest_def split: if_splits option.splits)

lemma podsStep_honest: "podsStep r v s = Some result \<Longrightarrow> honest s result"
  using updateRdmaPodsStatus_honest by (auto simp: podsStep_def honest_def split: if_splits)

lemma updateReadyCondition_honest: "opsOk ops \<Longrightarrow> honest s (updateReadyCondition ops s)"
  by (simp add: updateReadyCondition_def setCondition_honest)

lemma computeStatus_honest:
  assumes "opsOk (Nr_ops r)" "computeStatus r v s0 = Some (s5, changed)"
  shows "\<not> changed \<longrightarrow> s5 = s0"
  using assms(2)
proof (rule computeStatus_steps)
  fix s1 f1 s2 f2 s3 f3 s4 f4 f5
  assume c: "topologyStep r v s0 = Some (s1, f1)" "podsStep r v s1 = Some (s2, f2)" "updateNodeRole r s2 = (s3, f3)"
    "updateNodeIP r (Nv_dial v) s3 = (s4, f4)" "updateReadyCondition (Nr_ops r) s4 = (s5, f5)" "changed \<longleftrightarrow> f2 \<or> f1 \<or> f3 \<or> f4 \<or> f5"
  show ?thesis
    using topologyStep_honest[OF assms(1) c(1)] podsStep_honest[OF c(2)] updateNodeRole_honest[of s2 r] updateNodeIP_honest[of s3 r "Nv_dial v"]
      updateReadyCondition_honest[OF assms(1), of s4] c(6) unfolding c(3,4,5) by (simp add: honest_def)
qed

subsection \<open>What is published\<close>

definition nicsOf :: "nodeReconciler \<Rightarrow> (string, LLDPNeighbor) gomap \<Rightarrow> topologyNICClass \<Rightarrow> link list \<Rightarrow> NodeNic list" where
  "nicsOf r neighborsMap class links =
     map fst (filter (\<lambda>(nic, addrs). classifyTopologyNIC r nic addrs = class) (List.map_filter (nicOf neighborsMap) links))"

lemma nicsOf_Cons:
  "nicsOf r nb class (l # ls) = (case nicOf nb l of None \<Rightarrow> [] | Some (nic, addrs) \<Rightarrow> if classifyTopologyNIC r nic addrs = class then [nic] else []) @ nicsOf r nb class ls"
  by (simp add: nicsOf_def List.map_filter_simps split: option.splits)

lemma addLinks: "fold (addLink r nb) links (so, st) = (so @ nicsOf r nb ClassScaleOut links, st @ nicsOf r nb ClassStorage links)"
proof (induction links arbitrary: so st)
  case Nil
  then show ?case by (simp add: nicsOf_def List.map_filter_simps)
next
  case (Cons l links)
  then show ?case by (auto simp: nicsOf_Cons addLink_def split: option.splits topologyNICClass.splits)
qed

text \<open>The fields that a step of the reconcile does not touch.\<close>

definition sameNics :: "FabricNodeStatus \<Rightarrow> FabricNodeStatus \<Rightarrow> bool" where
  "sameNics s s' \<longleftrightarrow> Ns_TotalNics s' = Ns_TotalNics s \<and> Ns_ScaleOutNics s' = Ns_ScaleOutNics s \<and> Ns_StorageNics s' = Ns_StorageNics s"

lemma sameNics_steps:
  "podsStep r v s = Some (s', f) \<Longrightarrow> sameNics s s'"
  "updateNodeRole r s = (s', f) \<Longrightarrow> sameNics s s'"
  "updateNodeIP r dial s = (s', f) \<Longrightarrow> sameNics s s'"
  "updateReadyCondition ops s = (s', f) \<Longrightarrow> sameNics s s' \<and> Ns_NodeRole s' = Ns_NodeRole s"
  by (auto simp: sameNics_def podsStep_def updateRdmaPodsStatus_def updateNodeRole_def updateNodeIP_def updateReadyCondition_def setCondition_def Let_def
      split: if_splits sum.splits option.splits prod.splits)

lemma updateNodeRole_role: "updateNodeRole r s = (s', f) \<Longrightarrow> Ns_NodeRole s' = (if Nr_storageNode r then NodeRoleStorage else NodeRoleGPU)"
  by (auto simp: updateNodeRole_def Let_def split: if_splits)

lemma updateNodeIP_role: "updateNodeIP r dial s = (s', f) \<Longrightarrow> Ns_NodeRole s' = Ns_NodeRole s"
  by (auto simp: updateNodeIP_def Let_def split: if_splits option.splits)

lemma updateReadyCondition_ready:
  assumes "opsOk ops" "updateReadyCondition ops s = (s', f)"
  shows "\<exists>d\<in>set (Ns_Conditions s'). Nc_Type d = FabricNodeConditionReady \<and> Nc_Status d = summary (others (Ns_Conditions s'))"
proof -
  let ?c = "readyLoop (Ns_Conditions s) (readyCondition ConditionTrue FabricNodeReasonReady ''All FabricNode conditions are ready'')"
  have type: "Nc_Type ?c = FabricNodeConditionReady" by (rule readyLoop_type) (simp add: readyCondition_def)
  have cs: "Ns_Conditions s' = fst (Co_SetStatusCondition ops ?c (Ns_Conditions s))"
    using assms(2) by (auto simp: updateReadyCondition_def setCondition_def split: prod.splits)
  have "d \<in> set (Ns_Conditions s') \<longleftrightarrow> d \<in> set (Ns_Conditions s)" if "Nc_Type d \<noteq> FabricNodeConditionReady" for d
    using assms(1) that type unfolding opsOk_def cs by simp
  then have "others (Ns_Conditions s') = others (Ns_Conditions s)" by (auto simp: others_def)
  moreover obtain d where "d \<in> set (Ns_Conditions s')" "Nc_Type d = Nc_Type ?c" "Nc_Status d = Nc_Status ?c"
    using assms(1) unfolding opsOk_def cs by blast
  ultimately show ?thesis using type readyLoop_summary[of _ "Ns_Conditions s"] by (auto simp: readyCondition_def summary_def intro!: bexI[of _ d])
qed

lemma computeStatus_result:
  assumes "opsOk (Nr_ops r)" "computeStatus r v s0 = Some (s, changed)"
  shows "Ns_NodeRole s = (if Nr_storageNode r then NodeRoleStorage else NodeRoleGPU)"
    "\<exists>d\<in>set (Ns_Conditions s). Nc_Type d = FabricNodeConditionReady \<and> Nc_Status d = summary (others (Ns_Conditions s))"
    "Nv_started v \<Longrightarrow> getLLDPInfo v = Some (Inr neighbors) \<Longrightarrow> Nv_links v = Inr links \<Longrightarrow>
       Ns_ScaleOutNics s = nicsOf r neighbors ClassScaleOut links \<and> Ns_StorageNics s = nicsOf r neighbors ClassStorage links
       \<and> Ns_TotalNics s = length (Ns_ScaleOutNics s) + length (Ns_StorageNics s)"
proof -
  from assms(2) obtain s1 f1 s2 f2 s3 f3 s4 f4 f5 where c: "topologyStep r v s0 = Some (s1, f1)" "podsStep r v s1 = Some (s2, f2)"
    "updateNodeRole r s2 = (s3, f3)" "updateNodeIP r (Nv_dial v) s3 = (s4, f4)" "updateReadyCondition (Nr_ops r) s4 = (s, f5)"
    by (rule computeStatus_steps)
  show "Ns_NodeRole s = (if Nr_storageNode r then NodeRoleStorage else NodeRoleGPU)"
    using updateNodeRole_role[OF c(3)] updateNodeIP_role[OF c(4)] sameNics_steps(4)[OF c(5)] by simp
  show "\<exists>d\<in>set (Ns_Conditions s). Nc_Type d = FabricNodeConditionReady \<and> Nc_Status d = summary (others (Ns_Conditions s))"
    by (rule updateReadyCondition_ready[OF assms(1) c(5)])
  assume e: "Nv_started v" "getLLDPInfo v = Some (Inr neighbors)" "Nv_links v = Inr links"
  have "Ns_ScaleOutNics s1 = nicsOf r neighbors ClassScaleOut links \<and> Ns_StorageNics s1 = nicsOf r neighbors ClassStorage links
      \<and> Ns_TotalNics s1 = length (Ns_ScaleOutNics s1) + length (Ns_StorageNics s1)"
    using c(1) by (auto simp: topologyStep_def e updateTopologyStatus_def addLinks Let_def split: prod.splits)
  moreover have "sameNics s1 s" using sameNics_steps(1)[OF c(2)] sameNics_steps(2)[OF c(3)] sameNics_steps(3)[OF c(4)] sameNics_steps(4)[OF c(5)]
    by (simp add: sameNics_def)
  ultimately show "Ns_ScaleOutNics s = nicsOf r neighbors ClassScaleOut links \<and> Ns_StorageNics s = nicsOf r neighbors ClassStorage links
       \<and> Ns_TotalNics s = length (Ns_ScaleOutNics s) + length (Ns_StorageNics s)" by (simp add: sameNics_def)
qed

text \<open>The status the reconcile starts from: that of the object as the API server gave it last.\<close>

definition statusRead :: "nodeReconciler \<Rightarrow> nodeView \<Rightarrow> FabricNodeStatus" where
  "statusRead r v =
     (case Nv_fabricNode v of
        GetOk found \<Rightarrow>
          (case ensureNodeOwnerReference r (Nv_node v) found of (fabricNode, ownerRefAdded) \<Rightarrow>
             if ownerRefAdded then (case Nv_update v fabricNode of Inr updated \<Rightarrow> Fo_Status updated | Inl e \<Rightarrow> Fo_Status found) else Fo_Status found)
      | _ \<Rightarrow> (case Nv_create v (fst (ensureNodeOwnerReference r (Nv_node v) (newFabricNode r))) of
                Inr created \<Rightarrow> Fo_Status created | Inl e \<Rightarrow> emptyNodeStatus))"

lemma ensureNodeOwnerReference_status: "Fo_Status (fst (ensureNodeOwnerReference r node f)) = Fo_Status f"
  by (simp add: ensureNodeOwnerReference_def split: getResult.splits)

lemma publishNode_result:
  assumes "publishNode r v cached f = Some (None, Some new, effects)"
  shows "\<exists>changed. computeStatus r v (Fo_Status f) = Some (Fo_Status new, changed) \<and> (changed \<longrightarrow> UpdateFabricNodeStatus new \<in> set effects)"
  using assms by (auto simp: publishNode_def Let_def split: option.splits if_splits)

lemma doReconcile_result:
  assumes "doReconcile r v cached = Some (None, Some new, effects)"
  shows "\<exists>changed. computeStatus r v (statusRead r v) = Some (Fo_Status new, changed) \<and> (changed \<longrightarrow> UpdateFabricNodeStatus new \<in> set effects)"
proof -
  have "\<exists>f effects'. Fo_Status f = statusRead r v \<and> publishNode r v cached f = Some (None, Some new, effects') \<and> set effects' \<subseteq> set effects"
  proof (cases "Nv_fabricNode v")
    case (GetOk found)
    obtain f added where f: "ensureNodeOwnerReference r (Nv_node v) found = (f, added)" by fastforce
    have "Fo_Status f = Fo_Status found" using ensureNodeOwnerReference_status[of r "Nv_node v" found] f by simp
    then show ?thesis using assms GetOk f by (auto simp: doReconcile_def statusRead_def split: if_splits sum.splits)
  next
    case GetNotFound
    then show ?thesis using assms by (auto simp: doReconcile_def statusRead_def Let_def split: sum.splits)
  next
    case (GetError e)
    then show ?thesis using assms by (simp add: doReconcile_def)
  qed
  then show ?thesis using publishNode_result by fastforce
qed

text \<open>C33. What a successful reconcile of the node agent publishes and caches. A status that differs from the one
  the API server gave last (when the object was read, created or updated) is written: no change is lost. The role is that of the node; the condition \<open>Ready\<close> is false if
  another condition is false, unknown if none is false and one is unknown, and true otherwise; and once
  discovery has started, with the neighbors and links known, the two lists hold exactly the usable
  interfaces of their class, in the order of the links, and the total counts them.\<close>

theorem doReconcile_publishes:
  assumes "opsOk (Nr_ops r)" "doReconcile r v cached = Some (None, Some new, effects)"
  shows "(Fo_Status new \<noteq> statusRead r v \<longrightarrow> UpdateFabricNodeStatus new \<in> set effects)
     \<and> Ns_NodeRole (Fo_Status new) = (if Nr_storageNode r then NodeRoleStorage else NodeRoleGPU)
     \<and> (\<exists>d\<in>set (Ns_Conditions (Fo_Status new)). Nc_Type d = FabricNodeConditionReady \<and> Nc_Status d = summary (others (Ns_Conditions (Fo_Status new))))
     \<and> (\<forall>neighbors links. Nv_started v \<and> getLLDPInfo v = Some (Inr neighbors) \<and> Nv_links v = Inr links \<longrightarrow>
          Ns_ScaleOutNics (Fo_Status new) = nicsOf r neighbors ClassScaleOut links
          \<and> Ns_StorageNics (Fo_Status new) = nicsOf r neighbors ClassStorage links
          \<and> Ns_TotalNics (Fo_Status new) = length (Ns_ScaleOutNics (Fo_Status new)) + length (Ns_StorageNics (Fo_Status new)))"
proof -
  obtain changed where c: "computeStatus r v (statusRead r v) = Some (Fo_Status new, changed)" "changed \<longrightarrow> UpdateFabricNodeStatus new \<in> set effects"
    using doReconcile_result[OF assms(2)] by blast
  show ?thesis
    using c(2) computeStatus_honest[OF assms(1) c(1)] computeStatus_result[OF assms(1) c(1)] by blast
qed

definition exOps :: conditionOps where
  "exOps = \<lparr>Co_SetStatusCondition = (\<lambda>c cs. (c # filter (\<lambda>d. Nc_Type d \<noteq> Nc_Type c) cs, True)),
     Co_RemoveStatusCondition = (\<lambda>t cs. (filter (\<lambda>d. Nc_Type d \<noteq> t) cs, True)), Co_FindStatusCondition = (\<lambda>cs t. List.find (\<lambda>c. Nc_Type c = t) cs)\<rparr>"

lemma exOps_ok: "opsOk exOps"
  by (auto simp: opsOk_def exOps_def)

definition exReconciler :: nodeReconciler where
  "exReconciler = \<lparr>Nr_nodeName = ''n1'', Nr_scaleOutRdmaPattern = noMethod, Nr_storageRdmaPattern = noMethod, Nr_scaleUpRdmaPattern = noMethod,
     Nr_storageNode = True, Nr_nodeIPProbeAddress = [], Nr_MatchString = (\<lambda>_ _. None), Nr_ops = exOps\<rparr>"

definition exView :: nodeView where
  "exView = \<lparr>Nv_fabricNode = GetNotFound, Nv_node = GetNotFound, Nv_create = Inr, Nv_update = Inr, Nv_started = False, Nv_pathCheck = (\<lambda>_. None),
     Nv_commandLookup = (\<lambda>_. None), Nv_execCommand = (\<lambda>_ _. ([], None)), Nv_unmarshal = (\<lambda>_. Inl []), Nv_links = Inr [], Nv_pods = Inr [],
     Nv_getOwner = (\<lambda>_ _ _ _ _ _. None), Nv_dial = None, Nv_updateStatus = None\<rparr>"

lemma exReconcile: "\<exists>new effects. doReconcile exReconciler exView None = Some (None, Some new, effects)"
  by (simp add: doReconcile_def exView_def exReconciler_def Let_def publishNode_def computeStatus_def topologyStep_def podsStep_def
      updateNodeRole_def updateNodeIP_def updateReadyCondition_def setCondition_def exOps_def newFabricNode_def emptyNodeStatus_def
      ensureNodeOwnerReference_def NodeRoleStorage_def)

theorem doReconcile_publishes_witness:
  "\<exists>new effects. doReconcile exReconciler exView None = Some (None, Some new, effects) \<and> Ns_NodeRole (Fo_Status new) = NodeRoleStorage
     \<and> UpdateFabricNodeStatus new \<in> set effects"
proof -
  obtain new effects where d: "doReconcile exReconciler exView None = Some (None, Some new, effects)" using exReconcile by blast
  have ok: "opsOk (Nr_ops exReconciler)" by (simp add: exReconciler_def exOps_ok)
  have "Ns_NodeRole (Fo_Status new) = NodeRoleStorage" using doReconcile_publishes[OF ok d] by (simp add: exReconciler_def)
  moreover have "Fo_Status new \<noteq> statusRead exReconciler exView"
    using calculation by (auto simp: statusRead_def exView_def emptyNodeStatus_def NodeRoleStorage_def ensureNodeOwnerReference_status newFabricNode_def)
  ultimately show ?thesis using doReconcile_publishes[OF ok d] d by blast
qed

end
