(* ===== verification/Spec2Isabelle.thy ===== *)
theory Spec2Isabelle
  imports Rdma_Attribution Flow_Accounting Auto_Label Subscription_Manager Node_Agent
begin

text \<open>
  Verification of \<open>unifabric\<close>: the discovery of the topology of an AI cluster from LLDP data, the labels and the
  status that describe it, and the attribution of network traffic to pods.

  \<^bold>\<open>The program.\<close> Four processes work together. The \<^emph>\<open>switch agent\<close> (\<open>src/pkg/switchagent\<close>) runs on a switch, collects
  its LLDP neighbors and streams snapshots to the controller. The \<^emph>\<open>node agent\<close> (\<open>src/pkg/agent\<close>) publishes the RDMA
  interfaces of its node with their LLDP neighbors in a \<open>FabricNode\<close> object; it also counts RDMA traffic per pair of pods,
  from totals that a kernel program keeps per queue pair, and publishes \<open>RDMAEndpoint\<close> objects by which the agents of
  other nodes recognise its pods. The \<^emph>\<open>controller\<close> (\<open>src/pkg/controller\<close>) subscribes to the switches and keeps the
  status of \<open>Switch\<close> objects, builds a graph from \<open>FabricNode\<close> and \<open>Switch\<close> objects, discovers tiers and
  groups in it (\<open>src/pkg/topology\<close>), writes them as labels, and turns labels into the status of \<open>Topology\<close>
  objects. The \<^emph>\<open>sFlow collector\<close> (\<open>src/pkg/sflow\<close>) decodes sampled packets and attributes their addresses to pods.

  \<^bold>\<open>Conventions.\<close> A struct is a record whose field names carry a prefix for their type, an enumeration or a set of errors
  a datatype, a loop a fold or a recursive function, named after the source. A definition with a name the source does not
  have is the body of a loop or the state of a function. Integers whose width matters are words. A value of type \<open>e + a\<close> is a Go
  result with an error (\<open>Inl\<close>). Where the source can panic or need not return, \<open>None\<close> stands for that. Calls that change the
  world outside (writes to the API server, metrics, events) are values in a list of effects, in order. What comes from outside is an
  argument or a field of a record named view: answers of the API server, files, netlink, the clock, the context, and
  libraries outside the repository (goflow2, gRPC, X.509, the condition helpers of apimachinery; of the Go library also the parser of
  \<open>text/template\<close> and \<open>regexp.MatchString\<close>). The parts of the Go library that matter for results are defined: \<open>net\<close>, \<open>strings\<close>, \<open>strconv\<close>, \<open>sort\<close>,
  \<open>crypto/sha1\<close>, \<open>encoding/hex\<close>, \<open>path/filepath\<close> and the decoding of \<open>encoding/json\<close>. Text is ASCII where a
  function of the source works on runes. \<open>sort.Slice\<close> is a stable sort. A nil slice or map is the empty one. The order in which a map is
  traversed is that of its association list; no theorem depends on it. Log messages are left out everywhere.

  \<^bold>\<open>Shared theories.\<close>
  \<^item> \<open>Go_Prelude\<close>, \<open>Go_Strings\<close>, \<open>Go_Net\<close>, \<open>Go_Cidr\<close>, \<open>Go_Glob\<close>, \<open>Go_Json\<close>, \<open>Go_Json_Value\<close>, \<open>Sha1\<close>: maps, strings,
    addresses, networks, file patterns, JSON and SHA-1 of Go, with the lemmas that the components share.
  \<^item> \<open>Event_System\<close>: runs of a step relation, invariants of runs, and the locale \<open>simulation\<close> (a component and its
    abstract specification), which \<open>Sflow_Collector\<close> interprets.
  \<^item> \<open>Worklist\<close>: the locale \<open>worklist\<close> of a queue search, interpreted by both searches of the discovery.

  \<^bold>\<open>Topology discovery\<close>, \<open>src/pkg/topology/topology.go\<close>.
  \<^item> \<open>Fabric_Graph\<close> (\<open>BuildTopologyGraph\<close>): the graph has exactly the links that a switch reports between devices that exist.
  \<^item> \<open>Fabric_Tiers\<close> (\<open>InferTiers\<close>, \<open>NormalizeTierEdges\<close>): the tier of a switch is one more than its distance from the nearest switch with a
    host, and normalization keeps exactly the edges between adjacent tiers.
  \<^item> \<open>Fabric_Zones\<close> (\<open>CollectConnectedZones\<close>): the zones are the connected components with a host.
  \<^item> \<open>Fabric_Groups\<close> (\<open>BuildTierGroups\<close>): the groups of a tier are the classes of switches that share lower groups.
  \<^item> \<open>Fabric_Topology\<close> (\<open>BuildTopology\<close>, \<open>DiscoverTopology\<close>, \<open>QueryParentChain\<close>): discovery never panics, every switch with a
    tier is in exactly one group, the parents form a forest, and the parent chain is the path to its root.

  \<^bold>\<open>Labels and status.\<close>
  \<^item> \<open>Topology_Label\<close> (\<open>src/pkg/topologylabel/template.go\<close>): rendering and matching of label keys are inverse (locale
    \<open>label_codec\<close>), and the check of a set of templates accepts it exactly when no key matches two of them.
  \<^item> \<open>Topology_Status\<close> (\<open>src/pkg/controller/topologystatus/build.go\<close>): when the status is built and when which error is
    reported, that domains form a forest, that node groups are the classes of nodes with equal paths, and that names are kept.
  \<^item> \<open>Topology_Controller\<close> (\<open>controller.go\<close>, \<open>fabricnode_controller.go\<close>): the stored status keeps distinct names in every
    sequence of reconciles, a reconcile publishes the built status and the next one writes nothing, and the watch filter loses no change.
  \<^item> \<open>Topology_Inputs\<close> (\<open>src/pkg/controller/switchtopology/topology_inputs.go\<close>): the hosts, switches and neighbors given to
    discovery are exactly those the objects describe.
  \<^item> \<open>Auto_Label\<close> (\<open>autolabel_controller.go\<close>): names of groups, the plan of labels, its application and the clean-up. A plan
    keeps existing names, gives groups with different internal names different names and sets exactly the missing labels.

  \<^bold>\<open>LLDP.\<close>
  \<^item> \<open>Lldp\<close> (\<open>src/pkg/agent/fabricnode/lldp.go\<close>): the call of \<open>lldpcli\<close> and its output, and exactly when reading it panics.
  \<^item> \<open>Switch_Agent\<close> (\<open>src/pkg/switchagent\<close>): the refresh loop and the watchers as the step relation \<open>agentStep\<close>. No watcher is left
    with an old snapshot, and generations increase on each stream.
  \<^item> \<open>Subscription_Manager\<close> (\<open>src/pkg/controller/switchtopology/subscription_manager.go\<close>): the set of subscriptions follows the objects.
  \<^item> This theory composes the two: what the agent collects arrives in the status of the \<open>Switch\<close> object, and after a
    disconnect a stream whose generation is not above the last accepted one leaves the status not healthy.
  \<^item> \<open>Node_Agent\<close> (\<open>src/pkg/agent/fabricnode\<close>): a reconcile publishes the interfaces of each class, the role and the summary of the
    conditions and loses no change; the search for the top owner of a pod returns exactly when the chain of owners ends.

  \<^bold>\<open>Traffic.\<close>
  \<^item> \<open>Sflow_Decoder\<close> (\<open>src/pkg/sflow/decoder.go\<close>): decoding never panics and inverts the encoding of well-formed frames; the
    length of an extension header wraps in a byte.
  \<^item> \<open>Sflow_Collector\<close> (\<open>collector.go\<close>, \<open>metrics.go\<close>): the receive and write loops as the step relation \<open>collectorStep\<close> implement a
    bounded buffer, and the counters account for every record.
  \<^item> \<open>Sflow_Attribution\<close> (\<open>attribution.go\<close>, \<open>owner.go\<close>): an address is attributed to the last running pod that has it.
  \<^item> \<open>Flow_Resolve\<close>, \<open>Rdma_Endpoint\<close>, \<open>Flow_Report\<close> (\<open>resolve.go\<close>, \<open>owners.go\<close>, \<open>endpoint.go\<close>, \<open>component.go\<close> and \<open>metrics.go\<close> of
    \<open>src/pkg/agent/ebpfflow\<close>): pods of processes and addresses, the published objects, and the report rounds.
  \<^item> \<open>Rdma_Attribution\<close>: what one agent publishes makes the others attribute traffic to the pod of the process that created the queue
    pair, and which calls a run of the publisher makes.
  \<^item> \<open>Flow_Accounting\<close>: which pods a round attributes traffic to, what the counters hold after any sequence of rounds, and two cases
    in which they go wrong.

  \<^bold>\<open>Bounds and fuel.\<close> \<open>InferTiers\<close> runs its queue loop with fuel for every device, and \<open>InferTiers_distance\<close> includes that this
  suffices; a JSON text of length \<open>n\<close> is read with fuel \<open>2 * n + 2\<close>, and \<open>parseValue_enough\<close> shows that more changes nothing. The other fuels are
  limits of the source: 8 IPv6 extension headers, 2 VLAN tags, and the depths of the two bounded searches for owners. The
  unbounded search of the node agent is a partial function. Generations of snapshots are 64-bit words that the source
  lets wrap; the theorems on runs of the agent assume fewer than \<open>2 ^ 64\<close> collections. Flow counters are exact numbers,
  where Prometheus keeps floating-point numbers.

  \<^bold>\<open>Not modelled.\<close> The kernel program and the attaching of probes, the scraper of RDMA counters, the HTTP API over the topology, the
  export to OpenTelemetry, metrics of the controllers, the reading of configuration, command lines, the registration with the manager and
  generated code: input and output, or calls of libraries, without state the theorems could speak about. Timers are not
  modelled; when a loop runs is left open instead.
\<close>

subsection \<open>From the switch to the controller\<close>


definition exMessage :: "LLDPNeighborSnapshot \<Rightarrow> message" where
  "exMessage snapshot = \<lparr>Ms_snapshot = snapshot, Ms_nodes = Inr [], Ms_attempts = (Works, []), Ms_now = 0\<rparr>"

definition exSubscription :: "64 word \<Rightarrow> subState" where
  "exSubscription g = \<lparr>Sub_lastGeneration = g, Sub_store = Some exSwitch, Sub_effects = []\<rparr>"


lemma exServed_stream: "streamOf 0 [AgentQuiet, Collected exSnapshot1, AgentQuiet, Subscribed 0, StreamSent 0 exSnapshot1, AgentQuiet, Collected exSnapshot2,
     AgentQuiet, AgentQuiet, AgentQuiet, StreamSent 0 exSnapshot2] = [exSnapshot1, exSnapshot2]"
  by (simp add: streamOf_def sentTo_def)


text \<open>C32. A reconnect does not repair the status. Let a subscription have marked its switch as not healthy
  after a disconnect, and let it then make any number of sessions. Let each session receive messages from
  a stream of an agent, the same as before or one that was started again, whose current generation is
  not above the generation that the subscription accepted last: the neighbors have not changed, or the
  new agent has not seen as many changes yet. Then every message is ignored and the status stays not
  healthy, although the streams work and carry the current snapshot. (Nothing else writes a healthy
  status meanwhile.)\<close>

theorem reconnect_stays_unhealthy:
  assumes "unhealthy (Sub_store s)"
    and "\<forall>se\<in>set ses. undisturbed (Se_attempts se) \<and> (\<exists>ls a i. run (agentStep name cfg) newAgent ls a \<and> collections ls < 2 ^ 64
       \<and> curGen a \<le> unat (Sub_lastGeneration s) \<and> set (map Ms_snapshot (Se_messages se)) \<subseteq> set (streamOf i ls))"
  shows "unhealthy (Sub_store (fold (runSession m switchName) ses s))
     \<and> Sub_lastGeneration (fold (runSession m switchName) ses s) = Sub_lastGeneration s"
proof (rule runSessions_stale[OF _ assms(1)])
  have "staleSession (Sub_lastGeneration s) se" if se: "se \<in> set ses" for se
  proof -
    obtain ls a i where r: "run (agentStep name cfg) newAgent ls a" "collections ls < 2 ^ 64" "curGen a \<le> unat (Sub_lastGeneration s)"
      "set (map Ms_snapshot (Se_messages se)) \<subseteq> set (streamOf i ls)" "undisturbed (Se_attempts se)" using assms(2) se by blast
    have "\<forall>x\<in>set (streamOf i ls). gen x \<le> curGen a" using streamInv_run[OF r(1,2)] by (simp add: streamInv_def)
    then show ?thesis using r(3,4,5) unfolding staleSession_def by (fastforce simp: word_le_nat_alt)
  qed
  then show "\<forall>se\<in>set ses. staleSession (Sub_lastGeneration s) se" by blast
qed

definition exSession :: session where
  "exSession = \<lparr>Se_credentials = None, Se_dial = None, Se_watch = None, Se_messages = [exMessage exSnapshot1, exMessage exSnapshot2],
     Se_recvError = otherError ''EOF'', Se_attempts = (Works, []), Se_now = 0\<rparr>"

theorem reconnect_stays_unhealthy_witness:
  "unhealthy (Sub_store (fold (runSession exManager ''sw'') [exSession] (exSubscription 2)))"
proof -
  let ?ls = "[AgentQuiet, Collected exSnapshot1, AgentQuiet, Subscribed 0, StreamSent 0 exSnapshot1, AgentQuiet, Collected exSnapshot2,
     AgentQuiet, AgentQuiet, AgentQuiet, StreamSent 0 exSnapshot2]"
  have "collections ?ls < 2 ^ 64" "curGen exServed \<le> unat (Sub_lastGeneration (exSubscription 2))"
    by (simp_all add: collections_def collection_def exSubscription_def curGen_def exServed_def exSnapshot2_def)
  moreover have "set (map Ms_snapshot (Se_messages exSession)) \<subseteq> set (streamOf 0 ?ls)"
    unfolding exServed_stream by (simp add: exSession_def exMessage_def)
  moreover have "undisturbed (Se_attempts exSession)" by (simp add: undisturbed_def exSession_def)
  moreover have "unhealthy (Sub_store (exSubscription 2))" by (simp add: unhealthy_def exSubscription_def exSwitch_def emptyStatus_def)
  ultimately show ?thesis
    using reconnect_stays_unhealthy[of "exSubscription 2" "[exSession]" "''SW''" exConfig exManager "''sw''"] exRun_served by fastforce
qed

end
